(* ===== verification/Prelude.thy ===== *)
theory Prelude
  imports Complex_Main "HOL-Library.Word" "HOL-Library.Signed_Division"
begin

unbundle bit_operations_syntax

text \<open>
  Shared vocabulary of the development: the machine integer types of the C code, the faults
  that stand for undefined behaviour, the error monad (\<open>bindE\<close>) every stateful operation is
  written in, big-endian reads and writes of byte buffers, and the generic list and word
  lemmas that several components use.
\<close>

section \<open>Machine integers\<close>

type_synonym u8 = "8 word"
type_synonym u16 = "16 word"
type_synonym u32 = "32 word"

section \<open>Faults and the error monad\<close>

text \<open>
  A fault is a point of the execution where C gives the program no meaning (or, for
  \<open>NoReturn\<close>, where it does not come back): a read or a write outside of a buffer, the use of
  a null pointer, the deliberate crash of \<open>RTPCRASH\<close>, a conversion of a floating point value
  that does not fit its target, a signed overflow, a division by zero, the reinitialisation
  of a list node that is still linked, a use of memory that was freed.
  Ordinary error returns of the code are not faults: they are values.
\<close>

datatype fault =
    OobRead
  | OobWrite
  | NullDeref
  | Crash
  | FpRange
  | IntOverflow
  | DivByZero
  | ListCorrupt
  | UseAfterFree
  | NoReturn

type_synonym 'a res = "fault + 'a"

fun bindE :: "'a res \<Rightarrow> ('a \<Rightarrow> 'b res) \<Rightarrow> 'b res" where
  "bindE (Inl e) f = Inl e"
| "bindE (Inr x) f = f x"

named_theorems res_iff \<open>when a computation of the error monad returns a value\<close>

lemma bindE_Inr_iff [res_iff]: "bindE m f = Inr y \<longleftrightarrow> (\<exists>x. m = Inr x \<and> f x = Inr y)"
  by (cases m) auto

lemma bindE_Inl_iff: "bindE m f = Inl e \<longleftrightarrow> m = Inl e \<or> (\<exists>x. m = Inr x \<and> f x = Inl e)"
  by (cases m) auto

lemma bindE_split: "P (bindE m f) \<longleftrightarrow> (\<forall>e. m = Inl e \<longrightarrow> P (Inl e)) \<and> (\<forall>x. m = Inr x \<longrightarrow> P (f x))"
  by (cases m) auto

lemma bindE_assoc: "bindE (bindE m f) g = bindE m (\<lambda>x. bindE (f x) g)"
  by (cases m) auto

lemma bindE_cong [fundef_cong]:
  "m = m' \<Longrightarrow> (\<And>x. m' = Inr x \<Longrightarrow> f x = f' x) \<Longrightarrow> bindE m f = bindE m' f'"
  by (cases m') auto

text \<open>What is known of a computation: its faults are in \<open>F\<close>, its value satisfies \<open>P\<close>.\<close>

definition outcome :: "fault set \<Rightarrow> ('a \<Rightarrow> bool) \<Rightarrow> 'a res \<Rightarrow> bool" where
  "outcome F P r = (case r of Inl f \<Rightarrow> f \<in> F | Inr x \<Rightarrow> P x)"

lemma outcome_simps [simp]: "outcome F P (Inl f) \<longleftrightarrow> f \<in> F" "outcome F P (Inr x) \<longleftrightarrow> P x"
  by (simp_all add: outcome_def)

lemma outcomeI: "(\<And>f. r = Inl f \<Longrightarrow> f \<in> F) \<Longrightarrow> (\<And>x. r = Inr x \<Longrightarrow> P x) \<Longrightarrow> outcome F P r"
  by (cases r) auto

lemma outcome_mono: "outcome F P r \<Longrightarrow> F \<subseteq> G \<Longrightarrow> (\<And>x. P x \<Longrightarrow> Q x) \<Longrightarrow> outcome G Q r"
  by (cases r) auto

lemma outcome_bind: "outcome F P r \<Longrightarrow> (\<And>x. P x \<Longrightarrow> outcome F Q (f x)) \<Longrightarrow> outcome F Q (bindE r f)"
  by (cases r) auto

lemma outcome_conj: "outcome F P r \<Longrightarrow> outcome F Q r \<Longrightarrow> outcome F (\<lambda>x. P x \<and> Q x) r"
  by (cases r) auto

lemma outcome_Inr: "outcome F P r \<Longrightarrow> r = Inr x \<Longrightarrow> P x"
  by simp

lemma outcome_Inl: "outcome F P r \<Longrightarrow> r = Inl f \<Longrightarrow> f \<in> F"
  by simp

text \<open>Dereferencing a pointer that may be null.\<close>

definition deref :: "'a option \<Rightarrow> 'a res" where
  "deref p = (case p of None \<Rightarrow> Inl NullDeref | Some x \<Rightarrow> Inr x)"

lemma deref_simps [simp]: "deref None = Inl NullDeref" "deref (Some x) = Inr x"
  by (simp_all add: deref_def)

lemma deref_Inr_iff [res_iff]: "deref p = Inr x \<longleftrightarrow> p = Some x"
  by (cases p) auto

section \<open>C arithmetic on signed integers\<close>

text \<open>Division and remainder of \<open>int\<close> truncate towards zero and trap on a zero divisor and on
  \<open>INT_MIN / -1\<close>.\<close>

definition c_div_mod :: "int \<Rightarrow> int \<Rightarrow> (int \<times> int) res" where
  "c_div_mod a b =
     (if b = 0 then Inl DivByZero
      else if a = - (2 ^ 31) \<and> b = -1 then Inl IntOverflow
      else Inr (a sdiv b, a smod b))"

lemma c_div_mod_nonneg: "0 \<le> a \<Longrightarrow> 0 < b \<Longrightarrow> c_div_mod a b = Inr (a div b, a mod b)"
  by (cases "a = 0") (auto simp: c_div_mod_def signed_divide_int_def signed_modulo_int_def)

section \<open>Buffers of bytes\<close>

definition rd8 :: "u8 list \<Rightarrow> nat \<Rightarrow> u8 res" where
  "rd8 buf i = (if i < length buf then Inr (buf ! i) else Inl OobRead)"

text \<open>Network byte order: the value that \<open>ntohs\<close> and \<open>ntohl\<close> give for the bytes in memory
  order.\<close>

definition be16 :: "u8 \<Rightarrow> u8 \<Rightarrow> u16" where
  "be16 a b = (push_bit 8 (ucast a)) OR (ucast b)"

definition be32 :: "u8 \<Rightarrow> u8 \<Rightarrow> u8 \<Rightarrow> u8 \<Rightarrow> u32" where
  "be32 a b c d =
     (push_bit 24 (ucast a)) OR (push_bit 16 (ucast b)) OR (push_bit 8 (ucast c)) OR (ucast d)"

text \<open>The bytes \<open>htons\<close> and \<open>htonl\<close> leave in memory.\<close>

definition bytes16 :: "u16 \<Rightarrow> u8 list" where
  "bytes16 w = [ucast (drop_bit 8 w), ucast w]"

definition bytes32 :: "u32 \<Rightarrow> u8 list" where
  "bytes32 w = [ucast (drop_bit 24 w), ucast (drop_bit 16 w), ucast (drop_bit 8 w), ucast w]"

definition rd16 :: "u8 list \<Rightarrow> nat \<Rightarrow> u16 res" where
  "rd16 buf i = bindE (rd8 buf i) (\<lambda>a. bindE (rd8 buf (i + 1)) (\<lambda>b. Inr (be16 a b)))"

definition rd32 :: "u8 list \<Rightarrow> nat \<Rightarrow> u32 res" where
  "rd32 buf i =
     bindE (rd8 buf i) (\<lambda>a. bindE (rd8 buf (i + 1)) (\<lambda>b.
     bindE (rd8 buf (i + 2)) (\<lambda>c. bindE (rd8 buf (i + 3)) (\<lambda>d. Inr (be32 a b c d)))))"

text \<open>\<open>memcpy\<close> of \<open>bs\<close> into \<open>buf\<close> at index \<open>i\<close>; nothing is written when nothing is copied.\<close>

definition wr :: "u8 list \<Rightarrow> nat \<Rightarrow> u8 list \<Rightarrow> u8 list res" where
  "wr buf i bs =
     (if i + length bs \<le> length buf then Inr (take i buf @ bs @ drop (i + length bs) buf)
      else Inl OobWrite)"

lemma length_bytes [simp]: "length (bytes16 w) = 2" "length (bytes32 v) = 4"
  by (simp_all add: bytes16_def bytes32_def)

lemma rd8_Inr_iff [res_iff]: "rd8 buf i = Inr b \<longleftrightarrow> i < length buf \<and> buf ! i = b"
  by (auto simp: rd8_def)

lemma rd8_ok [simp]: "i < length buf \<Longrightarrow> rd8 buf i = Inr (buf ! i)"
  by (simp add: rd8_def)

lemma rd16_ok: "i + 1 < length buf \<Longrightarrow> rd16 buf i = Inr (be16 (buf ! i) (buf ! (i + 1)))"
  by (simp add: rd16_def)

lemma rd32_ok:
  "i + 3 < length buf \<Longrightarrow>
   rd32 buf i = Inr (be32 (buf ! i) (buf ! (i + 1)) (buf ! (i + 2)) (buf ! (i + 3)))"
  by (simp add: rd32_def)

lemma be16_bytes16: "be16 (ucast (drop_bit 8 w)) (ucast w) = w" for w :: u16
  by (rule bit_eqI) (auto simp: be16_def bit_simps)

lemma be32_bytes32:
  "be32 (ucast (drop_bit 24 w)) (ucast (drop_bit 16 w)) (ucast (drop_bit 8 w)) (ucast w) = w"
  for w :: u32
proof (rule bit_word_eqI)
  fix n :: nat
  assume "n < LENGTH(32)"
  then consider "n < 8" | "8 \<le> n" "n < 16" | "16 \<le> n" "n < 24" | "24 \<le> n" "n < 32"
    by fastforce
  then show "bit (be32 (ucast (drop_bit 24 w)) (ucast (drop_bit 16 w)) (ucast (drop_bit 8 w))
      (ucast w)) n \<longleftrightarrow> bit w n"
    by cases (auto simp: be32_def bit_simps)
qed

section \<open>Segments of a buffer\<close>

definition seg :: "u8 list \<Rightarrow> nat \<Rightarrow> nat \<Rightarrow> u8 list" where
  "seg buf i n = take n (drop i buf)"

lemma length_seg [simp]: "i + n \<le> length buf \<Longrightarrow> length (seg buf i n) = n"
  by (simp add: seg_def)

lemma seg_0 [simp]: "seg buf i 0 = []"
  by (simp add: seg_def)

lemma seg_add: "seg buf i (m + n) = seg buf i m @ seg buf (i + m) n"
  by (simp add: seg_def take_add add.commute)

lemma seg_nth: "k < n \<Longrightarrow> i + k < length buf \<Longrightarrow> seg buf i n ! k = buf ! (i + k)"
  by (simp add: seg_def)

lemma wr_Inr_iff [res_iff]:
  "wr buf i bs = Inr buf' \<longleftrightarrow>
   i + length bs \<le> length buf \<and> buf' = take i buf @ bs @ drop (i + length bs) buf"
  by (auto simp: wr_def)

lemma length_wr: "wr buf i bs = Inr buf' \<Longrightarrow> length buf' = length buf"
  by (auto simp: wr_def split: if_splits)

lemma seg_wr_same: "wr buf i bs = Inr buf' \<Longrightarrow> seg buf' i (length bs) = bs"
  by (auto simp: wr_def seg_def split: if_splits)

lemma seg_wr_before: "wr buf i bs = Inr buf' \<Longrightarrow> j + n \<le> i \<Longrightarrow> seg buf' j n = seg buf j n"
  by (auto simp: wr_def seg_def take_drop min_def split: if_splits)

lemma seg_wr_after:
  "wr buf i bs = Inr buf' \<Longrightarrow> i + length bs \<le> j \<Longrightarrow> seg buf' j n = seg buf j n"
  by (auto simp: wr_def seg_def split: if_splits)

lemma nth_wr:
  "wr buf i bs = Inr buf' \<Longrightarrow> k < length buf \<Longrightarrow>
   buf' ! k = (if i \<le> k \<and> k < i + length bs then bs ! (k - i) else buf ! k)"
  by (auto simp: wr_def nth_append min_def split: if_splits)

lemma rd32_seg:
  assumes "seg buf i 4 = bytes32 w"
  shows "rd32 buf i = Inr w"
proof -
  have len: "i + 3 < length buf"
    using arg_cong [OF assms, of length] by (simp add: seg_def)
  have "buf ! i = bytes32 w ! 0" "buf ! (i + 1) = bytes32 w ! 1"
    "buf ! (i + 2) = bytes32 w ! 2" "buf ! (i + 3) = bytes32 w ! 3"
    using len seg_nth [of _ 4 i buf] by (simp_all add: assms [symmetric])
  with len show ?thesis
    by (simp add: rd32_ok bytes32_def be32_bytes32 numeral_2_eq_2 numeral_3_eq_3)
qed

lemma rd16_seg:
  assumes "seg buf i 2 = bytes16 w"
  shows "rd16 buf i = Inr w"
proof -
  have len: "i + 1 < length buf"
    using arg_cong [OF assms, of length] by (simp add: seg_def)
  have "buf ! i = bytes16 w ! 0" "buf ! (i + 1) = bytes16 w ! 1"
    using len seg_nth [of _ 2 i buf] by (simp_all add: assms [symmetric])
  with len show ?thesis
    by (simp add: rd16_ok bytes16_def be16_bytes16)
qed

lemma outcome_rd [simp]:
  "OobRead \<in> F \<Longrightarrow> outcome F (\<lambda>_. True) (rd8 buf i)"
  "OobRead \<in> F \<Longrightarrow> outcome F (\<lambda>_. True) (rd16 buf i)"
  "OobRead \<in> F \<Longrightarrow> outcome F (\<lambda>_. True) (rd32 buf i)"
  by (auto intro!: outcomeI simp: rd8_def rd16_def rd32_def bindE_Inl_iff split: if_splits)

section \<open>Generic facts\<close>

lemma unat_of_nat_le: "unat (of_nat n :: 'a::len word) \<le> n"
  by (simp add: unat_of_nat)

lemma unat_of_nat_small: "n < 2 ^ LENGTH('a) \<Longrightarrow> unat (of_nat n :: 'a::len word) = n"
  by (simp add: unat_of_nat take_bit_nat_eq_self)

lemma uint_of_int_small:
  "0 \<le> n \<Longrightarrow> n < 2 ^ LENGTH('a) \<Longrightarrow> uint (word_of_int n :: 'a::len word) = n"
  by (simp add: uint_word_of_int_eq take_bit_int_eq_self)

lemma count_list_distinct: "distinct xs \<Longrightarrow> x \<in> set xs \<Longrightarrow> count_list xs x = 1"
  by (induction xs) auto

end
