(* ===== verification/Rtp_Types.thy ===== *)
theory Rtp_Types
  imports Prelude
begin

text \<open>
  The data of the library: the constants of \<^verbatim>\<open>src/rtp_config.h\<close>, the records and enumerations of
  \<^verbatim>\<open>src/rfc3550.h\<close>, \<^verbatim>\<open>src/rtp_error.h\<close>, \<^verbatim>\<open>src/ntp_ts.h\<close> and \<^verbatim>\<open>src/rtp_member.h\<close>, and the
  operations on the flags and the canonical name of a session member.
\<close>

section \<open>Configuration\<close>

definition RTP_CONFIG_MAX_MEMBERS_PER_SESSION :: nat where
  "RTP_CONFIG_MAX_MEMBERS_PER_SESSION = 32"

definition RTP_CONFIG_MAX_RTP_PKT_SIZE :: nat where
  "RTP_CONFIG_MAX_RTP_PKT_SIZE = 1024"

definition RTP_CONFIG_AVERAGE_RTCP_SIZE :: nat where
  "RTP_CONFIG_AVERAGE_RTCP_SIZE = 256"

definition RTP_CONFIG_SOURCE_CONFLICT_TABLE_SIZE :: nat where
  "RTP_CONFIG_SOURCE_CONFLICT_TABLE_SIZE = 16"

definition RTP_CONFIG_SOURCE_CONFLICT_TIMEOUT :: int where
  "RTP_CONFIG_SOURCE_CONFLICT_TIMEOUT = 5000"

definition RTP_CONFIG_SDES_CNAME_MAX :: nat where
  "RTP_CONFIG_SDES_CNAME_MAX = 256"

definition RTP_CONFIG_SENDER_TIMEOUT :: int where
  "RTP_CONFIG_SENDER_TIMEOUT = 5000"

definition RTP_CONFIG_MEMBER_TIMEOUT :: int where
  "RTP_CONFIG_MEMBER_TIMEOUT = 10000"

definition RTP_CONFIG_LEAVE_TIMEOUT :: int where
  "RTP_CONFIG_LEAVE_TIMEOUT = 3000"

definition RTP_CONFIG_MAX_DROPOUT :: nat where
  "RTP_CONFIG_MAX_DROPOUT = 3000"

definition RTP_CONFIG_MAX_MISORDER :: nat where
  "RTP_CONFIG_MAX_MISORDER = 100"

definition RTP_CONFIG_MIN_SEQUENTIAL :: nat where
  "RTP_CONFIG_MIN_SEQUENTIAL = 2"

definition RTP_CONFIG_RTCP_ENCODER_BUFFER_LEN :: nat where
  "RTP_CONFIG_RTCP_ENCODER_BUFFER_LEN = 256"

definition RTP_SEQ_MOD :: nat where
  "RTP_SEQ_MOD = 65536"

named_theorems config_defs \<open>the values of the configuration constants\<close>

lemmas [config_defs] =
  RTP_CONFIG_MAX_MEMBERS_PER_SESSION_def RTP_CONFIG_MAX_RTP_PKT_SIZE_def
  RTP_CONFIG_AVERAGE_RTCP_SIZE_def RTP_CONFIG_SOURCE_CONFLICT_TABLE_SIZE_def
  RTP_CONFIG_SOURCE_CONFLICT_TIMEOUT_def RTP_CONFIG_SDES_CNAME_MAX_def
  RTP_CONFIG_SENDER_TIMEOUT_def RTP_CONFIG_MEMBER_TIMEOUT_def RTP_CONFIG_LEAVE_TIMEOUT_def
  RTP_CONFIG_MAX_DROPOUT_def RTP_CONFIG_MAX_MISORDER_def RTP_CONFIG_MIN_SEQUENTIAL_def
  RTP_CONFIG_RTCP_ENCODER_BUFFER_LEN_def RTP_SEQ_MOD_def

section \<open>Errors\<close>

datatype rtp_rx_error =
    rtp_rx_error_no_error
  | rtp_rx_error_header_too_short
  | rtp_rx_error_invalid_csrc_count
  | rtp_rx_error_invalid_rtp_version
  | rtp_rx_error_invalid_payload_type
  | rtp_rx_error_invalid_octet_count
  | rtp_rx_error_not_implemented
  | rtp_rx_error_seq_error
  | rtp_rx_error_member_alloc_failed
  | rtp_rx_error_member_first_heard
  | rtp_rx_error_member_bye_in_progress
  | rtp_rx_error_member_first_rtp_after_rtcp
  | rtp_rx_error_3rd_party_conflict
  | rtp_rx_error_source_in_conflict_list
  | rtp_rx_error_ssrc_conflict

datatype rtcp_rx_error =
    rtcp_rx_error_no_error
  | rtcp_rx_error_header_too_short
  | rtcp_rx_error_len_not_multiple_4
  | rtcp_rx_error_invalid_mask
  | rtcp_rx_error_invalid_compound_packet
  | rtcp_rx_error_member_alloc_failed
  | rtcp_rx_error_member_first_heard
  | rtcp_rx_error_member_bye_in_progress
  | rtcp_rx_error_3rd_party_conflict
  | rtcp_rx_error_source_in_conflict_list
  | rtcp_rx_error_ssrc_conflict

section \<open>Records\<close>

text \<open>\<open>struct sockaddr_in\<close>; \<open>memcmp\<close> of two of them compares every byte, the padding
  \<open>sin_zero\<close> included, so it is equality of the records.\<close>

record sockaddr_in =
  sin_family :: u16
  sin_port :: u16
  sin_addr :: u32
  sin_zero :: "u8 list"

definition zero_addr :: sockaddr_in where
  "zero_addr = \<lparr>sin_family = 0, sin_port = 0, sin_addr = 0, sin_zero = replicate 8 0\<rparr>"

record ntp_ts =
  second :: u32
  fraction :: u32

record rtp_source =
  max_seq :: u16
  cycles :: u32
  base_seq :: u32
  bad_seq :: u32
  probation :: u32
  received :: u32
  expected_prior :: u32
  received_prior :: u32
  transit :: u32
  jitter :: u32

text \<open>The \<open>double\<close> fields are real numbers here: rounding is not modelled, overflow and
  invalid operations are faults where they can occur.\<close>

record rtcp_control_var =
  tp :: real
  tn :: real
  pmembers :: u32
  members :: u32
  senders :: u32
  rtcp_bw :: real
  avg_rtcp_size :: real
  we_sent :: bool
  initial :: bool

record rtp_member =
  m_rtp_addr :: sockaddr_in
  m_rtcp_addr :: sockaddr_in
  m_ssrc :: u32
  cname :: "u8 list"
  cname_len :: u8
  flags :: u32
  rtp_src :: rtp_source
  last_sr :: ntp_ts
  last_sr_local_time :: ntp_ts
  m_rtp_ts :: u32
  m_pkt_count :: u32
  m_octet_count :: u32

section \<open>Members\<close>

definition ntp_ts_init :: "ntp_ts" where
  "ntp_ts_init = \<lparr>second = 0, fraction = 0\<rparr>"

text \<open>\<open>rtp_member_init\<close> leaves the addresses and the reception state \<open>rtp_src\<close> as they are.\<close>

definition rtp_member_init :: "rtp_member \<Rightarrow> u32 \<Rightarrow> rtp_member" where
  "rtp_member_init m ssrc =
     m\<lparr>m_ssrc := ssrc, cname := (cname m)[0 := 0], cname_len := 0, flags := 0,
       last_sr := ntp_ts_init, last_sr_local_time := ntp_ts_init\<rparr>"

definition RTP_FLAG_SELF :: u32 where "RTP_FLAG_SELF = 0x01"
definition RTP_FLAG_RTP_HEARD :: u32 where "RTP_FLAG_RTP_HEARD = 0x02"
definition RTP_FLAG_RTCP_HEARD :: u32 where "RTP_FLAG_RTCP_HEARD = 0x04"
definition RTP_FLAG_BYE_RECEIVED :: u32 where "RTP_FLAG_BYE_RECEIVED = 0x08"
definition RTP_FLAG_VALIDATED :: u32 where "RTP_FLAG_VALIDATED = 0x10"
definition RTP_FLAG_SENDER :: u32 where "RTP_FLAG_SENDER = 0x20"
definition RTP_FLAG_CSRC :: u32 where "RTP_FLAG_CSRC = 0x40"

text \<open>The shape shared by the flag functions of \<^verbatim>\<open>rtp_member.h\<close>.\<close>

definition has_flag :: "u32 \<Rightarrow> rtp_member \<Rightarrow> bool" where
  "has_flag k m \<longleftrightarrow> (flags m AND k) \<noteq> 0"

definition set_flag :: "u32 \<Rightarrow> rtp_member \<Rightarrow> rtp_member" where
  "set_flag k m = m\<lparr>flags := flags m OR k\<rparr>"

definition clear_flag :: "u32 \<Rightarrow> rtp_member \<Rightarrow> rtp_member" where
  "clear_flag k m = m\<lparr>flags := flags m AND NOT k\<rparr>"

definition rtp_member_is_self :: "rtp_member \<Rightarrow> bool" where
  "rtp_member_is_self = has_flag RTP_FLAG_SELF"
definition rtp_member_set_self :: "rtp_member \<Rightarrow> rtp_member" where
  "rtp_member_set_self = set_flag RTP_FLAG_SELF"

definition rtp_member_is_validated :: "rtp_member \<Rightarrow> bool" where
  "rtp_member_is_validated = has_flag RTP_FLAG_VALIDATED"
definition rtp_member_set_validated :: "rtp_member \<Rightarrow> rtp_member" where
  "rtp_member_set_validated = set_flag RTP_FLAG_VALIDATED"
definition rtp_member_clear_validated :: "rtp_member \<Rightarrow> rtp_member" where
  "rtp_member_clear_validated = clear_flag RTP_FLAG_VALIDATED"

definition rtp_member_is_sender :: "rtp_member \<Rightarrow> bool" where
  "rtp_member_is_sender = has_flag RTP_FLAG_SENDER"
definition rtp_member_set_sender :: "rtp_member \<Rightarrow> rtp_member" where
  "rtp_member_set_sender = set_flag RTP_FLAG_SENDER"
definition rtp_member_clear_sender :: "rtp_member \<Rightarrow> rtp_member" where
  "rtp_member_clear_sender = clear_flag RTP_FLAG_SENDER"

definition rtp_member_is_rtp_heard :: "rtp_member \<Rightarrow> bool" where
  "rtp_member_is_rtp_heard = has_flag RTP_FLAG_RTP_HEARD"
definition rtp_member_set_rtp_heard :: "rtp_member \<Rightarrow> rtp_member" where
  "rtp_member_set_rtp_heard = set_flag RTP_FLAG_RTP_HEARD"
definition rtp_member_clear_rtp_heard :: "rtp_member \<Rightarrow> rtp_member" where
  "rtp_member_clear_rtp_heard = clear_flag RTP_FLAG_RTP_HEARD"

definition rtp_member_is_rtcp_heard :: "rtp_member \<Rightarrow> bool" where
  "rtp_member_is_rtcp_heard = has_flag RTP_FLAG_RTCP_HEARD"
definition rtp_member_set_rtcp_heard :: "rtp_member \<Rightarrow> rtp_member" where
  "rtp_member_set_rtcp_heard = set_flag RTP_FLAG_RTCP_HEARD"
definition rtp_member_clear_rtcp_heard :: "rtp_member \<Rightarrow> rtp_member" where
  "rtp_member_clear_rtcp_heard = clear_flag RTP_FLAG_RTCP_HEARD"

definition rtp_member_is_bye_received :: "rtp_member \<Rightarrow> bool" where
  "rtp_member_is_bye_received = has_flag RTP_FLAG_BYE_RECEIVED"
definition rtp_member_set_bye_received :: "rtp_member \<Rightarrow> rtp_member" where
  "rtp_member_set_bye_received = set_flag RTP_FLAG_BYE_RECEIVED"
definition rtp_member_clear_bye_received :: "rtp_member \<Rightarrow> rtp_member" where
  "rtp_member_clear_bye_received = clear_flag RTP_FLAG_BYE_RECEIVED"

definition rtp_member_is_csrc :: "rtp_member \<Rightarrow> bool" where
  "rtp_member_is_csrc = has_flag RTP_FLAG_CSRC"
definition rtp_member_set_csrc :: "rtp_member \<Rightarrow> rtp_member" where
  "rtp_member_set_csrc = set_flag RTP_FLAG_CSRC"
definition rtp_member_clear_csrc :: "rtp_member \<Rightarrow> rtp_member" where
  "rtp_member_clear_csrc = clear_flag RTP_FLAG_CSRC"

text \<open>\<open>memcpy\<close> of \<open>cname_len\<close> bytes from the name given (the test against 256 always holds
  for a \<open>uint8_t\<close>).\<close>

definition rtp_member_set_cname :: "rtp_member \<Rightarrow> u8 list \<Rightarrow> u8 \<Rightarrow> rtp_member res" where
  "rtp_member_set_cname m name len =
     (let n = (if unat len \<le> RTP_CONFIG_SDES_CNAME_MAX then unat len
               else RTP_CONFIG_SDES_CNAME_MAX)
      in if length name < n then Inl OobRead
         else bindE (wr (cname m) 0 (take n name))
                (\<lambda>c. Inr (m\<lparr>cname_len := of_nat n, cname := c\<rparr>)))"

section \<open>Facts about the flags\<close>

lemma has_set_flag_same: "k \<noteq> 0 \<Longrightarrow> has_flag k (set_flag k m)"
  by (simp add: has_flag_def set_flag_def bit.conj_disj_distrib2)

lemma has_set_flag_other:
  assumes "k AND j = 0"
  shows "has_flag k (set_flag j m) \<longleftrightarrow> has_flag k m"
proof -
  have "(flags m OR j) AND k = (flags m AND k) OR (j AND k)"
    by (rule bit.conj_disj_distrib2)
  also have "j AND k = 0" using assms by (simp only: and.commute)
  finally show ?thesis by (simp add: has_flag_def set_flag_def)
qed

lemma has_clear_flag_same: "\<not> has_flag k (clear_flag k m)"
  by (simp add: has_flag_def clear_flag_def and.assoc)

lemma has_clear_flag_other:
  assumes "k AND j = 0"
  shows "has_flag k (clear_flag j m) \<longleftrightarrow> has_flag k m"
proof -
  have "NOT j AND k = k"
  proof (rule bit_word_eqI)
    fix n
    assume "n < LENGTH(32)"
    moreover have "\<not> bit (k AND j) n" using assms by simp
    ultimately show "bit (NOT j AND k) n = bit k n" by (auto simp: bit_simps)
  qed
  then show ?thesis by (simp add: has_flag_def clear_flag_def and.assoc)
qed

lemma has_flag_init [simp]: "\<not> has_flag k (rtp_member_init m ssrc)"
  by (simp add: has_flag_def rtp_member_init_def)

lemma has_flag_cong: "flags m = flags m' \<Longrightarrow> has_flag k m = has_flag k m'"
  by (simp add: has_flag_def)

lemmas is_flag_defs = rtp_member_is_self_def rtp_member_is_validated_def
  rtp_member_is_sender_def rtp_member_is_rtp_heard_def rtp_member_is_rtcp_heard_def
  rtp_member_is_bye_received_def rtp_member_is_csrc_def

lemmas set_flag_defs = rtp_member_set_self_def rtp_member_set_validated_def
  rtp_member_set_sender_def rtp_member_set_rtp_heard_def rtp_member_set_rtcp_heard_def
  rtp_member_set_bye_received_def rtp_member_set_csrc_def

lemmas clear_flag_defs = rtp_member_clear_validated_def rtp_member_clear_sender_def
  rtp_member_clear_rtp_heard_def rtp_member_clear_rtcp_heard_def
  rtp_member_clear_bye_received_def rtp_member_clear_csrc_def

lemmas flag_defs = RTP_FLAG_SELF_def RTP_FLAG_RTP_HEARD_def RTP_FLAG_RTCP_HEARD_def
  RTP_FLAG_BYE_RECEIVED_def RTP_FLAG_VALIDATED_def RTP_FLAG_SENDER_def RTP_FLAG_CSRC_def

text \<open>How the flag tests see the flag updates.\<close>

lemmas flag_simps = is_flag_defs set_flag_defs clear_flag_defs flag_defs
  has_set_flag_same has_set_flag_other has_clear_flag_same has_clear_flag_other

lemma set_flag_frame [simp]:
  "m_ssrc (set_flag k m) = m_ssrc m" "rtp_src (set_flag k m) = rtp_src m"
  "m_rtp_addr (set_flag k m) = m_rtp_addr m" "m_rtcp_addr (set_flag k m) = m_rtcp_addr m"
  "m_ssrc (clear_flag k m) = m_ssrc m" "rtp_src (clear_flag k m) = rtp_src m"
  "m_rtp_addr (clear_flag k m) = m_rtp_addr m" "m_rtcp_addr (clear_flag k m) = m_rtcp_addr m"
  by (simp_all add: set_flag_def clear_flag_def)

end
