(* ===== verification/Rtcp_Encoder.thy ===== *)
theory Rtcp_Encoder
  imports Rtp_Types
begin

text \<open>
  The encoder of compound RTCP packets, \<^verbatim>\<open>src/rtcp_encoder.c\<close>: a fixed buffer, a write index and
  the position of the packet under construction, whose count and length fields are updated in
  place.
\<close>

section \<open>State\<close>

record rtcp_encoder =
  enc_buf :: "u8 list"
  enc_rtcp :: nat
  enc_buf_len :: u32
  write_ndx :: u32
  chunk_begin :: u32

text \<open>\<open>rtcp_type_t\<close> and the item type of a canonical name\<close>

definition RTCP_SR :: u8 where "RTCP_SR = 200"
definition RTCP_RR :: u8 where "RTCP_RR = 201"
definition RTCP_SDES :: u8 where "RTCP_SDES = 202"
definition RTCP_BYE :: u8 where "RTCP_BYE = 203"
definition RTCP_APP :: u8 where "RTCP_APP = 204"
definition RTCP_SDES_CNAME :: u8 where "RTCP_SDES_CNAME = 1"

lemmas rtcp_types = RTCP_SR_def RTCP_RR_def RTCP_SDES_def RTCP_BYE_def RTCP_APP_def
  RTCP_SDES_CNAME_def

definition rtcp_encoder_space_left :: "rtcp_encoder \<Rightarrow> u32" where
  "rtcp_encoder_space_left re = enc_buf_len re - write_ndx re"

text \<open>Stores into the buffer: octets, and 32-bit words in network order.\<close>

definition put :: "rtcp_encoder \<Rightarrow> nat \<Rightarrow> u8 list \<Rightarrow> rtcp_encoder res" where
  "put re i bs = bindE (wr (enc_buf re) i bs) (\<lambda>b. Inr (re\<lparr>enc_buf := b\<rparr>))"

fun put_words :: "rtcp_encoder \<Rightarrow> nat \<Rightarrow> u32 list \<Rightarrow> rtcp_encoder res" where
  "put_words re i [] = Inr re"
| "put_words re i (w # ws) = bindE (put re i (bytes32 w)) (\<lambda>re. put_words re (i + 4) ws)"

text \<open>The five-bit count of the current packet.\<close>

definition get_count :: "rtcp_encoder \<Rightarrow> nat res" where
  "get_count re = bindE (rd8 (enc_buf re) (enc_rtcp re)) (\<lambda>b. Inr (unat (take_bit 5 b)))"

definition set_count :: "rtcp_encoder \<Rightarrow> nat \<Rightarrow> rtcp_encoder res" where
  "set_count re n =
     bindE (rd8 (enc_buf re) (enc_rtcp re)) (\<lambda>b.
     put re (enc_rtcp re) [(b AND 0xE0) OR take_bit 5 (of_nat n)])"

definition advance :: "nat \<Rightarrow> rtcp_encoder \<Rightarrow> rtcp_encoder" where
  "advance n re = re\<lparr>write_ndx := write_ndx re + of_nat n\<rparr>"

section \<open>Operations\<close>

text \<open>Version 2, no padding and a count of zero are one octet, \<open>0x80\<close>.\<close>

definition rtcp_encoder_set_current_pkt :: "rtcp_encoder \<Rightarrow> rtcp_encoder res" where
  "rtcp_encoder_set_current_pkt re =
     (let re = re\<lparr>enc_rtcp := unat (write_ndx re)\<rparr> in
      bindE (put re (enc_rtcp re) [0x80]) (\<lambda>re.
      put re (enc_rtcp re + 2) (bytes16 0)))"

definition rtcp_encoder_reset :: "rtcp_encoder \<Rightarrow> rtcp_encoder res" where
  "rtcp_encoder_reset re = rtcp_encoder_set_current_pkt (re\<lparr>write_ndx := 0, chunk_begin := 0\<rparr>)"

definition rtcp_encoder_init :: "rtcp_encoder \<Rightarrow> u32 \<Rightarrow> rtcp_encoder res" where
  "rtcp_encoder_init re buf_len = rtcp_encoder_reset (re\<lparr>enc_buf_len := buf_len\<rparr>)"

definition rtcp_encoder_msg_len :: "rtcp_encoder \<Rightarrow> u32" where
  "rtcp_encoder_msg_len re = write_ndx re"

definition rtcp_encoder_end_packet :: "rtcp_encoder \<Rightarrow> rtcp_encoder res" where
  "rtcp_encoder_end_packet re =
     (let len_in_bytes = write_ndx re - of_nat (enc_rtcp re) in
      if unat len_in_bytes mod 4 \<noteq> 0 then Inl Crash
      else put re (enc_rtcp re + 2) (bytes16 (of_nat (unat len_in_bytes div 4) - 1)))"

definition rtcp_encoder_sr_begin ::
  "rtcp_encoder \<Rightarrow> u32 \<Rightarrow> u32 \<Rightarrow> u32 \<Rightarrow> u32 \<Rightarrow> u32 \<Rightarrow> u32 \<Rightarrow> (rtcp_encoder \<times> bool) res" where
  "rtcp_encoder_sr_begin re ssrc ntp_msb ntp_lsb rtp_ts pkt_count octet_count =
     (if unat (rtcp_encoder_space_left re) < 7 * 4 then Inr (re, False)
      else bindE (rtcp_encoder_set_current_pkt re) (\<lambda>re.
        bindE (put re (enc_rtcp re + 1) [RTCP_SR]) (\<lambda>re.
        bindE (put_words re (enc_rtcp re + 4)
                 [ssrc, ntp_msb, ntp_lsb, rtp_ts, pkt_count, octet_count]) (\<lambda>re.
        Inr (advance (7 * 4) re, True)))))"

text \<open>
  One report block at the position that the count of the current packet gives; \<open>base\<close> is the
  offset of the array of blocks in the packet. The 24-bit loss field takes the three low
  octets, in memory order, of \<open>htonl(pkt_lost << 8)\<close>.
\<close>

definition put_rr_block ::
  "rtcp_encoder \<Rightarrow> nat \<Rightarrow> u32 \<Rightarrow> u8 \<Rightarrow> u32 \<Rightarrow> u32 \<Rightarrow> u32 \<Rightarrow> u32 \<Rightarrow> u32 \<Rightarrow> (rtcp_encoder \<times> bool) res"
  where
  "put_rr_block re base ssrc frct pkt_lost highest_seq jit lsr dlsr =
     (if unat (rtcp_encoder_space_left re) < 6 * 4 then Inr (re, False)
      else bindE (get_count re) (\<lambda>ndx.
        let rr = enc_rtcp re + base + 24 * ndx in
        bindE (put_words re rr [ssrc]) (\<lambda>re.
        bindE (put re (rr + 4) [frct]) (\<lambda>re.
        bindE (put re (rr + 5) (take 3 (bytes32 (push_bit 8 pkt_lost)))) (\<lambda>re.
        bindE (put_words re (rr + 8) [highest_seq, jit, lsr, dlsr]) (\<lambda>re.
        bindE (set_count re (ndx + 1)) (\<lambda>re.
        Inr (advance (6 * 4) re, True))))))))"

definition rtcp_encoder_sr_add_rr ::
  "rtcp_encoder \<Rightarrow> u32 \<Rightarrow> u8 \<Rightarrow> u32 \<Rightarrow> u32 \<Rightarrow> u32 \<Rightarrow> u32 \<Rightarrow> u32 \<Rightarrow> (rtcp_encoder \<times> bool) res" where
  "rtcp_encoder_sr_add_rr re ssrc frct pkt_lost highest_seq jit lsr dlsr =
     put_rr_block re 28 ssrc frct pkt_lost highest_seq jit lsr dlsr"

definition rtcp_encoder_rr_begin :: "rtcp_encoder \<Rightarrow> u32 \<Rightarrow> (rtcp_encoder \<times> bool) res" where
  "rtcp_encoder_rr_begin re ssrc =
     (if unat (rtcp_encoder_space_left re) < 2 * 4 then Inr (re, False)
      else bindE (rtcp_encoder_set_current_pkt re) (\<lambda>re.
        bindE (put re (enc_rtcp re + 1) [RTCP_RR]) (\<lambda>re.
        bindE (put_words re (enc_rtcp re + 4) [ssrc]) (\<lambda>re.
        Inr (advance (2 * 4) re, True)))))"

definition rtcp_encoder_rr_add_rr ::
  "rtcp_encoder \<Rightarrow> u32 \<Rightarrow> u8 \<Rightarrow> u32 \<Rightarrow> u32 \<Rightarrow> u32 \<Rightarrow> u32 \<Rightarrow> u32 \<Rightarrow> (rtcp_encoder \<times> bool) res" where
  "rtcp_encoder_rr_add_rr re ssrc frct pkt_lost highest_seq jit lsr dlsr =
     put_rr_block re 8 ssrc frct pkt_lost highest_seq jit lsr dlsr"

definition rtcp_encoder_sdes_begin :: "rtcp_encoder \<Rightarrow> (rtcp_encoder \<times> bool) res" where
  "rtcp_encoder_sdes_begin re =
     (if unat (rtcp_encoder_space_left re) < 1 * 4 then Inr (re, False)
      else bindE (rtcp_encoder_set_current_pkt re) (\<lambda>re.
        bindE (put re (enc_rtcp re + 1) [RTCP_SDES]) (\<lambda>re.
        Inr (advance (1 * 4) re, True))))"

definition rtcp_encoder_sdes_chunk_begin :: "rtcp_encoder \<Rightarrow> u32 \<Rightarrow> (rtcp_encoder \<times> bool) res" where
  "rtcp_encoder_sdes_chunk_begin re ssrc =
     (if unat (rtcp_encoder_space_left re) < 1 * 4 then Inr (re, False)
      else bindE (get_count re) (\<lambda>ndx.
        bindE (set_count re (ndx + 1)) (\<lambda>re.
        bindE (put_words re (unat (write_ndx re)) [ssrc]) (\<lambda>re.
        Inr (advance (1 * 4) (re\<lparr>chunk_begin := write_ndx re\<rparr>), True)))))"

definition rtcp_encoder_sdes_chunk_add_cname ::
  "rtcp_encoder \<Rightarrow> u8 list \<Rightarrow> u8 \<Rightarrow> (rtcp_encoder \<times> bool) res" where
  "rtcp_encoder_sdes_chunk_add_cname re name len =
     (let name_len = unat len in
      if unat (rtcp_encoder_space_left re) < name_len + 2 then Inr (re, False)
      else bindE (put re (unat (write_ndx re)) [RTCP_SDES_CNAME]) (\<lambda>re.
        bindE (put re (unat (write_ndx re) + 1) [len]) (\<lambda>re.
        if length name < name_len then Inl OobRead
        else bindE (put re (unat (write_ndx re) + 2) (take name_len name)) (\<lambda>re.
          Inr (advance (2 + name_len) re, True)))))"

text \<open>The loops that write zero octets at the write index.\<close>

fun put_zeros :: "nat \<Rightarrow> rtcp_encoder \<Rightarrow> rtcp_encoder res" where
  "put_zeros 0 re = Inr re"
| "put_zeros (Suc n) re =
     bindE (put re (unat (write_ndx re)) [0]) (\<lambda>re. put_zeros n (advance 1 re))"

definition rtcp_encoder_sdes_chunk_end :: "rtcp_encoder \<Rightarrow> (rtcp_encoder \<times> bool) res" where
  "rtcp_encoder_sdes_chunk_end re =
     (if unat (rtcp_encoder_space_left re) < 1 then Inr (re, False)
      else bindE (put_zeros 1 re) (\<lambda>re.
        let chunk_size = unat (write_ndx re - chunk_begin re) in
        if chunk_size mod 4 \<noteq> 0 then
          let pad = 4 - chunk_size mod 4 in
          if unat (rtcp_encoder_space_left re) < pad then Inr (re, False)
          else bindE (put_zeros pad re) (\<lambda>re. Inr (re, True))
        else Inr (re, True)))"

definition rtcp_encoder_bye_begin :: "rtcp_encoder \<Rightarrow> (rtcp_encoder \<times> bool) res" where
  "rtcp_encoder_bye_begin re =
     (if unat (rtcp_encoder_space_left re) < 1 * 4 then Inr (re, False)
      else bindE (rtcp_encoder_set_current_pkt re) (\<lambda>re.
        bindE (put re (enc_rtcp re + 1) [RTCP_BYE]) (\<lambda>re.
        Inr (advance (1 * 4) re, True))))"

definition rtcp_encoder_bye_add_ssrc :: "rtcp_encoder \<Rightarrow> u32 \<Rightarrow> (rtcp_encoder \<times> bool) res" where
  "rtcp_encoder_bye_add_ssrc re ssrc =
     (if unat (rtcp_encoder_space_left re) < 4 then Inr (re, False)
      else bindE (get_count re) (\<lambda>ndx.
        bindE (put_words re (enc_rtcp re + 4 + 4 * ndx) [ssrc]) (\<lambda>re.
        bindE (set_count re (ndx + 1)) (\<lambda>re.
        Inr (advance 4 re, True)))))"

text \<open>The reason is a C string; its length is truncated to an octet.\<close>

definition rtcp_encoder_bye_add_reason ::
  "rtcp_encoder \<Rightarrow> u8 list \<Rightarrow> (rtcp_encoder \<times> bool) res" where
  "rtcp_encoder_bye_add_reason re reason =
     (let len = (of_nat (length reason) :: u8);
          total = 1 + unat len;
          pad = (if total mod 4 \<noteq> 0 then 4 - total mod 4 else 0);
          total = total + pad in
      if unat (rtcp_encoder_space_left re) < total then Inr (re, False)
      else bindE (put re (unat (write_ndx re)) [len]) (\<lambda>re.
        let re = advance 1 re in
        bindE (put re (unat (write_ndx re)) (take (unat len) reason)) (\<lambda>re.
        bindE (put_zeros pad (advance (unat len) re)) (\<lambda>re.
        Inr (re, True)))))"

section \<open>The buffer as written and free part\<close>

definition enc_at :: "rtcp_encoder \<Rightarrow> u8 list \<Rightarrow> u8 list \<Rightarrow> bool" where
  "enc_at re m rest \<longleftrightarrow>
     enc_buf re = m @ rest \<and> unat (write_ndx re) = length m \<and> length m + length rest = 256 \<and>
     enc_buf_len re = 256"

text \<open>A packet under construction after the complete message \<open>pre\<close>.\<close>

definition enc_cur :: "rtcp_encoder \<Rightarrow> u8 list \<Rightarrow> nat \<Rightarrow> u8 \<Rightarrow> u8 list \<Rightarrow> u8 list \<Rightarrow> bool" where
  "enc_cur re pre n pt body rest \<longleftrightarrow>
     enc_at re (pre @ [0x80 OR of_nat n, pt, 0, 0] @ body) rest \<and> enc_rtcp re = length pre \<and> n < 32"

lemma enc_at_space: "enc_at re m rest \<Longrightarrow> unat (rtcp_encoder_space_left re) = length rest"
proof -
  assume at: "enc_at re m rest"
  have "of_nat (unat (write_ndx re)) = write_ndx re" by simp
  then have w: "write_ndx re = of_nat (length m)" using at by (metis enc_at_def)
  have "rtcp_encoder_space_left re = of_nat (length rest)"
    using at w by (simp add: rtcp_encoder_space_left_def enc_at_def)
      (metis add_diff_cancel_left' of_nat_add of_nat_numeral)
  then show ?thesis using at by (simp add: enc_at_def unat_of_nat_small)
qed

lemma advance_at:
  assumes "unat (write_ndx re) + n = length m" "enc_buf re = m @ rest" "length m + length rest = 256"
    "enc_buf_len re = 256"
  shows "enc_at (advance n re) m rest"
proof -
  have "of_nat (unat (write_ndx re)) = write_ndx re" by simp
  then have "write_ndx re + of_nat n = of_nat (length m)"
    using arg_cong [OF assms(1), of "of_nat :: nat \<Rightarrow> u32"] by simp
  then show ?thesis using assms by (simp add: enc_at_def advance_def unat_of_nat_small)
qed

lemma put_here:
  "\<lbrakk>enc_buf re = m @ xs; i = length m; length bs \<le> length xs\<rbrakk> \<Longrightarrow>
   put re i bs = Inr (re\<lparr>enc_buf := m @ bs @ drop (length bs) xs\<rparr>)"
  by (simp add: put_def wr_def)

lemma put_words_here:
  "\<lbrakk>enc_buf re = m @ xs; i = length m; 4 * length ws \<le> length xs\<rbrakk> \<Longrightarrow>
   put_words re i ws =
     Inr (re\<lparr>enc_buf := m @ concat (map bytes32 ws) @ drop (4 * length ws) xs\<rparr>)"
proof (induction ws arbitrary: re m xs i)
  case (Cons w ws)
  have "put re i (bytes32 w) = Inr (re\<lparr>enc_buf := (m @ bytes32 w) @ drop 4 xs\<rparr>)"
    using Cons.prems by (simp add: put_here)
  with Cons.prems show ?case
    using Cons.IH [of "re\<lparr>enc_buf := (m @ bytes32 w) @ drop 4 xs\<rparr>" "m @ bytes32 w" "drop 4 xs" "i + 4"]
    by (simp add: add.commute)
qed simp

lemma put_zeros_here:
  "\<lbrakk>enc_at re m rest; n \<le> length rest\<rbrakk> \<Longrightarrow>
   \<exists>re'. put_zeros n re = Inr re' \<and> enc_at re' (m @ replicate n 0) (drop n rest) \<and>
     enc_rtcp re' = enc_rtcp re \<and> chunk_begin re' = chunk_begin re"
proof (induction n arbitrary: re m rest)
  case (Suc n)
  then obtain x xs where rest: "rest = x # xs" by (cases rest) auto
  let ?re = "advance 1 (re\<lparr>enc_buf := m @ [0] @ xs\<rparr>)"
  have p: "put re (unat (write_ndx re)) [0] = Inr (re\<lparr>enc_buf := m @ [0] @ xs\<rparr>)"
    using Suc.prems put_here [of re m rest _ "[0]"] by (simp add: enc_at_def rest)
  have "enc_at ?re (m @ [0]) xs"
    using Suc.prems by (intro advance_at) (simp_all add: enc_at_def rest)
  from Suc.IH [OF this] Suc.prems rest obtain re' where
    "put_zeros n ?re = Inr re'" "enc_at re' ((m @ [0]) @ replicate n 0) (drop n xs)"
    "enc_rtcp re' = enc_rtcp ?re" "chunk_begin re' = chunk_begin ?re" by auto
  with p rest show ?case by (auto simp: advance_def)
qed simp

text \<open>The header octet that holds the count.\<close>

lemma count_octet:
  assumes "n < 32"
  shows "take_bit 5 (0x80 OR of_nat n :: u8) = of_nat n" "(0x80 OR of_nat n :: u8) AND 0xE0 = 0x80"
proof -
  have t: "take_bit 5 (of_nat n :: u8) = of_nat n"
    using assms by (simp add: take_bit_of_nat take_bit_nat_eq_self)
  show "take_bit 5 (0x80 OR of_nat n :: u8) = of_nat n"
    by (simp add: take_bit_or t)
  have "(of_nat n :: u8) AND 0xE0 = 0"
  proof (rule bit_word_eqI)
    fix k
    assume "k < LENGTH(8)"
    have "\<not> bit (take_bit 5 (of_nat n :: u8)) k" if "5 \<le> k" using that by (simp add: bit_take_bit_iff)
    moreover have "\<not> bit (0xE0 :: u8) k" if "k < 5"
      using that by (auto simp: less_Suc_eq numeral_eq_Suc)
    ultimately show "bit ((of_nat n :: u8) AND 0xE0) k = bit 0 k"
      unfolding t by (auto simp: bit_and_iff not_le [symmetric])
  qed
  then show "(0x80 OR of_nat n :: u8) AND 0xE0 = 0x80"
    by (simp add: bit.conj_disj_distrib2)
qed

lemma get_count_cur: "enc_cur re pre n pt body rest \<Longrightarrow> get_count re = Inr n"
  by (simp add: get_count_def enc_cur_def enc_at_def nth_append count_octet(1) unat_of_nat_small
      del: take_bit_or)

lemma set_count_buf:
  assumes "enc_buf re = pre @ (0x80 OR of_nat n) # xs" "enc_rtcp re = length pre" "n < 32" "k < 32"
  shows "set_count re k = Inr (re\<lparr>enc_buf := pre @ (0x80 OR of_nat k) # xs\<rparr>)"
proof -
  have "take_bit 5 (of_nat k :: u8) = of_nat k"
    using assms(4) by (simp add: take_bit_of_nat take_bit_nat_eq_self)
  then show ?thesis
    using assms put_here [of re pre "(0x80 OR of_nat n) # xs" "length pre" "[0x80 OR of_nat k]"]
    by (simp add: set_count_def nth_append count_octet)
qed

section \<open>Each operation on the two parts\<close>

text \<open>A complete packet, and a report block, as octets.\<close>

definition rtcp_packet :: "nat \<Rightarrow> u8 \<Rightarrow> u8 list \<Rightarrow> u8 list" where
  "rtcp_packet n pt body = [0x80 OR of_nat n, pt] @ bytes16 (of_nat (length body div 4)) @ body"

definition rr_block :: "u32 \<Rightarrow> u8 \<Rightarrow> u32 \<Rightarrow> u32 \<Rightarrow> u32 \<Rightarrow> u32 \<Rightarrow> u32 \<Rightarrow> u8 list" where
  "rr_block ssrc frct lost seq jit lsr dlsr =
     bytes32 ssrc @ [frct] @ take 3 (bytes32 (push_bit 8 lost)) @
     bytes32 seq @ bytes32 jit @ bytes32 lsr @ bytes32 dlsr"

lemma length_rr_block [simp]: "length (rr_block ssrc frct lost seq jit lsr dlsr) = 24"
  by (simp add: rr_block_def)

lemma length_rtcp_packet [simp]: "length (rtcp_packet n pt body) = 4 + length body"
  by (simp add: rtcp_packet_def)

text \<open>Opening a packet: the header and the words of its fixed part.\<close>

lemma begin_packet:
  assumes "enc_at re m rest" "4 + 4 * length ws \<le> length rest" "k = 4 + 4 * length ws"
  shows "\<exists>re'. bindE (rtcp_encoder_set_current_pkt re) (\<lambda>re.
           bindE (put re (enc_rtcp re + 1) [pt]) (\<lambda>re.
           bindE (put_words re (enc_rtcp re + 4) ws) (\<lambda>re. Inr (advance k re, True)))) =
           Inr (re', True) \<and>
         enc_cur re' m 0 pt (concat (map bytes32 ws)) (drop k rest) \<and> chunk_begin re' = chunk_begin re"
proof -
  obtain r0 r1 r2 r3 tl where rest: "rest = [r0, r1, r2, r3] @ tl"
    using assms(2) by (auto simp: Suc_le_length_iff numeral_eq_Suc)
  let ?re1 = "re\<lparr>enc_rtcp := length m, enc_buf := m @ [0x80, pt, 0, 0] @ tl\<rparr>"
  have buf: "enc_buf re = m @ rest" "unat (write_ndx re) = length m" using assms(1) by (auto simp: enc_at_def)
  have z: "bytes16 0 = [0, 0]" by (simp add: bytes16_def)
  have s: "bindE (rtcp_encoder_set_current_pkt re) f = f (re\<lparr>enc_rtcp := length m,
      enc_buf := m @ [0x80, r1, 0, 0] @ tl\<rparr>)" for f :: "rtcp_encoder \<Rightarrow> (rtcp_encoder \<times> bool) res"
    using buf by (simp add: rtcp_encoder_set_current_pkt_def put_def wr_def rest z)
  have p: "put (re\<lparr>enc_rtcp := length m, enc_buf := m @ [0x80, r1, 0, 0] @ tl\<rparr>) (length m + 1) [pt] =
      Inr ?re1"
    by (simp add: put_def wr_def)
  have w: "put_words ?re1 (length m + 4) ws =
      Inr (?re1\<lparr>enc_buf := (m @ [0x80, pt, 0, 0]) @ concat (map bytes32 ws) @ drop (4 * length ws) tl\<rparr>)"
    using assms(2) by (intro put_words_here) (simp_all add: rest)
  let ?re' = "advance k (?re1\<lparr>enc_buf := (m @ [0x80, pt, 0, 0]) @ concat (map bytes32 ws) @
      drop (4 * length ws) tl\<rparr>)"
  have l: "length (concat (map bytes32 ws)) = 4 * length ws" by (induction ws) simp_all
  have "drop k rest = drop (4 * length ws) (drop 4 rest)"
    by (simp add: assms(3) add.commute)
  then have d: "drop k rest = drop (4 * length ws) tl" by (simp add: rest)
  have "enc_at ?re' (m @ [0x80, pt, 0, 0] @ concat (map bytes32 ws)) (drop k rest)"
    unfolding d using assms by (intro advance_at) (simp_all add: enc_at_def rest l)
  then have "enc_cur ?re' m 0 pt (concat (map bytes32 ws)) (drop k rest)"
    by (simp add: enc_cur_def advance_def)
  with s p w show ?thesis by (auto simp: advance_def)
qed

lemma sr_begin_at:
  assumes "enc_at re m rest"
  shows "if length rest < 28
    then rtcp_encoder_sr_begin re ssrc msb lsb ts pc oc = Inr (re, False)
    else \<exists>re'. rtcp_encoder_sr_begin re ssrc msb lsb ts pc oc = Inr (re', True) \<and>
      enc_cur re' m 0 200 (concat (map bytes32 [ssrc, msb, lsb, ts, pc, oc])) (drop 28 rest) \<and>
      chunk_begin re' = chunk_begin re"
proof (cases "length rest < 28")
  case True
  then show ?thesis using enc_at_space [OF assms] by (simp add: rtcp_encoder_sr_begin_def)
next
  case False
  then have "4 + 4 * length [ssrc, msb, lsb, ts, pc, oc] \<le> length rest" "28 = 4 + 4 * length [ssrc, msb, lsb, ts, pc, oc]" by simp_all
  from begin_packet [OF assms this, of 200] False enc_at_space [OF assms] show ?thesis
    by (simp only: rtcp_encoder_sr_begin_def rtcp_types) simp
qed

lemma rr_begin_at:
  assumes "enc_at re m rest"
  shows "if length rest < 8
    then rtcp_encoder_rr_begin re ssrc = Inr (re, False)
    else \<exists>re'. rtcp_encoder_rr_begin re ssrc = Inr (re', True) \<and>
      enc_cur re' m 0 201 (bytes32 ssrc) (drop 8 rest) \<and> chunk_begin re' = chunk_begin re"
proof (cases "length rest < 8")
  case True
  then show ?thesis using enc_at_space [OF assms] by (simp add: rtcp_encoder_rr_begin_def)
next
  case False
  then have "4 + 4 * length [ssrc] \<le> length rest" "8 = 4 + 4 * length [ssrc]" by simp_all
  from begin_packet [OF assms this, of 201] False enc_at_space [OF assms] show ?thesis
    by (simp only: rtcp_encoder_rr_begin_def rtcp_types) simp
qed

lemma sdes_begin_at:
  assumes "enc_at re m rest"
  shows "if length rest < 4
    then rtcp_encoder_sdes_begin re = Inr (re, False)
    else \<exists>re'. rtcp_encoder_sdes_begin re = Inr (re', True) \<and>
      enc_cur re' m 0 202 [] (drop 4 rest) \<and> chunk_begin re' = chunk_begin re"
  using begin_packet [OF assms, of "[]" 4 202] enc_at_space [OF assms]
  by (simp add: rtcp_encoder_sdes_begin_def rtcp_types)

lemma bye_begin_at:
  assumes "enc_at re m rest"
  shows "if length rest < 4
    then rtcp_encoder_bye_begin re = Inr (re, False)
    else \<exists>re'. rtcp_encoder_bye_begin re = Inr (re', True) \<and>
      enc_cur re' m 0 203 [] (drop 4 rest) \<and> chunk_begin re' = chunk_begin re"
  using begin_packet [OF assms, of "[]" 4 203] enc_at_space [OF assms]
  by (simp add: rtcp_encoder_bye_begin_def rtcp_types)

text \<open>Adding to the packet under construction: new octets at the write index, then the count.\<close>

lemma bump_count:
  assumes "enc_cur re pre n pt body rest" "Suc n < 32" "length bs \<le> length rest"
  shows "\<exists>re'. bindE (set_count (re\<lparr>enc_buf := (pre @ [0x80 OR of_nat n, pt, 0, 0] @ body) @ bs @
             drop (length bs) rest\<rparr>) (Suc n)) (\<lambda>re. Inr (advance (length bs) re, True)) = Inr (re', True) \<and>
         enc_cur re' pre (Suc n) pt (body @ bs) (drop (length bs) rest) \<and>
         chunk_begin re' = chunk_begin re"
proof -
  note cur = assms(1) [unfolded enc_cur_def enc_at_def]
  let ?re1 = "re\<lparr>enc_buf := pre @ (0x80 OR of_nat (Suc n)) # [pt, 0, 0] @ body @ bs @
      drop (length bs) rest\<rparr>"
  have c: "set_count (re\<lparr>enc_buf := (pre @ [0x80 OR of_nat n, pt, 0, 0] @ body) @ bs @
      drop (length bs) rest\<rparr>) (Suc n) = Inr ?re1"
    using cur assms(2) set_count_buf [of "re\<lparr>enc_buf := (pre @ [0x80 OR of_nat n, pt, 0, 0] @ body) @ bs @
      drop (length bs) rest\<rparr>" pre n "[pt, 0, 0] @ body @ bs @ drop (length bs) rest" "Suc n"]
    by simp
  have "enc_at (advance (length bs) ?re1) (pre @ [0x80 OR of_nat (Suc n), pt, 0, 0] @ (body @ bs))
      (drop (length bs) rest)"
    using cur assms(3) by (intro advance_at) simp_all
  then have "enc_cur (advance (length bs) ?re1) pre (Suc n) pt (body @ bs) (drop (length bs) rest)"
    using cur assms(2) by (simp add: enc_cur_def advance_def)
  with c show ?thesis by (auto simp: advance_def)
qed

lemma rr_block_at:
  assumes "enc_cur re pre n pt body rest" "4 + length body = base + 24 * n" "n < 31"
  shows "if length rest < 24
    then put_rr_block re base ssrc frct lost seq jit lsr dlsr = Inr (re, False)
    else \<exists>re'. put_rr_block re base ssrc frct lost seq jit lsr dlsr = Inr (re', True) \<and>
      enc_cur re' pre (Suc n) pt (body @ rr_block ssrc frct lost seq jit lsr dlsr) (drop 24 rest) \<and>
      chunk_begin re' = chunk_begin re"
proof (cases "length rest < 24")
  case True
  then show ?thesis
    using assms(1) enc_at_space [of re] by (auto simp: put_rr_block_def enc_cur_def)
next
  case False
  let ?m = "pre @ [0x80 OR of_nat n, pt, 0, 0] @ body"
  let ?l = "take 3 (bytes32 (push_bit 8 lost))"
  note cur = assms(1) [unfolded enc_cur_def enc_at_def]
  define rr where "rr = enc_rtcp re + base + 24 * n"
  have rr: "rr = length ?m" using cur assms(2) by (simp add: rr_def)
  have 1: "put_words re rr [ssrc] = Inr (re\<lparr>enc_buf := ?m @ bytes32 ssrc @ drop 4 rest\<rparr>)"
    using cur False rr put_words_here [of re ?m rest rr "[ssrc]"] by simp
  have 2: "put (re\<lparr>enc_buf := ?m @ bytes32 ssrc @ drop 4 rest\<rparr>) (rr + 4) [frct] =
      Inr (re\<lparr>enc_buf := (?m @ bytes32 ssrc @ [frct]) @ drop 5 rest\<rparr>)"
    using cur False rr put_here [of "re\<lparr>enc_buf := ?m @ bytes32 ssrc @ drop 4 rest\<rparr>"
      "?m @ bytes32 ssrc" "drop 4 rest" "rr + 4" "[frct]"] by simp
  have 3: "put (re\<lparr>enc_buf := (?m @ bytes32 ssrc @ [frct]) @ drop 5 rest\<rparr>) (rr + 5) ?l =
      Inr (re\<lparr>enc_buf := (?m @ bytes32 ssrc @ [frct] @ ?l) @ drop 8 rest\<rparr>)"
    using cur False rr put_here [of "re\<lparr>enc_buf := (?m @ bytes32 ssrc @ [frct]) @ drop 5 rest\<rparr>"
      "?m @ bytes32 ssrc @ [frct]" "drop 5 rest" "rr + 5" ?l] by simp
  have 4: "put_words (re\<lparr>enc_buf := (?m @ bytes32 ssrc @ [frct] @ ?l) @ drop 8 rest\<rparr>) (rr + 8)
      [seq, jit, lsr, dlsr] = Inr (re\<lparr>enc_buf := ?m @ rr_block ssrc frct lost seq jit lsr dlsr @
        drop 24 rest\<rparr>)"
    using cur False rr put_words_here [of "re\<lparr>enc_buf := (?m @ bytes32 ssrc @ [frct] @ ?l) @ drop 8 rest\<rparr>"
      "?m @ bytes32 ssrc @ [frct] @ ?l" "drop 8 rest" "rr + 8" "[seq, jit, lsr, dlsr]"]
    by (simp add: rr_block_def del: put_words.simps)
  have g: "get_count re = Inr n" by (rule get_count_cur [OF assms(1)])
  have sp: "\<not> unat (rtcp_encoder_space_left re) < 6 * 4"
    using False assms(1) enc_at_space [of re ?m rest] by (auto simp: enc_cur_def)
  have "put_rr_block re base ssrc frct lost seq jit lsr dlsr =
      bindE (set_count (re\<lparr>enc_buf := ?m @ rr_block ssrc frct lost seq jit lsr dlsr @ drop 24 rest\<rparr>) (Suc n))
        (\<lambda>re. Inr (advance 24 re, True))"
    unfolding put_rr_block_def g Let_def rr_def [symmetric] if_not_P [OF sp] bindE.simps 1 2 3 4
    by simp
  with bump_count [OF assms(1), of "rr_block ssrc frct lost seq jit lsr dlsr"] assms(3) False
  show ?thesis by simp
qed

text \<open>Closing a packet writes its length in 32-bit words minus one.\<close>

lemma end_packet_at:
  assumes "enc_cur re pre n pt body rest" "4 dvd length body"
  shows "\<exists>re'. rtcp_encoder_end_packet re = Inr re' \<and> enc_at re' (pre @ rtcp_packet n pt body) rest \<and>
    chunk_begin re' = chunk_begin re"
proof -
  note cur = assms(1) [unfolded enc_cur_def enc_at_def]
  obtain k where k: "length body = 4 * k" using assms(2) by auto
  have "unat (write_ndx re) = length pre + (4 + 4 * k)" using cur k by simp
  then have w: "write_ndx re = of_nat (length pre + (4 + 4 * k))"
    by (metis of_nat_unat ucast_id)
  have "write_ndx re - of_nat (enc_rtcp re) = of_nat (4 + 4 * k)"
    using cur by (simp only: w of_nat_add) simp
  moreover have "4 + 4 * k < 2 ^ LENGTH(32)" using cur k by simp
  ultimately have l: "unat (write_ndx re - of_nat (enc_rtcp re)) = 4 * Suc k"
    by (simp only: unat_of_nat_small) simp
  let ?re = "re\<lparr>enc_buf := pre @ [0x80 OR of_nat n, pt] @ bytes16 (of_nat k) @ body @ rest\<rparr>"
  have "put re (enc_rtcp re + 2) (bytes16 (of_nat k)) = Inr ?re"
    using cur by (simp add: put_def wr_def)
  then have "rtcp_encoder_end_packet re = Inr ?re"
    by (simp add: rtcp_encoder_end_packet_def l)
  moreover have "enc_at ?re (pre @ rtcp_packet n pt body) rest"
    using cur k by (simp add: enc_at_def rtcp_packet_def)
  ultimately show ?thesis by auto
qed

text \<open>Appending octets to the packet without touching its header.\<close>

lemma append_cur:
  assumes "enc_cur re pre n pt body rest" "length bs \<le> length rest"
  shows "enc_cur (advance (length bs) (re\<lparr>enc_buf := (pre @ [0x80 OR of_nat n, pt, 0, 0] @ body) @ bs @
      drop (length bs) rest\<rparr>)) pre n pt (body @ bs) (drop (length bs) rest)"
proof -
  note cur = assms(1) [unfolded enc_cur_def enc_at_def]
  have "enc_at (advance (length bs) (re\<lparr>enc_buf := (pre @ [0x80 OR of_nat n, pt, 0, 0] @ body) @ bs @
      drop (length bs) rest\<rparr>)) (pre @ [0x80 OR of_nat n, pt, 0, 0] @ body @ bs) (drop (length bs) rest)"
    using cur assms(2) by (intro advance_at) simp_all
  then show ?thesis using cur by (simp add: enc_cur_def advance_def)
qed

lemma cur_space: "enc_cur re pre n pt body rest \<Longrightarrow> unat (rtcp_encoder_space_left re) = length rest"
  using enc_at_space [of re] by (auto simp: enc_cur_def)

lemma cur_write_ndx:
  assumes "enc_cur re pre n pt body rest"
  shows "unat (write_ndx re) = length pre + (4 + length body)"
    "write_ndx re = of_nat (length pre + (4 + length body))"
proof -
  show u: "unat (write_ndx re) = length pre + (4 + length body)"
    using assms by (simp add: enc_cur_def enc_at_def)
  show "write_ndx re = of_nat (length pre + (4 + length body))"
    unfolding u [symmetric] by simp
qed

lemma chunk_begin_at:
  assumes "enc_cur re pre n pt body rest" "n < 31"
  shows "if length rest < 4
    then rtcp_encoder_sdes_chunk_begin re ssrc = Inr (re, False)
    else \<exists>re'. rtcp_encoder_sdes_chunk_begin re ssrc = Inr (re', True) \<and>
      enc_cur re' pre (Suc n) pt (body @ bytes32 ssrc) (drop 4 rest) \<and>
      chunk_begin re' = of_nat (length pre + (4 + length body))"
proof (cases "length rest < 4")
  case True
  then show ?thesis
    using cur_space [OF assms(1)] by (simp add: rtcp_encoder_sdes_chunk_begin_def)
next
  case False
  note cur = assms(1) [unfolded enc_cur_def enc_at_def]
  let ?m = "pre @ (0x80 OR of_nat (Suc n)) # [pt, 0, 0] @ body"
  let ?re1 = "re\<lparr>enc_buf := ?m @ rest\<rparr>"
  have c: "set_count re (Suc n) = Inr ?re1"
    using cur assms(2) set_count_buf [of re pre n "[pt, 0, 0] @ body @ rest" "Suc n"] by simp
  have w: "put_words ?re1 (unat (write_ndx ?re1)) [ssrc] = Inr (?re1\<lparr>enc_buf := ?m @ bytes32 ssrc @ drop 4 rest\<rparr>)"
    using cur False put_words_here [of ?re1 ?m rest "unat (write_ndx ?re1)" "[ssrc]"] by simp
  have cur1: "enc_cur (?re1\<lparr>chunk_begin := write_ndx re\<rparr>) pre (Suc n) pt body rest"
    using cur assms(2) by (simp add: enc_cur_def enc_at_def)
  let ?re2 = "advance 4 (?re1\<lparr>chunk_begin := write_ndx re, enc_buf := ?m @ bytes32 ssrc @ drop 4 rest\<rparr>)"
  have "enc_cur ?re2 pre (Suc n) pt (body @ bytes32 ssrc) (drop 4 rest)"
    using append_cur [OF cur1, of "bytes32 ssrc"] False by simp
  moreover have "rtcp_encoder_sdes_chunk_begin re ssrc = Inr (?re2, True)"
    using cur_space [OF assms(1)] False c w
    by (simp add: rtcp_encoder_sdes_chunk_begin_def get_count_cur [OF assms(1)] advance_def
        del: put_words.simps)
  ultimately show ?thesis
    using False cur_write_ndx(2) [OF assms(1)] by (simp add: advance_def)
qed

lemma add_cname_at:
  assumes "enc_cur re pre n pt body rest" "unat len \<le> length name"
  shows "if length rest < unat len + 2
    then rtcp_encoder_sdes_chunk_add_cname re name len = Inr (re, False)
    else \<exists>re'. rtcp_encoder_sdes_chunk_add_cname re name len = Inr (re', True) \<and>
      enc_cur re' pre n pt (body @ [1, len] @ take (unat len) name) (drop (2 + unat len) rest) \<and>
      chunk_begin re' = chunk_begin re"
proof (cases "length rest < unat len + 2")
  case True
  then show ?thesis
    using cur_space [OF assms(1)] by (simp add: rtcp_encoder_sdes_chunk_add_cname_def)
next
  case False
  note cur = assms(1) [unfolded enc_cur_def enc_at_def]
  let ?m = "pre @ [0x80 OR of_nat n, pt, 0, 0] @ body"
  let ?nm = "take (unat len) name"
  have 1: "put re (unat (write_ndx re)) [1] = Inr (re\<lparr>enc_buf := ?m @ [1] @ drop 1 rest\<rparr>)"
    using cur False put_here [of re ?m rest "unat (write_ndx re)" "[1]"] by simp
  have 2: "put (re\<lparr>enc_buf := ?m @ [1] @ drop 1 rest\<rparr>) (unat (write_ndx re) + 1) [len] =
      Inr (re\<lparr>enc_buf := ?m @ [1, len] @ drop 2 rest\<rparr>)"
    using cur False put_here [of "re\<lparr>enc_buf := ?m @ [1] @ drop 1 rest\<rparr>" "?m @ [1]" "drop 1 rest"
      "unat (write_ndx re) + 1" "[len]"] by (simp add: numeral_2_eq_2)
  have 3: "put (re\<lparr>enc_buf := ?m @ [1, len] @ drop 2 rest\<rparr>) (unat (write_ndx re) + 2) ?nm =
      Inr (re\<lparr>enc_buf := ?m @ ([1, len] @ ?nm) @ drop (2 + unat len) rest\<rparr>)"
    using cur False assms(2) put_here [of "re\<lparr>enc_buf := ?m @ [1, len] @ drop 2 rest\<rparr>" "?m @ [1, len]"
      "drop 2 rest" "unat (write_ndx re) + 2" ?nm] by (simp add: add.commute)
  let ?re' = "advance (2 + unat len) (re\<lparr>enc_buf := ?m @ ([1, len] @ ?nm) @ drop (2 + unat len) rest\<rparr>)"
  have l: "length ([1, len] @ ?nm) = 2 + unat len" using assms(2) by simp
  have "enc_cur ?re' pre n pt (body @ [1, len] @ ?nm) (drop (2 + unat len) rest)"
    using append_cur [OF assms(1), of "[1, len] @ ?nm"] False l by (simp only: l)
  moreover have "rtcp_encoder_sdes_chunk_add_cname re name len = Inr (?re', True)"
    using cur_space [OF assms(1)] False assms(2) 1 2 3
    by (simp add: rtcp_encoder_sdes_chunk_add_cname_def rtcp_types Let_def)
  ultimately show ?thesis using False by (simp add: advance_def)
qed

text \<open>The octets that end a chunk: one null octet and the padding to a multiple of four.\<close>

definition chunk_zeros :: "nat \<Rightarrow> nat" where
  "chunk_zeros k = 4 - k mod 4"

lemma chunk_zeros_align: "4 dvd k + chunk_zeros k"
proof -
  have "k mod 4 + (4 - k mod 4) = 4" using mod_less_divisor [of 4 k] by simp
  then have "k + chunk_zeros k = 4 * (k div 4) + 4"
    unfolding chunk_zeros_def using mult_div_mod_eq [of 4 k] by linarith
  then show ?thesis by simp
qed

lemma zeros_cur:
  assumes "enc_cur re pre n pt body rest" "k \<le> length rest"
  shows "\<exists>re'. put_zeros k re = Inr re' \<and> enc_cur re' pre n pt (body @ replicate k 0) (drop k rest) \<and>
    chunk_begin re' = chunk_begin re"
proof -
  have at: "enc_at re (pre @ [0x80 OR of_nat n, pt, 0, 0] @ body) rest"
    using assms(1) by (simp add: enc_cur_def)
  from put_zeros_here [OF at assms(2)] obtain re' where "put_zeros k re = Inr re'"
    "enc_at re' ((pre @ [0x80 OR of_nat n, pt, 0, 0] @ body) @ replicate k 0) (drop k rest)"
    "enc_rtcp re' = enc_rtcp re" "chunk_begin re' = chunk_begin re" by blast
  with assms(1) show ?thesis by (auto simp: enc_cur_def)
qed

lemma chunk_end_at:
  assumes "enc_cur re pre n pt body rest" "chunk_begin re = of_nat (length pre + (4 + c))"
    "c \<le> length body" "z = chunk_zeros (length body - c)"
  shows "if length rest < z
    then \<exists>re'. rtcp_encoder_sdes_chunk_end re = Inr (re', False) \<and>
      enc_cur re' pre n pt (if rest = [] then body else body @ [0]) (drop 1 rest) \<and>
      chunk_begin re' = chunk_begin re
    else \<exists>re'. rtcp_encoder_sdes_chunk_end re = Inr (re', True) \<and>
      enc_cur re' pre n pt (body @ replicate z 0) (drop z rest) \<and> chunk_begin re' = chunk_begin re"
proof (cases "rest = []")
  case True
  then show ?thesis
    using cur_space [OF assms(1)] assms(1,4)
    by (simp add: rtcp_encoder_sdes_chunk_end_def chunk_zeros_def)
next
  case False
  then have "1 \<le> length rest" by (cases rest) auto
  from zeros_cur [OF assms(1) this] obtain re1 where
    re1: "put_zeros 1 re = Inr re1" "enc_cur re1 pre n pt (body @ [0]) (drop 1 rest)"
      "chunk_begin re1 = chunk_begin re" by auto
  define sz where "sz = Suc (length body - c)"
  have "write_ndx re1 = of_nat (length pre + (4 + c)) + of_nat sz"
    using cur_write_ndx(2) [OF re1(2)] assms(3) by (simp add: sz_def of_nat_diff)
  then have "write_ndx re1 - chunk_begin re1 = of_nat sz"
    using re1(3) assms(2) by simp
  moreover have "length body < 256" using assms(1) by (simp add: enc_cur_def enc_at_def)
  then have "sz < 2 ^ LENGTH(32)" unfolding sz_def by simp
  ultimately have sz: "unat (write_ndx re1 - chunk_begin re1) = sz"
    by (simp only: unat_of_nat_small)
  have sp: "\<not> unat (rtcp_encoder_space_left re) < 1"
    using cur_space [OF assms(1)] False by simp
  have sp1: "unat (rtcp_encoder_space_left re1) = length rest - 1"
    using cur_space [OF re1(2)] by simp
  have e: "rtcp_encoder_sdes_chunk_end re =
     (if sz mod 4 \<noteq> 0 then
        if length rest - 1 < 4 - sz mod 4 then Inr (re1, False)
        else bindE (put_zeros (4 - sz mod 4) re1) (\<lambda>re. Inr (re, True))
      else Inr (re1, True))"
    by (simp only: rtcp_encoder_sdes_chunk_end_def if_not_P [OF sp] re1(1) bindE.simps Let_def sz sp1)
  have z: "z = (if sz mod 4 = 0 then 1 else Suc (4 - sz mod 4))"
    using mod_less_divisor [of 4 "length body - c"]
    unfolding assms(4) chunk_zeros_def sz_def mod_Suc by auto
  show ?thesis
  proof (cases "sz mod 4 = 0")
    case True
    then show ?thesis using e z re1 False by (cases rest) auto
  next
    case m: False
    show ?thesis
    proof (cases "length rest < z")
      case True
      then show ?thesis using e z m re1 False by auto
    next
      case False
      then have "4 - sz mod 4 \<le> length (drop 1 rest)" using z m by auto
      from zeros_cur [OF re1(2) this] obtain re2 where
        "put_zeros (4 - sz mod 4) re1 = Inr re2"
        "enc_cur re2 pre n pt ((body @ [0]) @ replicate (4 - sz mod 4) 0) (drop (4 - sz mod 4) (drop 1 rest))"
        "chunk_begin re2 = chunk_begin re1" by blast
      then show ?thesis using e z m re1(3) False by auto
    qed
  qed
qed

lemma bye_add_ssrc_at:
  assumes "enc_cur re pre n pt body rest" "length body = 4 * n" "n < 31"
  shows "if length rest < 4
    then rtcp_encoder_bye_add_ssrc re ssrc = Inr (re, False)
    else \<exists>re'. rtcp_encoder_bye_add_ssrc re ssrc = Inr (re', True) \<and>
      enc_cur re' pre (Suc n) pt (body @ bytes32 ssrc) (drop 4 rest) \<and>
      chunk_begin re' = chunk_begin re"
proof (cases "length rest < 4")
  case True
  then show ?thesis using cur_space [OF assms(1)] by (simp add: rtcp_encoder_bye_add_ssrc_def)
next
  case False
  note cur = assms(1) [unfolded enc_cur_def enc_at_def]
  let ?m = "pre @ [0x80 OR of_nat n, pt, 0, 0] @ body"
  have w: "put_words re (enc_rtcp re + 4 + 4 * n) [ssrc] =
      Inr (re\<lparr>enc_buf := ?m @ bytes32 ssrc @ drop 4 rest\<rparr>)"
    using cur False assms(2) put_words_here [of re ?m rest "enc_rtcp re + 4 + 4 * n" "[ssrc]"] by simp
  have sp: "\<not> unat (rtcp_encoder_space_left re) < 4"
    using False cur_space [OF assms(1)] by simp
  have "rtcp_encoder_bye_add_ssrc re ssrc =
      bindE (set_count (re\<lparr>enc_buf := ?m @ bytes32 ssrc @ drop 4 rest\<rparr>) (Suc n))
        (\<lambda>re. Inr (advance 4 re, True))"
    unfolding rtcp_encoder_bye_add_ssrc_def if_not_P [OF sp] get_count_cur [OF assms(1)] bindE.simps w
    by simp
  with bump_count [OF assms(1), of "bytes32 ssrc"] assms(3) False show ?thesis by simp
qed

text \<open>The octets of a reason: its length, its text and the padding.\<close>

definition reason_bytes :: "u8 list \<Rightarrow> u8 list" where
  "reason_bytes reason =
     (let n = length reason; pad = (if (1 + n) mod 4 \<noteq> 0 then 4 - (1 + n) mod 4 else 0)
      in [of_nat n] @ reason @ replicate pad 0)"

lemma length_reason_bytes: "4 dvd length (reason_bytes reason)"
proof -
  let ?x = "1 + length reason"
  have "4 dvd ?x + (if ?x mod 4 \<noteq> 0 then 4 - ?x mod 4 else 0)"
    using chunk_zeros_align [of ?x] by (auto simp: chunk_zeros_def dvd_eq_mod_eq_0 simp del: One_nat_def)
  then show ?thesis by (simp add: reason_bytes_def Let_def add.assoc)
qed

lemma bye_add_reason_at:
  assumes "enc_cur re pre n pt body rest" "length reason < 256"
  shows "if length rest < length (reason_bytes reason)
    then rtcp_encoder_bye_add_reason re reason = Inr (re, False)
    else \<exists>re'. rtcp_encoder_bye_add_reason re reason = Inr (re', True) \<and>
      enc_cur re' pre n pt (body @ reason_bytes reason) (drop (length (reason_bytes reason)) rest) \<and>
      chunk_begin re' = chunk_begin re"
proof -
  define k where "k = length reason"
  define pad where "pad = (if (1 + k) mod 4 \<noteq> 0 then 4 - (1 + k) mod 4 else 0)"
  have k: "unat (of_nat k :: u8) = k" using assms(2) by (simp add: k_def unat_of_nat_small)
  have rb: "reason_bytes reason = [of_nat k] @ reason @ replicate pad 0"
    by (simp add: reason_bytes_def k_def pad_def Let_def)
  have lrb: "length (reason_bytes reason) = 1 + k + pad" by (simp add: rb k_def)
  have tk: "take k reason = reason" by (simp add: k_def)
  have e: "rtcp_encoder_bye_add_reason re reason =
     (if length rest < 1 + k + pad then Inr (re, False)
      else bindE (put re (unat (write_ndx re)) [of_nat k]) (\<lambda>re.
        bindE (put (advance 1 re) (unat (write_ndx (advance 1 re))) reason) (\<lambda>re.
        bindE (put_zeros pad (advance k re)) (\<lambda>re.
        Inr (re, True)))))"
    using cur_space [OF assms(1)]
    by (simp only: rtcp_encoder_bye_add_reason_def k_def [symmetric] k Let_def pad_def [symmetric] tk)
  show ?thesis
  proof (cases "length rest < 1 + k + pad")
    case True
    then show ?thesis using e lrb by simp
  next
    case False
    let ?re1 = "advance 1 (re\<lparr>enc_buf := (pre @ [0x80 OR of_nat n, pt, 0, 0] @ body) @ [of_nat k] @
        drop 1 rest\<rparr>)"
    let ?re2 = "advance k (?re1\<lparr>enc_buf := (pre @ [0x80 OR of_nat n, pt, 0, 0] @ body @ [of_nat k]) @
        reason @ drop k (drop 1 rest)\<rparr>)"
    have c1: "enc_cur ?re1 pre n pt (body @ [of_nat k]) (drop 1 rest)"
      using append_cur [OF assms(1), of "[of_nat k]"] False by simp
    have c2: "enc_cur ?re2 pre n pt ((body @ [of_nat k]) @ reason) (drop k (drop 1 rest))"
      using append_cur [OF c1, of reason] False by (simp only: k_def [symmetric]) simp
    have p1: "put re (unat (write_ndx re)) [of_nat k] =
        Inr (re\<lparr>enc_buf := (pre @ [0x80 OR of_nat n, pt, 0, 0] @ body) @ [of_nat k] @ drop 1 rest\<rparr>)"
      using assms(1) False
        put_here [of re "pre @ [0x80 OR of_nat n, pt, 0, 0] @ body" rest _ "[of_nat k]"]
      by (simp add: enc_cur_def enc_at_def)
    have p2: "put ?re1 (unat (write_ndx ?re1)) reason =
        Inr (?re1\<lparr>enc_buf := (pre @ [0x80 OR of_nat n, pt, 0, 0] @ body @ [of_nat k]) @ reason @
          drop k (drop 1 rest)\<rparr>)"
      using c1 False put_here [of ?re1 "pre @ [0x80 OR of_nat n, pt, 0, 0] @ body @ [of_nat k]"
          "drop 1 rest" _ reason]
      by (simp add: enc_cur_def enc_at_def k_def)
    have "pad \<le> length (drop k (drop 1 rest))" using False by simp
    from zeros_cur [OF c2 this] obtain re3 where re3: "put_zeros pad ?re2 = Inr re3"
      "enc_cur re3 pre n pt (((body @ [of_nat k]) @ reason) @ replicate pad 0) (drop pad (drop k (drop 1 rest)))"
      "chunk_begin re3 = chunk_begin ?re2" by blast
    have "rtcp_encoder_bye_add_reason re reason = Inr (re3, True)"
      unfolding e if_not_P [OF False] p1 bindE.simps p2 re3(1) ..
    moreover have "chunk_begin re3 = chunk_begin re" using re3(3) by (simp add: advance_def)
    ultimately show ?thesis
      using re3(2) False by (simp add: lrb) (simp add: rb add.commute add.left_commute)
  qed
qed

section \<open>The encoder against a specification\<close>

text \<open>
  The specification keeps the complete packets, and of the packet under construction its
  count, type and body; there is no buffer, no write index and no field that is patched. The
  only limit is the size of the whole message. \<open>None\<close> marks a call out of order.
\<close>

datatype enc_op =
    SrBegin u32 u32 u32 u32 u32 u32
  | SrAddRr u32 u8 u32 u32 u32 u32 u32
  | RrBegin u32
  | RrAddRr u32 u8 u32 u32 u32 u32 u32
  | SdesBegin
  | SdesChunkBegin u32
  | SdesChunkAddCname "u8 list"
  | SdesChunkEnd
  | ByeBegin
  | ByeAddSsrc u32
  | ByeAddReason "u8 list"
  | EndPacket

fun enc_exec :: "enc_op \<Rightarrow> rtcp_encoder \<Rightarrow> (rtcp_encoder \<times> bool) res" where
  "enc_exec (SrBegin a b c d e f) re = rtcp_encoder_sr_begin re a b c d e f"
| "enc_exec (SrAddRr a b c d e f g) re = rtcp_encoder_sr_add_rr re a b c d e f g"
| "enc_exec (RrBegin a) re = rtcp_encoder_rr_begin re a"
| "enc_exec (RrAddRr a b c d e f g) re = rtcp_encoder_rr_add_rr re a b c d e f g"
| "enc_exec SdesBegin re = rtcp_encoder_sdes_begin re"
| "enc_exec (SdesChunkBegin a) re = rtcp_encoder_sdes_chunk_begin re a"
| "enc_exec (SdesChunkAddCname n) re = rtcp_encoder_sdes_chunk_add_cname re n (of_nat (length n))"
| "enc_exec SdesChunkEnd re = rtcp_encoder_sdes_chunk_end re"
| "enc_exec ByeBegin re = rtcp_encoder_bye_begin re"
| "enc_exec (ByeAddSsrc a) re = rtcp_encoder_bye_add_ssrc re a"
| "enc_exec (ByeAddReason r) re = rtcp_encoder_bye_add_reason re r"
| "enc_exec EndPacket re = bindE (rtcp_encoder_end_packet re) (\<lambda>re. Inr (re, True))"

record enc_spec =
  sp_done :: "u8 list"
  sp_pkt :: "(nat \<times> u8 \<times> u8 list) option"
  sp_chunk :: nat

definition sp_size :: "enc_spec \<Rightarrow> nat" where
  "sp_size st = length (sp_done st) + (case sp_pkt st of None \<Rightarrow> 0 | Some (n, pt, b) \<Rightarrow> 4 + length b)"

definition sp_open :: "enc_spec \<Rightarrow> u8 \<Rightarrow> u8 list \<Rightarrow> (enc_spec \<times> bool) option" where
  "sp_open st pt b =
     (if sp_pkt st \<noteq> None then None
      else if sp_size st + 4 + length b \<le> 256 then Some (st\<lparr>sp_pkt := Some (0, pt, b)\<rparr>, True)
      else Some (st, False))"

definition sp_add :: "enc_spec \<Rightarrow> bool \<Rightarrow> u8 list \<Rightarrow> (enc_spec \<times> bool) option" where
  "sp_add st counted bs =
     (case sp_pkt st of None \<Rightarrow> None
      | Some (n, pt, b) \<Rightarrow>
          if sp_size st + length bs \<le> 256
          then Some (st\<lparr>sp_pkt := Some (if counted then Suc n else n, pt, b @ bs)\<rparr>, True)
          else Some (st, False))"

text \<open>A report or a source may only be added to a packet of its kind that holds fewer than 31
  of them and nothing else.\<close>

definition sp_room :: "enc_spec \<Rightarrow> u8 \<Rightarrow> nat \<Rightarrow> nat \<Rightarrow> bool" where
  "sp_room st pt fixed item \<longleftrightarrow>
     (case sp_pkt st of None \<Rightarrow> False
      | Some (n, pt', b) \<Rightarrow> pt' = pt \<and> n < 31 \<and> length b = fixed + item * n)"

fun enc_spec_exec :: "enc_op \<Rightarrow> enc_spec \<Rightarrow> (enc_spec \<times> bool) option" where
  "enc_spec_exec (SrBegin a b c d e f) st = sp_open st 200 (concat (map bytes32 [a, b, c, d, e, f]))"
| "enc_spec_exec (SrAddRr a b c d e f g) st =
     (if sp_room st 200 24 24 then sp_add st True (rr_block a b c d e f g) else None)"
| "enc_spec_exec (RrBegin a) st = sp_open st 201 (bytes32 a)"
| "enc_spec_exec (RrAddRr a b c d e f g) st =
     (if sp_room st 201 4 24 then sp_add st True (rr_block a b c d e f g) else None)"
| "enc_spec_exec SdesBegin st = sp_open st 202 []"
| "enc_spec_exec (SdesChunkBegin a) st =
     (case sp_pkt st of
        Some (n, pt, b) \<Rightarrow>
          if pt = 202 \<and> n < 31 then
            map_option (\<lambda>(st', ok). (if ok then st'\<lparr>sp_chunk := length b\<rparr> else st', ok))
              (sp_add st True (bytes32 a))
          else None
      | None \<Rightarrow> None)"
| "enc_spec_exec (SdesChunkAddCname n) st =
     (if length n < 256 then sp_add st False ([1, of_nat (length n)] @ n) else None)"
| "enc_spec_exec SdesChunkEnd st =
     (case sp_pkt st of
        Some (n, pt, b) \<Rightarrow>
          if pt = 202 \<and> n \<noteq> 0 \<and> sp_chunk st \<le> length b then
            let z = chunk_zeros (length b - sp_chunk st) in
            if sp_size st + z \<le> 256 then sp_add st False (replicate z 0)
            else if sp_size st = 256 then Some (st, False)
            else map_option (\<lambda>(st', ok). (st', False)) (sp_add st False [0])
          else None
      | None \<Rightarrow> None)"
| "enc_spec_exec ByeBegin st = sp_open st 203 []"
| "enc_spec_exec (ByeAddSsrc a) st =
     (if sp_room st 203 0 4 then sp_add st True (bytes32 a) else None)"
| "enc_spec_exec (ByeAddReason r) st =
     (if length r < 256 then sp_add st False (reason_bytes r) else None)"
| "enc_spec_exec EndPacket st =
     (case sp_pkt st of
        Some (n, pt, b) \<Rightarrow>
          if 4 dvd length b
          then Some (st\<lparr>sp_done := sp_done st @ rtcp_packet n pt b, sp_pkt := None\<rparr>, True)
          else None
      | None \<Rightarrow> None)"

definition enc_sim :: "rtcp_encoder \<Rightarrow> enc_spec \<Rightarrow> bool" where
  "enc_sim re st \<longleftrightarrow>
     (case sp_pkt st of
        None \<Rightarrow> \<exists>rest. enc_at re (sp_done st) rest
      | Some (n, pt, b) \<Rightarrow>
          (\<exists>rest. enc_cur re (sp_done st) n pt b rest) \<and>
          (pt = 202 \<and> n \<noteq> 0 \<longrightarrow> chunk_begin re = of_nat (length (sp_done st) + (4 + sp_chunk st))))"

text \<open>How much room the buffer has.\<close>

lemma enc_sim_open:
  assumes "enc_sim re st" "sp_open st pt b = Some (st', ok)"
  obtains rest where "enc_at re (sp_done st) rest" "length (sp_done st) + length rest = 256"
    "ok \<longleftrightarrow> 4 + length b \<le> length rest"
    "st' = (if ok then st\<lparr>sp_pkt := Some (0, pt, b)\<rparr> else st)" "sp_pkt st = None"
proof -
  have n: "sp_pkt st = None" using assms(2) by (cases "sp_pkt st = None") (simp_all add: sp_open_def)
  with assms(1) obtain rest where at: "enc_at re (sp_done st) rest" by (auto simp: enc_sim_def)
  then have l: "length (sp_done st) + length rest = 256" by (simp add: enc_at_def)
  show thesis
  proof (rule that [OF at l _ _ n])
    show "ok \<longleftrightarrow> 4 + length b \<le> length rest" "st' = (if ok then st\<lparr>sp_pkt := Some (0, pt, b)\<rparr> else st)"
      using assms(2) n l by (auto simp: sp_open_def sp_size_def split: if_splits)
  qed
qed

lemma enc_sim_add:
  assumes "enc_sim re st" "sp_add st counted bs = Some (st', ok)"
  obtains n pt b rest where "sp_pkt st = Some (n, pt, b)" "enc_cur re (sp_done st) n pt b rest"
    "pt = 202 \<and> n \<noteq> 0 \<longrightarrow> chunk_begin re = of_nat (length (sp_done st) + (4 + sp_chunk st))"
    "ok \<longleftrightarrow> length bs \<le> length rest" "sp_size st + length rest = 256"
    "st' = (if ok then st\<lparr>sp_pkt := Some (if counted then Suc n else n, pt, b @ bs)\<rparr> else st)"
proof -
  obtain n pt b where p: "sp_pkt st = Some (n, pt, b)"
    using assms(2) by (auto simp: sp_add_def split: option.splits)
  with assms(1) obtain rest where cur: "enc_cur re (sp_done st) n pt b rest"
    "pt = 202 \<and> n \<noteq> 0 \<longrightarrow> chunk_begin re = of_nat (length (sp_done st) + (4 + sp_chunk st))"
    by (auto simp: enc_sim_def)
  have sz: "sp_size st + length rest = 256"
    using cur p by (simp add: enc_cur_def enc_at_def sp_size_def)
  have "ok \<longleftrightarrow> length bs \<le> length rest"
    "st' = (if ok then st\<lparr>sp_pkt := Some (if counted then Suc n else n, pt, b @ bs)\<rparr> else st)"
    using assms(2) p sz by (auto simp: sp_add_def split: if_splits)
  with that p cur sz show thesis by blast
qed

lemma sim_begin:
  assumes "enc_sim re st" "sp_open st pt b = Some (st', ok)"
    and "\<And>rest. enc_at re (sp_done st) rest \<Longrightarrow>
      if length rest < 4 + length b then f = Inr (re, False)
      else \<exists>re'. f = Inr (re', True) \<and> enc_cur re' (sp_done st) 0 pt b (drop (4 + length b) rest) \<and>
        chunk_begin re' = chunk_begin re"
  shows "\<exists>re'. f = Inr (re', ok) \<and> enc_sim re' st'"
proof -
  obtain rest where r: "enc_at re (sp_done st) rest" "ok \<longleftrightarrow> 4 + length b \<le> length rest"
    "st' = (if ok then st\<lparr>sp_pkt := Some (0, pt, b)\<rparr> else st)"
    using enc_sim_open [OF assms(1,2)] by metis
  show ?thesis
  proof (cases ok)
    case True
    with r assms(3) [OF r(1)] show ?thesis by (auto simp: enc_sim_def)
  next
    case False
    with r assms(1) assms(3) [OF r(1)] show ?thesis by auto
  qed
qed

lemma sim_add:
  assumes "enc_sim re st" "sp_add st counted bs = Some (st', ok)"
    and "\<And>n pt b rest. \<lbrakk>sp_pkt st = Some (n, pt, b); enc_cur re (sp_done st) n pt b rest\<rbrakk> \<Longrightarrow>
      if length rest < length bs then f = Inr (re, False)
      else \<exists>re'. f = Inr (re', True) \<and>
        enc_cur re' (sp_done st) (if counted then Suc n else n) pt (b @ bs) (drop (length bs) rest) \<and>
        (counted \<longrightarrow> pt \<noteq> 202) \<and> chunk_begin re' = chunk_begin re"
  shows "\<exists>re'. f = Inr (re', ok) \<and> enc_sim re' st'"
proof -
  obtain n pt b rest where r: "sp_pkt st = Some (n, pt, b)" "enc_cur re (sp_done st) n pt b rest"
    "pt = 202 \<and> n \<noteq> 0 \<longrightarrow> chunk_begin re = of_nat (length (sp_done st) + (4 + sp_chunk st))"
    "ok \<longleftrightarrow> length bs \<le> length rest"
    "st' = (if ok then st\<lparr>sp_pkt := Some (if counted then Suc n else n, pt, b @ bs)\<rparr> else st)"
    using enc_sim_add [OF assms(1,2)] by metis
  show ?thesis
  proof (cases ok)
    case True
    then obtain re' where re': "f = Inr (re', True)" "chunk_begin re' = chunk_begin re"
      "enc_cur re' (sp_done st) (if counted then Suc n else n) pt (b @ bs) (drop (length bs) rest)"
      "counted \<longrightarrow> pt \<noteq> 202"
      using assms(3) [OF r(1,2)] r(4) by auto
    then have "enc_sim re' st'"
      using r True by (auto simp: enc_sim_def)
    with True re'(1) show ?thesis by auto
  next
    case False
    with r assms(1) assms(3) [OF r(1,2)] show ?thesis by auto
  qed
qed

lemma sim_add_rr:
  assumes "enc_sim re st" "sp_room st pt fixed 24" "sp_add st True (rr_block a b c d e f g) = Some (st', ok)"
    "base = fixed + 4" "pt \<noteq> 202"
  shows "\<exists>re'. put_rr_block re base a b c d e f g = Inr (re', ok) \<and> enc_sim re' st'"
  using assms(1,3)
proof (rule sim_add)
  fix n pt' body rest
  assume st: "sp_pkt st = Some (n, pt', body)" and cur: "enc_cur re (sp_done st) n pt' body rest"
  have "pt' = pt" "n < 31" "4 + length body = base + 24 * n"
    using assms(2,4) st by (auto simp: sp_room_def)
  then show "if length rest < length (rr_block a b c d e f g)
      then put_rr_block re base a b c d e f g = Inr (re, False)
      else \<exists>re'. put_rr_block re base a b c d e f g = Inr (re', True) \<and>
        enc_cur re' (sp_done st) (if True then Suc n else n) pt' (body @ rr_block a b c d e f g)
          (drop (length (rr_block a b c d e f g)) rest) \<and>
        (True \<longrightarrow> pt' \<noteq> 202) \<and> chunk_begin re' = chunk_begin re"
    using rr_block_at [OF cur, of base a b c d e f g] assms(5) by auto
qed

lemma sim_chunk_begin:
  assumes "enc_sim re st" "enc_spec_exec (SdesChunkBegin a) st = Some (st', ok)"
  shows "\<exists>re'. rtcp_encoder_sdes_chunk_begin re a = Inr (re', ok) \<and> enc_sim re' st'"
proof -
  obtain n b st1 where p: "sp_pkt st = Some (n, 202, b)" "n < 31"
    and add: "sp_add st True (bytes32 a) = Some (st1, ok)"
    and st': "st' = (if ok then st1\<lparr>sp_chunk := length b\<rparr> else st1)"
    using assms(2) by (auto split: option.splits if_splits prod.splits)
  obtain rest where r: "enc_cur re (sp_done st) n 202 b rest" "ok \<longleftrightarrow> 4 \<le> length rest"
    "st1 = (if ok then st\<lparr>sp_pkt := Some (Suc n, 202, b @ bytes32 a)\<rparr> else st)"
    by (rule enc_sim_add [OF assms(1) add]) (use p in auto)
  show ?thesis
    using chunk_begin_at [OF r(1) p(2), of a] r(2,3) st' assms(1)
    by (cases ok) (auto simp: enc_sim_def)
qed

lemma sim_chunk_end:
  assumes "enc_sim re st" "enc_spec_exec SdesChunkEnd st = Some (st', ok)"
  shows "\<exists>re'. rtcp_encoder_sdes_chunk_end re = Inr (re', ok) \<and> enc_sim re' st'"
proof -
  obtain n b where p: "sp_pkt st = Some (n, 202, b)" "n \<noteq> 0" "sp_chunk st \<le> length b"
    using assms(2) by (auto split: option.splits if_splits)
  define z where "z = chunk_zeros (length b - sp_chunk st)"
  obtain rest where r: "enc_cur re (sp_done st) n 202 b rest"
    "chunk_begin re = of_nat (length (sp_done st) + (4 + sp_chunk st))"
    using assms(1) p by (auto simp: enc_sim_def)
  have sz: "sp_size st + length rest = 256"
    using r(1) p by (simp add: enc_cur_def enc_at_def sp_size_def)
  note e = chunk_end_at [OF r p(3) z_def]
  have x: "(if sp_size st + z \<le> 256 then sp_add st False (replicate z 0)
      else if sp_size st = 256 then Some (st, False)
      else map_option (\<lambda>(st', ok). (st', False)) (sp_add st False [0])) = Some (st', ok)"
    using assms(2) p unfolding z_def by (simp add: Let_def split del: if_split)
  consider "z \<le> length rest" | "length rest < z" "rest = []" | "length rest < z" "rest \<noteq> []"
    by fastforce
  then show ?thesis
  proof cases
    case 1
    with x p sz have "ok" "st' = st\<lparr>sp_pkt := Some (n, 202, b @ replicate z 0)\<rparr>"
      by (auto simp: sp_add_def split: if_splits)
    with e 1 r(2) show ?thesis by (auto simp: enc_sim_def)
  next
    case 2
    with x sz have "\<not> ok" "st' = st" by (auto split: if_splits)
    with e 2 r(2) p show ?thesis by (auto simp: enc_sim_def)
  next
    case 3
    then have "Suc (sp_size st) \<le> 256" using sz by (cases rest) auto
    with x p sz 3 have "\<not> ok" "st' = st\<lparr>sp_pkt := Some (n, 202, b @ [0])\<rparr>"
      by (auto simp: sp_add_def split: if_splits)
    with e 3 r(2) show ?thesis by (auto simp: enc_sim_def)
  qed
qed

lemma sim_add_cname:
  assumes "enc_sim re st" "enc_spec_exec (SdesChunkAddCname n) st = Some (st', ok)"
  shows "\<exists>re'. enc_exec (SdesChunkAddCname n) re = Inr (re', ok) \<and> enc_sim re' st'"
proof -
  have l: "length n < 256" "sp_add st False ([1, of_nat (length n)] @ n) = Some (st', ok)"
    using assms(2) by (simp_all split: if_splits)
  have u: "unat (of_nat (length n) :: u8) = length n" using l(1) by (simp add: unat_of_nat_small)
  have "\<exists>re'. rtcp_encoder_sdes_chunk_add_cname re n (of_nat (length n)) = Inr (re', ok) \<and> enc_sim re' st'"
    using assms(1) l(2)
    by (rule sim_add) (use add_cname_at [of re _ _ _ _ _ "of_nat (length n)" n] u in fastforce)
  then show ?thesis by simp
qed

lemma sim_add_ssrc:
  assumes "enc_sim re st" "enc_spec_exec (ByeAddSsrc a) st = Some (st', ok)"
  shows "\<exists>re'. enc_exec (ByeAddSsrc a) re = Inr (re', ok) \<and> enc_sim re' st'"
proof -
  have l: "sp_room st 203 0 4" "sp_add st True (bytes32 a) = Some (st', ok)"
    using assms(2) by (simp_all split: if_splits)
  have "\<exists>re'. rtcp_encoder_bye_add_ssrc re a = Inr (re', ok) \<and> enc_sim re' st'"
    using assms(1) l(2)
    by (rule sim_add) (use bye_add_ssrc_at [of re _ _ _ _ _ a] l(1) in \<open>fastforce simp: sp_room_def\<close>)
  then show ?thesis by simp
qed

lemma sim_add_reason:
  assumes "enc_sim re st" "enc_spec_exec (ByeAddReason r) st = Some (st', ok)"
  shows "\<exists>re'. enc_exec (ByeAddReason r) re = Inr (re', ok) \<and> enc_sim re' st'"
proof -
  have l: "length r < 256" "sp_add st False (reason_bytes r) = Some (st', ok)"
    using assms(2) by (simp_all split: if_splits)
  have "\<exists>re'. rtcp_encoder_bye_add_reason re r = Inr (re', ok) \<and> enc_sim re' st'"
    using assms(1) l(2)
    by (rule sim_add) (use bye_add_reason_at [of re _ _ _ _ _ r] l(1) in fastforce)
  then show ?thesis by simp
qed

lemma sim_end_packet:
  assumes "enc_sim re st" "enc_spec_exec EndPacket st = Some (st', ok)"
  shows "\<exists>re'. enc_exec EndPacket re = Inr (re', ok) \<and> enc_sim re' st'"
proof -
  obtain n pt b where p: "sp_pkt st = Some (n, pt, b)" "4 dvd length b" "ok"
    "st' = st\<lparr>sp_done := sp_done st @ rtcp_packet n pt b, sp_pkt := None\<rparr>"
    using assms(2) by (auto split: option.splits if_splits)
  then obtain rest where "enc_cur re (sp_done st) n pt b rest"
    using assms(1) by (auto simp: enc_sim_def)
  from end_packet_at [OF this p(2)] p show ?thesis by (auto simp: enc_sim_def)
qed

lemma sim_sr_begin:
  assumes "enc_sim re st" "enc_spec_exec (SrBegin a b c d e f) st = Some (st', ok)"
  shows "\<exists>re'. enc_exec (SrBegin a b c d e f) re = Inr (re', ok) \<and> enc_sim re' st'"
  using assms sr_begin_at [of re "sp_done st" _ a b c d e f]
  by (simp del: list.map) (rule sim_begin, assumption, assumption, fastforce)

lemma sim_begins:
  assumes "enc_sim re st" "enc_spec_exec op st = Some (st', ok)" "op = RrBegin a \<or> op = SdesBegin \<or> op = ByeBegin"
  shows "\<exists>re'. enc_exec op re = Inr (re', ok) \<and> enc_sim re' st'"
  using assms(3)
proof (elim disjE)
  assume "op = RrBegin a"
  then show ?thesis
    using assms(1,2) rr_begin_at [of re "sp_done st" _ a]
    by simp (rule sim_begin, assumption, assumption, fastforce)
next
  assume "op = SdesBegin"
  then show ?thesis
    using assms(1,2) sdes_begin_at [of re "sp_done st"]
    by simp (rule sim_begin, assumption, assumption, fastforce)
next
  assume "op = ByeBegin"
  then show ?thesis
    using assms(1,2) bye_begin_at [of re "sp_done st"]
    by simp (rule sim_begin, assumption, assumption, fastforce)
qed

text \<open>
  C10: the encoder implements its specification: whatever is called in order, the code returns
  the same success flag as the specification and stays related to it, so that the message is
  the concatenation of the packets with their counts and lengths filled in, nothing is written
  outside of the buffer, and a call fails exactly when the message would exceed 256 octets.
\<close>

theorem encoder_refines_spec:
  assumes "enc_sim re st" "enc_spec_exec op st = Some (st', ok)"
  shows "\<exists>re'. enc_exec op re = Inr (re', ok) \<and> enc_sim re' st'"
proof (cases op)
  case (SrAddRr a b c d e f g)
  then show ?thesis
    using assms sim_add_rr [of re st 200 24 a b c d e f g st' ok 28]
    by (simp add: rtcp_encoder_sr_add_rr_def split: if_splits)
next
  case (RrAddRr a b c d e f g)
  then show ?thesis
    using assms sim_add_rr [of re st 201 4 a b c d e f g st' ok 8]
    by (simp add: rtcp_encoder_rr_add_rr_def split: if_splits)
next
  case (SdesChunkBegin a)
  then show ?thesis using assms sim_chunk_begin by simp
next
  case SdesChunkEnd
  then show ?thesis using assms sim_chunk_end by simp
next
  case (SrBegin a b c d e f)
  from sim_sr_begin [OF assms [unfolded SrBegin]] show ?thesis unfolding SrBegin .
next
  case (RrBegin a)
  then show ?thesis by (intro sim_begins [OF assms]) simp
next
  case SdesBegin
  then show ?thesis by (intro sim_begins [OF assms]) simp
next
  case (SdesChunkAddCname n)
  from sim_add_cname [OF assms [unfolded SdesChunkAddCname]] show ?thesis unfolding SdesChunkAddCname .
next
  case ByeBegin
  then show ?thesis by (intro sim_begins [OF assms]) simp
next
  case (ByeAddSsrc a)
  from sim_add_ssrc [OF assms [unfolded ByeAddSsrc]] show ?thesis unfolding ByeAddSsrc .
next
  case (ByeAddReason r)
  from sim_add_reason [OF assms [unfolded ByeAddReason]] show ?thesis unfolding ByeAddReason .
next
  case EndPacket
  from sim_end_packet [OF assms [unfolded EndPacket]] show ?thesis unfolding EndPacket .
qed

lemma encoder_init_at:
  assumes "length (enc_buf re) = 256"
  shows "\<exists>re' rest. rtcp_encoder_init re 256 = Inr re' \<and> enc_at re' [] rest"
  using assms
  by (auto simp: rtcp_encoder_init_def rtcp_encoder_reset_def rtcp_encoder_set_current_pkt_def
      put_def wr_def enc_at_def)

definition fresh_encoder :: rtcp_encoder where
  "fresh_encoder = \<lparr>enc_buf = replicate 256 0, enc_rtcp = 0, enc_buf_len = 256, write_ndx = 0,
     chunk_begin = 0\<rparr>"

definition empty_spec :: enc_spec where
  "empty_spec = \<lparr>sp_done = [], sp_pkt = None, sp_chunk = 0\<rparr>"

theorem encoder_refines_spec_witness:
  "enc_sim fresh_encoder empty_spec \<and>
   (\<exists>re1 re2. enc_exec (RrBegin 5) fresh_encoder = Inr (re1, True) \<and>
      enc_sim re1 (empty_spec\<lparr>sp_pkt := Some (0, 201, [0, 0, 0, 5])\<rparr>) \<and>
      enc_exec EndPacket re1 = Inr (re2, True) \<and>
      enc_sim re2 (empty_spec\<lparr>sp_done := [128, 201, 0, 1, 0, 0, 0, 5]\<rparr>))"
proof -
  have "enc_at fresh_encoder [] (replicate 256 0)"
    by (simp add: enc_at_def fresh_encoder_def)
  then have sim: "enc_sim fresh_encoder empty_spec"
    by (auto simp: enc_sim_def empty_spec_def)
  have b: "bytes32 5 = [0, 0, 0, 5]" "rtcp_packet 0 201 [0, 0, 0, 5] = [128, 201, 0, 1, 0, 0, 0, 5]"
    by code_simp+
  have s1: "enc_spec_exec (RrBegin 5) empty_spec =
      Some (empty_spec\<lparr>sp_pkt := Some (0, 201, [0, 0, 0, 5])\<rparr>, True)"
    by (simp add: sp_open_def empty_spec_def sp_size_def b)
  have s2: "enc_spec_exec EndPacket (empty_spec\<lparr>sp_pkt := Some (0, 201, [0, 0, 0, 5])\<rparr>) =
      Some (empty_spec\<lparr>sp_done := [128, 201, 0, 1, 0, 0, 0, 5]\<rparr>, True)"
    by (simp add: empty_spec_def b dvd_eq_mod_eq_0)
  from encoder_refines_spec [OF sim s1] obtain re1 where
    re1: "enc_exec (RrBegin 5) fresh_encoder = Inr (re1, True)"
      "enc_sim re1 (empty_spec\<lparr>sp_pkt := Some (0, 201, [0, 0, 0, 5])\<rparr>)" by blast
  with encoder_refines_spec [OF re1(2) s2] sim show ?thesis by blast
qed

end
