(* ===== verification/Slot_Pool.thy ===== *)
theory Slot_Pool
  imports Prelude "HOL-Library.Multiset"
begin

text \<open>
  The contract shared by the two statically allocated tables of the library (session members
  and conflicting addresses): a fixed array of slots, each on the free list or on the used
  list. Allocation takes the first free slot and appends it to the used list, release appends
  the slot to the free list.
\<close>

locale slot_pool =
  fixes cap :: nat
    and freel :: "'t \<Rightarrow> nat list"
    and usedl :: "'t \<Rightarrow> nat list"
    and alloc :: "'t \<Rightarrow> ('t \<times> nat) option"
    and release :: "'t \<Rightarrow> nat \<Rightarrow> 't"
  assumes alloc_None: "alloc t = None \<longleftrightarrow> freel t = []"
    and alloc_Some: "alloc t = Some (t', i) \<Longrightarrow> freel t = i # freel t' \<and> usedl t' = usedl t @ [i]"
    and release_used: "i \<in> set (usedl t) \<Longrightarrow> i \<notin> set (freel t) \<Longrightarrow>
          usedl (release t i) = remove1 i (usedl t) \<and> freel (release t i) = freel t @ [i]"
begin

text \<open>Every slot is on exactly one of the two lists, once.\<close>

definition pool_ok :: "'t \<Rightarrow> bool" where
  "pool_ok t \<longleftrightarrow> mset (freel t) + mset (usedl t) = mset [0..<cap]"

lemma pool_distinct: "pool_ok t \<Longrightarrow> distinct (freel t @ usedl t)"
  by (metis distinct_upt mset_append mset_eq_imp_distinct_iff pool_ok_def)

lemma pool_set: "pool_ok t \<Longrightarrow> set (freel t) \<union> set (usedl t) = {0..<cap}"
  by (metis atLeastLessThan_upt mset_append mset_eq_setD pool_ok_def set_append)

lemma pool_length: "pool_ok t \<Longrightarrow> length (freel t) + length (usedl t) = cap"
  by (metis diff_zero length_append length_upt mset_append mset_eq_length pool_ok_def)

lemma pool_used_bound: "pool_ok t \<Longrightarrow> i \<in> set (usedl t) \<Longrightarrow> i < cap"
  using pool_set by fastforce

lemma alloc_ok: "pool_ok t \<Longrightarrow> alloc t = Some (t', i) \<Longrightarrow> pool_ok t'"
  by (drule alloc_Some) (simp add: pool_ok_def)

lemma alloc_fresh:
  assumes "pool_ok t" "alloc t = Some (t', i)"
  shows "i < cap \<and> i \<notin> set (usedl t) \<and> i \<in> set (usedl t')"
  using alloc_Some [OF assms(2)] pool_distinct [OF assms(1)] pool_set [OF assms(1)] by auto

lemma alloc_full: "pool_ok t \<Longrightarrow> alloc t = None \<longleftrightarrow> length (usedl t) = cap"
  using pool_length [of t] by (auto simp: alloc_None)

lemma release_ok:
  assumes "pool_ok t" "i \<in> set (usedl t)"
  shows "pool_ok (release t i)"
proof -
  have "i \<notin> set (freel t)" using pool_distinct [OF assms(1)] assms(2) by auto
  from release_used [OF assms(2) this]
  have "mset (freel (release t i)) + mset (usedl (release t i)) =
      mset (freel t) + add_mset i (mset (usedl t) - {#i#})" by simp
  also have "add_mset i (mset (usedl t) - {#i#}) = mset (usedl t)"
    using assms(2) by simp
  finally show ?thesis using assms(1) by (simp add: pool_ok_def)
qed

lemma release_lists:
  assumes "pool_ok t" "i \<in> set (usedl t)"
  shows "usedl (release t i) = remove1 i (usedl t)" "freel (release t i) = freel t @ [i]"
    "set (usedl (release t i)) = set (usedl t) - {i}"
proof -
  have "i \<notin> set (freel t)" "distinct (usedl t)"
    using pool_distinct [OF assms(1)] assms(2) by auto
  with release_used [OF assms(2) this(1)]
  show "usedl (release t i) = remove1 i (usedl t)" "freel (release t i) = freel t @ [i]"
    "set (usedl (release t i)) = set (usedl t) - {i}"
    by auto
qed

text \<open>A slot can be allocated right after one has been released.\<close>

lemma release_then_alloc:
  "pool_ok t \<Longrightarrow> i \<in> set (usedl t) \<Longrightarrow> alloc (release t i) \<noteq> None"
  by (simp add: alloc_None release_lists)

end

end
