(* ===== verification/Member_Table.thy ===== *)
theory Member_Table
  imports Rtp_Types Slot_Pool
begin

text \<open>
  The member table of \<^verbatim>\<open>src/rtp_member_table.c\<close>: an array of 32 members and two lists over it.
  A pointer to a member is its index, and a list is the list of the indices linked into it.
\<close>

section \<open>State and operations\<close>

record rtp_member_table =
  member_array :: "rtp_member list"
  free_list :: "nat list"
  used_list :: "nat list"
  num_members :: u32

definition rtp_member_table_init :: "rtp_member_table \<Rightarrow> rtp_member_table" where
  "rtp_member_table_init mt =
     mt\<lparr>free_list := [0..<RTP_CONFIG_MAX_MEMBERS_PER_SESSION], used_list := [],
        num_members := 0\<rparr>"

definition rtp_member_table_lookup :: "rtp_member_table \<Rightarrow> u32 \<Rightarrow> nat option" where
  "rtp_member_table_lookup mt ssrc = find (\<lambda>i. m_ssrc (member_array mt ! i) = ssrc) (used_list mt)"

definition rtp_member_table_alloc_member ::
  "rtp_member_table \<Rightarrow> u32 \<Rightarrow> (rtp_member_table \<times> nat) option" where
  "rtp_member_table_alloc_member mt ssrc =
     (case free_list mt of
        [] \<Rightarrow> None
      | m # ms \<Rightarrow>
          Some (mt\<lparr>free_list := ms,
                   member_array := (member_array mt)
                     [m := rtp_member_init (member_array mt ! m) ssrc],
                   used_list := used_list mt @ [m],
                   num_members := num_members mt + 1\<rparr>, m))"

text \<open>\<open>list_del_init\<close> unlinks the member from whichever list it is on.\<close>

definition rtp_member_table_free :: "rtp_member_table \<Rightarrow> nat \<Rightarrow> rtp_member_table" where
  "rtp_member_table_free mt m =
     mt\<lparr>used_list := remove1 m (used_list mt), num_members := num_members mt - 1,
        free_list := remove1 m (free_list mt) @ [m]\<rparr>"

definition rtp_member_table_get_first :: "rtp_member_table \<Rightarrow> nat option" where
  "rtp_member_table_get_first mt = (case used_list mt of [] \<Rightarrow> None | m # _ \<Rightarrow> Some m)"

text \<open>The successor of a linked element, \<open>None\<close> at the end of the list.\<close>

fun next_in :: "nat list \<Rightarrow> nat \<Rightarrow> nat option" where
  "next_in [] m = None"
| "next_in [x] m = None"
| "next_in (x # y # ys) m = (if x = m then Some y else next_in (y # ys) m)"

definition rtp_member_table_get_next :: "rtp_member_table \<Rightarrow> nat option \<Rightarrow> nat option" where
  "rtp_member_table_get_next mt m =
     (case m of None \<Rightarrow> rtp_member_table_get_first mt | Some i \<Rightarrow> next_in (used_list mt) i)"

text \<open>
  The loop of \<open>rtp_member_table_change_random_ssrc\<close> draws until the SSRC is not in the table.
  \<open>rnd n\<close> is the value of the \<open>n\<close>-th call of \<open>rtp_random32\<close>; nothing in the code bounds the
  number of draws, so the loop may not return.
\<close>

partial_function (option) draw_ssrc ::
  "rtp_member_table \<Rightarrow> (nat \<Rightarrow> u32) \<Rightarrow> nat \<Rightarrow> (u32 \<times> nat) option" where
  "draw_ssrc mt rnd n =
     (if rtp_member_table_lookup mt (rnd n) = None then Some (rnd n, Suc n)
      else draw_ssrc mt rnd (Suc n))"

definition set_ssrc :: "rtp_member_table \<Rightarrow> nat \<Rightarrow> u32 \<Rightarrow> rtp_member_table" where
  "set_ssrc mt m ssrc =
     mt\<lparr>member_array := (member_array mt)[m := (member_array mt ! m)\<lparr>m_ssrc := ssrc\<rparr>]\<rparr>"

definition rtp_member_table_change_random_ssrc ::
  "rtp_member_table \<Rightarrow> nat \<Rightarrow> (nat \<Rightarrow> u32) \<Rightarrow> nat \<Rightarrow> (rtp_member_table \<times> nat) res" where
  "rtp_member_table_change_random_ssrc mt m rnd n =
     (case draw_ssrc mt rnd n of
        None \<Rightarrow> Inl NoReturn
      | Some (ssrc, n') \<Rightarrow> Inr (set_ssrc mt m ssrc, n'))"

definition rtp_member_table_change_ssrc ::
  "rtp_member_table \<Rightarrow> nat \<Rightarrow> u32 \<Rightarrow> rtp_member_table" where
  "rtp_member_table_change_ssrc mt m ssrc = set_ssrc mt m ssrc"

section \<open>Slots\<close>

interpretation mt: slot_pool RTP_CONFIG_MAX_MEMBERS_PER_SESSION free_list used_list
  "\<lambda>mt. rtp_member_table_alloc_member mt ssrc" rtp_member_table_free for ssrc
  by unfold_locales
    (auto simp: rtp_member_table_alloc_member_def rtp_member_table_free_def remove1_idem
      split: list.splits)

text \<open>The SSRCs of the members in use, in the order of the list.\<close>

definition ssrcs :: "rtp_member_table \<Rightarrow> u32 list" where
  "ssrcs mt = map (\<lambda>i. m_ssrc (member_array mt ! i)) (used_list mt)"

text \<open>The invariant: the slots are partitioned, the count is right, and an SSRC identifies at
  most one member.\<close>

definition mt_slots :: "rtp_member_table \<Rightarrow> bool" where
  "mt_slots mt \<longleftrightarrow>
     length (member_array mt) = RTP_CONFIG_MAX_MEMBERS_PER_SESSION \<and>
     mset (free_list mt) + mset (used_list mt) = mset [0..<RTP_CONFIG_MAX_MEMBERS_PER_SESSION] \<and>
     num_members mt = of_nat (length (used_list mt))"

definition mt_wf :: "rtp_member_table \<Rightarrow> bool" where
  "mt_wf mt \<longleftrightarrow> mt_slots mt \<and> distinct (ssrcs mt)"

lemma mt_slots_pool: "mt_slots mt \<Longrightarrow> mt.pool_ok mt"
  by (simp add: mt_slots_def mt.pool_ok_def)

lemma mt_slotsD:
  assumes "mt_slots mt"
  shows "distinct (used_list mt)" "distinct (free_list mt)"
    "set (free_list mt) \<inter> set (used_list mt) = {}"
    "i \<in> set (used_list mt) \<Longrightarrow> i < length (member_array mt)"
    "length (used_list mt) \<le> RTP_CONFIG_MAX_MEMBERS_PER_SESSION"
  using mt.pool_distinct [OF mt_slots_pool [OF assms]] mt.pool_used_bound [OF mt_slots_pool [OF assms]]
    mt.pool_length [OF mt_slots_pool [OF assms]] assms
  by (auto simp: mt_slots_def)

lemma mt_init_wf:
  "length (member_array mt) = RTP_CONFIG_MAX_MEMBERS_PER_SESSION \<Longrightarrow>
   mt_wf (rtp_member_table_init mt)"
  by (simp add: mt_wf_def mt_slots_def rtp_member_table_init_def ssrcs_def)

section \<open>Lookup\<close>

lemma lookup_Some:
  "rtp_member_table_lookup mt ssrc = Some i \<Longrightarrow>
   i \<in> set (used_list mt) \<and> m_ssrc (member_array mt ! i) = ssrc"
  by (auto simp: rtp_member_table_lookup_def find_Some_iff)

lemma lookup_None: "rtp_member_table_lookup mt ssrc = None \<longleftrightarrow> ssrc \<notin> set (ssrcs mt)"
  by (auto simp: rtp_member_table_lookup_def ssrcs_def find_None_iff)

lemma find_distinct_map:
  "distinct (map f xs) \<Longrightarrow> x \<in> set xs \<Longrightarrow> find (\<lambda>y. f y = f x) xs = Some x"
  by (induction xs) auto

text \<open>With distinct SSRCs, lookup is the inverse of reading a member's SSRC.\<close>

lemma lookup_iff:
  "mt_wf mt \<Longrightarrow> rtp_member_table_lookup mt ssrc = Some i \<longleftrightarrow>
   i \<in> set (used_list mt) \<and> m_ssrc (member_array mt ! i) = ssrc"
  using find_distinct_map [of "\<lambda>i. m_ssrc (member_array mt ! i)" "used_list mt" i]
  by (auto simp: mt_wf_def ssrcs_def rtp_member_table_lookup_def find_Some_iff dest: lookup_Some)

section \<open>Allocation and release\<close>

lemma alloc_member_Some:
  assumes "rtp_member_table_alloc_member mt ssrc = Some (mt', i)"
  shows "free_list mt = i # free_list mt'" "used_list mt' = used_list mt @ [i]"
    "num_members mt' = num_members mt + 1"
    "member_array mt' = (member_array mt)[i := rtp_member_init (member_array mt ! i) ssrc]"
  using assms by (auto simp: rtp_member_table_alloc_member_def split: list.splits)

lemma alloc_slots:
  "mt_slots mt \<Longrightarrow> rtp_member_table_alloc_member mt ssrc = Some (mt', i) \<Longrightarrow> mt_slots mt'"
  using mt.alloc_ok [of mt ssrc mt' i] alloc_member_Some [of mt ssrc mt' i]
  by (simp add: mt_slots_def mt.pool_ok_def)

lemma alloc_ssrcs:
  assumes "mt_slots mt" "rtp_member_table_alloc_member mt ssrc = Some (mt', i)"
  shows "ssrcs mt' = ssrcs mt @ [ssrc]"
  using mt.alloc_fresh [OF mt_slots_pool [OF assms(1)] assms(2)] alloc_member_Some [OF assms(2)]
    assms(1)
  by (auto simp: ssrcs_def mt_slots_def rtp_member_init_def nth_list_update)

lemma alloc_wf:
  "\<lbrakk>mt_wf mt; rtp_member_table_lookup mt ssrc = None;
    rtp_member_table_alloc_member mt ssrc = Some (mt', i)\<rbrakk> \<Longrightarrow> mt_wf mt'"
  by (auto simp: mt_wf_def lookup_None alloc_ssrcs intro: alloc_slots)

lemma free_frame:
  "member_array (rtp_member_table_free mt i) = member_array mt"
  "num_members (rtp_member_table_free mt i) = num_members mt - 1"
  "used_list (rtp_member_table_free mt i) = remove1 i (used_list mt)"
  by (simp_all add: rtp_member_table_free_def)

lemma free_slots:
  assumes "mt_slots mt" "i \<in> set (used_list mt)"
  shows "mt_slots (rtp_member_table_free mt i)"
proof -
  have "mt.pool_ok (rtp_member_table_free mt i)"
    using assms by (intro mt.release_ok mt_slots_pool)
  moreover have "length (used_list mt) = Suc (length (remove1 i (used_list mt)))"
    using length_pos_if_in_set [OF assms(2)] assms(2) by (simp add: length_remove1)
  ultimately show ?thesis
    using assms(1) by (simp add: mt_slots_def mt.pool_ok_def free_frame)
qed

lemma distinct_map_remove1: "distinct (map f xs) \<Longrightarrow> distinct (map f (remove1 x xs))"
  by (induction xs) (auto dest: in_set_remove1 [THEN iffD1, rotated] notin_set_remove1)

lemma free_wf: "mt_wf mt \<Longrightarrow> i \<in> set (used_list mt) \<Longrightarrow> mt_wf (rtp_member_table_free mt i)"
  by (auto simp: mt_wf_def ssrcs_def free_frame intro: free_slots distinct_map_remove1)

text \<open>
  Looking a SSRC up finds a member exactly when one was allocated for it and not freed:
  after an allocation the new member is found under its SSRC and every other lookup is as
  before, and a full table (32 members) is the only reason for an allocation to fail.
\<close>

lemma member_table_lookup_alloc:
  assumes "mt_wf mt" "rtp_member_table_lookup mt ssrc = None"
  shows "(case rtp_member_table_alloc_member mt ssrc of
            None \<Rightarrow> length (used_list mt) = RTP_CONFIG_MAX_MEMBERS_PER_SESSION
          | Some (mt', i) \<Rightarrow>
              mt_wf mt' \<and> i \<notin> set (used_list mt) \<and>
              rtp_member_table_lookup mt' ssrc = Some i \<and>
              num_members mt' = num_members mt + 1 \<and>
              (\<forall>s. s \<noteq> ssrc \<longrightarrow> rtp_member_table_lookup mt' s = rtp_member_table_lookup mt s))"
proof (cases "rtp_member_table_alloc_member mt ssrc")
  case None
  with assms(1) show ?thesis
    using mt.alloc_full [OF mt_slots_pool, of mt ssrc] by (simp add: mt_wf_def)
next
  case (Some r)
  then obtain mt' i where r: "rtp_member_table_alloc_member mt ssrc = Some (mt', i)"
    by (cases r) auto
  have slots: "mt_slots mt" using assms(1) by (simp add: mt_wf_def)
  have wf: "mt_wf mt'" by (rule alloc_wf [OF assms r])
  have fresh: "i \<notin> set (used_list mt)"
    using mt.alloc_fresh [OF mt_slots_pool [OF slots] r] by simp
  have same: "m_ssrc (member_array mt' ! j) = m_ssrc (member_array mt ! j)" if "j \<noteq> i" for j
    using alloc_member_Some(4) [OF r] that by simp
  have new: "m_ssrc (member_array mt' ! i) = ssrc"
    using alloc_ssrcs [OF slots r] alloc_member_Some(2) [OF r] by (simp add: ssrcs_def)
  have found: "rtp_member_table_lookup mt' ssrc = Some i"
    using new alloc_member_Some(2) [OF r] by (simp add: lookup_iff [OF wf])
  have "rtp_member_table_lookup mt' s = rtp_member_table_lookup mt s" if "s \<noteq> ssrc" for s
  proof -
    have "rtp_member_table_lookup mt' s = Some j \<longleftrightarrow> rtp_member_table_lookup mt s = Some j" for j
      using that new same [of j] fresh alloc_member_Some(2) [OF r]
      by (cases "j = i") (auto simp: lookup_iff [OF wf] lookup_iff [OF assms(1)])
    then show ?thesis by (metis not_None_eq)
  qed
  then show ?thesis
    using r wf fresh found alloc_member_Some(3) [OF r] by simp
qed

section \<open>Iteration\<close>

lemma next_in_nth:
  "distinct xs \<Longrightarrow> Suc k < length xs \<Longrightarrow> next_in xs (xs ! k) = Some (xs ! Suc k)"
proof (induction xs arbitrary: k)
  case (Cons x xs)
  then obtain y ys where xs: "xs = y # ys" by (cases xs) auto
  show ?case
  proof (cases k)
    case 0
    then show ?thesis by (simp add: xs)
  next
    case (Suc k')
    with Cons.prems have "x \<noteq> xs ! k'" by (metis Suc_less_eq Suc_lessD distinct.simps(2)
        length_Cons nth_mem)
    with Cons Suc show ?thesis by (simp add: xs)
  qed
qed simp

lemma next_in_last: "distinct xs \<Longrightarrow> xs \<noteq> [] \<Longrightarrow> next_in xs (last xs) = None"
proof (induction xs "last xs" rule: next_in.induct)
  case (3 x y ys)
  then show ?case by auto
qed auto

text \<open>The pointers that \<open>m = get_first(mt); while (m != NULL) m = get_next(mt, m)\<close> goes
  through, with fuel.\<close>

fun walk_members :: "nat \<Rightarrow> rtp_member_table \<Rightarrow> nat option \<Rightarrow> nat list" where
  "walk_members 0 mt m = []"
| "walk_members (Suc n) mt None = []"
| "walk_members (Suc n) mt (Some i) = i # walk_members n mt (rtp_member_table_get_next mt (Some i))"

lemma walk_members_from:
  "distinct (used_list mt) \<Longrightarrow> k < length (used_list mt) \<Longrightarrow> length (used_list mt) - k < n \<Longrightarrow>
   walk_members n mt (Some (used_list mt ! k)) = drop k (used_list mt)"
proof (induction n arbitrary: k)
  case (Suc n)
  show ?case
  proof (cases "Suc k < length (used_list mt)")
    case True
    with Suc show ?thesis
      by (simp add: rtp_member_table_get_next_def next_in_nth Cons_nth_drop_Suc)
  next
    case False
    with Suc.prems have k2: "k = length (used_list mt) - 1" "used_list mt \<noteq> []" by auto
    then have k: "used_list mt ! k = last (used_list mt)" "k = length (used_list mt) - 1"
      by (simp_all add: last_conv_nth)
    have "walk_members n mt None = []" by (cases n) auto
    moreover have "next_in (used_list mt) (used_list mt ! k) = None"
      using next_in_last [OF Suc.prems(1) k2(2)] k(1) by simp
    moreover have "drop k (used_list mt) = [used_list mt ! k]"
      using Suc.prems k(2) by (metis Cons_nth_drop_Suc False drop_all not_less)
    ultimately show ?thesis by (simp add: rtp_member_table_get_next_def)
  qed
qed simp

text \<open>The iteration visits the used members once each, in list order, and ends.\<close>

lemma walk_members_all:
  assumes "mt_slots mt"
  shows "walk_members (RTP_CONFIG_MAX_MEMBERS_PER_SESSION + 1) mt (rtp_member_table_get_first mt) =
    used_list mt"
proof (cases "used_list mt")
  case Nil
  then show ?thesis by (simp add: rtp_member_table_get_first_def)
next
  case (Cons a as)
  then show ?thesis
    using walk_members_from [of mt 0 "RTP_CONFIG_MAX_MEMBERS_PER_SESSION + 1"] mt_slotsD [OF assms]
    by (simp add: rtp_member_table_get_first_def)
qed

section \<open>Changing a SSRC\<close>

lemma set_ssrc_frame:
  "free_list (set_ssrc mt m ssrc) = free_list mt" "used_list (set_ssrc mt m ssrc) = used_list mt"
  "num_members (set_ssrc mt m ssrc) = num_members mt"
  by (simp_all add: set_ssrc_def)

lemma set_ssrc_slots: "mt_slots mt \<Longrightarrow> mt_slots (set_ssrc mt m ssrc)"
  by (simp add: mt_slots_def set_ssrc_def)

lemma distinct_map_upd:
  "distinct xs \<Longrightarrow> distinct (map f xs) \<Longrightarrow> c \<notin> f ` set xs \<Longrightarrow> distinct (map (f(i := c)) xs)"
  by (induction xs) auto

lemma set_ssrc_wf:
  assumes "mt_wf mt" "m \<in> set (used_list mt)" "ssrc \<notin> set (ssrcs mt)"
  shows "mt_wf (set_ssrc mt m ssrc)"
proof -
  have slots: "mt_slots mt" using assms(1) by (simp add: mt_wf_def)
  let ?f = "\<lambda>i. m_ssrc (member_array mt ! i)"
  have "ssrcs (set_ssrc mt m ssrc) = map (?f(m := ssrc)) (used_list mt)"
    using mt_slotsD(4) [OF slots] assms(2)
    by (auto simp: ssrcs_def set_ssrc_def nth_list_update)
  moreover have "distinct (map (?f(m := ssrc)) (used_list mt))"
    using assms mt_slotsD(1) [OF slots]
    by (intro distinct_map_upd) (auto simp: mt_wf_def ssrcs_def)
  ultimately show ?thesis using slots by (simp add: mt_wf_def set_ssrc_slots)
qed

lemma draw_ssrc_Some:
  assumes "draw_ssrc mt rnd n = Some r"
  shows "\<exists>k \<ge> n. r = (rnd k, Suc k) \<and> rnd k \<notin> set (ssrcs mt) \<and> (\<forall>j. n \<le> j \<and> j < k \<longrightarrow> rnd j \<in> set (ssrcs mt))"
proof (rule draw_ssrc.raw_induct [where P = "\<lambda>mt rnd n r. \<exists>k \<ge> n. r = (rnd k, Suc k) \<and>
    rnd k \<notin> set (ssrcs mt) \<and> (\<forall>j. n \<le> j \<and> j < k \<longrightarrow> rnd j \<in> set (ssrcs mt))", OF _ assms])
  fix f mt rnd n r
  assume IH: "\<And>mt rnd n r. f mt rnd n = Some r \<Longrightarrow> \<exists>k \<ge> n. r = (rnd k, Suc k) \<and>
      rnd k \<notin> set (ssrcs mt) \<and> (\<forall>j. n \<le> j \<and> j < k \<longrightarrow> rnd j \<in> set (ssrcs mt))"
    and eq: "(if rtp_member_table_lookup mt (rnd n) = None then Some (rnd n, Suc n)
              else f mt rnd (Suc n)) = Some r"
  show "\<exists>k \<ge> n. r = (rnd k, Suc k) \<and> rnd k \<notin> set (ssrcs mt) \<and>
      (\<forall>j. n \<le> j \<and> j < k \<longrightarrow> rnd j \<in> set (ssrcs mt))"
  proof (cases "rtp_member_table_lookup mt (rnd n) = None")
    case True
    with eq show ?thesis by (auto simp: lookup_None)
  next
    case False
    with eq IH [of mt rnd "Suc n" r] obtain k where
      k: "Suc n \<le> k" "r = (rnd k, Suc k)" "rnd k \<notin> set (ssrcs mt)"
        "\<forall>j. Suc n \<le> j \<and> j < k \<longrightarrow> rnd j \<in> set (ssrcs mt)" by auto
    from False have "rnd n \<in> set (ssrcs mt)" by (simp add: lookup_None)
    with k(4) have "\<forall>j. n \<le> j \<and> j < k \<longrightarrow> rnd j \<in> set (ssrcs mt)"
      by (metis Suc_leI le_neq_implies_less)
    with k show ?thesis by (intro exI [of _ k]) auto
  qed
qed

lemma draw_ssrc_returns:
  "rnd (n + d) \<notin> set (ssrcs mt) \<Longrightarrow> \<exists>r. draw_ssrc mt rnd n = Some r"
proof (induction d arbitrary: n)
  case 0
  then show ?case by (subst draw_ssrc.simps) (simp add: lookup_None)
next
  case (Suc d)
  then show ?case using Suc.IH [of "Suc n"] by (subst draw_ssrc.simps) (simp add: lookup_None)
qed

lemma draw_ssrc_None: "draw_ssrc mt rnd n = None \<longleftrightarrow> (\<forall>k \<ge> n. rnd k \<in> set (ssrcs mt))"
  by (metis draw_ssrc_Some draw_ssrc_returns le_add_diff_inverse not_None_eq)

text \<open>
  C23: a random change of a member's SSRC keeps every SSRC of the table unique, gives the
  member the first drawn value that no member has, and returns exactly when such a value is
  ever drawn.
\<close>

theorem change_random_ssrc_unique:
  assumes "mt_wf mt" "m \<in> set (used_list mt)"
  shows "(case rtp_member_table_change_random_ssrc mt m rnd n of
            Inl e \<Rightarrow> e = NoReturn \<and> (\<forall>k \<ge> n. rnd k \<in> set (ssrcs mt))
          | Inr (mt', n') \<Rightarrow>
              mt_wf mt' \<and> n < n' \<and> rnd (n' - 1) \<notin> set (ssrcs mt) \<and>
              (\<forall>j. n \<le> j \<and> j < n' - 1 \<longrightarrow> rnd j \<in> set (ssrcs mt)) \<and>
              rtp_member_table_lookup mt' (rnd (n' - 1)) = Some m)"
proof (cases "draw_ssrc mt rnd n")
  case None
  then have "\<forall>k \<ge> n. rnd k \<in> set (ssrcs mt)" by (simp add: draw_ssrc_None)
  then show ?thesis by (simp add: rtp_member_table_change_random_ssrc_def None)
next
  case (Some r)
  from draw_ssrc_Some [OF this] obtain k where
    k: "n \<le> k" "r = (rnd k, Suc k)" "rnd k \<notin> set (ssrcs mt)"
      "\<forall>j. n \<le> j \<and> j < k \<longrightarrow> rnd j \<in> set (ssrcs mt)" by blast
  have wf: "mt_wf (set_ssrc mt m (rnd k))" by (rule set_ssrc_wf [OF assms k(3)])
  have "m < length (member_array mt)"
    using assms mt_slotsD(4) by (auto simp: mt_wf_def)
  then have "m_ssrc (member_array (set_ssrc mt m (rnd k)) ! m) = rnd k"
    by (simp add: set_ssrc_def)
  with wf assms(2) have "rtp_member_table_lookup (set_ssrc mt m (rnd k)) (rnd k) = Some m"
    by (simp add: lookup_iff set_ssrc_frame)
  with wf k Some show ?thesis by (simp add: rtp_member_table_change_random_ssrc_def)
qed

section \<open>Concrete tables\<close>

definition zero_source :: rtp_source where
  "zero_source = \<lparr>max_seq = 0, cycles = 0, base_seq = 0, bad_seq = 0, probation = 0,
     received = 0, expected_prior = 0, received_prior = 0, transit = 0, jitter = 0\<rparr>"

definition zero_member :: rtp_member where
  "zero_member = \<lparr>m_rtp_addr = zero_addr, m_rtcp_addr = zero_addr, m_ssrc = 0,
     cname = replicate (RTP_CONFIG_SDES_CNAME_MAX + 1) 0, cname_len = 0, flags = 0,
     rtp_src = zero_source, last_sr = ntp_ts_init, last_sr_local_time = ntp_ts_init,
     m_rtp_ts = 0, m_pkt_count = 0, m_octet_count = 0\<rparr>"

definition empty_table :: rtp_member_table where
  "empty_table = rtp_member_table_init
     \<lparr>member_array = replicate RTP_CONFIG_MAX_MEMBERS_PER_SESSION zero_member, free_list = [],
      used_list = [], num_members = 0\<rparr>"

lemma empty_table_wf: "mt_wf empty_table"
  by (simp add: empty_table_def mt_init_wf)

lemma member_table_lookup_alloc_witness:
  "mt_wf empty_table \<and> rtp_member_table_lookup empty_table 5 = None \<and>
   (\<exists>mt' i. rtp_member_table_alloc_member empty_table 5 = Some (mt', i) \<and>
      rtp_member_table_lookup mt' 5 = Some i \<and> num_members mt' = 1)"
proof -
  have none: "rtp_member_table_lookup empty_table 5 = None"
    by (simp add: empty_table_def rtp_member_table_init_def rtp_member_table_lookup_def)
  have "num_members empty_table = 0" "used_list empty_table = []"
    by (simp_all add: empty_table_def rtp_member_table_init_def)
  then show ?thesis
    using member_table_lookup_alloc [OF empty_table_wf none] none empty_table_wf
    by (auto simp: config_defs split: option.splits)
qed

definition table_5_9 :: rtp_member_table where
  "table_5_9 =
     \<lparr>member_array = zero_member\<lparr>m_ssrc := 5\<rparr> # zero_member\<lparr>m_ssrc := 9\<rparr> # replicate 30 zero_member,
      free_list = [2..<32], used_list = [0, 1], num_members = 2\<rparr>"

lemma table_5_9_wf: "mt_wf table_5_9"
proof -
  have "[0..<32] = 0 # 1 # [2..<32]" by (simp add: upt_conv_Cons numeral_2_eq_2)
  then have "mset [2..<32] + mset [0, 1] = mset [0..<32]" by simp
  then show ?thesis
    by (simp add: mt_wf_def mt_slots_def table_5_9_def ssrcs_def config_defs del: mset_upt)
qed

definition draws_5_9_4 :: "nat \<Rightarrow> u32" where
  "draws_5_9_4 k = (if k = 0 then 5 else if k = 1 then 9 else 4)"

lemma draw_5_9_4: "draw_ssrc table_5_9 draws_5_9_4 0 = Some (4, 3)"
proof -
  have ss: "ssrcs table_5_9 = [5, 9]" by (simp add: table_5_9_def ssrcs_def)
  have "draw_ssrc table_5_9 draws_5_9_4 2 = Some (4, 3)"
    by (subst draw_ssrc.simps) (simp add: lookup_None ss draws_5_9_4_def)
  then have "draw_ssrc table_5_9 draws_5_9_4 1 = Some (4, 3)"
    by (subst draw_ssrc.simps) (simp add: lookup_None ss draws_5_9_4_def numeral_2_eq_2)
  then show ?thesis
    by (subst draw_ssrc.simps) (simp add: lookup_None ss draws_5_9_4_def)
qed

theorem change_random_ssrc_unique_witness:
  "mt_wf table_5_9 \<and> 1 \<in> set (used_list table_5_9) \<and>
   (\<exists>mt'. rtp_member_table_change_random_ssrc table_5_9 1 draws_5_9_4 0 = Inr (mt', 3) \<and>
      mt_wf mt' \<and> rtp_member_table_lookup mt' 4 = Some 1)"
proof -
  have used: "1 \<in> set (used_list table_5_9)" by (simp add: table_5_9_def)
  have d: "draws_5_9_4 2 = 4" by (simp add: draws_5_9_4_def)
  show ?thesis
    using change_random_ssrc_unique [OF table_5_9_wf used, where rnd = draws_5_9_4 and n = 0] used table_5_9_wf d
    by (simp add: rtp_member_table_change_random_ssrc_def draw_5_9_4)
qed

end
