(* ===== verification/Soft_Timer.thy ===== *)
theory Soft_Timer
  imports Prelude
begin

text \<open>
  The soft timer of \<^verbatim>\<open>src/soft_timer.c\<close>: a wheel of eight buckets of timer elements, each
  element carrying the absolute tick at which it times out.
  Elements are named by a type \<open>'e\<close> (in C: the address of the \<open>SoftTimerElem\<close>), a bucket is
  the list of the elements linked into it, and an element runs when it is linked into some
  list.
  The local list \<open>timeout_list\<close> of \<open>timer_tick\<close> is a component of the state because callbacks
  see it: they may stop a timer that has already been moved to it.
  The callbacks act on the state of the owner of the timer, so the drive loop is generic in
  that state; the interface it needs of the owner is the locale \<open>timer_host\<close>.
\<close>

section \<open>State and operations\<close>

text \<open>\<open>SOFT_TIMER_NUM_BUCKETS\<close>\<close>

definition num_buckets :: nat where
  "num_buckets = 8"

record 'e soft_timer =
  tick_rate :: int
  tick :: u32
  buckets :: "'e list list"
  timeout_list :: "'e list"
  etick :: "'e \<Rightarrow> u32"

definition soft_timer_init :: "'e soft_timer \<Rightarrow> int \<Rightarrow> 'e soft_timer" where
  "soft_timer_init t rate =
     t\<lparr>tick_rate := rate, tick := 0, buckets := replicate num_buckets [], timeout_list := []\<rparr>"

definition is_soft_timer_running :: "'e soft_timer \<Rightarrow> 'e \<Rightarrow> bool" where
  "is_soft_timer_running t e \<longleftrightarrow> e \<in> set (concat (buckets t)) \<or> e \<in> set (timeout_list t)"

text \<open>Reinitialising the list head of an element that is linked would leave its neighbours
  pointing into it; on an element that is not linked it changes nothing.\<close>

definition soft_timer_init_elem :: "'e soft_timer \<Rightarrow> 'e \<Rightarrow> 'e soft_timer res" where
  "soft_timer_init_elem t e = (if is_soft_timer_running t e then Inl ListCorrupt else Inr t)"

definition get_soft_tick_from_milsec :: "'e soft_timer \<Rightarrow> int \<Rightarrow> u32 res" where
  "get_soft_tick_from_milsec t milsec =
     bindE (c_div_mod milsec (tick_rate t)) (\<lambda>(q, m).
     let k = (word_of_int q :: u32) in Inr (if m \<noteq> 0 then k + 1 else k))"

definition soft_timer_get_tick_time :: "'e soft_timer \<Rightarrow> u32" where
  "soft_timer_get_tick_time t = tick t * word_of_int (tick_rate t)"

definition add_tail_bucket :: "nat \<Rightarrow> 'e \<Rightarrow> 'e list list \<Rightarrow> 'e list list" where
  "add_tail_bucket i e bs = bs[i := bs ! i @ [e]]"

definition soft_timer_add :: "'e soft_timer \<Rightarrow> 'e \<Rightarrow> int \<Rightarrow> 'e soft_timer res" where
  "soft_timer_add t e expires =
     (if is_soft_timer_running t e then Inr t
      else bindE (get_soft_tick_from_milsec t expires) (\<lambda>k.
        let et = tick t + k; target = unat et mod num_buckets
        in Inr (t\<lparr>etick := (etick t)(e := et),
                 buckets := add_tail_bucket target e (buckets t)\<rparr>)))"

definition soft_timer_del :: "'e soft_timer \<Rightarrow> 'e \<Rightarrow> 'e soft_timer" where
  "soft_timer_del t e =
     (if \<not> is_soft_timer_running t e then t
      else t\<lparr>buckets := map (remove1 e) (buckets t),
             timeout_list := remove1 e (timeout_list t)\<rparr>)"

text \<open>The scan of the current bucket: every element that is due is unlinked and appended to
  the list of timed out elements.\<close>

fun scan_bucket :: "('e \<Rightarrow> u32) \<Rightarrow> u32 \<Rightarrow> 'e list \<Rightarrow> 'e list \<times> 'e list \<Rightarrow> 'e list \<times> 'e list" where
  "scan_bucket et now [] (keep, due) = (keep, due)"
| "scan_bucket et now (p # ps) (keep, due) =
     (if et p = now then scan_bucket et now ps (remove1 p keep, due @ [p])
      else scan_bucket et now ps (keep, due))"

definition timer_collect :: "'e soft_timer \<Rightarrow> 'e soft_timer" where
  "timer_collect t =
     (let now = tick t + 1;
          current = unat now mod num_buckets;
          (keep, due) = scan_bucket (etick t) now (buckets t ! current) (buckets t ! current, [])
      in t\<lparr>tick := now, buckets := (buckets t)[current := keep], timeout_list := due\<rparr>)"

text \<open>
  The loop that runs the callbacks. \<open>get\<close> and \<open>upd\<close> give the timer inside the state of its
  owner. The first argument is fuel: the C loop has no bound of its own, it ends when the
  list is empty.
\<close>

fun run_timeouts ::
  "('s \<Rightarrow> 'e soft_timer) \<Rightarrow> (('e soft_timer \<Rightarrow> 'e soft_timer) \<Rightarrow> 's \<Rightarrow> 's) \<Rightarrow>
   ('e \<Rightarrow> 's \<Rightarrow> 's res) \<Rightarrow> nat \<Rightarrow> 's \<Rightarrow> 's res" where
  "run_timeouts get upd cb fuel s =
     (case timeout_list (get s) of
        [] \<Rightarrow> Inr s
      | p # ps \<Rightarrow>
          (case fuel of
             0 \<Rightarrow> Inl NoReturn
           | Suc fuel' \<Rightarrow>
               bindE (cb p (upd (\<lambda>t. t\<lparr>timeout_list := ps\<rparr>) s))
                 (run_timeouts get upd cb fuel')))"

declare run_timeouts.simps [simp del]

lemma run_timeouts_Nil [simp]:
  "timeout_list (get s) = [] \<Longrightarrow> run_timeouts get upd cb fuel s = Inr s"
  by (simp add: run_timeouts.simps)

lemma run_timeouts_dry [simp]:
  "timeout_list (get s) = p # ps \<Longrightarrow> run_timeouts get upd cb 0 s = Inl NoReturn"
  by (simp add: run_timeouts.simps)

lemma run_timeouts_Cons [simp]:
  "timeout_list (get s) = p # ps \<Longrightarrow> run_timeouts get upd cb (Suc fuel) s =
   bindE (cb p (upd (\<lambda>t. t\<lparr>timeout_list := ps\<rparr>) s)) (run_timeouts get upd cb fuel)"
  by (simp add: run_timeouts.simps)

definition soft_timer_drive ::
  "('s \<Rightarrow> 'e soft_timer) \<Rightarrow> (('e soft_timer \<Rightarrow> 'e soft_timer) \<Rightarrow> 's \<Rightarrow> 's) \<Rightarrow>
   ('e \<Rightarrow> 's \<Rightarrow> 's res) \<Rightarrow> 's \<Rightarrow> 's res" where
  "soft_timer_drive get upd cb s =
     (let s1 = upd timer_collect s
      in run_timeouts get upd cb (length (timeout_list (get s1))) s1)"

section \<open>The invariant of the wheel\<close>

text \<open>Eight buckets, no element linked twice, and every element in the bucket of its tick.\<close>

definition timer_wf :: "'e soft_timer \<Rightarrow> bool" where
  "timer_wf t \<longleftrightarrow>
     0 < tick_rate t \<and>
     length (buckets t) = num_buckets \<and>
     distinct (concat (buckets t) @ timeout_list t) \<and>
     (\<forall>i < num_buckets. \<forall>e \<in> set (buckets t ! i). unat (etick t e) mod num_buckets = i)"

lemma timer_wf_init: "0 < rate \<Longrightarrow> timer_wf (soft_timer_init t rate)"
  by (simp add: timer_wf_def soft_timer_init_def num_buckets_def)

lemma num_buckets_pos [simp]: "0 < num_buckets"
  by (simp add: num_buckets_def)

lemma timer_wf_rate: "timer_wf t \<Longrightarrow> 0 < tick_rate t"
  by (simp add: timer_wf_def)

lemma timer_wf_length: "timer_wf t \<Longrightarrow> length (buckets t) = num_buckets"
  by (simp add: timer_wf_def)

lemma concat_split:
  "i < length bs \<Longrightarrow> concat bs = concat (take i bs) @ bs ! i @ concat (drop (Suc i) bs)"
  using arg_cong [OF id_take_nth_drop [of i bs], of concat] by simp

lemma concat_update:
  "i < length bs \<Longrightarrow> concat (bs[i := b]) = concat (take i bs) @ b @ concat (drop (Suc i) bs)"
  by (simp add: upd_conv_take_nth_drop)

lemma concat_map_remove1: "distinct (concat bs) \<Longrightarrow> concat (map (remove1 e) bs) = remove1 e (concat bs)"
proof (induction bs)
  case (Cons b bs)
  then have "remove1 e (concat bs) = concat bs" if "e \<in> set b"
    using that by (intro remove1_idem) (simp only: concat.simps distinct_append, blast)
  with Cons show ?case
    by (cases "e \<in> set b") (auto simp: remove1_append remove1_idem)
qed simp

lemma set_concat_update_snoc:
  "i < length bs \<Longrightarrow> set (concat (add_tail_bucket i e bs)) = insert e (set (concat bs))"
  by (simp only: add_tail_bucket_def concat_update concat_split [of i bs] set_append) auto

lemma distinct_concat_update_snoc:
  "\<lbrakk>i < length bs; distinct (concat bs @ ts); e \<notin> set (concat bs); e \<notin> set ts\<rbrakk> \<Longrightarrow>
   distinct (concat (add_tail_bucket i e bs) @ ts)"
  by (simp only: add_tail_bucket_def concat_update concat_split [of i bs] set_append
      distinct_append) auto

section \<open>Starting and stopping a timer\<close>

lemma get_soft_tick_total:
  "0 < tick_rate t \<Longrightarrow> \<exists>k. get_soft_tick_from_milsec t ms = Inr k"
  by (simp add: get_soft_tick_from_milsec_def c_div_mod_def Let_def)

lemma soft_timer_add_Inr:
  assumes "soft_timer_add t e ms = Inr t'" "\<not> is_soft_timer_running t e"
  obtains k where "get_soft_tick_from_milsec t ms = Inr k"
    "t' = t\<lparr>etick := (etick t)(e := tick t + k),
            buckets := add_tail_bucket (unat (tick t + k) mod num_buckets) e (buckets t)\<rparr>"
  using assms by (auto simp: soft_timer_add_def res_iff Let_def)

lemma soft_timer_add_frame:
  "soft_timer_add t e ms = Inr t' \<Longrightarrow>
   tick t' = tick t \<and> tick_rate t' = tick_rate t \<and> timeout_list t' = timeout_list t"
  by (auto simp: soft_timer_add_def res_iff Let_def split: if_splits)

lemma soft_timer_add_total: "timer_wf t \<Longrightarrow> \<exists>t'. soft_timer_add t e ms = Inr t'"
  using get_soft_tick_total [OF timer_wf_rate, of t ms] by (auto simp: soft_timer_add_def Let_def)

lemma soft_timer_add_running:
  assumes "timer_wf t" "soft_timer_add t e ms = Inr t'"
  shows "is_soft_timer_running t' x \<longleftrightarrow> x = e \<or> is_soft_timer_running t x"
proof (cases "is_soft_timer_running t e")
  case True
  with assms(2) show ?thesis by (auto simp: soft_timer_add_def)
next
  case False
  with assms(2) obtain k where
    "t' = t\<lparr>etick := (etick t)(e := tick t + k),
           buckets := add_tail_bucket (unat (tick t + k) mod num_buckets) e (buckets t)\<rparr>"
    by (rule soft_timer_add_Inr)
  with assms(1) show ?thesis
    by (auto simp: is_soft_timer_running_def timer_wf_length set_concat_update_snoc
        simp del: set_concat)
qed

lemma soft_timer_add_wf:
  assumes "timer_wf t" "soft_timer_add t e ms = Inr t'"
  shows "timer_wf t'"
proof (cases "is_soft_timer_running t e")
  case True
  with assms show ?thesis by (simp add: soft_timer_add_def)
next
  case False
  define bk where "bk k = unat (tick t + k) mod num_buckets" for k
  from assms(2) False obtain k where t': "t' = t\<lparr>etick := (etick t)(e := tick t + k),
      buckets := add_tail_bucket (bk k) e (buckets t)\<rparr>"
    unfolding bk_def by (rule soft_timer_add_Inr)
  have bk: "bk k < num_buckets" by (simp add: bk_def)
  from False have e: "e \<notin> set (concat (buckets t))" "e \<notin> set (timeout_list t)"
    by (auto simp: is_soft_timer_running_def)
  have d: "distinct (concat (add_tail_bucket (bk k) e (buckets t)) @ timeout_list t)"
    using assms(1) bk e by (intro distinct_concat_update_snoc) (simp_all add: timer_wf_def)
  have "unat (if x = e then tick t + k else etick t x) mod num_buckets = i"
    if i: "i < num_buckets" and x: "x \<in> set (add_tail_bucket (bk k) e (buckets t) ! i)" for i x
  proof (cases "x = e")
    case True
    have "i = bk k"
    proof (rule ccontr)
      assume "i \<noteq> bk k"
      with x i True assms(1) have "e \<in> set (buckets t ! i)"
        by (simp add: add_tail_bucket_def)
      with e(1) i assms(1) show False by (auto simp: timer_wf_length)
    qed
    with True show ?thesis by (simp add: bk_def)
  next
    case False
    with x i assms(1) have "x \<in> set (buckets t ! i)"
      by (cases "i = bk k") (auto simp: add_tail_bucket_def timer_wf_length bk)
    with i False assms(1) show ?thesis by (simp add: timer_wf_def)
  qed
  with d assms(1) show ?thesis
    by (simp add: t' timer_wf_def add_tail_bucket_def)
qed

lemma soft_timer_del_frame:
  "tick (soft_timer_del t e) = tick t" "tick_rate (soft_timer_del t e) = tick_rate t"
  "etick (soft_timer_del t e) = etick t"
  by (simp_all add: soft_timer_del_def)

lemma soft_timer_del_shrinks:
  "length (timeout_list (soft_timer_del t e)) \<le> length (timeout_list t)"
  by (simp add: soft_timer_del_def length_remove1)

lemma soft_timer_del_wf: "timer_wf t \<Longrightarrow> timer_wf (soft_timer_del t e)"
  using set_remove1_subset by (fastforce simp: timer_wf_def soft_timer_del_def concat_map_remove1
      simp del: set_concat)

lemma soft_timer_del_running:
  "timer_wf t \<Longrightarrow>
   is_soft_timer_running (soft_timer_del t e) x \<longleftrightarrow> x \<noteq> e \<and> is_soft_timer_running t x"
  by (auto simp: is_soft_timer_running_def soft_timer_del_def timer_wf_def concat_map_remove1
      simp del: set_concat)

text \<open>The timer service as its clients use it: starting and stopping never disturb another
  element.\<close>

lemmas soft_timer_facts =
  soft_timer_add_wf soft_timer_add_running soft_timer_add_frame
  soft_timer_del_wf soft_timer_del_running soft_timer_del_frame

section \<open>A tick\<close>

lemma scan_bucket_filter:
  "distinct keep \<Longrightarrow> distinct ps \<Longrightarrow>
   scan_bucket et now ps (keep, due) =
     (filter (\<lambda>p. \<not> (p \<in> set ps \<and> et p = now)) keep, due @ filter (\<lambda>p. et p = now) ps)"
proof (induction ps arbitrary: keep due)
  case (Cons p ps)
  then show ?case
    by (auto simp: distinct_remove1_removeAll removeAll_filter_not_eq intro!: filter_cong)
qed simp

lemma timer_collect_eq:
  assumes "timer_wf t"
  shows "timer_collect t =
    (let now = tick t + 1; i = unat now mod num_buckets; b = buckets t ! i
     in t\<lparr>tick := now, buckets := (buckets t)[i := filter (\<lambda>p. etick t p \<noteq> now) b],
          timeout_list := filter (\<lambda>p. etick t p = now) b\<rparr>)"
proof -
  have "distinct (buckets t ! i)" if "i < num_buckets" for i
    using assms that by (simp add: timer_wf_def distinct_concat_iff)
  then show ?thesis
    by (auto simp: timer_collect_def Let_def scan_bucket_filter intro!: filter_cong
        arg_cong [where f = "\<lambda>b. t\<lparr>tick := _, buckets := (buckets t)[_ := b], timeout_list := _\<rparr>"])
qed

lemma bucket_subset: "i < length bs \<Longrightarrow> set (bs ! i) \<subseteq> set (concat bs)"
  by (auto intro!: bexI [of _ "bs ! i"])

lemma bucketE:
  assumes "x \<in> set (concat bs)"
  obtains i where "i < length bs" "x \<in> set (bs ! i)"
proof -
  from assms obtain b where "b \<in> set bs" "x \<in> set b" by auto
  then show thesis using that by (auto simp: in_set_conv_nth [of b])
qed

lemma timer_collect_timeout:
  assumes "timer_wf t" "timeout_list t = []"
  shows "e \<in> set (timeout_list (timer_collect t)) \<longleftrightarrow>
         is_soft_timer_running t e \<and> etick t e = tick t + 1"
proof
  assume "e \<in> set (timeout_list (timer_collect t))"
  with assms show "is_soft_timer_running t e \<and> etick t e = tick t + 1"
    using bucket_subset [of "unat (tick t + 1) mod num_buckets" "buckets t"]
    by (auto simp: timer_collect_eq Let_def is_soft_timer_running_def timer_wf_length
        simp del: set_concat)
next
  assume e: "is_soft_timer_running t e \<and> etick t e = tick t + 1"
  with assms(2) have "e \<in> set (concat (buckets t))"
    by (simp add: is_soft_timer_running_def)
  then obtain i where i: "i < length (buckets t)" "e \<in> set (buckets t ! i)"
    by (rule bucketE)
  with assms(1) have "unat (etick t e) mod num_buckets = i"
    by (simp add: timer_wf_def)
  with e have "i = unat (tick t + 1) mod num_buckets" by simp
  with i e assms(1) show "e \<in> set (timeout_list (timer_collect t))"
    by (simp add: timer_collect_eq Let_def)
qed

lemma timer_collect_frame:
  "tick (timer_collect t) = tick t + 1" "tick_rate (timer_collect t) = tick_rate t"
  "etick (timer_collect t) = etick t"
  by (simp_all add: timer_collect_def Let_def split: prod.splits)

lemma set_filter_split: "set (filter P xs) \<union> set (filter (\<lambda>x. \<not> P x) xs) = set xs"
  by auto

lemma timer_collect_wf:
  assumes "timer_wf t" "timeout_list t = []"
  shows "timer_wf (timer_collect t)"
proof -
  define i where "i = unat (tick t + 1) mod num_buckets"
  have i: "i < length (buckets t)" using assms(1) by (simp add: i_def timer_wf_length)
  have d: "distinct (concat (take i (buckets t)) @ buckets t ! i @ concat (drop (Suc i) (buckets t)))"
    using assms(1) unfolding concat_split [OF i, symmetric] by (simp add: timer_wf_def)
  show ?thesis
    using assms d i
    by (auto simp: timer_wf_def timer_collect_eq Let_def i_def [symmetric] concat_update
        nth_list_update simp del: set_concat)
qed

lemma timer_collect_running:
  assumes "timer_wf t" "timeout_list t = []"
  shows "is_soft_timer_running (timer_collect t) e \<longleftrightarrow> is_soft_timer_running t e"
proof -
  define i where "i = unat (tick t + 1) mod num_buckets"
  have i: "i < length (buckets t)" using assms(1) by (simp add: i_def timer_wf_length)
  show ?thesis
    using assms
    by (auto simp: is_soft_timer_running_def timer_collect_eq Let_def i_def [symmetric]
        concat_update [OF i] concat_split [OF i] simp del: set_concat)
qed

section \<open>The owner of a timer\<close>

text \<open>
  What \<open>soft_timer_drive\<close> needs of the state that holds the timer: \<open>upd\<close> really updates the
  timer that \<open>get\<close> reads, and a callback, run after its element has been unlinked, restores
  the invariant of the owner and puts nothing on the list of timed out elements.
\<close>

locale timer_host =
  fixes get :: "'s \<Rightarrow> 'e soft_timer"
    and upd :: "('e soft_timer \<Rightarrow> 'e soft_timer) \<Rightarrow> 's \<Rightarrow> 's"
    and cb :: "'e \<Rightarrow> 's \<Rightarrow> 's res"
    and inv :: "'s \<Rightarrow> bool"
  assumes get_upd: "get (upd f s) = f (get s)"
    and inv_collect: "inv s \<Longrightarrow> timeout_list (get s) = [] \<Longrightarrow> inv (upd timer_collect s)"
    and cb_inv: "\<lbrakk>inv s; timeout_list (get s) = p # ps;
                 cb p (upd (\<lambda>t. t\<lparr>timeout_list := ps\<rparr>) s) = Inr s'\<rbrakk> \<Longrightarrow>
                inv s' \<and> length (timeout_list (get s')) \<le> length ps"
begin

lemma run_timeouts_inv:
  "inv s \<Longrightarrow> run_timeouts get upd cb fuel s = Inr s' \<Longrightarrow> inv s' \<and> timeout_list (get s') = []"
proof (induction fuel arbitrary: s)
  case 0
  then show ?case by (cases "timeout_list (get s)") auto
next
  case (Suc fuel)
  then show ?case by (cases "timeout_list (get s)") (auto simp: res_iff dest: cb_inv)
qed

text \<open>With as much fuel as there are timed out elements the loop never runs dry: it fails only
  where a callback fails.\<close>

lemma run_timeouts_fails:
  "\<lbrakk>inv s; length (timeout_list (get s)) \<le> fuel; run_timeouts get upd cb fuel s = Inl f\<rbrakk> \<Longrightarrow>
   \<exists>s1 p ps. inv s1 \<and> timeout_list (get s1) = p # ps \<and>
     cb p (upd (\<lambda>t. t\<lparr>timeout_list := ps\<rparr>) s1) = Inl f"
proof (induction fuel arbitrary: s)
  case 0
  then show ?case by simp
next
  case (Suc fuel)
  then obtain p ps where p: "timeout_list (get s) = p # ps"
    by (cases "timeout_list (get s)") auto
  show ?case
  proof (cases "cb p (upd (\<lambda>t. t\<lparr>timeout_list := ps\<rparr>) s)")
    case (Inl f')
    with Suc.prems p show ?thesis by auto
  next
    case (Inr s')
    with Suc.prems p have "run_timeouts get upd cb fuel s' = Inl f" by simp
    moreover from cb_inv [OF Suc.prems(1) p Inr] Suc.prems(2) p
    have "inv s'" "length (timeout_list (get s')) \<le> fuel" by auto
    ultimately show ?thesis by (intro Suc.IH)
  qed
qed

lemma drive_inv:
  "\<lbrakk>inv s; timeout_list (get s) = []; soft_timer_drive get upd cb s = Inr s'\<rbrakk> \<Longrightarrow>
   inv s' \<and> timeout_list (get s') = []"
  unfolding soft_timer_drive_def Let_def by (rule run_timeouts_inv [OF inv_collect])

lemma drive_fails:
  "\<lbrakk>inv s; timeout_list (get s) = []; soft_timer_drive get upd cb s = Inl f\<rbrakk> \<Longrightarrow>
   \<exists>s1 p ps. inv s1 \<and> timeout_list (get s1) = p # ps \<and>
     cb p (upd (\<lambda>t. t\<lparr>timeout_list := ps\<rparr>) s1) = Inl f"
  unfolding soft_timer_drive_def Let_def by (rule run_timeouts_fails [OF inv_collect]) auto

end

section \<open>When a timer fires\<close>

text \<open>
  The wheel alone, with callbacks that only record that they ran: the state is the timer and
  the log of the elements that have timed out.
\<close>

definition log_cb :: "'e \<Rightarrow> 'e soft_timer \<times> 'e list \<Rightarrow> ('e soft_timer \<times> 'e list) res" where
  "log_cb e s = Inr (fst s, snd s @ [e])"

definition drive_log :: "'e soft_timer \<times> 'e list \<Rightarrow> ('e soft_timer \<times> 'e list) res" where
  "drive_log s = soft_timer_drive fst apfst log_cb s"

fun drive_logs :: "nat \<Rightarrow> 'e soft_timer \<times> 'e list \<Rightarrow> ('e soft_timer \<times> 'e list) res" where
  "drive_logs 0 s = Inr s"
| "drive_logs (Suc n) s = bindE (drive_logs n s) drive_log"

definition idle_wf :: "'e soft_timer \<Rightarrow> bool" where
  "idle_wf t \<longleftrightarrow> timer_wf t \<and> timeout_list t = []"

lemma run_log:
  "length (timeout_list t) \<le> n \<Longrightarrow>
   run_timeouts fst apfst log_cb n (t, l) = Inr (t\<lparr>timeout_list := []\<rparr>, l @ timeout_list t)"
proof (induction n arbitrary: t l)
  case (Suc n)
  then show ?case
    by (cases "timeout_list t") (simp_all add: log_cb_def)
qed simp

lemma drive_log_eq:
  "drive_log (t, l) =
     Inr ((timer_collect t)\<lparr>timeout_list := []\<rparr>, l @ timeout_list (timer_collect t))"
  by (simp add: drive_log_def soft_timer_drive_def run_log)

lemma idle_wf_drive: "idle_wf t \<Longrightarrow> idle_wf ((timer_collect t)\<lparr>timeout_list := []\<rparr>)"
  using timer_collect_wf [of t] by (simp add: idle_wf_def timer_wf_def)

lemma running_after_drive:
  "idle_wf t \<Longrightarrow> is_soft_timer_running ((timer_collect t)\<lparr>timeout_list := []\<rparr>) e \<longleftrightarrow>
   is_soft_timer_running t e \<and> etick t e \<noteq> tick t + 1"
  using timer_collect_running [of t e] timer_collect_timeout [of t e] timer_collect_wf [of t]
  by (auto simp: idle_wf_def is_soft_timer_running_def timer_wf_def simp del: set_concat)

lemma drive_logs_before:
  assumes "idle_wf t" "is_soft_timer_running t e" "n < unat (etick t e - tick t)"
  shows "\<exists>t' l'. drive_logs n (t, l) = Inr (t', l @ l') \<and> idle_wf t' \<and>
           is_soft_timer_running t' e \<and> etick t' e = etick t e \<and> tick t' = tick t + of_nat n \<and>
           e \<notin> set l'"
  using assms(3)
proof (induction n)
  case 0
  with assms show ?case by simp
next
  case (Suc n)
  then obtain t' l' where t': "drive_logs n (t, l) = Inr (t', l @ l')" "idle_wf t'"
    "is_soft_timer_running t' e" "etick t' e = etick t e" "tick t' = tick t + of_nat n"
    "e \<notin> set l'"
    by auto
  have "etick t' e \<noteq> tick t' + 1"
  proof
    assume "etick t' e = tick t' + 1"
    with t' have "etick t e - tick t = of_nat (Suc n)" by (simp add: algebra_simps)
    with Suc.prems show False using unat_of_nat_le [where 'a = 32, of "Suc n"] by (simp del: of_nat_Suc)
  qed
  with t' show ?case
    using running_after_drive [of t' e] idle_wf_drive [of t'] timer_collect_timeout [of t' e]
    by (auto simp: drive_log_eq idle_wf_def timer_collect_frame algebra_simps)
qed

lemma drive_logs_due:
  assumes "idle_wf t" "is_soft_timer_running t e" "etick t e \<noteq> tick t"
  shows "\<exists>t' l'. drive_logs (unat (etick t e - tick t)) (t, l) = Inr (t', l @ l') \<and> idle_wf t' \<and>
           \<not> is_soft_timer_running t' e \<and> count_list l' e = 1"
proof -
  have "0 < unat (etick t e - tick t)" using assms(3) by (simp add: unat_gt_0)
  then obtain n where n: "unat (etick t e - tick t) = Suc n" by (cases "unat (etick t e - tick t)") auto
  then obtain t' l' where t': "drive_logs n (t, l) = Inr (t', l @ l')" "idle_wf t'"
    "is_soft_timer_running t' e" "etick t' e = etick t e" "tick t' = tick t + of_nat n"
    "e \<notin> set l'"
    using drive_logs_before [OF assms(1,2), of n l] by auto
  have "etick t e = tick t + of_nat (Suc n)"
    unfolding n [symmetric] by simp
  with t' have due: "etick t' e = tick t' + 1" by (simp add: algebra_simps)
  have "timer_wf (timer_collect t')" "e \<in> set (timeout_list (timer_collect t'))"
    using t' due timer_collect_wf [of t'] timer_collect_timeout [of t' e]
    by (auto simp: idle_wf_def)
  then have "count_list (timeout_list (timer_collect t')) e = 1"
    by (intro count_list_distinct) (simp_all add: timer_wf_def)
  moreover have "\<not> is_soft_timer_running ((timer_collect t')\<lparr>timeout_list := []\<rparr>) e"
    using running_after_drive [of t' e] t' due by simp
  ultimately show ?thesis
    using t' n idle_wf_drive [of t'] by (simp add: drive_log_eq)
qed

text \<open>Restarting an element: what every restart function of the library does.\<close>

definition restart :: "'e soft_timer \<Rightarrow> 'e \<Rightarrow> int \<Rightarrow> 'e soft_timer res" where
  "restart t e ms = soft_timer_add (soft_timer_del t e) e ms"

lemma soft_timer_add_etick_other:
  "soft_timer_add t e ms = Inr t' \<Longrightarrow> x \<noteq> e \<Longrightarrow> etick t' x = etick t x"
  by (auto simp: soft_timer_add_def res_iff Let_def split: if_splits)

lemma restart_total: "timer_wf t \<Longrightarrow> \<exists>t'. restart t e ms = Inr t'"
  unfolding restart_def by (intro soft_timer_add_total soft_timer_del_wf)

lemma restart_facts:
  assumes "timer_wf t" "restart t e ms = Inr t'"
  shows "timer_wf t'" "is_soft_timer_running t' x \<longleftrightarrow> x = e \<or> is_soft_timer_running t x"
    "tick t' = tick t" "tick_rate t' = tick_rate t"
    "length (timeout_list t') \<le> length (timeout_list t)"
    "x \<noteq> e \<Longrightarrow> etick t' x = etick t x"
proof -
  have a: "soft_timer_add (soft_timer_del t e) e ms = Inr t'"
    using assms(2) by (simp add: restart_def)
  have wf: "timer_wf (soft_timer_del t e)" using assms(1) by (rule soft_timer_del_wf)
  show "timer_wf t'" by (rule soft_timer_add_wf [OF wf a])
  show "is_soft_timer_running t' x \<longleftrightarrow> x = e \<or> is_soft_timer_running t x"
    using soft_timer_add_running [OF wf a] soft_timer_del_running [OF assms(1)] by auto
  show "tick t' = tick t" "tick_rate t' = tick_rate t"
    using soft_timer_add_frame [OF a] by (simp_all add: soft_timer_del_frame)
  show "length (timeout_list t') \<le> length (timeout_list t)"
    using soft_timer_add_frame [OF a] by (simp add: soft_timer_del_shrinks)
  show "x \<noteq> e \<Longrightarrow> etick t' x = etick t x"
    using soft_timer_add_etick_other [OF a] by (simp add: soft_timer_del_frame)
qed

text \<open>The number of ticks a timeout is rounded to: the next multiple of the tick rate.\<close>

lemma div_round_up:
  "0 < r \<Longrightarrow> (if m mod r \<noteq> 0 then m div r + 1 else m div r) = (m + r - 1) div r" for m r :: int
proof -
  assume r: "0 < r"
  have m: "m = m div r * r + m mod r" by simp
  have b: "0 \<le> m mod r" "m mod r < r" using r by simp_all
  show ?thesis
  proof (cases "m mod r = 0")
    case True
    then show ?thesis using r by (intro int_div_pos_eq [symmetric, of _ _ _ "r - 1", THEN trans [rotated]])
        (auto simp: mod_eq_0_iff_dvd)
  next
    case False
    have "(m + r - 1) div r = m div r + 1"
      by (rule int_div_pos_eq [of _ _ _ "m mod r - 1"]) (use False b m in \<open>auto simp: algebra_simps\<close>)
    with False show ?thesis by simp
  qed
qed

lemma get_soft_tick_round_up:
  assumes "0 < tick_rate t" "0 \<le> ms"
  shows "get_soft_tick_from_milsec t ms = Inr (word_of_int ((ms + tick_rate t - 1) div tick_rate t))"
proof -
  have "get_soft_tick_from_milsec t ms =
      Inr (word_of_int (if ms mod tick_rate t \<noteq> 0 then ms div tick_rate t + 1
                        else ms div tick_rate t))"
    using assms by (simp add: get_soft_tick_from_milsec_def c_div_mod_nonneg)
  then show ?thesis by (simp only: div_round_up [OF assms(1)])
qed

lemma round_up_bounds:
  "0 < r \<Longrightarrow> 0 < m \<Longrightarrow> 0 < (m + r - 1) div r \<and> (m + r - 1) div r \<le> m" for m r :: int
proof
  assume r: "0 < r" "0 < m"
  then show "0 < (m + r - 1) div r" by (simp add: pos_imp_zdiv_pos_iff)
  have "m + r - 1 \<le> m * r"
    using r mult_nonneg_nonneg [of "m - 1" "r - 1"] by (simp add: algebra_simps)
  then have "(m + r - 1) div r \<le> m * r div r" using r by (intro zdiv_mono1)
  then show "(m + r - 1) div r \<le> m" using r by simp
qed

lemma soft_timer_add_etick:
  assumes "timer_wf t" "\<not> is_soft_timer_running t e" "0 < ms" "ms < 2 ^ 31"
    and "soft_timer_add t e ms = Inr t'"
  shows "unat (etick t' e - tick t') = nat ((ms + tick_rate t - 1) div tick_rate t)"
proof -
  have r: "0 < tick_rate t" using assms(1) by (rule timer_wf_rate)
  from assms(5,2) obtain k where k: "get_soft_tick_from_milsec t ms = Inr k"
    and t': "etick t' e = tick t + k" "tick t' = tick t"
    by (auto elim: soft_timer_add_Inr)
  have "k = word_of_int ((ms + tick_rate t - 1) div tick_rate t)"
    using k get_soft_tick_round_up [OF r, of ms] assms(3) by simp
  then have "etick t' e - tick t' = word_of_int ((ms + tick_rate t - 1) div tick_rate t)"
    using t' by simp
  then show ?thesis
    using round_up_bounds [OF r assms(3)] assms(4)
    by (simp add: unat_eq_nat_uint uint_word_of_int_eq take_bit_int_eq_self)
qed

lemma restart_etick:
  assumes "timer_wf t" "0 < ms" "ms < 2 ^ 31" "restart t e ms = Inr t'"
  shows "unat (etick t' e - tick t') = nat ((ms + tick_rate t - 1) div tick_rate t)"
  using soft_timer_add_etick [OF soft_timer_del_wf [OF assms(1)] _ assms(2,3), of e e t'] assms(1,4)
  by (simp add: restart_def soft_timer_del_running soft_timer_del_frame)

text \<open>
  C19: a timer started for a positive number of milliseconds times out exactly once, at the
  tick its duration rounds up to, and is still pending at every tick before.
\<close>

theorem soft_timer_fires_on_time:
  assumes "idle_wf t" "\<not> is_soft_timer_running t e" "0 < ms" "ms < 2 ^ 31"
    and "soft_timer_add t e ms = Inr t'"
    and "k = nat ((ms + tick_rate t - 1) div tick_rate t)"
  shows "(\<exists>t2 fired. drive_logs k (t', []) = Inr (t2, fired) \<and>
            count_list fired e = 1 \<and> \<not> is_soft_timer_running t2 e) \<and>
         (\<forall>n < k. \<exists>t2 fired. drive_logs n (t', []) = Inr (t2, fired) \<and>
            e \<notin> set fired \<and> is_soft_timer_running t2 e)"
proof -
  have wf: "timer_wf t" using assms(1) by (simp add: idle_wf_def)
  have idle: "idle_wf t'"
    using soft_timer_add_wf [OF wf assms(5)] soft_timer_add_frame [OF assms(5)] assms(1)
    by (simp add: idle_wf_def)
  have run: "is_soft_timer_running t' e"
    using soft_timer_add_running [OF wf assms(5)] by simp
  have k: "unat (etick t' e - tick t') = k"
    using soft_timer_add_etick [OF wf assms(2-5)] assms(6) by simp
  have "0 < k"
    using round_up_bounds [OF timer_wf_rate [OF wf] assms(3)] assms(6) by simp
  then have "etick t' e \<noteq> tick t'" using k by auto
  from drive_logs_due [OF idle run this, of "[]"]
  have "\<exists>t2 fired. drive_logs k (t', []) = Inr (t2, fired) \<and>
          count_list fired e = 1 \<and> \<not> is_soft_timer_running t2 e"
    unfolding k by auto
  moreover have "\<exists>t2 fired. drive_logs n (t', []) = Inr (t2, fired) \<and>
          e \<notin> set fired \<and> is_soft_timer_running t2 e" if "n < k" for n
    using drive_logs_before [OF idle run, of n "[]"] that k by auto
  ultimately show ?thesis by blast
qed

text \<open>A wheel of tick rate 100 at tick 4294967295, about to wrap around: a timer of 250
  milliseconds.\<close>

definition wheel_example :: "nat soft_timer" where
  "wheel_example = \<lparr>tick_rate = 100, tick = 4294967295, buckets = replicate num_buckets [],
     timeout_list = [], etick = (\<lambda>_. 0)\<rparr>"

lemma wheel_example_idle: "idle_wf wheel_example"
  by (simp add: idle_wf_def timer_wf_def wheel_example_def num_buckets_def)

lemma wheel_example_not_running: "\<not> is_soft_timer_running wheel_example e"
  by (simp add: is_soft_timer_running_def wheel_example_def)

theorem soft_timer_fires_on_time_witness:
  "\<exists>t'. soft_timer_add wheel_example 7 250 = Inr t' \<and>
     (\<exists>t2 fired. drive_logs 3 (t', []) = Inr (t2, fired) \<and>
        count_list fired 7 = 1 \<and> \<not> is_soft_timer_running t2 7) \<and>
     (\<forall>n < 3. \<exists>t2 fired. drive_logs n (t', []) = Inr (t2, fired) \<and>
        7 \<notin> set fired \<and> is_soft_timer_running t2 7)"
proof -
  have wf: "timer_wf wheel_example"
    using wheel_example_idle by (simp add: idle_wf_def)
  obtain t' where t': "soft_timer_add wheel_example 7 250 = Inr t'"
    using soft_timer_add_total [OF wf] by blast
  have k: "(3::nat) = nat ((250 + tick_rate wheel_example - 1) div tick_rate wheel_example)"
    by (simp add: wheel_example_def)
  show ?thesis
    using soft_timer_fires_on_time [OF wheel_example_idle wheel_example_not_running _ _ t' k] t'
    by simp
qed

end
