(* ===== verification/Source_Conflict.thy ===== *)
theory Source_Conflict
  imports Member_Table Soft_Timer
begin

text \<open>
  The source conflict table of \<^verbatim>\<open>src/rtp_source_conflict.c\<close>: up to 16 conflicting transport
  addresses, each kept for five seconds after it was last seen. The table shares the
  session's soft timer.
  The timer elements of a session are named here: the \<open>SoftTimerElem\<close> of the RTCP interval,
  of each member slot (membership, sender and leave timers) and of each conflict entry.
\<close>

section \<open>The timer elements of a session\<close>

datatype timer_id =
    RtcpTimer
  | MemberTe nat
  | SenderTe nat
  | LeaveTe nat
  | ConflictTe nat

section \<open>State and operations\<close>

record rtp_source_conflict_table =
  entry_addr :: "sockaddr_in list"
  conflict_free :: "nat list"
  conflict_used :: "nat list"

type_synonym sess_timer = "timer_id soft_timer"

text \<open>The callback of an entry's timer.\<close>

definition rtp_source_conflict_timer_expired ::
  "rtp_source_conflict_table \<Rightarrow> nat \<Rightarrow> rtp_source_conflict_table" where
  "rtp_source_conflict_timer_expired tbl c =
     tbl\<lparr>conflict_used := remove1 c (conflict_used tbl),
         conflict_free := remove1 c (conflict_free tbl) @ [c]\<rparr>"

fun init_conflict_timers :: "sess_timer \<Rightarrow> nat list \<Rightarrow> sess_timer res" where
  "init_conflict_timers t [] = Inr t"
| "init_conflict_timers t (i # is) =
     bindE (soft_timer_init_elem t (ConflictTe i)) (\<lambda>t. init_conflict_timers t is)"

definition rtp_source_conflict_table_init ::
  "sess_timer \<Rightarrow> rtp_source_conflict_table \<Rightarrow> (sess_timer \<times> rtp_source_conflict_table) res" where
  "rtp_source_conflict_table_init tmr tbl =
     bindE (init_conflict_timers tmr [0..<RTP_CONFIG_SOURCE_CONFLICT_TABLE_SIZE]) (\<lambda>tmr.
     Inr (tmr, tbl\<lparr>conflict_used := [],
                   conflict_free := [0..<RTP_CONFIG_SOURCE_CONFLICT_TABLE_SIZE]\<rparr>))"

definition rtp_source_conflict_table_deinit ::
  "sess_timer \<Rightarrow> rtp_source_conflict_table \<Rightarrow> sess_timer" where
  "rtp_source_conflict_table_deinit tmr tbl =
     fold (\<lambda>c t. soft_timer_del t (ConflictTe c)) (conflict_used tbl) tmr"

definition find_conflict :: "rtp_source_conflict_table \<Rightarrow> sockaddr_in \<Rightarrow> nat option" where
  "find_conflict tbl addr = find (\<lambda>c. entry_addr tbl ! c = addr) (conflict_used tbl)"

text \<open>Finding an entry restarts its timer.\<close>

definition rtp_source_conflict_lookup ::
  "sess_timer \<Rightarrow> rtp_source_conflict_table \<Rightarrow> sockaddr_in \<Rightarrow> (sess_timer \<times> bool) res" where
  "rtp_source_conflict_lookup tmr tbl addr =
     (case find_conflict tbl addr of
        None \<Rightarrow> Inr (tmr, False)
      | Some c \<Rightarrow>
          bindE (restart tmr (ConflictTe c) RTP_CONFIG_SOURCE_CONFLICT_TIMEOUT)
            (\<lambda>tmr. Inr (tmr, True)))"

definition alloc_conflict ::
  "rtp_source_conflict_table \<Rightarrow> sockaddr_in \<Rightarrow> (rtp_source_conflict_table \<times> nat) option" where
  "alloc_conflict tbl addr =
     (case conflict_free tbl of
        [] \<Rightarrow> None
      | c # cs \<Rightarrow>
          Some (tbl\<lparr>conflict_free := cs, entry_addr := (entry_addr tbl)[c := addr],
                    conflict_used := conflict_used tbl @ [c]\<rparr>, c))"

definition rtp_source_conflict_add ::
  "sess_timer \<Rightarrow> rtp_source_conflict_table \<Rightarrow> sockaddr_in \<Rightarrow>
   (sess_timer \<times> rtp_source_conflict_table \<times> bool) res" where
  "rtp_source_conflict_add tmr tbl addr =
     (case alloc_conflict tbl addr of
        None \<Rightarrow> Inr (tmr, tbl, False)
      | Some (tbl, c) \<Rightarrow>
          bindE (soft_timer_add tmr (ConflictTe c) RTP_CONFIG_SOURCE_CONFLICT_TIMEOUT)
            (\<lambda>tmr. Inr (tmr, tbl, True)))"

section \<open>Slots\<close>

interpretation ct: slot_pool RTP_CONFIG_SOURCE_CONFLICT_TABLE_SIZE conflict_free conflict_used
  "\<lambda>tbl. alloc_conflict tbl addr" rtp_source_conflict_timer_expired for addr
  by unfold_locales
    (auto simp: alloc_conflict_def rtp_source_conflict_timer_expired_def remove1_idem
      split: list.splits)

text \<open>The invariant: the slots are partitioned, an address has at most one entry, and exactly
  the used entries have their timer running.\<close>

definition conflict_wf :: "sess_timer \<Rightarrow> rtp_source_conflict_table \<Rightarrow> bool" where
  "conflict_wf tmr tbl \<longleftrightarrow>
     length (entry_addr tbl) = RTP_CONFIG_SOURCE_CONFLICT_TABLE_SIZE \<and> ct.pool_ok tbl \<and>
     distinct (map ((!) (entry_addr tbl)) (conflict_used tbl)) \<and>
     (\<forall>c. is_soft_timer_running tmr (ConflictTe c) \<longleftrightarrow> c \<in> set (conflict_used tbl))"

definition conflict_addrs :: "rtp_source_conflict_table \<Rightarrow> sockaddr_in set" where
  "conflict_addrs tbl = (!) (entry_addr tbl) ` set (conflict_used tbl)"

lemma find_conflict_Some:
  "find_conflict tbl addr = Some c \<Longrightarrow> c \<in> set (conflict_used tbl) \<and> entry_addr tbl ! c = addr"
  by (auto simp: find_conflict_def find_Some_iff)

lemma find_conflict_None: "find_conflict tbl addr = None \<longleftrightarrow> addr \<notin> conflict_addrs tbl"
  by (auto simp: find_conflict_def conflict_addrs_def find_None_iff)

lemma conflict_wf_cong:
  "conflict_wf tmr tbl \<Longrightarrow>
   (\<And>c. is_soft_timer_running tmr' (ConflictTe c) \<longleftrightarrow> is_soft_timer_running tmr (ConflictTe c)) \<Longrightarrow>
   conflict_wf tmr' tbl"
  by (simp add: conflict_wf_def)

lemma conflict_lookup_Inr:
  assumes "timer_wf tmr" "conflict_wf tmr tbl"
    and "rtp_source_conflict_lookup tmr tbl addr = Inr (tmr', b)"
  shows "timer_wf tmr'" "conflict_wf tmr' tbl" "b \<longleftrightarrow> addr \<in> conflict_addrs tbl"
    "is_soft_timer_running tmr' x \<longleftrightarrow> is_soft_timer_running tmr x"
    "tick tmr' = tick tmr" "tick_rate tmr' = tick_rate tmr"
    "length (timeout_list tmr') \<le> length (timeout_list tmr)"
proof -
  have *: "timer_wf tmr' \<and> (b \<longleftrightarrow> addr \<in> conflict_addrs tbl) \<and>
      (\<forall>x. is_soft_timer_running tmr' x \<longleftrightarrow> is_soft_timer_running tmr x) \<and>
      tick tmr' = tick tmr \<and> tick_rate tmr' = tick_rate tmr \<and>
      length (timeout_list tmr') \<le> length (timeout_list tmr)"
  proof (cases "find_conflict tbl addr")
    case None
    then have "addr \<notin> conflict_addrs tbl" by (simp add: find_conflict_None)
    with None assms show ?thesis by (simp add: rtp_source_conflict_lookup_def)
  next
    case (Some c)
    with assms(3) have r: "restart tmr (ConflictTe c) RTP_CONFIG_SOURCE_CONFLICT_TIMEOUT = Inr tmr'"
      and b: "b" by (auto simp: rtp_source_conflict_lookup_def res_iff)
    have "is_soft_timer_running tmr (ConflictTe c)"
      using assms(2) find_conflict_Some [OF Some] by (simp add: conflict_wf_def)
    moreover have "addr \<in> conflict_addrs tbl"
      using find_conflict_Some [OF Some] by (auto simp: conflict_addrs_def)
    ultimately show ?thesis using restart_facts [OF assms(1) r] b by auto
  qed
  then show "timer_wf tmr'" "b \<longleftrightarrow> addr \<in> conflict_addrs tbl"
    "is_soft_timer_running tmr' x \<longleftrightarrow> is_soft_timer_running tmr x"
    "tick tmr' = tick tmr" "tick_rate tmr' = tick_rate tmr"
    "length (timeout_list tmr') \<le> length (timeout_list tmr)" by auto
  from * assms(2) show "conflict_wf tmr' tbl" by (auto intro: conflict_wf_cong)
qed

lemma conflict_lookup_total:
  assumes "timer_wf tmr"
  shows "\<exists>r. rtp_source_conflict_lookup tmr tbl addr = Inr r"
proof (cases "find_conflict tbl addr")
  case (Some c)
  obtain t where "restart tmr (ConflictTe c) RTP_CONFIG_SOURCE_CONFLICT_TIMEOUT = Inr t"
    using restart_total [OF assms] by blast
  with Some show ?thesis by (auto simp: rtp_source_conflict_lookup_def)
qed (auto simp: rtp_source_conflict_lookup_def)

lemma alloc_conflict_Some:
  assumes "alloc_conflict tbl addr = Some (tbl', c)"
  shows "conflict_free tbl = c # conflict_free tbl'" "conflict_used tbl' = conflict_used tbl @ [c]"
    "entry_addr tbl' = (entry_addr tbl)[c := addr]"
  using assms by (auto simp: alloc_conflict_def split: list.splits)

lemma conflict_add_Inr:
  assumes "timer_wf tmr" "conflict_wf tmr tbl" "addr \<notin> conflict_addrs tbl"
    and "rtp_source_conflict_add tmr tbl addr = Inr (tmr', tbl', b)"
  shows "timer_wf tmr'" "conflict_wf tmr' tbl'"
    "b \<longleftrightarrow> length (conflict_used tbl) < RTP_CONFIG_SOURCE_CONFLICT_TABLE_SIZE"
    "conflict_addrs tbl' = (if b then insert addr (conflict_addrs tbl) else conflict_addrs tbl)"
    "(\<forall>c. x \<noteq> ConflictTe c) \<Longrightarrow> is_soft_timer_running tmr' x \<longleftrightarrow> is_soft_timer_running tmr x"
    "tick tmr' = tick tmr" "tick_rate tmr' = tick_rate tmr" "timeout_list tmr' = timeout_list tmr"
proof -
  have pool: "ct.pool_ok tbl" using assms(2) by (simp add: conflict_wf_def)
  have "timer_wf tmr' \<and> conflict_wf tmr' tbl' \<and>
      (b \<longleftrightarrow> length (conflict_used tbl) < RTP_CONFIG_SOURCE_CONFLICT_TABLE_SIZE) \<and>
      conflict_addrs tbl' = (if b then insert addr (conflict_addrs tbl) else conflict_addrs tbl) \<and>
      ((\<forall>c. x \<noteq> ConflictTe c) \<longrightarrow> is_soft_timer_running tmr' x \<longleftrightarrow> is_soft_timer_running tmr x) \<and>
      tick tmr' = tick tmr \<and> tick_rate tmr' = tick_rate tmr \<and>
      timeout_list tmr' = timeout_list tmr"
  proof (cases "alloc_conflict tbl addr")
    case None
    with assms pool ct.alloc_full [OF pool, of addr] show ?thesis
      by (simp add: rtp_source_conflict_add_def)
  next
    case (Some r)
    then obtain c where r: "alloc_conflict tbl addr = Some (tbl', c)" and b: "b"
      and add: "soft_timer_add tmr (ConflictTe c) RTP_CONFIG_SOURCE_CONFLICT_TIMEOUT = Inr tmr'"
      using assms(4) by (cases r) (auto simp: rtp_source_conflict_add_def res_iff)
    have c: "c < RTP_CONFIG_SOURCE_CONFLICT_TABLE_SIZE" "c \<notin> set (conflict_used tbl)"
      using ct.alloc_fresh [OF pool r] by auto
    have addrs: "map ((!) (entry_addr tbl')) (conflict_used tbl') =
        map ((!) (entry_addr tbl)) (conflict_used tbl) @ [addr]"
      using c assms(2)
      by (auto simp: alloc_conflict_Some [OF r] conflict_wf_def nth_list_update_neq
          intro!: nth_list_update_neq)
    from addrs assms(2,3) have "distinct (map ((!) (entry_addr tbl')) (conflict_used tbl'))"
      by (simp add: conflict_wf_def conflict_addrs_def)
    moreover have "conflict_addrs tbl' = insert addr (conflict_addrs tbl)"
      using arg_cong [OF addrs, of set] by (simp add: conflict_addrs_def)
    moreover have "ct.pool_ok tbl'" by (rule ct.alloc_ok [OF pool r])
    moreover have "length (conflict_used tbl) < RTP_CONFIG_SOURCE_CONFLICT_TABLE_SIZE"
      using ct.pool_length [OF pool] alloc_conflict_Some(1) [OF r] by simp
    ultimately show ?thesis
      using assms(2) b soft_timer_add_wf [OF assms(1) add] soft_timer_add_frame [OF add]
        soft_timer_add_running [OF assms(1) add]
      by (auto simp: conflict_wf_def alloc_conflict_Some [OF r])
  qed
  then show "timer_wf tmr'" "conflict_wf tmr' tbl'"
    "b \<longleftrightarrow> length (conflict_used tbl) < RTP_CONFIG_SOURCE_CONFLICT_TABLE_SIZE"
    "conflict_addrs tbl' = (if b then insert addr (conflict_addrs tbl) else conflict_addrs tbl)"
    "(\<forall>c. x \<noteq> ConflictTe c) \<Longrightarrow> is_soft_timer_running tmr' x \<longleftrightarrow> is_soft_timer_running tmr x"
    "tick tmr' = tick tmr" "tick_rate tmr' = tick_rate tmr" "timeout_list tmr' = timeout_list tmr"
    by auto
qed

lemma conflict_add_total:
  assumes "timer_wf tmr"
  shows "\<exists>r. rtp_source_conflict_add tmr tbl addr = Inr r"
proof (cases "alloc_conflict tbl addr")
  case (Some r)
  then obtain tbl' c where r: "alloc_conflict tbl addr = Some (tbl', c)" by (cases r) auto
  obtain t where "soft_timer_add tmr (ConflictTe c) RTP_CONFIG_SOURCE_CONFLICT_TIMEOUT = Inr t"
    using soft_timer_add_total [OF assms] by blast
  with r show ?thesis by (auto simp: rtp_source_conflict_add_def)
qed (auto simp: rtp_source_conflict_add_def)

text \<open>The expiry callback runs when its element has just stopped.\<close>

lemma conflict_expired_wf:
  assumes "ct.pool_ok tbl" "length (entry_addr tbl) = RTP_CONFIG_SOURCE_CONFLICT_TABLE_SIZE"
    "distinct (map ((!) (entry_addr tbl)) (conflict_used tbl))" "c \<in> set (conflict_used tbl)"
    "\<And>d. is_soft_timer_running tmr (ConflictTe d) \<longleftrightarrow> d \<noteq> c \<and> d \<in> set (conflict_used tbl)"
  shows "conflict_wf tmr (rtp_source_conflict_timer_expired tbl c)"
proof -
  have "entry_addr (rtp_source_conflict_timer_expired tbl c) = entry_addr tbl"
    by (simp add: rtp_source_conflict_timer_expired_def)
  then show ?thesis
    using assms ct.release_ok [OF assms(1,4)] ct.release_lists [OF assms(1,4)]
    by (auto simp: conflict_wf_def distinct_map_remove1)
qed


section \<open>What the table promises\<close>

lemma find_conflict_eq_Some:
  assumes "conflict_wf tmr tbl"
  shows "find_conflict tbl addr = Some c \<longleftrightarrow> c \<in> set (conflict_used tbl) \<and> entry_addr tbl ! c = addr"
proof
  assume c: "c \<in> set (conflict_used tbl) \<and> entry_addr tbl ! c = addr"
  moreover have "distinct (map ((!) (entry_addr tbl)) (conflict_used tbl))"
    using assms by (simp add: conflict_wf_def)
  ultimately show "find_conflict tbl addr = Some c"
    using find_distinct_map [of "(!) (entry_addr tbl)" "conflict_used tbl" c]
    by (auto simp: find_conflict_def)
qed (rule find_conflict_Some)

lemma conflict_lookup_restarts:
  assumes "timer_wf tmr" "find_conflict tbl addr = Some c"
    and "rtp_source_conflict_lookup tmr tbl addr = Inr (tmr', b)"
  shows "unat (etick tmr' (ConflictTe c) - tick tmr') = nat ((4999 + tick_rate tmr) div tick_rate tmr)"
proof -
  have "restart tmr (ConflictTe c) RTP_CONFIG_SOURCE_CONFLICT_TIMEOUT = Inr tmr'"
    using assms(2,3) by (auto simp: rtp_source_conflict_lookup_def res_iff)
  from restart_etick [OF assms(1) _ _ this] show ?thesis by (simp add: config_defs algebra_simps)
qed

text \<open>
  Adding an address that is not in the table succeeds exactly while fewer than 16 entries
  are in use; afterwards the lookup of any address answers what it answered before, except
  that the added address is found, and every hit restarts the entry's five seconds. When the
  table is full the address is dropped and every answer stays as it was.
\<close>

lemma conflict_table_add_lookup:
  assumes "timer_wf tmr" "conflict_wf tmr tbl" "addr \<notin> conflict_addrs tbl"
  shows "\<exists>tmr' tbl' b. rtp_source_conflict_add tmr tbl addr = Inr (tmr', tbl', b) \<and>
     timer_wf tmr' \<and> conflict_wf tmr' tbl' \<and>
     (b \<longleftrightarrow> length (conflict_used tbl) < RTP_CONFIG_SOURCE_CONFLICT_TABLE_SIZE) \<and>
     (\<forall>a. \<exists>t1 t2 hit.
        rtp_source_conflict_lookup tmr tbl a = Inr (t1, hit) \<and>
        rtp_source_conflict_lookup tmr' tbl' a = Inr (t2, hit \<or> b \<and> a = addr) \<and>
        conflict_wf t2 tbl' \<and>
        (\<forall>c. find_conflict tbl' a = Some c \<longrightarrow>
           unat (etick t2 (ConflictTe c) - tick t2) =
             nat ((4999 + tick_rate tmr) div tick_rate tmr)))"
proof -
  obtain tmr' tbl' b where add: "rtp_source_conflict_add tmr tbl addr = Inr (tmr', tbl', b)"
    using conflict_add_total [OF assms(1)] by (metis prod_cases3)
  note facts = conflict_add_Inr [OF assms add]
  have "\<exists>t1 t2 hit. rtp_source_conflict_lookup tmr tbl a = Inr (t1, hit) \<and>
        rtp_source_conflict_lookup tmr' tbl' a = Inr (t2, hit \<or> b \<and> a = addr) \<and>
        conflict_wf t2 tbl' \<and>
        (\<forall>c. find_conflict tbl' a = Some c \<longrightarrow>
           unat (etick t2 (ConflictTe c) - tick t2) =
             nat ((4999 + tick_rate tmr) div tick_rate tmr))" for a
  proof -
    obtain t1 hit where l1: "rtp_source_conflict_lookup tmr tbl a = Inr (t1, hit)"
      using conflict_lookup_total [OF assms(1)] by (metis surj_pair)
    obtain t2 hit2 where l2: "rtp_source_conflict_lookup tmr' tbl' a = Inr (t2, hit2)"
      using conflict_lookup_total [OF facts(1)] by (metis surj_pair)
    have "hit2 \<longleftrightarrow> hit \<or> b \<and> a = addr"
      using conflict_lookup_Inr(3) [OF assms(1,2) l1] conflict_lookup_Inr(3) [OF facts(1,2) l2]
        facts(4) by auto
    with l1 l2 show ?thesis
      using conflict_lookup_Inr(2) [OF facts(1,2) l2] conflict_lookup_restarts [OF facts(1) _ l2]
        facts(7) by auto
  qed
  with add facts(1,2,3) show ?thesis by blast
qed

definition empty_conflicts :: rtp_source_conflict_table where
  "empty_conflicts = \<lparr>entry_addr = replicate RTP_CONFIG_SOURCE_CONFLICT_TABLE_SIZE zero_addr,
     conflict_free = [0..<RTP_CONFIG_SOURCE_CONFLICT_TABLE_SIZE], conflict_used = []\<rparr>"

definition idle_timer :: sess_timer where
  "idle_timer = \<lparr>tick_rate = 100, tick = 0, buckets = replicate num_buckets [],
     timeout_list = [], etick = (\<lambda>_. 0)\<rparr>"

lemma idle_timer_wf: "timer_wf idle_timer"
  by (simp add: timer_wf_def idle_timer_def num_buckets_def)

lemma idle_timer_not_running [simp]: "\<not> is_soft_timer_running idle_timer e"
  by (simp add: is_soft_timer_running_def idle_timer_def num_buckets_def)

lemma empty_conflicts_wf: "conflict_wf idle_timer empty_conflicts"
  by (simp add: conflict_wf_def empty_conflicts_def ct.pool_ok_def)

theorem conflict_table_add_lookup_witness:
  "conflict_wf idle_timer empty_conflicts \<and> zero_addr \<notin> conflict_addrs empty_conflicts \<and>
   (\<exists>tmr' tbl' t1 t2. rtp_source_conflict_lookup idle_timer empty_conflicts zero_addr = Inr (t1, False) \<and>
      rtp_source_conflict_add idle_timer empty_conflicts zero_addr = Inr (tmr', tbl', True) \<and>
      rtp_source_conflict_lookup tmr' tbl' zero_addr = Inr (t2, True))"
proof -
  have new: "zero_addr \<notin> conflict_addrs empty_conflicts"
    by (simp add: conflict_addrs_def empty_conflicts_def)
  have room: "length (conflict_used empty_conflicts) < RTP_CONFIG_SOURCE_CONFLICT_TABLE_SIZE"
    by (simp add: empty_conflicts_def config_defs)
  obtain tmr' tbl' b where a: "rtp_source_conflict_add idle_timer empty_conflicts zero_addr = Inr (tmr', tbl', b)"
    "b \<longleftrightarrow> length (conflict_used empty_conflicts) < RTP_CONFIG_SOURCE_CONFLICT_TABLE_SIZE"
    and l: "\<forall>a. \<exists>t1 t2 hit.
        rtp_source_conflict_lookup idle_timer empty_conflicts a = Inr (t1, hit) \<and>
        rtp_source_conflict_lookup tmr' tbl' a = Inr (t2, hit \<or> b \<and> a = zero_addr)"
    using conflict_table_add_lookup [OF idle_timer_wf empty_conflicts_wf new] by metis
  have "find_conflict empty_conflicts zero_addr = None"
    using new by (simp add: find_conflict_None)
  then have "rtp_source_conflict_lookup idle_timer empty_conflicts zero_addr = Inr (idle_timer, False)"
    by (simp add: rtp_source_conflict_lookup_def)
  with a l [rule_format, of zero_addr] room empty_conflicts_wf new show ?thesis by auto
qed

end
