(* ===== verification/Ntp_Ts.thy ===== *)
theory Ntp_Ts
  imports Rtp_Types
begin

text \<open>
  NTP timestamps, \<^verbatim>\<open>src/ntp_ts.c\<close>: conversion to and from Unix time and differences.
  The code computes with \<open>double\<close>; here the same expressions are read over the real numbers.
  For the operands that occur (32-bit fractions, microseconds below one million, differences
  below \<open>2 ^ 53\<close>) every value that is truncated to an integer is the same in both.
\<close>

section \<open>Operations\<close>

text \<open>The conversion of a \<open>double\<close> to \<open>uint32_t\<close>: truncation, undefined when the truncated
  value does not fit.\<close>

definition real_to_u32 :: "real \<Rightarrow> u32 res" where
  "real_to_u32 x =
     (if -1 < x \<and> x < 2 ^ 32 then Inr (word_of_int (if 0 \<le> x then \<lfloor>x\<rfloor> else 0))
      else Inl FpRange)"

text \<open>\<open>struct timeval\<close>\<close>

record timeval =
  tv_sec :: int
  tv_usec :: int

definition ntp_ts_to_unix_time :: "ntp_ts \<Rightarrow> timeval res" where
  "ntp_ts_to_unix_time nt =
     bindE (real_to_u32 (real_of_int (uint (fraction nt)) * 10 ^ 6 / 2 ^ 32)) (\<lambda>u.
     Inr \<lparr>tv_sec = uint (second nt - 0x83AA7E80), tv_usec = uint u\<rparr>)"

definition ntp_ts_from_unix_time :: "timeval \<Rightarrow> ntp_ts res" where
  "ntp_ts_from_unix_time ut =
     bindE (real_to_u32 (real_of_int (tv_usec ut + 1) * 2 ^ 32 / 10 ^ 6)) (\<lambda>f.
     Inr \<lparr>second = word_of_int (tv_sec ut + 0x83AA7E80), fraction = f\<rparr>)"

text \<open>\<open>tv\<close> is what \<open>gettimeofday\<close> returns.\<close>

definition ntp_ts_now :: "timeval \<Rightarrow> ntp_ts res" where
  "ntp_ts_now tv = ntp_ts_from_unix_time tv"

definition ntp_ts_diff_in_sec :: "ntp_ts \<Rightarrow> ntp_ts \<Rightarrow> real res" where
  "ntp_ts_diff_in_sec a b =
     bindE (ntp_ts_to_unix_time a) (\<lambda>ua.
     bindE (ntp_ts_to_unix_time b) (\<lambda>ub.
     let la = tv_sec ua * 1000000 + tv_usec ua;
         lb = tv_sec ub * 1000000 + tv_usec ub
     in Inr (real_of_int (lb - la) / 1000000)))"

section \<open>Integer form of the conversions\<close>

lemma scaled_div_less:
  fixes a k c :: int
  assumes "a < c" "0 < c" "0 < k"
  shows "a * k div c < k"
proof (rule ccontr)
  assume "\<not> a * k div c < k"
  then have "k * c \<le> (a * k div c) * c" using assms(2) by (intro mult_right_mono) auto
  also have "\<dots> \<le> a * k" using assms(2) by (simp add: minus_mod_eq_div_mult [symmetric])
  finally show False using assms mult_strict_right_mono [of a c k] by (simp add: mult.commute)
qed

lemma real_to_u32_div:
  assumes "0 \<le> a" "0 < b" "a div b < 2 ^ 32"
  shows "real_to_u32 (real_of_int a / real_of_int b) = Inr (word_of_int (a div b))"
proof -
  have fl: "\<lfloor>real_of_int a / real_of_int b\<rfloor> = a div b"
    by (rule floor_divide_of_int_eq)
  have nn: "0 \<le> real_of_int a / real_of_int b" using assms by simp
  have "\<lfloor>real_of_int a / real_of_int b\<rfloor> < 2 ^ 32" using fl assms(3) by simp
  then have "real_of_int a / real_of_int b < 2 ^ 32" by (simp add: floor_less_iff)
  with nn fl show ?thesis by (simp add: real_to_u32_def)
qed

lemma real_to_u32_fails:
  "real_to_u32 x = Inl f \<Longrightarrow> f = FpRange"
  by (simp add: real_to_u32_def split: if_splits)

lemma to_unix_time_eq:
  "ntp_ts_to_unix_time nt =
     Inr \<lparr>tv_sec = uint (second nt - 0x83AA7E80), tv_usec = uint (fraction nt) * 10 ^ 6 div 2 ^ 32\<rparr>"
proof -
  let ?f = "uint (fraction nt)"
  have f: "0 \<le> ?f" "?f < 2 ^ 32" using uint_lt2p [of "fraction nt"] by auto
  have d: "?f * 10 ^ 6 div 2 ^ 32 < 10 ^ 6"
    using scaled_div_less [of ?f "2 ^ 32" "10 ^ 6"] f by simp
  then have "real_to_u32 (real_of_int (?f * 10 ^ 6) / real_of_int (2 ^ 32)) =
      Inr (word_of_int (?f * 10 ^ 6 div 2 ^ 32))"
    using f by (intro real_to_u32_div) auto
  moreover have "0 \<le> ?f * 10 ^ 6 div 2 ^ 32" by (intro pos_imp_zdiv_nonneg_iff [THEN iffD2]) auto
  then have "uint (word_of_int (?f * 10 ^ 6 div 2 ^ 32) :: u32) = ?f * 10 ^ 6 div 2 ^ 32"
    using d by (simp only: uint_word_of_int_eq) (rule take_bit_int_eq_self, simp_all)
  ultimately show ?thesis by (simp add: ntp_ts_to_unix_time_def)
qed

lemma from_unix_time_eq:
  assumes "0 \<le> tv_usec ut" "tv_usec ut < 999999"
  shows "ntp_ts_from_unix_time ut =
     Inr \<lparr>second = word_of_int (tv_sec ut + 0x83AA7E80),
          fraction = word_of_int ((tv_usec ut + 1) * 2 ^ 32 div 10 ^ 6)\<rparr>"
proof -
  have "(tv_usec ut + 1) * 2 ^ 32 div 10 ^ 6 < 2 ^ 32"
    using scaled_div_less [of "tv_usec ut + 1" "10 ^ 6" "2 ^ 32"] assms by simp
  then have "real_to_u32 (real_of_int ((tv_usec ut + 1) * 2 ^ 32) / real_of_int (10 ^ 6)) =
      Inr (word_of_int ((tv_usec ut + 1) * 2 ^ 32 div 10 ^ 6))"
    using assms by (intro real_to_u32_div) auto
  then show ?thesis by (simp add: ntp_ts_from_unix_time_def)
qed

lemma from_unix_time_fails:
  "ntp_ts_from_unix_time ut = Inl f \<Longrightarrow> f = FpRange"
  by (auto simp: ntp_ts_from_unix_time_def bindE_Inl_iff dest: real_to_u32_fails)

lemma from_unix_time_overflow:
  assumes "tv_usec ut = 999999"
  shows "ntp_ts_from_unix_time ut = Inl FpRange"
  by (simp add: ntp_ts_from_unix_time_def real_to_u32_def assms)

section \<open>Round trip\<close>

text \<open>Dividing the scaled value down again: off by one exactly when the scaling was exact.\<close>

lemma scale_round_trip:
  fixes u m k :: int
  assumes "0 < m" "m < k" "0 < u"
  shows "(u * k div m) * m div k = (if m dvd u * k then u else u - 1)"
proof (cases "m dvd u * k")
  case True
  then have "(u * k div m) * m = u * k" by simp
  with True assms show ?thesis by simp
next
  case False
  let ?r = "u * k mod m"
  have r: "0 < ?r" "?r < m"
    using False assms pos_mod_sign [of m "u * k"] pos_mod_bound [of m "u * k"]
    by (auto simp only: dvd_eq_mod_eq_0 order.strict_iff_order)
  have "(u * k div m) * m = u * k - ?r" by (simp add: minus_mod_eq_div_mult)
  also have "\<dots> = k * (u - 1) + (k - ?r)" by (simp add: algebra_simps)
  finally have "(u * k div m) * m div k = u - 1"
    using r assms by (intro int_div_pos_eq [of _ _ _ "k - ?r"]) (assumption | linarith)+
  with False show ?thesis by simp
qed

lemma exact_scale: "(10 ^ 6 :: int) dvd u * 2 ^ 32 \<longleftrightarrow> 15625 dvd u"
proof -
  have "(10 ^ 6 :: int) dvd u * 2 ^ 32 \<longleftrightarrow> 2 ^ 6 * 15625 dvd 2 ^ 6 * (u * 2 ^ 26)"
    by (simp add: mult.commute)
  also have "\<dots> \<longleftrightarrow> 15625 dvd u * 2 ^ 26" by (simp only: dvd_mult_cancel_left) simp
  also have "\<dots> \<longleftrightarrow> 15625 dvd u"
    by (rule coprime_dvd_mult_left_iff) (simp add: coprime_iff_gcd_eq_1 gcd_red_int [of _ "67108864 :: int"] gcd_non_0_int)
  finally show ?thesis .
qed

text \<open>
  Converting a Unix time to an NTP timestamp and back gives the same second and the same
  microsecond, or, when the microsecond count plus one is a multiple of 15625, the next
  microsecond; the conversion of microsecond 999999 is the only one that overflows.
\<close>

lemma ntp_unix_round_trip:
  assumes "0 \<le> tv_sec ut" "tv_sec ut < 2 ^ 32 - 0x83AA7E80" "0 \<le> tv_usec ut" "tv_usec ut \<le> 999999"
  shows "bindE (ntp_ts_from_unix_time ut) ntp_ts_to_unix_time =
    (if tv_usec ut = 999999 then Inl FpRange
     else Inr (if 15625 dvd tv_usec ut + 1 then ut\<lparr>tv_usec := tv_usec ut + 1\<rparr> else ut))"
proof (cases "tv_usec ut = 999999")
  case True
  then show ?thesis by (simp add: from_unix_time_overflow)
next
  case False
  let ?u = "tv_usec ut + 1"
  have u: "0 < ?u" "?u < 10 ^ 6" using assms False by auto
  have "?u * 2 ^ 32 div 10 ^ 6 < 2 ^ 32" 
    using scaled_div_less [of ?u "10 ^ 6" "2 ^ 32"] u by simp
  moreover have "0 \<le> ?u * 2 ^ 32 div 10 ^ 6" using u by simp
  ultimately have "uint (word_of_int (?u * 2 ^ 32 div 10 ^ 6) :: u32) = ?u * 2 ^ 32 div 10 ^ 6"
    by (simp add: uint_word_of_int_eq take_bit_int_eq_self)
  moreover have "uint (word_of_int (tv_sec ut + 0x83AA7E80) - 0x83AA7E80 :: u32) = tv_sec ut"
    using assms by (simp add: uint_word_of_int_eq take_bit_int_eq_self)
  moreover have "(?u * 2 ^ 32 div 10 ^ 6) * 10 ^ 6 div 2 ^ 32 = (if 15625 dvd ?u then ?u else ?u - 1)"
    using scale_round_trip [of "10 ^ 6" "2 ^ 32" ?u] u by (simp only: exact_scale) simp
  ultimately show ?thesis
    using False assms(3,4) by (simp add: from_unix_time_eq to_unix_time_eq del: power_numeral)
qed

theorem ntp_unix_round_trip_witness:
  "bindE (ntp_ts_from_unix_time \<lparr>tv_sec = 1700000000, tv_usec = 15623\<rparr>) ntp_ts_to_unix_time =
     Inr \<lparr>tv_sec = 1700000000, tv_usec = 15623\<rparr> \<and>
   bindE (ntp_ts_from_unix_time \<lparr>tv_sec = 1700000000, tv_usec = 15624\<rparr>) ntp_ts_to_unix_time =
     Inr \<lparr>tv_sec = 1700000000, tv_usec = 15625\<rparr>"
  using ntp_unix_round_trip [of "\<lparr>tv_sec = 1700000000, tv_usec = 15623\<rparr>"]
    ntp_unix_round_trip [of "\<lparr>tv_sec = 1700000000, tv_usec = 15624\<rparr>"]
  by simp

end
