(* ===== verification/Session.thy ===== *)
theory Session
  imports Source_Conflict Ntp_Ts
begin

text \<open>
  The state of a session (\<^verbatim>\<open>src/rtp_session.h\<close>), the services of \<^verbatim>\<open>src/rtp_session_util.c\<close> and the
  timers of its members, \<^verbatim>\<open>src/rtp_timers.c\<close>.
  What the session gets from outside is a record \<open>world\<close>: the successive results of
  \<open>rtp_random32\<close>, \<open>drand48\<close>, \<open>gettimeofday\<close> and of the user's \<open>rtp_timestamp\<close>, and the contents of
  uninitialised stack buffers, each a stream with the number of values already drawn. What the
  session sends or reports is a trace of events: the callbacks of the user and of the
  transport are recorded, they do not call back into the session.
\<close>

section \<open>The world\<close>

record rtp_rx_report =
  rpt_payload :: "u8 list"
  rpt_payload_len :: u32
  rpt_rtp_ts :: u32
  rpt_seq :: u16
  rpt_csrc :: "u32 list"
  rpt_ncsrc :: u8

text \<open>The reports of RTCP packets carry the position of the packet or of the report block in
  the datagram that is being handled.\<close>

datatype event =
    TxRtp "u8 list"
  | TxRtcp "u8 list"
  | RxRtp rtp_rx_report
  | SrRpt u32 nat
  | RrRpt u32 nat

record world =
  w_random32 :: "nat \<Rightarrow> u32"
  w_drand48 :: "nat \<Rightarrow> real"
  w_gettimeofday :: "nat \<Rightarrow> timeval"
  w_rtp_timestamp :: "nat \<Rightarrow> u32"
  w_stack :: "nat \<Rightarrow> u8 list"
  n_random32 :: nat
  n_drand48 :: nat
  n_gettimeofday :: nat
  n_rtp_timestamp :: nat
  n_stack :: nat
  trace :: "event list"

section \<open>The session\<close>

record rtp_session_config =
  c_rtp_addr :: sockaddr_in
  c_rtcp_addr :: sockaddr_in
  session_bw :: u32
  c_cname :: "u8 list"
  c_cname_len :: u8
  c_pt :: u8
  align_by_4 :: u8

record rtp_session =
  sess_tmr :: sess_timer
  rtp_pkt :: "u8 list"
  sess_seq :: u16
  member_table :: rtp_member_table
  rtcp_var :: rtcp_control_var
  self :: "nat option"
  src_conflict :: rtp_source_conflict_table
  invalid_rtcp_pkt :: u32
  invalid_rtp_pkt :: u32
  last_rtp_error :: rtp_rx_error
  last_rtcp_error :: rtcp_rx_error
  tx_pkt_count :: u32
  tx_octet_count :: u32
  config :: rtp_session_config
  env :: world

section \<open>Drawing from the world and reporting to it\<close>

definition draw_drand48 :: "rtp_session \<Rightarrow> rtp_session \<times> real" where
  "draw_drand48 sess =
     (sess\<lparr>env := (env sess)\<lparr>n_drand48 := Suc (n_drand48 (env sess))\<rparr>\<rparr>,
      w_drand48 (env sess) (n_drand48 (env sess)))"

definition draw_random32 :: "rtp_session \<Rightarrow> rtp_session \<times> u32" where
  "draw_random32 sess =
     (sess\<lparr>env := (env sess)\<lparr>n_random32 := Suc (n_random32 (env sess))\<rparr>\<rparr>,
      w_random32 (env sess) (n_random32 (env sess)))"

definition draw_time :: "rtp_session \<Rightarrow> rtp_session \<times> timeval" where
  "draw_time sess =
     (sess\<lparr>env := (env sess)\<lparr>n_gettimeofday := Suc (n_gettimeofday (env sess))\<rparr>\<rparr>,
      w_gettimeofday (env sess) (n_gettimeofday (env sess)))"

definition draw_stack :: "rtp_session \<Rightarrow> rtp_session \<times> u8 list" where
  "draw_stack sess =
     (sess\<lparr>env := (env sess)\<lparr>n_stack := Suc (n_stack (env sess))\<rparr>\<rparr>,
      w_stack (env sess) (n_stack (env sess)))"

definition emit :: "event \<Rightarrow> rtp_session \<Rightarrow> rtp_session" where
  "emit e sess = sess\<lparr>env := (env sess)\<lparr>trace := trace (env sess) @ [e]\<rparr>\<rparr>"

definition sess_ntp_ts_now :: "rtp_session \<Rightarrow> (rtp_session \<times> ntp_ts) res" where
  "sess_ntp_ts_now sess =
     (let (sess, tv) = draw_time sess in bindE (ntp_ts_now tv) (\<lambda>ts. Inr (sess, ts)))"

section \<open>Members of the session\<close>

definition mem :: "rtp_session \<Rightarrow> nat \<Rightarrow> rtp_member" where
  "mem sess m = member_array (member_table sess) ! m"

definition upd_mem :: "nat \<Rightarrow> (rtp_member \<Rightarrow> rtp_member) \<Rightarrow> rtp_session \<Rightarrow> rtp_session" where
  "upd_mem m f sess =
     sess\<lparr>member_table := (member_table sess)
       \<lparr>member_array := (member_array (member_table sess))[m := f (mem sess m)]\<rparr>\<rparr>"

abbreviation used :: "rtp_session \<Rightarrow> nat list" where
  "used sess \<equiv> used_list (member_table sess)"

section \<open>Timers of the members\<close>

definition start_te :: "rtp_session \<Rightarrow> timer_id \<Rightarrow> int \<Rightarrow> rtp_session res" where
  "start_te sess e ms = bindE (soft_timer_add (sess_tmr sess) e ms) (\<lambda>t. Inr (sess\<lparr>sess_tmr := t\<rparr>))"

definition stop_te :: "rtp_session \<Rightarrow> timer_id \<Rightarrow> rtp_session" where
  "stop_te sess e = sess\<lparr>sess_tmr := soft_timer_del (sess_tmr sess) e\<rparr>"

definition rtp_timers_init_member :: "rtp_session \<Rightarrow> nat \<Rightarrow> rtp_session res" where
  "rtp_timers_init_member sess m =
     bindE (soft_timer_init_elem (sess_tmr sess) (MemberTe m)) (\<lambda>t.
     bindE (soft_timer_init_elem t (SenderTe m)) (\<lambda>t.
     bindE (soft_timer_init_elem t (LeaveTe m)) (\<lambda>t.
     Inr (sess\<lparr>sess_tmr := t\<rparr>))))"

definition rtp_timers_deinit_member :: "rtp_session \<Rightarrow> nat \<Rightarrow> rtp_session" where
  "rtp_timers_deinit_member sess m =
     stop_te (stop_te (stop_te sess (MemberTe m)) (SenderTe m)) (LeaveTe m)"

definition rtp_timers_sender_start :: "rtp_session \<Rightarrow> nat \<Rightarrow> rtp_session res" where
  "rtp_timers_sender_start sess m = start_te sess (SenderTe m) RTP_CONFIG_SENDER_TIMEOUT"

definition rtp_timers_sender_stop :: "rtp_session \<Rightarrow> nat \<Rightarrow> rtp_session" where
  "rtp_timers_sender_stop sess m = stop_te sess (SenderTe m)"

definition rtp_timers_sender_restart :: "rtp_session \<Rightarrow> nat \<Rightarrow> rtp_session res" where
  "rtp_timers_sender_restart sess m =
     start_te (stop_te sess (SenderTe m)) (SenderTe m) RTP_CONFIG_SENDER_TIMEOUT"

definition rtp_timers_member_start :: "rtp_session \<Rightarrow> nat \<Rightarrow> rtp_session res" where
  "rtp_timers_member_start sess m = start_te sess (MemberTe m) RTP_CONFIG_MEMBER_TIMEOUT"

definition rtp_timers_member_stop :: "rtp_session \<Rightarrow> nat \<Rightarrow> rtp_session" where
  "rtp_timers_member_stop sess m = stop_te sess (MemberTe m)"

definition rtp_timers_member_restart :: "rtp_session \<Rightarrow> nat \<Rightarrow> rtp_session res" where
  "rtp_timers_member_restart sess m =
     start_te (stop_te sess (MemberTe m)) (MemberTe m) RTP_CONFIG_MEMBER_TIMEOUT"

definition rtp_timers_leave_start :: "rtp_session \<Rightarrow> nat \<Rightarrow> rtp_session res" where
  "rtp_timers_leave_start sess m = start_te sess (LeaveTe m) RTP_CONFIG_LEAVE_TIMEOUT"

definition rtp_timers_leave_stop :: "rtp_session \<Rightarrow> nat \<Rightarrow> rtp_session" where
  "rtp_timers_leave_stop sess m = stop_te sess (LeaveTe m)"

definition rtp_timers_leave_restart :: "rtp_session \<Rightarrow> nat \<Rightarrow> rtp_session res" where
  "rtp_timers_leave_restart sess m =
     start_te (stop_te sess (LeaveTe m)) (LeaveTe m) RTP_CONFIG_LEAVE_TIMEOUT"

section \<open>Session utilities\<close>

definition rtp_session_alloc_member :: "rtp_session \<Rightarrow> u32 \<Rightarrow> (rtp_session \<times> nat option) res" where
  "rtp_session_alloc_member sess ssrc =
     (case rtp_member_table_alloc_member (member_table sess) ssrc of
        None \<Rightarrow> Inr (sess, None)
      | Some (mt, m) \<Rightarrow>
          bindE (rtp_timers_init_member (sess\<lparr>member_table := mt\<rparr>) m) (\<lambda>sess.
          Inr (sess, Some m)))"

definition rtp_session_dealloc_member :: "rtp_session \<Rightarrow> nat \<Rightarrow> rtp_session" where
  "rtp_session_dealloc_member sess m =
     (let sess = rtp_timers_deinit_member sess m
      in sess\<lparr>member_table := rtp_member_table_free (member_table sess) m\<rparr>)"

definition rtp_session_lookup_member :: "rtp_session \<Rightarrow> u32 \<Rightarrow> nat option" where
  "rtp_session_lookup_member sess ssrc = rtp_member_table_lookup (member_table sess) ssrc"

definition rtp_session_timestamp :: "rtp_session \<Rightarrow> rtp_session \<times> u32" where
  "rtp_session_timestamp sess =
     (sess\<lparr>env := (env sess)\<lparr>n_rtp_timestamp := Suc (n_rtp_timestamp (env sess))\<rparr>\<rparr>,
      w_rtp_timestamp (env sess) (n_rtp_timestamp (env sess)))"

definition rtp_session_reset_tx_stats :: "rtp_session \<Rightarrow> rtp_session" where
  "rtp_session_reset_tx_stats sess = sess\<lparr>tx_pkt_count := 0, tx_octet_count := 0\<rparr>"

text \<open>The table operation with the session's random numbers.\<close>

definition sess_change_random_ssrc :: "rtp_session \<Rightarrow> nat \<Rightarrow> rtp_session res" where
  "sess_change_random_ssrc sess m =
     bindE (rtp_member_table_change_random_ssrc (member_table sess) m
              (w_random32 (env sess)) (n_random32 (env sess))) (\<lambda>(mt, n).
     Inr (sess\<lparr>member_table := mt, env := (env sess)\<lparr>n_random32 := n\<rparr>\<rparr>))"

text \<open>The operations of the conflict table on the session's timer.\<close>

definition sess_conflict_lookup :: "rtp_session \<Rightarrow> sockaddr_in \<Rightarrow> (rtp_session \<times> bool) res" where
  "sess_conflict_lookup sess from =
     bindE (rtp_source_conflict_lookup (sess_tmr sess) (src_conflict sess) from) (\<lambda>(t, b).
     Inr (sess\<lparr>sess_tmr := t\<rparr>, b))"

definition sess_conflict_add :: "rtp_session \<Rightarrow> sockaddr_in \<Rightarrow> rtp_session res" where
  "sess_conflict_add sess from =
     bindE (rtp_source_conflict_add (sess_tmr sess) (src_conflict sess) from) (\<lambda>(t, tbl, _).
     Inr (sess\<lparr>sess_tmr := t, src_conflict := tbl\<rparr>))"

end
