(* ===== verification/Rtp_Header.thy ===== *)
theory Rtp_Header
  imports Session
begin

text \<open>
  The RTP data header of \<^verbatim>\<open>src/rfc3550.h\<close> (little endian bit-field layout, as configured in
  \<^verbatim>\<open>src/rtp_config.h\<close>), its validity check \<open>rtp_header_validity_check\<close> of \<^verbatim>\<open>src/rtp.c\<close>, and the
  reference layout of a packet that both the sender and the receiver are compared with.
\<close>

section \<open>Fields\<close>

definition RTP_VERSION :: nat where
  "RTP_VERSION = 2"

text \<open>Bit-fields of the first two octets of \<open>rtp_hdr_t\<close>.\<close>

definition hdr_cc :: "u8 \<Rightarrow> nat" where "hdr_cc b0 = unat (take_bit 4 b0)"
definition hdr_x :: "u8 \<Rightarrow> bool" where "hdr_x b0 \<longleftrightarrow> bit b0 4"
definition hdr_p :: "u8 \<Rightarrow> bool" where "hdr_p b0 \<longleftrightarrow> bit b0 5"
definition hdr_version :: "u8 \<Rightarrow> nat" where "hdr_version b0 = unat (drop_bit 6 b0)"
definition hdr_pt :: "u8 \<Rightarrow> u8" where "hdr_pt b1 = take_bit 7 b1"

text \<open>\<open>sizeof(rtp_hdr_t)\<close> is 16: the fixed header and one CSRC.\<close>

definition RTP_HDR_SIZE :: "nat \<Rightarrow> nat" where
  "RTP_HDR_SIZE csrc = 16 - 4 + csrc * 4"

definition RTP_PKT_SIZE :: "nat \<Rightarrow> nat \<Rightarrow> nat" where
  "RTP_PKT_SIZE csrc payload_len = RTP_HDR_SIZE csrc + payload_len"

section \<open>The check\<close>

text \<open>On success: the offset and the length of the payload.\<close>

definition rtp_header_validity_check ::
  "rtp_session \<Rightarrow> u8 list \<Rightarrow> u32 \<Rightarrow> u8 \<Rightarrow> (rtp_session \<times> (nat \<times> u32) option) res" where
  "rtp_header_validity_check sess msg len pt =
     (let fail = (\<lambda>e. Inr (sess\<lparr>last_rtp_error := e\<rparr>, None)) in
      if unat len < 16 - 4 then fail rtp_rx_error_header_too_short
      else bindE (rd8 msg 0) (\<lambda>b0.
        let hdr_size = (16 - 4) + 4 * hdr_cc b0 in
        if unat len < hdr_size then fail rtp_rx_error_invalid_csrc_count
        else if hdr_version b0 \<noteq> RTP_VERSION then fail rtp_rx_error_invalid_rtp_version
        else bindE (rd8 msg 1) (\<lambda>b1.
          if hdr_pt b1 \<noteq> pt then fail rtp_rx_error_invalid_payload_type
          else bindE (if hdr_p b0 then rd8 msg (unat len - 1) else Inr 0) (\<lambda>padding_len.
            if hdr_p b0 \<and> unat padding_len \<ge> unat len - hdr_size
            then fail rtp_rx_error_invalid_octet_count
            else if hdr_x b0 then fail rtp_rx_error_not_implemented
            else Inr (sess, Some (hdr_size, len - of_nat hdr_size - ucast padding_len))))))"

text \<open>What the check leaves of the session.\<close>

lemma header_check_cases:
  assumes "rtp_header_validity_check sess msg len pt = Inr (sess', r)"
  shows "(r = None \<and> (\<exists>e. sess' = sess\<lparr>last_rtp_error := e\<rparr>)) \<or> (r \<noteq> None \<and> sess' = sess)"
  using assms by (auto simp: rtp_header_validity_check_def res_iff Let_def split: if_splits)

section \<open>Well-formed packets\<close>

text \<open>The layout of a packet without header extension: version, padding flag, marker, payload
  type, sequence number, timestamp, SSRC, CSRCs, payload, padding.\<close>

definition pad_bytes :: "nat \<Rightarrow> u8 list" where
  "pad_bytes n = (if n = 0 then [] else replicate (n - 1) 0 @ [of_nat n])"

definition rtp_first_byte :: "bool \<Rightarrow> nat \<Rightarrow> u8" where
  "rtp_first_byte p cc = 0x80 OR (if p then 0x20 else 0) OR take_bit 4 (of_nat cc)"

definition rtp_bytes ::
  "bool \<Rightarrow> u8 \<Rightarrow> u16 \<Rightarrow> u32 \<Rightarrow> u32 \<Rightarrow> u32 list \<Rightarrow> u8 list \<Rightarrow> u8 list" where
  "rtp_bytes p b1 seq ts ssrc csrcs rest =
     [rtp_first_byte p (length csrcs), b1] @ bytes16 seq @ bytes32 ts @ bytes32 ssrc @
     concat (map bytes32 csrcs) @ rest"

text \<open>The check as a predicate on a whole datagram.\<close>

definition rtp_well_formed :: "u8 list \<Rightarrow> u8 \<Rightarrow> bool" where
  "rtp_well_formed msg pt \<longleftrightarrow>
     12 \<le> length msg \<and> 12 + 4 * hdr_cc (msg ! 0) \<le> length msg \<and>
     hdr_version (msg ! 0) = 2 \<and> hdr_pt (msg ! 1) = pt \<and> \<not> hdr_x (msg ! 0) \<and>
     (hdr_p (msg ! 0) \<longrightarrow> unat (last msg) < length msg - (12 + 4 * hdr_cc (msg ! 0)))"

lemma header_check_value:
  assumes "unat len = length msg"
  shows "(if rtp_well_formed msg pt
      then \<exists>plen. rtp_header_validity_check sess msg len pt =
             Inr (sess, Some (12 + 4 * hdr_cc (msg ! 0), plen)) \<and>
           12 + 4 * hdr_cc (msg ! 0) + unat plen + (if hdr_p (msg ! 0) then unat (last msg) else 0) =
             length msg
      else \<exists>e. e \<noteq> rtp_rx_error_no_error \<and>
           rtp_header_validity_check sess msg len pt = Inr (sess\<lparr>last_rtp_error := e\<rparr>, None))"
proof (cases "length msg < 12")
  case True
  with assms show ?thesis
    by (auto simp: rtp_well_formed_def rtp_header_validity_check_def
        intro!: exI [of _ rtp_rx_error_header_too_short])
next
  case False
  then have "0 < length msg" "1 < length msg" "unat len - 1 < length msg" "msg \<noteq> []"
    using assms by auto
  then have rd: "rd8 msg 0 = Inr (msg ! 0)" "rd8 msg 1 = Inr (msg ! 1)"
    "rd8 msg (unat len - 1) = Inr (last msg)"
    using assms by (simp_all only: rd8_ok) (simp add: last_conv_nth)
  let ?h = "12 + 4 * hdr_cc (msg ! 0)" and ?p = "if hdr_p (msg ! 0) then unat (last msg) else 0"
  have cc: "hdr_cc (msg ! 0) < 16"
    using take_bit_nat_less_exp [of 4 "unat (msg ! 0)"] by (simp add: hdr_cc_def unsigned_take_bit_eq)
  show ?thesis
  proof (cases "rtp_well_formed msg pt")
    case True
    then have le: "?h + ?p \<le> length msg" by (auto simp: rtp_well_formed_def)
    let ?plen = "len - of_nat ?h - ucast (if hdr_p (msg ! 0) then last msg else 0)"
    have "?plen = of_nat (length msg - ?h - ?p)"
      using le by (simp add: of_nat_diff assms [symmetric])
    then have "unat ?plen = length msg - ?h - ?p"
      using unsigned_less [of len, where 'a = nat] by (simp add: assms unat_of_nat_small)
    moreover have "rtp_header_validity_check sess msg len pt = Inr (sess, Some (?h, ?plen))"
      using True assms rd
      by (auto simp: rtp_header_validity_check_def Let_def rtp_well_formed_def RTP_VERSION_def)
    ultimately show ?thesis using True le by auto
  next
    case False
    with assms rd \<open>\<not> length msg < 12\<close> show ?thesis
      by (auto simp: rtp_header_validity_check_def Let_def rtp_well_formed_def RTP_VERSION_def)
  qed
qed

text \<open>
  C18: the header check reads nothing outside the datagram, accepts exactly the well-formed
  packets, and splits an accepted one into header, payload and padding, the padding being as
  long as its last octet says; a refused packet changes nothing but the last error.
\<close>

theorem header_check_correct:
  assumes "unat len = length msg"
  shows "(if rtp_well_formed msg pt
      then \<exists>plen. rtp_header_validity_check sess msg len pt =
             Inr (sess, Some (12 + 4 * hdr_cc (msg ! 0), plen)) \<and>
           12 + 4 * hdr_cc (msg ! 0) + unat plen + (if hdr_p (msg ! 0) then unat (last msg) else 0) =
             length msg
      else \<exists>e. e \<noteq> rtp_rx_error_no_error \<and>
           rtp_header_validity_check sess msg len pt = Inr (sess\<lparr>last_rtp_error := e\<rparr>, None))"
  by (rule header_check_value [OF assms])


text \<open>A packet with one CSRC, five octets of payload and three of padding.\<close>

definition padded_packet :: "u8 list" where
  "padded_packet = rtp_bytes True 96 7 160 5 [9] ([1, 2, 3, 4, 5] @ pad_bytes 3)"

lemma padded_packet_eq:
  "padded_packet = [0xA1, 96, 0, 7, 0, 0, 0, 160, 0, 0, 0, 5, 0, 0, 0, 9, 1, 2, 3, 4, 5, 0, 0, 3]"
  by code_simp

lemma padded_packet_ok: "rtp_well_formed padded_packet 96"
  by code_simp

theorem header_check_correct_witness:
  "unat (24 :: u32) = length padded_packet \<and>
   (\<forall>sess. rtp_header_validity_check sess padded_packet 24 96 = Inr (sess, Some (16, 5)))"
proof -
  have len: "unat (24 :: u32) = length padded_packet" by (simp add: padded_packet_eq)
  have f: "hdr_cc (padded_packet ! 0) = 1" "hdr_p (padded_packet ! 0)" "last padded_packet = 3"
    by code_simp+
  have "rtp_header_validity_check sess padded_packet 24 96 = Inr (sess, Some (16, 5))" for sess
  proof -
    obtain plen where "rtp_header_validity_check sess padded_packet 24 96 = Inr (sess, Some (16, plen))"
      "16 + unat plen + 3 = 24"
      using header_check_correct [OF len, of 96 sess] padded_packet_ok f len by auto
    moreover have "plen = 5" if "unat plen = 5" using that by (simp add: word_unat_eq_iff)
    ultimately show ?thesis by simp
  qed
  with len show ?thesis by blast
qed

section \<open>Reading a packet back\<close>

lemma hdr_first_byte:
  assumes "cc < 16"
  shows "hdr_cc (rtp_first_byte p cc) = cc" "hdr_version (rtp_first_byte p cc) = 2"
    "hdr_x (rtp_first_byte p cc) = False" "hdr_p (rtp_first_byte p cc) = p"
proof -
  have "take_bit 4 (rtp_first_byte p cc) = take_bit 4 (of_nat cc)"
    by (simp add: rtp_first_byte_def take_bit_or)
  then show "hdr_cc (rtp_first_byte p cc) = cc"
    using assms by (simp add: hdr_cc_def unsigned_take_bit_eq unat_of_nat take_bit_nat_eq_self)
  have "drop_bit 6 (take_bit 4 x) = 0" for x :: u8
    by (rule bit_word_eqI) (simp add: bit_simps)
  then show "hdr_version (rtp_first_byte p cc) = 2"
    by (simp add: hdr_version_def rtp_first_byte_def)
  show "hdr_x (rtp_first_byte p cc) = False" "hdr_p (rtp_first_byte p cc) = p"
    by (simp_all add: hdr_x_def hdr_p_def rtp_first_byte_def bit_simps)
qed

lemma length_concat_bytes32 [simp]: "length (concat (map bytes32 ws)) = 4 * length ws"
  by (induction ws) simp_all

lemma length_rtp_bytes: "length (rtp_bytes p b1 seq ts ssrc csrcs rest) = 12 + 4 * length csrcs + length rest"
  by (simp add: rtp_bytes_def)

lemma seg_concat_bytes32:
  "i < length ws \<Longrightarrow> take 4 (drop (4 * i) (concat (map bytes32 ws) @ rest)) = bytes32 (ws ! i)"
proof (induction ws arbitrary: i)
  case (Cons w ws)
  show ?case
  proof (cases i)
    case (Suc j)
    with Cons show ?thesis by simp
  qed simp
qed simp

lemma read_rtp_bytes:
  fixes p b1 seq ts ssrc csrcs rest
  defines "msg \<equiv> rtp_bytes p b1 seq ts ssrc csrcs rest"
  shows "msg ! 0 = rtp_first_byte p (length csrcs)" "msg ! 1 = b1"
    "rd16 msg 2 = Inr seq" "rd32 msg 4 = Inr ts" "rd32 msg 8 = Inr ssrc"
    "i < length csrcs \<Longrightarrow> rd32 msg (12 + 4 * i) = Inr (csrcs ! i)"
    "seg msg (12 + 4 * length csrcs) n = take n rest"
proof -
  show "msg ! 0 = rtp_first_byte p (length csrcs)" "msg ! 1 = b1"
    by (simp_all add: msg_def rtp_bytes_def)
  show "rd16 msg 2 = Inr seq"
    by (rule rd16_seg) (simp add: msg_def rtp_bytes_def seg_def)
  show "rd32 msg 4 = Inr ts" "rd32 msg 8 = Inr ssrc"
    by (rule rd32_seg, simp add: msg_def rtp_bytes_def seg_def)+
  have tail: "drop 12 msg = concat (map bytes32 csrcs) @ rest"
    by (simp add: msg_def rtp_bytes_def)
  then have "seg msg (12 + 4 * i) 4 = take 4 (drop (4 * i) (concat (map bytes32 csrcs) @ rest))"
    by (simp only: seg_def drop_drop [symmetric] add.commute [of 12])
  then show "rd32 msg (12 + 4 * i) = Inr (csrcs ! i)" if "i < length csrcs"
    using seg_concat_bytes32 [OF that, of rest] by (intro rd32_seg) simp
  have "drop (12 + 4 * length csrcs) msg = drop (4 * length csrcs) (drop 12 msg)"
    by (simp add: add.commute)
  then show "seg msg (12 + 4 * length csrcs) n = take n rest"
    unfolding tail by (simp add: seg_def)
qed

end
