(* ===== verification/Rtp_Seq.thy ===== *)
theory Rtp_Seq
  imports Rtp_Types
begin

text \<open>
  The reception state of one source: sequence numbers (\<open>rtp_init_seq\<close> and \<open>rtp_update_seq\<close> of
  \<^verbatim>\<open>src/rtp.c\<close>) and interarrival jitter (\<open>rtcp_compute_jitter\<close> of \<^verbatim>\<open>src/rtcp.c\<close>).
\<close>

section \<open>Operations\<close>

definition rtp_init_seq :: "rtp_source \<Rightarrow> u16 \<Rightarrow> bool \<Rightarrow> rtp_source" where
  "rtp_init_seq s seq first =
     (let s = s\<lparr>base_seq := ucast seq, max_seq := seq, bad_seq := of_nat (RTP_SEQ_MOD + 1),
                cycles := 0, received := 0, received_prior := 0, expected_prior := 0\<rparr>
      in if first then s\<lparr>max_seq := seq - 1, probation := of_nat RTP_CONFIG_MIN_SEQUENTIAL\<rparr>
         else s)"

text \<open>The comparison \<open>seq == s->max_seq + 1\<close> is one of \<open>int\<close>: the operands are promoted.\<close>

definition rtp_update_seq :: "rtp_source \<Rightarrow> u16 \<Rightarrow> rtp_source \<times> bool" where
  "rtp_update_seq s seq =
     (let udelta = seq - max_seq s in
      if probation s \<noteq> 0 then
        if unat seq = unat (max_seq s) + 1 then
          let s = s\<lparr>probation := probation s - 1, max_seq := seq\<rparr> in
          if probation s = 0 then
            let s = rtp_init_seq s seq False in (s\<lparr>received := received s + 1\<rparr>, True)
          else (s, False)
        else (s\<lparr>probation := of_nat (RTP_CONFIG_MIN_SEQUENTIAL - 1), max_seq := seq\<rparr>, False)
      else if unat udelta < RTP_CONFIG_MAX_DROPOUT then
        let s = (if seq < max_seq s then s\<lparr>cycles := cycles s + of_nat RTP_SEQ_MOD\<rparr> else s);
            s = s\<lparr>max_seq := seq\<rparr>
        in (s\<lparr>received := received s + 1\<rparr>, True)
      else if unat udelta \<le> RTP_SEQ_MOD - RTP_CONFIG_MAX_MISORDER then
        if ucast seq = bad_seq s then
          let s = rtp_init_seq s seq True in (s\<lparr>received := received s + 1\<rparr>, True)
        else (s\<lparr>bad_seq := of_nat ((unat seq + 1) mod RTP_SEQ_MOD)\<rparr>, False)
      else (s\<lparr>received := received s + 1\<rparr>, True))"

text \<open>\<open>jitter += (1./16.) * ((double)d - jitter)\<close> on integers: the exact value is
  \<open>(15 * jitter + d) / 16\<close>, which a \<open>double\<close> represents exactly, truncated.\<close>

definition rtcp_compute_jitter :: "rtp_source \<Rightarrow> u32 \<Rightarrow> u32 \<Rightarrow> rtp_source res" where
  "rtcp_compute_jitter s rtp_ts arrival =
     (let transit' = arrival - rtp_ts;
          d = sint (transit' - transit s)
      in if d = - (2 ^ 31) then Inl IntOverflow
         else let d = \<bar>d\<bar>
              in Inr (s\<lparr>transit := transit',
                       jitter := word_of_int ((15 * uint (jitter s) + d) div 16)\<rparr>))"

section \<open>Extended sequence numbers\<close>

text \<open>The extended highest sequence number of the reports, \<open>cycles + max_seq\<close>.\<close>

definition extended_max :: "rtp_source \<Rightarrow> u32" where
  "extended_max s = cycles s + ucast (max_seq s)"

lemma unat_seq_diff:
  "unat (seq - m) = (if m \<le> seq then unat seq - unat m else unat seq + 65536 - unat m)"
  for seq m :: u16
proof (cases "m \<le> seq")
  case True
  then show ?thesis by (simp add: unat_sub)
next
  case False
  then have "unat (seq - m) = 2 ^ LENGTH(16) + unat seq - unat m"
    by (intro unat_sub_if_size [THEN trans]) (auto simp: word_size word_le_nat_alt)
  with False show ?thesis by simp
qed

lemma ucast_u16_eq: "(ucast x :: u32) = of_nat (unat x)" for x :: u16
  by simp

lemma extended_max_accept:
  assumes "seq < max_seq s \<Longrightarrow> cyc = cycles s + 65536" "\<not> seq < max_seq s \<Longrightarrow> cyc = cycles s"
  shows "cyc + ucast seq = extended_max s + (ucast (seq - max_seq s) :: u32)"
proof (cases "seq < max_seq s")
  case True
  then have "unat (seq - max_seq s) + unat (max_seq s) = unat seq + 65536"
    using unsigned_less [of "max_seq s", where 'a = nat] by (simp add: unat_seq_diff word_less_nat_alt word_le_nat_alt)
  then have "(of_nat (unat (seq - max_seq s)) + of_nat (unat (max_seq s)) :: u32) =
      of_nat (unat seq) + 65536"
    by (metis of_nat_add of_nat_numeral)
  with True assms(1) show ?thesis by (simp add: extended_max_def algebra_simps)
next
  case False
  then have "unat (seq - max_seq s) + unat (max_seq s) = unat seq"
    by (simp add: unat_seq_diff word_less_nat_alt word_le_nat_alt)
  then have "(of_nat (unat (seq - max_seq s)) + of_nat (unat (max_seq s)) :: u32) =
      of_nat (unat seq)"
    by (metis of_nat_add)
  with False assms(2) show ?thesis by (simp add: extended_max_def algebra_simps)
qed

text \<open>The four outcomes for a source that is past its probation.\<close>

lemma update_seq_near:
  "\<lbrakk>probation s = 0; unat (seq - max_seq s) < 3000\<rbrakk> \<Longrightarrow>
   rtp_update_seq s seq =
     (s\<lparr>cycles := (if seq < max_seq s then cycles s + 65536 else cycles s), max_seq := seq,
        received := received s + 1\<rparr>, True)"
  by (simp add: rtp_update_seq_def Let_def config_defs)

lemma update_seq_behind:
  "\<lbrakk>probation s = 0; 65436 < unat (seq - max_seq s)\<rbrakk> \<Longrightarrow>
   rtp_update_seq s seq = (s\<lparr>received := received s + 1\<rparr>, True)"
  by (simp add: rtp_update_seq_def Let_def config_defs)

lemma seq_succ_ucast: "(of_nat ((unat seq + 1) mod 65536) :: u32) = ucast (seq + 1)" for seq :: u16
proof -
  have "(unat seq + 1) mod 65536 = unat (seq + 1)" by (simp add: unat_word_ariths)
  then show ?thesis by simp
qed

lemma update_seq_jump:
  "\<lbrakk>probation s = 0; 3000 \<le> unat (seq - max_seq s); unat (seq - max_seq s) \<le> 65436;
    ucast seq \<noteq> bad_seq s\<rbrakk> \<Longrightarrow>
   rtp_update_seq s seq = (s\<lparr>bad_seq := ucast (seq + 1)\<rparr>, False)"
  using seq_succ_ucast [of seq]
  by (simp add: rtp_update_seq_def Let_def config_defs)

lemma update_seq_resync:
  "\<lbrakk>probation s = 0; 3000 \<le> unat (seq - max_seq s); unat (seq - max_seq s) \<le> 65436;
    ucast seq = bad_seq s\<rbrakk> \<Longrightarrow>
   rtp_update_seq s seq = ((rtp_init_seq s seq True)\<lparr>received := 1\<rparr>, True)"
  by (simp add: rtp_update_seq_def Let_def config_defs rtp_init_seq_def)

text \<open>
  C12: how a source that is past its probation takes the next packet: a packet at most 2999
  ahead advances the extended highest sequence number by exactly its distance (wrap-around of
  the 16-bit number included) and counts as received; a packet up to 99 behind counts and
  changes nothing else; a packet further away is refused and only remembered, unless it
  follows the packet refused before, which resynchronises the source on it.
\<close>

theorem update_seq_validated:
  assumes "probation s = 0" "rtp_update_seq s seq = (s', ok)" "d = unat (seq - max_seq s)"
  shows "(d < 3000 \<longrightarrow> ok \<and> max_seq s' = seq \<and> extended_max s' = extended_max s + of_nat d \<and>
            received s' = received s + 1 \<and> base_seq s' = base_seq s \<and> probation s' = 0) \<and>
         (65436 < d \<longrightarrow> ok \<and> s' = s\<lparr>received := received s + 1\<rparr>) \<and>
         (3000 \<le> d \<and> d \<le> 65436 \<and> ucast seq \<noteq> bad_seq s \<longrightarrow>
            \<not> ok \<and> s' = s\<lparr>bad_seq := ucast (seq + 1)\<rparr>) \<and>
         (3000 \<le> d \<and> d \<le> 65436 \<and> ucast seq = bad_seq s \<longrightarrow>
            ok \<and> base_seq s' = ucast seq \<and> received s' = 1 \<and> cycles s' = 0 \<and> probation s' = 2 \<and>
            max_seq s' = seq - 1)"
proof -
  consider "d < 3000" | "65436 < d" | "3000 \<le> d" "d \<le> 65436" "ucast seq \<noteq> bad_seq s"
    | "3000 \<le> d" "d \<le> 65436" "ucast seq = bad_seq s" by linarith
  then show ?thesis
  proof cases
    case 1
    with assms have s': "ok" "s' = s\<lparr>cycles := (if seq < max_seq s then cycles s + 65536 else cycles s),
        max_seq := seq, received := received s + 1\<rparr>"
      by (simp_all add: update_seq_near)
    have "extended_max s' = extended_max s + of_nat d"
      using extended_max_accept [of seq s "cycles s'"] s' assms(3)
      by (simp add: extended_max_def)
    with 1 s' assms(1) show ?thesis by simp
  next
    case 2
    with assms show ?thesis by (simp add: update_seq_behind)
  next
    case 3
    with assms show ?thesis by (simp add: update_seq_jump)
  next
    case 4
    with assms show ?thesis by (auto simp: update_seq_resync rtp_init_seq_def config_defs)
  qed
qed

text \<open>A source in its second cycle, about to wrap around.\<close>

definition wrapping_source :: rtp_source where
  "wrapping_source = \<lparr>max_seq = 65530, cycles = 65536, base_seq = 65000, bad_seq = 65537,
     probation = 0, received = 66000, expected_prior = 0, received_prior = 0, transit = 0,
     jitter = 0\<rparr>"

theorem update_seq_validated_witness:
  "probation wrapping_source = 0 \<and> extended_max wrapping_source = 131066 \<and>
   (\<exists>s'. rtp_update_seq wrapping_source 4 = (s', True) \<and> extended_max s' = 131076)"
proof -
  obtain s' ok where u: "rtp_update_seq wrapping_source 4 = (s', ok)" by fastforce
  have p: "probation wrapping_source = 0" "extended_max wrapping_source = 131066"
    by (simp_all add: wrapping_source_def extended_max_def)
  have d: "10 = unat (4 - max_seq wrapping_source)" by (simp add: wrapping_source_def)
  show ?thesis using update_seq_validated [OF p(1) u d] u p by simp
qed

section \<open>Probation\<close>

lemma update_seq_probation:
  assumes "probation s = 1 \<or> probation s = 2" "rtp_update_seq s seq = (s', ok)"
  shows "ok \<longleftrightarrow> probation s = 1 \<and> unat seq = unat (max_seq s) + 1"
    "ok \<Longrightarrow> probation s' = 0 \<and> base_seq s' = ucast seq \<and> max_seq s' = seq \<and> cycles s' = 0 \<and>
       received s' = 1"
    "\<not> ok \<Longrightarrow> probation s' = 1 \<and> max_seq s' = seq"
  using assms by (auto simp: rtp_update_seq_def Let_def config_defs rtp_init_seq_def split: if_splits)

text \<open>The results of \<open>rtp_update_seq\<close> on successive packets.\<close>

fun update_seqs :: "rtp_source \<Rightarrow> u16 list \<Rightarrow> bool list" where
  "update_seqs s [] = []"
| "update_seqs s (q # qs) = (let (s', ok) = rtp_update_seq s q in ok # update_seqs s' qs)"

fun consecutive :: "u16 list \<Rightarrow> bool" where
  "consecutive (p # q # qs) \<longleftrightarrow> unat q = unat p + 1 \<or> consecutive (q # qs)"
| "consecutive qs \<longleftrightarrow> False"

lemma update_seqs_probation_1:
  "probation s = 1 \<Longrightarrow> True \<in> set (update_seqs s qs) \<longleftrightarrow> consecutive (max_seq s # qs)"
proof (induction qs arbitrary: s)
  case (Cons q qs)
  obtain s' ok where u: "rtp_update_seq s q = (s', ok)" by fastforce
  show ?case
  proof (cases ok)
    case True
    with u update_seq_probation(1) [of s q s' ok] Cons.prems show ?thesis by simp
  next
    case False
    with u update_seq_probation [of s q s' ok] Cons.prems Cons.IH [of s'] show ?thesis by auto
  qed
qed simp

text \<open>
  A source heard for the first time stays unvalidated, none of its further packets being
  accepted, exactly as long as no two packets in a row carry numbers \<open>n\<close> and \<open>n + 1\<close>; the step
  from 65535 to 0 does not count as one.
\<close>

lemma probation_until_consecutive:
  "True \<in> set (update_seqs (rtp_init_seq s first True) qs) \<longleftrightarrow> consecutive qs"
proof (cases qs)
  case (Cons q qs')
  obtain s' ok where u: "rtp_update_seq (rtp_init_seq s first True) q = (s', ok)" by fastforce
  have p: "probation (rtp_init_seq s first True) = 2" by (simp add: rtp_init_seq_def config_defs)
  from update_seq_probation [OF _ u] p have "\<not> ok" "probation s' = 1" "max_seq s' = q" by auto
  with u Cons show ?thesis by (simp add: update_seqs_probation_1)
qed simp

section \<open>Jitter\<close>

text \<open>
  C24: the jitter estimate moves by one sixteenth of the distance to the new transit time
  difference, rounded down, and stays between the two; the computation is undefined only for
  a difference of exactly \<open>- 2 ^ 31\<close>.
\<close>

theorem jitter_moves_towards_difference:
  "(case rtcp_compute_jitter s rtp_ts arrival of
      Inl e \<Rightarrow> e = IntOverflow \<and> sint (arrival - rtp_ts - transit s) = - (2 ^ 31)
    | Inr s' \<Rightarrow>
        (\<exists>d. d = \<bar>sint (arrival - rtp_ts - transit s)\<bar> \<and>
           16 * uint (jitter s') \<le> 15 * uint (jitter s) + d \<and>
           15 * uint (jitter s) + d < 16 * uint (jitter s') + 16 \<and>
           min (uint (jitter s)) d \<le> uint (jitter s') \<and> uint (jitter s') \<le> max (uint (jitter s)) d \<and>
           s' = s\<lparr>transit := arrival - rtp_ts, jitter := jitter s'\<rparr>))"
proof -
  define d where "d = sint (arrival - rtp_ts - transit s)"
  have d: "- (2 ^ 31) \<le> d" "d < 2 ^ 31"
    using sint_range_size [of "arrival - rtp_ts - transit s"] by (auto simp: d_def word_size)
  have j: "0 \<le> uint (jitter s)" "uint (jitter s) < 2 ^ 32"
    using uint_bounded [of "jitter s"] by auto
  show ?thesis
  proof (cases "d = - (2 ^ 31)")
    case True
    then show ?thesis by (simp add: rtcp_compute_jitter_def Let_def d_def [symmetric])
  next
    case False
    let ?j = "(15 * uint (jitter s) + \<bar>d\<bar>) div 16"
    have "0 \<le> ?j" using j by (intro pos_imp_zdiv_nonneg_iff [THEN iffD2]) auto
    moreover have "?j < 2 ^ 32" using d j by auto
    ultimately have "uint (word_of_int ?j :: u32) = ?j"
      by (simp only: uint_word_of_int_eq) (rule take_bit_int_eq_self, simp_all)
    moreover have "16 * ?j \<le> 15 * uint (jitter s) + \<bar>d\<bar>" "15 * uint (jitter s) + \<bar>d\<bar> < 16 * ?j + 16"
      "min (uint (jitter s)) \<bar>d\<bar> \<le> ?j" "?j \<le> max (uint (jitter s)) \<bar>d\<bar>"
      by (auto simp: min_def max_def)
    ultimately show ?thesis
      using False by (simp add: rtcp_compute_jitter_def Let_def d_def [symmetric])
  qed
qed

end
