(* ===== verification/Md5.thy ===== *)
theory Md5
  imports Prelude
begin

text \<open>
  The message digest of RFC 1321 as \<^verbatim>\<open>src/md5.c\<close> computes it: the context with the chaining
  variables, the count of bits and the block that is being filled, the 64 steps of the compression
  function as the macros write them, and \<open>MD5Init\<close>, \<open>MD5Update\<close>, \<open>MD5Final\<close>.

  The second half is the digest as the standard defines it: a message is padded, cut into
  blocks and folded over with a compression function that is one loop over tables. The code,
  fed the message in any pieces, computes that.
\<close>

section \<open>The context\<close>

record md5_ctx =
  ctx_state :: "u32 list"
  ctx_count0 :: u32
  ctx_count1 :: u32
  ctx_buffer :: "u8 list"

text \<open>The arrays of the context have the sizes of their declarations.\<close>

definition ctx_ok :: "md5_ctx \<Rightarrow> bool" where
  "ctx_ok c \<longleftrightarrow> length (ctx_state c) = 4 \<and> length (ctx_buffer c) = 64"

definition MD5Init :: "md5_ctx \<Rightarrow> md5_ctx" where
  "MD5Init c = c\<lparr>ctx_count0 := 0, ctx_count1 := 0,
     ctx_state := [0x67452301, 0xefcdab89, 0x98badcfe, 0x10325476]\<rparr>"

section \<open>Octets and words\<close>

text \<open>\<open>Encode\<close> and \<open>Decode\<close> walk over \<open>len\<close> octets, four at a time, least significant first;
  \<open>off\<close> is where the pointer that they are given points into its array.\<close>

definition word_bytes_le :: "u32 \<Rightarrow> u8 list" where
  "word_bytes_le w =
     [ucast (w AND 0xff), ucast (drop_bit 8 w AND 0xff), ucast (drop_bit 16 w AND 0xff),
      ucast (drop_bit 24 w AND 0xff)]"

definition le32 :: "u8 \<Rightarrow> u8 \<Rightarrow> u8 \<Rightarrow> u8 \<Rightarrow> u32" where
  "le32 a b c d =
     ucast a OR push_bit 8 (ucast b) OR push_bit 16 (ucast c) OR push_bit 24 (ucast d)"

function Encode :: "u32 list \<Rightarrow> nat \<Rightarrow> nat \<Rightarrow> nat \<Rightarrow> u8 list res" where
  "Encode input i j len =
     (if j < len then
        if i < length input then
          bindE (Encode input (i + 1) (j + 4) len) (\<lambda>out. Inr (word_bytes_le (input ! i) @ out))
        else Inl OobRead
      else Inr [])"
  by pat_completeness auto
termination by (relation "measure (\<lambda>(_, _, j, len). len - j)") auto

function Decode :: "u8 list \<Rightarrow> nat \<Rightarrow> nat \<Rightarrow> nat \<Rightarrow> u32 list res" where
  "Decode input off j len =
     (if j < len then
        bindE (rd8 input (off + j)) (\<lambda>a. bindE (rd8 input (off + j + 1)) (\<lambda>b.
        bindE (rd8 input (off + j + 2)) (\<lambda>c. bindE (rd8 input (off + j + 3)) (\<lambda>d.
        bindE (Decode input off (j + 4) len) (\<lambda>out. Inr (le32 a b c d # out))))))
      else Inr [])"
  by pat_completeness auto
termination by (relation "measure (\<lambda>(_, _, j, len). len - j)") auto

declare Encode.simps [simp del] Decode.simps [simp del]

fun MD5_memcpy :: "u8 list \<Rightarrow> nat \<Rightarrow> u8 list \<Rightarrow> nat \<Rightarrow> nat \<Rightarrow> u8 list res" where
  "MD5_memcpy output p input q 0 = Inr output"
| "MD5_memcpy output p input q (Suc n) =
     bindE (rd8 input q) (\<lambda>b. bindE (wr output p [b]) (\<lambda>output'.
     MD5_memcpy output' (p + 1) input (q + 1) n))"

text \<open>\<open>MD5_memset\<close> of a whole array with zero.\<close>

definition MD5_memset :: "'a::zero list \<Rightarrow> 'a list" where
  "MD5_memset xs = replicate (length xs) 0"

section \<open>The compression function\<close>

definition md5_F :: "u32 \<Rightarrow> u32 \<Rightarrow> u32 \<Rightarrow> u32" where
  "md5_F x y z = (x AND y) OR (NOT x AND z)"

definition md5_G :: "u32 \<Rightarrow> u32 \<Rightarrow> u32 \<Rightarrow> u32" where
  "md5_G x y z = (x AND z) OR (y AND NOT z)"

definition md5_H :: "u32 \<Rightarrow> u32 \<Rightarrow> u32 \<Rightarrow> u32" where
  "md5_H x y z = x XOR y XOR z"

definition md5_I :: "u32 \<Rightarrow> u32 \<Rightarrow> u32 \<Rightarrow> u32" where
  "md5_I x y z = y XOR (x OR NOT z)"

definition ROTATE_LEFT :: "u32 \<Rightarrow> nat \<Rightarrow> u32" where
  "ROTATE_LEFT x n = push_bit n x OR drop_bit (32 - n) x"

definition FF :: "u32 \<Rightarrow> u32 \<Rightarrow> u32 \<Rightarrow> u32 \<Rightarrow> u32 \<Rightarrow> nat \<Rightarrow> u32 \<Rightarrow> u32" where
  "FF a b c d x s ac = ROTATE_LEFT (a + (md5_F b c d + x + ac)) s + b"

definition GG :: "u32 \<Rightarrow> u32 \<Rightarrow> u32 \<Rightarrow> u32 \<Rightarrow> u32 \<Rightarrow> nat \<Rightarrow> u32 \<Rightarrow> u32" where
  "GG a b c d x s ac = ROTATE_LEFT (a + (md5_G b c d + x + ac)) s + b"

definition HH :: "u32 \<Rightarrow> u32 \<Rightarrow> u32 \<Rightarrow> u32 \<Rightarrow> u32 \<Rightarrow> nat \<Rightarrow> u32 \<Rightarrow> u32" where
  "HH a b c d x s ac = ROTATE_LEFT (a + (md5_H b c d + x + ac)) s + b"

definition II :: "u32 \<Rightarrow> u32 \<Rightarrow> u32 \<Rightarrow> u32 \<Rightarrow> u32 \<Rightarrow> nat \<Rightarrow> u32 \<Rightarrow> u32" where
  "II a b c d x s ac = ROTATE_LEFT (a + (md5_I b c d + x + ac)) s + b"

abbreviation (input) S11 :: nat where "S11 \<equiv> 7"
abbreviation (input) S12 :: nat where "S12 \<equiv> 12"
abbreviation (input) S13 :: nat where "S13 \<equiv> 17"
abbreviation (input) S14 :: nat where "S14 \<equiv> 22"
abbreviation (input) S21 :: nat where "S21 \<equiv> 5"
abbreviation (input) S22 :: nat where "S22 \<equiv> 9"
abbreviation (input) S23 :: nat where "S23 \<equiv> 14"
abbreviation (input) S24 :: nat where "S24 \<equiv> 20"
abbreviation (input) S31 :: nat where "S31 \<equiv> 4"
abbreviation (input) S32 :: nat where "S32 \<equiv> 11"
abbreviation (input) S33 :: nat where "S33 \<equiv> 16"
abbreviation (input) S34 :: nat where "S34 \<equiv> 23"
abbreviation (input) S41 :: nat where "S41 \<equiv> 6"
abbreviation (input) S42 :: nat where "S42 \<equiv> 10"
abbreviation (input) S43 :: nat where "S43 \<equiv> 15"
abbreviation (input) S44 :: nat where "S44 \<equiv> 21"

definition md5_round1 :: "u32 list \<Rightarrow> u32 \<times> u32 \<times> u32 \<times> u32 \<Rightarrow> u32 \<times> u32 \<times> u32 \<times> u32" where
  "md5_round1 x s = (case s of (a, b, c, d) \<Rightarrow>
     let a = FF a b c d (x ! 0) S11 0xd76aa478 in
     let d = FF d a b c (x ! 1) S12 0xe8c7b756 in
     let c = FF c d a b (x ! 2) S13 0x242070db in
     let b = FF b c d a (x ! 3) S14 0xc1bdceee in
     let a = FF a b c d (x ! 4) S11 0xf57c0faf in
     let d = FF d a b c (x ! 5) S12 0x4787c62a in
     let c = FF c d a b (x ! 6) S13 0xa8304613 in
     let b = FF b c d a (x ! 7) S14 0xfd469501 in
     let a = FF a b c d (x ! 8) S11 0x698098d8 in
     let d = FF d a b c (x ! 9) S12 0x8b44f7af in
     let c = FF c d a b (x ! 10) S13 0xffff5bb1 in
     let b = FF b c d a (x ! 11) S14 0x895cd7be in
     let a = FF a b c d (x ! 12) S11 0x6b901122 in
     let d = FF d a b c (x ! 13) S12 0xfd987193 in
     let c = FF c d a b (x ! 14) S13 0xa679438e in
     let b = FF b c d a (x ! 15) S14 0x49b40821 in
     (a, b, c, d))"

definition md5_round2 :: "u32 list \<Rightarrow> u32 \<times> u32 \<times> u32 \<times> u32 \<Rightarrow> u32 \<times> u32 \<times> u32 \<times> u32" where
  "md5_round2 x s = (case s of (a, b, c, d) \<Rightarrow>
     let a = GG a b c d (x ! 1) S21 0xf61e2562 in
     let d = GG d a b c (x ! 6) S22 0xc040b340 in
     let c = GG c d a b (x ! 11) S23 0x265e5a51 in
     let b = GG b c d a (x ! 0) S24 0xe9b6c7aa in
     let a = GG a b c d (x ! 5) S21 0xd62f105d in
     let d = GG d a b c (x ! 10) S22 0x2441453 in
     let c = GG c d a b (x ! 15) S23 0xd8a1e681 in
     let b = GG b c d a (x ! 4) S24 0xe7d3fbc8 in
     let a = GG a b c d (x ! 9) S21 0x21e1cde6 in
     let d = GG d a b c (x ! 14) S22 0xc33707d6 in
     let c = GG c d a b (x ! 3) S23 0xf4d50d87 in
     let b = GG b c d a (x ! 8) S24 0x455a14ed in
     let a = GG a b c d (x ! 13) S21 0xa9e3e905 in
     let d = GG d a b c (x ! 2) S22 0xfcefa3f8 in
     let c = GG c d a b (x ! 7) S23 0x676f02d9 in
     let b = GG b c d a (x ! 12) S24 0x8d2a4c8a in
     (a, b, c, d))"

definition md5_round3 :: "u32 list \<Rightarrow> u32 \<times> u32 \<times> u32 \<times> u32 \<Rightarrow> u32 \<times> u32 \<times> u32 \<times> u32" where
  "md5_round3 x s = (case s of (a, b, c, d) \<Rightarrow>
     let a = HH a b c d (x ! 5) S31 0xfffa3942 in
     let d = HH d a b c (x ! 8) S32 0x8771f681 in
     let c = HH c d a b (x ! 11) S33 0x6d9d6122 in
     let b = HH b c d a (x ! 14) S34 0xfde5380c in
     let a = HH a b c d (x ! 1) S31 0xa4beea44 in
     let d = HH d a b c (x ! 4) S32 0x4bdecfa9 in
     let c = HH c d a b (x ! 7) S33 0xf6bb4b60 in
     let b = HH b c d a (x ! 10) S34 0xbebfbc70 in
     let a = HH a b c d (x ! 13) S31 0x289b7ec6 in
     let d = HH d a b c (x ! 0) S32 0xeaa127fa in
     let c = HH c d a b (x ! 3) S33 0xd4ef3085 in
     let b = HH b c d a (x ! 6) S34 0x4881d05 in
     let a = HH a b c d (x ! 9) S31 0xd9d4d039 in
     let d = HH d a b c (x ! 12) S32 0xe6db99e5 in
     let c = HH c d a b (x ! 15) S33 0x1fa27cf8 in
     let b = HH b c d a (x ! 2) S34 0xc4ac5665 in
     (a, b, c, d))"

definition md5_round4 :: "u32 list \<Rightarrow> u32 \<times> u32 \<times> u32 \<times> u32 \<Rightarrow> u32 \<times> u32 \<times> u32 \<times> u32" where
  "md5_round4 x s = (case s of (a, b, c, d) \<Rightarrow>
     let a = II a b c d (x ! 0) S41 0xf4292244 in
     let d = II d a b c (x ! 7) S42 0x432aff97 in
     let c = II c d a b (x ! 14) S43 0xab9423a7 in
     let b = II b c d a (x ! 5) S44 0xfc93a039 in
     let a = II a b c d (x ! 12) S41 0x655b59c3 in
     let d = II d a b c (x ! 3) S42 0x8f0ccc92 in
     let c = II c d a b (x ! 10) S43 0xffeff47d in
     let b = II b c d a (x ! 1) S44 0x85845dd1 in
     let a = II a b c d (x ! 8) S41 0x6fa87e4f in
     let d = II d a b c (x ! 15) S42 0xfe2ce6e0 in
     let c = II c d a b (x ! 6) S43 0xa3014314 in
     let b = II b c d a (x ! 13) S44 0x4e0811a1 in
     let a = II a b c d (x ! 4) S41 0xf7537e82 in
     let d = II d a b c (x ! 11) S42 0xbd3af235 in
     let c = II c d a b (x ! 2) S43 0x2ad7d2bb in
     let b = II b c d a (x ! 9) S44 0xeb86d391 in
     (a, b, c, d))"


text \<open>\<open>MD5Transform\<close> of the 64 octets at \<open>off\<close>. The words that it decodes them to are a local
  array, which it clears before it returns.\<close>

definition MD5Transform :: "u32 list \<Rightarrow> u8 list \<Rightarrow> nat \<Rightarrow> u32 list res" where
  "MD5Transform state block off =
     bindE (Decode block off 0 64) (\<lambda>x.
       (case md5_round4 x (md5_round3 x (md5_round2 x (md5_round1 x
          (state ! 0, state ! 1, state ! 2, state ! 3)))) of
        (a, b, c, d) \<Rightarrow> Inr [state ! 0 + a, state ! 1 + b, state ! 2 + c, state ! 3 + d]))"

section \<open>Feeding the message\<close>

text \<open>The loop over whole blocks, \<open>for (i = partLen; i + 63 < inputLen; i += 64)\<close>, in the
  arithmetic of \<open>unsigned int\<close>. It may wrap around; as long as it does not, it makes fewer than
  \<open>inputLen\<close> / 64 + 1 rounds, so that one that makes more never ends.\<close>

fun md5_blocks :: "nat \<Rightarrow> u32 list \<Rightarrow> u8 list \<Rightarrow> u32 \<Rightarrow> u32 \<Rightarrow> (u32 list \<times> u32) res" where
  "md5_blocks fuel state input i inputLen =
     (if i + 63 < inputLen then
        (case fuel of
           0 \<Rightarrow> Inl NoReturn
         | Suc fuel' \<Rightarrow>
             bindE (MD5Transform state input (unat i)) (\<lambda>state'.
             md5_blocks fuel' state' input (i + 64) inputLen))
      else Inr (state, i))"

declare md5_blocks.simps [simp del]

definition ctx_index :: "md5_ctx \<Rightarrow> u32" where
  "ctx_index c = drop_bit 3 (ctx_count0 c) AND 0x3F"

definition md5_count :: "md5_ctx \<Rightarrow> u32 \<Rightarrow> md5_ctx" where
  "md5_count c inputLen =
     (let count0 = ctx_count0 c + push_bit 3 inputLen;
          count1 = (if count0 < push_bit 3 inputLen then ctx_count1 c + 1 else ctx_count1 c)
      in c\<lparr>ctx_count0 := count0, ctx_count1 := count1 + drop_bit 29 inputLen\<rparr>)"

definition MD5Update :: "md5_ctx \<Rightarrow> u8 list \<Rightarrow> u32 \<Rightarrow> md5_ctx res" where
  "MD5Update context input inputLen =
     (let index = ctx_index context;
          context = md5_count context inputLen;
          partLen = 64 - index
      in bindE
           (if partLen \<le> inputLen then
              bindE (MD5_memcpy (ctx_buffer context) (unat index) input 0 (unat partLen)) (\<lambda>buffer.
              bindE (MD5Transform (ctx_state context) buffer 0) (\<lambda>state.
              bindE (md5_blocks (Suc (unat inputLen div 64)) state input partLen inputLen) (\<lambda>(state', i).
              Inr (context\<lparr>ctx_state := state', ctx_buffer := buffer\<rparr>, 0, i))))
            else Inr (context, index, 0))
           (\<lambda>(context', index', i).
              bindE (MD5_memcpy (ctx_buffer context') (unat index') input (unat i)
                       (unat (inputLen - i))) (\<lambda>buffer.
              Inr (context'\<lparr>ctx_buffer := buffer\<rparr>))))"

definition PADDING :: "u8 list" where
  "PADDING = 0x80 # replicate 63 0"

text \<open>\<open>MD5Final\<close> returns the digest and the context that it has cleared.\<close>

definition MD5Final :: "md5_ctx \<Rightarrow> (u8 list \<times> md5_ctx) res" where
  "MD5Final context =
     bindE (Encode [ctx_count0 context, ctx_count1 context] 0 0 8) (\<lambda>bits.
     let index = ctx_index context;
         padLen = (if index < 56 then 56 - index else 120 - index)
     in bindE (MD5Update context PADDING padLen) (\<lambda>context'.
        bindE (MD5Update context' bits 8) (\<lambda>context''.
        bindE (Encode (ctx_state context'') 0 0 16) (\<lambda>digest.
        Inr (digest, \<lparr>ctx_state = MD5_memset (ctx_state context''), ctx_count0 = 0,
          ctx_count1 = 0, ctx_buffer = MD5_memset (ctx_buffer context'')\<rparr>)))))"

section \<open>The standard\<close>

text \<open>One step of the compression function as RFC 1321 tabulates it: step \<open>i\<close> combines the
  registers with a word of the block and a constant, rotates, and shifts the registers by one
  place.\<close>

definition rfc_shift :: "nat list list" where
  "rfc_shift = [[7, 12, 17, 22], [5, 9, 14, 20], [4, 11, 16, 23], [6, 10, 15, 21]]"

definition rfc_table :: "u32 list" where
  "rfc_table =
  [0xd76aa478, 0xe8c7b756, 0x242070db, 0xc1bdceee, 0xf57c0faf, 0x4787c62a,
   0xa8304613, 0xfd469501, 0x698098d8, 0x8b44f7af, 0xffff5bb1, 0x895cd7be,
   0x6b901122, 0xfd987193, 0xa679438e, 0x49b40821, 0xf61e2562, 0xc040b340,
   0x265e5a51, 0xe9b6c7aa, 0xd62f105d, 0x2441453, 0xd8a1e681, 0xe7d3fbc8,
   0x21e1cde6, 0xc33707d6, 0xf4d50d87, 0x455a14ed, 0xa9e3e905, 0xfcefa3f8,
   0x676f02d9, 0x8d2a4c8a, 0xfffa3942, 0x8771f681, 0x6d9d6122, 0xfde5380c,
   0xa4beea44, 0x4bdecfa9, 0xf6bb4b60, 0xbebfbc70, 0x289b7ec6, 0xeaa127fa,
   0xd4ef3085, 0x4881d05, 0xd9d4d039, 0xe6db99e5, 0x1fa27cf8, 0xc4ac5665,
   0xf4292244, 0x432aff97, 0xab9423a7, 0xfc93a039, 0x655b59c3, 0x8f0ccc92,
   0xffeff47d, 0x85845dd1, 0x6fa87e4f, 0xfe2ce6e0, 0xa3014314, 0x4e0811a1,
   0xf7537e82, 0xbd3af235, 0x2ad7d2bb, 0xeb86d391]"

definition rfc_word :: "nat \<Rightarrow> nat" where
  "rfc_word i =
     (if i < 16 then i
      else if i < 32 then (5 * i + 1) mod 16
      else if i < 48 then (3 * i + 5) mod 16
      else 7 * i mod 16)"

definition rfc_mix :: "nat \<Rightarrow> u32 \<Rightarrow> u32 \<Rightarrow> u32 \<Rightarrow> u32" where
  "rfc_mix i = (if i < 16 then md5_F else if i < 32 then md5_G else if i < 48 then md5_H else md5_I)"

definition rfc_op :: "u32 list \<Rightarrow> nat \<Rightarrow> u32 \<Rightarrow> u32 \<Rightarrow> u32 \<Rightarrow> u32 \<Rightarrow> u32" where
  "rfc_op x i a b c d =
     ROTATE_LEFT (a + (rfc_mix i b c d + x ! rfc_word i + rfc_table ! i))
       (rfc_shift ! (i div 16) ! (i mod 4)) + b"

fun rfc_step :: "u32 list \<Rightarrow> nat \<Rightarrow> u32 \<times> u32 \<times> u32 \<times> u32 \<Rightarrow> u32 \<times> u32 \<times> u32 \<times> u32" where
  "rfc_step x i (a, b, c, d) = (d, rfc_op x i a b c d, b, c)"

definition rfc_rounds :: "u32 list \<Rightarrow> u32 \<times> u32 \<times> u32 \<times> u32 \<Rightarrow> u32 \<times> u32 \<times> u32 \<times> u32" where
  "rfc_rounds x = fold (rfc_step x) [0..<64]"

lemma fold_rfc_step:
  "fold (rfc_step x) (i # is) (a, b, c, d) =
     (let a' = rfc_op x i a b c d in fold (rfc_step x) is (d, a', b, c))"
  by (simp add: Let_def)

lemma upt_16:
  "[0..<16] = [0, 1, 2, 3, 4, 5, 6, 7, 8, 9, 10, 11, 12, 13, 14, 15]"
  "[16..<32] = [16, 17, 18, 19, 20, 21, 22, 23, 24, 25, 26, 27, 28, 29, 30, 31]"
  "[32..<48] = [32, 33, 34, 35, 36, 37, 38, 39, 40, 41, 42, 43, 44, 45, 46, 47]"
  "[48..<64] = [48, 49, 50, 51, 52, 53, 54, 55, 56, 57, 58, 59, 60, 61, 62, 63]"
  by (simp_all add: upt_rec)

lemma rfc_op_1:
  "rfc_op x 0 a b c d = FF a b c d (x ! 0) S11 0xd76aa478"
  "rfc_op x 1 a b c d = FF a b c d (x ! 1) S12 0xe8c7b756"
  "rfc_op x 2 a b c d = FF a b c d (x ! 2) S13 0x242070db"
  "rfc_op x 3 a b c d = FF a b c d (x ! 3) S14 0xc1bdceee"
  "rfc_op x 4 a b c d = FF a b c d (x ! 4) S11 0xf57c0faf"
  "rfc_op x 5 a b c d = FF a b c d (x ! 5) S12 0x4787c62a"
  "rfc_op x 6 a b c d = FF a b c d (x ! 6) S13 0xa8304613"
  "rfc_op x 7 a b c d = FF a b c d (x ! 7) S14 0xfd469501"
  "rfc_op x 8 a b c d = FF a b c d (x ! 8) S11 0x698098d8"
  "rfc_op x 9 a b c d = FF a b c d (x ! 9) S12 0x8b44f7af"
  "rfc_op x 10 a b c d = FF a b c d (x ! 10) S13 0xffff5bb1"
  "rfc_op x 11 a b c d = FF a b c d (x ! 11) S14 0x895cd7be"
  "rfc_op x 12 a b c d = FF a b c d (x ! 12) S11 0x6b901122"
  "rfc_op x 13 a b c d = FF a b c d (x ! 13) S12 0xfd987193"
  "rfc_op x 14 a b c d = FF a b c d (x ! 14) S13 0xa679438e"
  "rfc_op x 15 a b c d = FF a b c d (x ! 15) S14 0x49b40821"
  by (simp_all add: rfc_op_def rfc_mix_def rfc_word_def rfc_table_def rfc_shift_def FF_def)

lemma rfc_op_2:
  "rfc_op x 16 a b c d = GG a b c d (x ! 1) S21 0xf61e2562"
  "rfc_op x 17 a b c d = GG a b c d (x ! 6) S22 0xc040b340"
  "rfc_op x 18 a b c d = GG a b c d (x ! 11) S23 0x265e5a51"
  "rfc_op x 19 a b c d = GG a b c d (x ! 0) S24 0xe9b6c7aa"
  "rfc_op x 20 a b c d = GG a b c d (x ! 5) S21 0xd62f105d"
  "rfc_op x 21 a b c d = GG a b c d (x ! 10) S22 0x2441453"
  "rfc_op x 22 a b c d = GG a b c d (x ! 15) S23 0xd8a1e681"
  "rfc_op x 23 a b c d = GG a b c d (x ! 4) S24 0xe7d3fbc8"
  "rfc_op x 24 a b c d = GG a b c d (x ! 9) S21 0x21e1cde6"
  "rfc_op x 25 a b c d = GG a b c d (x ! 14) S22 0xc33707d6"
  "rfc_op x 26 a b c d = GG a b c d (x ! 3) S23 0xf4d50d87"
  "rfc_op x 27 a b c d = GG a b c d (x ! 8) S24 0x455a14ed"
  "rfc_op x 28 a b c d = GG a b c d (x ! 13) S21 0xa9e3e905"
  "rfc_op x 29 a b c d = GG a b c d (x ! 2) S22 0xfcefa3f8"
  "rfc_op x 30 a b c d = GG a b c d (x ! 7) S23 0x676f02d9"
  "rfc_op x 31 a b c d = GG a b c d (x ! 12) S24 0x8d2a4c8a"
  by (simp_all add: rfc_op_def rfc_mix_def rfc_word_def rfc_table_def rfc_shift_def GG_def)

lemma rfc_op_3:
  "rfc_op x 32 a b c d = HH a b c d (x ! 5) S31 0xfffa3942"
  "rfc_op x 33 a b c d = HH a b c d (x ! 8) S32 0x8771f681"
  "rfc_op x 34 a b c d = HH a b c d (x ! 11) S33 0x6d9d6122"
  "rfc_op x 35 a b c d = HH a b c d (x ! 14) S34 0xfde5380c"
  "rfc_op x 36 a b c d = HH a b c d (x ! 1) S31 0xa4beea44"
  "rfc_op x 37 a b c d = HH a b c d (x ! 4) S32 0x4bdecfa9"
  "rfc_op x 38 a b c d = HH a b c d (x ! 7) S33 0xf6bb4b60"
  "rfc_op x 39 a b c d = HH a b c d (x ! 10) S34 0xbebfbc70"
  "rfc_op x 40 a b c d = HH a b c d (x ! 13) S31 0x289b7ec6"
  "rfc_op x 41 a b c d = HH a b c d (x ! 0) S32 0xeaa127fa"
  "rfc_op x 42 a b c d = HH a b c d (x ! 3) S33 0xd4ef3085"
  "rfc_op x 43 a b c d = HH a b c d (x ! 6) S34 0x4881d05"
  "rfc_op x 44 a b c d = HH a b c d (x ! 9) S31 0xd9d4d039"
  "rfc_op x 45 a b c d = HH a b c d (x ! 12) S32 0xe6db99e5"
  "rfc_op x 46 a b c d = HH a b c d (x ! 15) S33 0x1fa27cf8"
  "rfc_op x 47 a b c d = HH a b c d (x ! 2) S34 0xc4ac5665"
  by (simp_all add: rfc_op_def rfc_mix_def rfc_word_def rfc_table_def rfc_shift_def HH_def)

lemma rfc_op_4:
  "rfc_op x 48 a b c d = II a b c d (x ! 0) S41 0xf4292244"
  "rfc_op x 49 a b c d = II a b c d (x ! 7) S42 0x432aff97"
  "rfc_op x 50 a b c d = II a b c d (x ! 14) S43 0xab9423a7"
  "rfc_op x 51 a b c d = II a b c d (x ! 5) S44 0xfc93a039"
  "rfc_op x 52 a b c d = II a b c d (x ! 12) S41 0x655b59c3"
  "rfc_op x 53 a b c d = II a b c d (x ! 3) S42 0x8f0ccc92"
  "rfc_op x 54 a b c d = II a b c d (x ! 10) S43 0xffeff47d"
  "rfc_op x 55 a b c d = II a b c d (x ! 1) S44 0x85845dd1"
  "rfc_op x 56 a b c d = II a b c d (x ! 8) S41 0x6fa87e4f"
  "rfc_op x 57 a b c d = II a b c d (x ! 15) S42 0xfe2ce6e0"
  "rfc_op x 58 a b c d = II a b c d (x ! 6) S43 0xa3014314"
  "rfc_op x 59 a b c d = II a b c d (x ! 13) S44 0x4e0811a1"
  "rfc_op x 60 a b c d = II a b c d (x ! 4) S41 0xf7537e82"
  "rfc_op x 61 a b c d = II a b c d (x ! 11) S42 0xbd3af235"
  "rfc_op x 62 a b c d = II a b c d (x ! 2) S43 0x2ad7d2bb"
  "rfc_op x 63 a b c d = II a b c d (x ! 9) S44 0xeb86d391"
  by (simp_all add: rfc_op_def rfc_mix_def rfc_word_def rfc_table_def rfc_shift_def II_def)

lemma round1_rfc: "md5_round1 x s = fold (rfc_step x) [0..<16] s"
  by (cases s) (simp only: md5_round1_def upt_16 fold_rfc_step rfc_op_1 prod.case fold_simps(1))

lemma round2_rfc: "md5_round2 x s = fold (rfc_step x) [16..<32] s"
  by (cases s) (simp only: md5_round2_def upt_16 fold_rfc_step rfc_op_2 prod.case fold_simps(1))

lemma round3_rfc: "md5_round3 x s = fold (rfc_step x) [32..<48] s"
  by (cases s) (simp only: md5_round3_def upt_16 fold_rfc_step rfc_op_3 prod.case fold_simps(1))

lemma round4_rfc: "md5_round4 x s = fold (rfc_step x) [48..<64] s"
  by (cases s) (simp only: md5_round4_def upt_16 fold_rfc_step rfc_op_4 prod.case fold_simps(1))

lemma rounds_rfc: "md5_round4 x (md5_round3 x (md5_round2 x (md5_round1 x s))) = rfc_rounds x s"
proof -
  have "[0..<64] = [0..<16] @ [16..<32] @ [32..<48] @ [48..<64::nat]"
    by (simp add: upt_16) (simp add: upt_rec)
  then show ?thesis
    by (simp add: rfc_rounds_def round1_rfc round2_rfc round3_rfc round4_rfc del: upt_conv_Cons)
qed

text \<open>The compression of one block, and of all the whole blocks of a sequence of octets.\<close>

fun words_le :: "u8 list \<Rightarrow> u32 list" where
  "words_le (a # b # c # d # bs) = le32 a b c d # words_le bs"
| "words_le _ = []"

definition rfc_compress :: "u32 list \<Rightarrow> u8 list \<Rightarrow> u32 list" where
  "rfc_compress h block =
     (case rfc_rounds (words_le block) (h ! 0, h ! 1, h ! 2, h ! 3) of
        (a, b, c, d) \<Rightarrow> [h ! 0 + a, h ! 1 + b, h ! 2 + c, h ! 3 + d])"

function rfc_hash :: "u32 list \<Rightarrow> u8 list \<Rightarrow> u32 list" where
  "rfc_hash h bs = (if length bs < 64 then h else rfc_hash (rfc_compress h (take 64 bs)) (drop 64 bs))"
  by pat_completeness auto
termination by (relation "measure (\<lambda>(_, bs). length bs)") auto

declare rfc_hash.simps [simp del]

text \<open>The padding: a one, as many zeros as lead to 56 octets modulo 64, and the length in bits
  modulo \<open>2 ^ 64\<close>, least significant octet first.\<close>

definition rfc_length :: "nat \<Rightarrow> u8 list" where
  "rfc_length n = map (\<lambda>k. ucast (drop_bit (8 * k) (of_nat (8 * n) :: 64 word))) [0..<8]"

definition rfc_pad :: "u8 list \<Rightarrow> u8 list" where
  "rfc_pad msg = msg @ 0x80 # replicate ((119 - length msg mod 64) mod 64) 0 @ rfc_length (length msg)"

definition rfc_iv :: "u32 list" where
  "rfc_iv = [0x67452301, 0xefcdab89, 0x98badcfe, 0x10325476]"

definition rfc_md5 :: "u8 list \<Rightarrow> u8 list" where
  "rfc_md5 msg = concat (map word_bytes_le (rfc_hash rfc_iv (rfc_pad msg)))"

section \<open>The code computes the standard\<close>

lemma rfc_hash_short: "length bs < 64 \<Longrightarrow> rfc_hash h bs = h"
  by (subst rfc_hash.simps) simp

lemma rfc_hash_block: "length b = 64 \<Longrightarrow> rfc_hash h (b @ bs) = rfc_hash (rfc_compress h b) bs"
  by (subst rfc_hash.simps) simp

lemma rfc_hash_append: "64 dvd length xs \<Longrightarrow> rfc_hash h (xs @ ys) = rfc_hash (rfc_hash h xs) ys"
proof (induction h xs rule: rfc_hash.induct)
  case (1 h xs)
  show ?case
  proof (cases "length xs < 64")
    case True
    with "1.prems" have "xs = []"
      by (auto dest: dvd_imp_le)
    then show ?thesis
      by (simp add: rfc_hash_short)
  next
    case False
    then have "64 dvd length (drop 64 xs)"
      using "1.prems" by (simp add: dvd_diff_nat)
    then show ?thesis
      using "1.IH" [OF False] False by (subst (1 2) rfc_hash.simps) simp
  qed
qed

lemma length_rfc_compress [simp]: "length (rfc_compress h b) = 4"
  by (simp add: rfc_compress_def split: prod.splits)

lemma length_rfc_hash [simp]: "length h = 4 \<Longrightarrow> length (rfc_hash h bs) = 4"
  by (induction h bs rule: rfc_hash.induct)
    (subst rfc_hash.simps, simp)

lemma words_le_take: "4 \<le> length bs \<Longrightarrow> words_le bs = le32 (bs ! 0) (bs ! 1) (bs ! 2) (bs ! 3) # words_le (drop 4 bs)"
  by (cases bs rule: words_le.cases) auto

lemma Decode_ok:
  "4 dvd len - j \<Longrightarrow> j \<le> len \<Longrightarrow> off + len \<le> length input \<Longrightarrow>
   Decode input off j len = Inr (words_le (seg input (off + j) (len - j)))"
proof (induction input off j len rule: Decode.induct)
  case (1 input off j len)
  show ?case
  proof (cases "j < len")
    case False
    then show ?thesis
      using "1.prems" by (simp add: Decode.simps)
  next
    case True
    with "1.prems" have le: "4 \<le> len - j"
      by (auto dest: dvd_imp_le)
    have "drop 4 (seg input (off + j) (len - j)) = seg input (off + (j + 4)) (len - (j + 4))"
      by (simp add: seg_def drop_take ac_simps)
    moreover have "4 dvd len - (j + 4)"
      using dvd_diff_nat [OF "1.prems"(1), of 4] by simp
    ultimately show ?thesis
      using le "1.prems" "1.IH" [OF True]
      by (subst Decode.simps) (simp add: words_le_take seg_nth add.assoc)
  qed
qed

lemma MD5Transform_ok:
  "off + 64 \<le> length block \<Longrightarrow> MD5Transform state block off = Inr (rfc_compress state (seg block off 64))"
  by (simp add: MD5Transform_def Decode_ok rfc_compress_def rounds_rfc split: prod.splits)

lemma MD5_memcpy_ok:
  "p + n \<le> length buf \<Longrightarrow> q + n \<le> length input \<Longrightarrow>
   MD5_memcpy buf p input q n = Inr (take p buf @ seg input q n @ drop (p + n) buf)"
proof (induction n arbitrary: buf p q)
  case 0
  then show ?case by simp
next
  case (Suc n)
  have "seg input q (Suc n) = input ! q # seg input (Suc q) n"
    using Suc.prems by (simp add: seg_def Cons_nth_drop_Suc [symmetric])
  then show ?case
    using Suc.prems Suc.IH [of "p + 1" "take p buf @ input ! q # drop (Suc p) buf" "q + 1"]
    by (simp add: wr_def min_def add.commute)
qed

lemma seg_split: "m \<le> n \<Longrightarrow> seg buf i n = seg buf i m @ seg buf (i + m) (n - m)"
  using seg_add [of buf i m "n - m"] by simp

lemma md5_blocks_ok:
  assumes "unat inputLen \<le> 2 ^ 32 - 64" "unat inputLen \<le> length input" "i \<le> inputLen"
    and "unat inputLen - unat i < 64 * fuel"
  shows "md5_blocks fuel state input i inputLen =
     Inr (rfc_hash state (seg input (unat i) (unat inputLen - unat i)),
          of_nat (unat inputLen - (unat inputLen - unat i) mod 64))"
  using assms
proof (induction fuel arbitrary: state i)
  case 0
  then show ?case by simp
next
  case (Suc fuel)
  have le: "unat i \<le> unat inputLen"
    using Suc.prems(3) by (simp add: word_le_nat_alt)
  have u63: "unat (i + 63) = unat i + 63"
    using le Suc.prems(1) by (simp add: unat_word_ariths)
  show ?case
  proof (cases "i + 63 < inputLen")
    case False
    then have "unat inputLen - unat i < 64"
      by (simp add: word_less_nat_alt u63)
    moreover from this have "unat inputLen - (unat inputLen - unat i) mod 64 = unat i"
      using le by simp
    ultimately show ?thesis
      using False Suc.prems(2) le by (subst md5_blocks.simps) (simp add: rfc_hash_short)
  next
    case True
    then have lt: "unat i + 64 \<le> unat inputLen"
      by (simp add: word_less_nat_alt u63)
    then have u64: "unat (i + 64) = unat i + 64"
      using Suc.prems(1) by (simp add: unat_word_ariths)
    have m: "(unat inputLen - (unat i + 64)) mod 64 = (unat inputLen - unat i) mod 64"
      using lt le_mod_geq [of 64 "unat inputLen - unat i"] by (simp add: diff_diff_left)
    have "seg input (unat i) (unat inputLen - unat i) =
        seg input (unat i) 64 @ seg input (unat i + 64) (unat inputLen - (unat i + 64))"
      using lt seg_split [of 64 "unat inputLen - unat i" input "unat i"] by simp
    moreover have "md5_blocks fuel (rfc_compress state (seg input (unat i) 64)) input (i + 64) inputLen =
       Inr (rfc_hash (rfc_compress state (seg input (unat i) 64))
              (seg input (unat i + 64) (unat inputLen - (unat i + 64))),
            of_nat (unat inputLen - (unat inputLen - unat i) mod 64))"
      using lt u64 m Suc.prems by (subst Suc.IH) (simp_all add: word_le_nat_alt)
    ultimately show ?thesis
      using True lt Suc.prems(2)
      by (subst md5_blocks.simps) (simp add: MD5Transform_ok rfc_hash_block)
  qed
qed

text \<open>What a context is after the octets \<open>msg\<close>: the whole blocks are hashed, the rest is in the
  buffer, and the count is their number of bits.\<close>

definition ctx_after :: "md5_ctx \<Rightarrow> u8 list \<Rightarrow> bool" where
  "ctx_after c msg \<longleftrightarrow> ctx_ok c \<and>
     ctx_count0 c = of_nat (8 * length msg) \<and> ctx_count1 c = of_nat (8 * length msg div 2 ^ 32) \<and>
     ctx_state c = rfc_hash rfc_iv msg \<and>
     take (length msg mod 64) (ctx_buffer c) = drop (length msg - length msg mod 64) msg"

lemma MD5Init_after: "ctx_ok c \<Longrightarrow> ctx_after (MD5Init c) []"
  by (simp add: ctx_after_def ctx_ok_def MD5Init_def rfc_hash_short rfc_iv_def)

lemma rfc_hash_tail:
  "rfc_hash h (xs @ ys) = rfc_hash (rfc_hash h xs) (drop (length xs - length xs mod 64) xs @ ys)"
proof -
  define whole tail where "whole = take (length xs - length xs mod 64) xs"
    and "tail = drop (length xs - length xs mod 64) xs"
  have xs: "xs = whole @ tail"
    by (simp add: whole_def tail_def)
  have "64 dvd length whole"
    by (simp add: whole_def dvd_minus_mod)
  moreover have "length tail < 64"
    by (simp add: tail_def diff_diff_cancel)
  ultimately show ?thesis
    unfolding tail_def [symmetric] by (simp add: xs rfc_hash_append rfc_hash_short)
qed

lemma mod_div_carry:
  fixes B :: nat
  assumes "a < B" "b < B"
  shows "(a + b) mod B = (if B \<le> a + b then a + b - B else a + b)"
    and "(a + b) div B = (if B \<le> a + b then 1 else 0)"
  using assms by (auto simp: le_mod_geq intro!: div_nat_eqI)

lemma mod_add_less_iff:
  fixes B :: nat
  assumes "0 < B"
  shows "(x + y) mod B < y mod B \<longleftrightarrow> B \<le> x mod B + y mod B"
proof -
  have "(a + b) mod B < b \<longleftrightarrow> B \<le> a + b" if "a < B" "b < B" for a b
    using mod_div_carry(1) [OF that] that by auto
  from this [of "x mod B" "y mod B"] assms show ?thesis
    by (simp add: mod_add_eq)
qed

lemma div_add_carry:
  fixes B :: nat
  assumes "0 < B"
  shows "(x + y) div B = x div B + y div B + (if B \<le> x mod B + y mod B then 1 else 0)"
  using mod_div_carry(2) [of "x mod B" B "y mod B"] assms by (simp add: div_add1_eq [of x y B])

lemma md5_count_bits:
  assumes "ctx_count0 c = of_nat (8 * m)" "ctx_count1 c = of_nat (8 * m div 2 ^ 32)"
  shows "md5_count c n = c\<lparr>ctx_count0 := of_nat (8 * (m + unat n)),
     ctx_count1 := of_nat (8 * (m + unat n) div 2 ^ 32)\<rparr>"
proof -
  define x y where "x = 8 * m" and "y = 8 * unat n"
  have low: "push_bit 3 n = of_nat y"
    by (simp add: y_def push_bit_eq_mult mult.commute)
  have high: "drop_bit 29 n = of_nat (y div 2 ^ 32)"
  proof -
    have "y div 2 ^ 32 = unat (drop_bit 29 n)"
      by (simp add: y_def drop_bit_eq_div unat_div)
    then show ?thesis
      by simp
  qed
  have lt: "(of_nat (x + y) :: u32) < of_nat y \<longleftrightarrow> 2 ^ 32 \<le> x mod 2 ^ 32 + y mod 2 ^ 32"
    using mod_add_less_iff [of "2 ^ 32" x y]
    by (simp add: word_less_nat_alt unat_of_nat take_bit_eq_mod del: of_nat_add)
  have div: "(x + y) div 2 ^ 32 = x div 2 ^ 32 + y div 2 ^ 32 +
      (if 2 ^ 32 \<le> x mod 2 ^ 32 + y mod 2 ^ 32 then 1 else 0)"
    by (rule div_add_carry) simp
  have "(if (of_nat x + of_nat y :: u32) < of_nat y then ctx_count1 c + 1 else ctx_count1 c)
      + of_nat (y div 2 ^ 32) = of_nat ((x + y) div 2 ^ 32)"
    using lt assms(2) unfolding div x_def [symmetric] by simp
  then show ?thesis
    using assms(1) unfolding md5_count_def Let_def low high
    by (simp add: x_def [symmetric] y_def [symmetric] distrib_left)
qed

lemma ctx_index_ok:
  assumes "ctx_count0 c = of_nat (8 * m)"
  shows "unat (ctx_index c) = m mod 64"
proof -
  have "ctx_index c = take_bit 6 (drop_bit 3 (ctx_count0 c))"
    using mask_eq_exp_minus_1 [of 6, where 'a = u32] take_bit_eq_mask [of 6 "drop_bit 3 (ctx_count0 c)"]
    by (simp add: ctx_index_def)
  then have "unat (ctx_index c) = take_bit 6 (drop_bit 3 (unat (ctx_count0 c)))"
    by (simp add: unsigned_take_bit_eq unat_drop_bit_eq)
  also have "unat (ctx_count0 c) = 8 * m mod 2 ^ 32"
    by (simp add: assms unat_of_nat take_bit_eq_mod del: of_nat_mult)
  also have "take_bit 6 (drop_bit 3 (8 * m mod 2 ^ 32)) = m mod 64"
    by (simp add: take_bit_eq_mod drop_bit_eq_div mod_mult_mult1 [of 8 m "2 ^ 29", simplified] mod_mod_cancel)
  finally show ?thesis .
qed

lemma unat_64_minus: "unat i < 64 \<Longrightarrow> unat (64 - i :: u32) = 64 - unat i"
  by (simp add: unat_sub word_le_nat_alt)

lemma ctx_after_count: "ctx_after c msg \<Longrightarrow> md5_count c n =
   c\<lparr>ctx_count0 := of_nat (8 * (length msg + unat n)),
     ctx_count1 := of_nat (8 * (length msg + unat n) div 2 ^ 32)\<rparr>"
  by (rule md5_count_bits) (simp_all add: ctx_after_def)

lemma MD5Update_short:
  assumes c: "ctx_after c msg" and n: "unat n \<le> length input" "unat n < 64 - length msg mod 64"
  shows "\<exists>c'. MD5Update c input n = Inr c' \<and> ctx_after c' (msg @ take (unat n) input)"
proof -
  let ?t = "length msg mod 64"
  have t: "unat (ctx_index c) = ?t" "?t < 64"
    using c by (simp_all add: ctx_after_def ctx_index_ok)
  have lt: "\<not> 64 - ctx_index c \<le> n"
    using n t by (simp add: word_le_nat_alt unat_64_minus)
  have ok: "length (ctx_buffer c) = 64" "length (ctx_state c) = 4" "ctx_state c = rfc_hash rfc_iv msg"
    "take ?t (ctx_buffer c) = drop (length msg - ?t) msg"
    using c unfolding ctx_after_def ctx_ok_def by blast+
  let ?b = "take ?t (ctx_buffer c) @ seg input 0 (unat n) @ drop (?t + unat n) (ctx_buffer c)"
  have cpy: "MD5_memcpy (ctx_buffer c) ?t input 0 (unat n) = Inr ?b"
    using n ok t by (intro MD5_memcpy_ok) auto
  have "(?t + unat n) mod 64 = ?t + unat n"
    using n by (intro mod_less) simp
  then have m: "(length msg + unat n) mod 64 = ?t + unat n"
    by (simp only: mod_add_left_eq)
  have "rfc_hash rfc_iv (msg @ take (unat n) input) = ctx_state c"
    using n t ok(3) rfc_hash_tail [of rfc_iv msg "take (unat n) input"]
    by (simp add: rfc_hash_short)
  moreover have "take (?t + unat n) ?b = drop (length msg + unat n - (?t + unat n)) (msg @ take (unat n) input)"
    using n t ok by (simp add: seg_def)
  ultimately have "ctx_after ((md5_count c n)\<lparr>ctx_buffer := ?b\<rparr>) (msg @ take (unat n) input)"
    using n m ok t by (simp add: ctx_after_def ctx_ok_def ctx_after_count [OF c] min_def)
  then show ?thesis
    using lt t cpy by (simp add: MD5Update_def Let_def ctx_after_count [OF c])
qed

lemma mod_of_rest: "64 - a mod 64 \<le> k \<Longrightarrow> (a + k) mod 64 = (k - (64 - a mod 64)) mod 64" for a k :: nat
proof -
  assume le: "64 - a mod 64 \<le> k"
  have "(a + k) mod 64 = (a mod 64 + k) mod 64"
    by (simp only: mod_add_left_eq)
  also have "a mod 64 + k = (k - (64 - a mod 64)) + 64"
    using le mod_less_divisor [of 64 a] by linarith
  finally show ?thesis
    by (simp only: mod_add_self2)
qed

lemma MD5Update_long:
  assumes c: "ctx_after c msg" and n: "unat n \<le> length input" "unat n \<le> 2 ^ 32 - 64"
    "64 - length msg mod 64 \<le> unat n"
  shows "\<exists>c'. MD5Update c input n = Inr c' \<and> ctx_after c' (msg @ take (unat n) input)"
proof -
  let ?t = "length msg mod 64"
  let ?p = "64 - ?t"
  define r where "r = (unat n - ?p) mod 64"
  have t: "unat (ctx_index c) = ?t" "?t < 64"
    using c by (simp_all add: ctx_after_def ctx_index_ok)
  have part: "unat (64 - ctx_index c) = ?p"
    using t by (simp add: unat_64_minus)
  then have le: "64 - ctx_index c \<le> n"
    using n by (simp add: word_le_nat_alt)
  have ok: "length (ctx_buffer c) = 64" "length (ctx_state c) = 4" "ctx_state c = rfc_hash rfc_iv msg"
    "take ?t (ctx_buffer c) = drop (length msg - ?t) msg"
    using c unfolding ctx_after_def ctx_ok_def by blast+
  define b where "b = drop (length msg - ?t) msg @ seg input 0 ?p"
  let ?h = "rfc_hash (rfc_compress (ctx_state c) b) (seg input ?p (unat n - ?p))"
  have cpy: "MD5_memcpy (ctx_buffer c) ?t input 0 ?p = Inr b"
    using n ok t unfolding b_def by (subst MD5_memcpy_ok) auto
  have len: "length b = 64"
    using n t by (simp add: b_def)
  have tr: "MD5Transform (ctx_state c) b 0 = Inr (rfc_compress (ctx_state c) b)"
    using len by (subst MD5Transform_ok) (simp_all add: seg_def)
  have loop: "md5_blocks (Suc (unat n div 64)) (rfc_compress (ctx_state c) b) input
      (64 - ctx_index c) n = Inr (?h, of_nat (unat n - r))"
    unfolding r_def using n le md5_blocks_ok [of n input "64 - ctx_index c" "Suc (unat n div 64)"]
    by (simp add: part less_mult_imp_div_less)
  have r: "r \<le> unat n" "r < 64"
    by (simp_all add: r_def le_trans [OF mod_less_eq_dividend])
  have i: "unat (of_nat (unat n - r) :: u32) = unat n - r"
    using n(2) by (simp add: unat_of_nat_small)
  with r have rest: "unat (n - of_nat (unat n - r)) = r"
    by (simp add: unat_sub word_le_nat_alt unat_of_nat_small)
  define d where "d = seg input (unat n - r) r @ drop r b"
  have cpy': "MD5_memcpy b 0 input (unat n - r) r = Inr d"
    using n(1) r len unfolding d_def by (subst MD5_memcpy_ok) auto
  have m: "(length msg + unat n) mod 64 = r"
    using n(3) by (simp only: r_def mod_of_rest)
  have "take (unat n) input = seg input 0 ?p @ seg input ?p (unat n - ?p)"
    using n(3) seg_split [of ?p "unat n" input 0] by (simp add: seg_def)
  then have "rfc_hash rfc_iv (msg @ take (unat n) input) =
      rfc_hash (ctx_state c) (b @ seg input ?p (unat n - ?p))"
    using ok(3) by (simp only: rfc_hash_tail [of rfc_iv msg] append_assoc b_def)
  then have "rfc_hash rfc_iv (msg @ take (unat n) input) = ?h"
    by (simp only: rfc_hash_block [OF len])
  moreover have "take r d = drop (length msg + unat n - r) (msg @ take (unat n) input)"
    using n(1) r by (simp add: seg_def drop_take d_def)
  moreover have "length d = 64"
    using n(1) r len by (simp add: d_def)
  ultimately have "ctx_after ((md5_count c n)\<lparr>ctx_state := ?h, ctx_buffer := d\<rparr>) (msg @ take (unat n) input)"
    using n(1) m r ok len by (simp add: ctx_after_def ctx_ok_def ctx_after_count [OF c])
  then show ?thesis
    using le t part cpy cpy' tr loop i rest
    by (simp add: MD5Update_def Let_def ctx_after_count [OF c])
qed

text \<open>Whatever the size of a piece, up to the 63 last values of \<open>unsigned int\<close>, where the bound of
  the loop wraps around.\<close>

lemma MD5Update_after:
  assumes "ctx_after c msg" "unat n \<le> length input" "unat n \<le> 2 ^ 32 - 64"
  shows "\<exists>c'. MD5Update c input n = Inr c' \<and> ctx_after c' (msg @ take (unat n) input)"
  using MD5Update_short [OF assms(1,2)] MD5Update_long [OF assms] not_less by blast

lemma word_bytes_le_simp: "word_bytes_le w = [ucast w, ucast (drop_bit 8 w), ucast (drop_bit 16 w), ucast (drop_bit 24 w)]"
proof -
  have "(ucast (x AND 0xff) :: u8) = ucast x" for x :: u32
  proof -
    have "x AND 0xff = take_bit 8 x"
      by (simp add: take_bit_eq_mask mask_eq_exp_minus_1)
    then show ?thesis
      by (simp only:) (intro bit_word_eqI, simp add: bit_simps)
  qed
  then show ?thesis
    by (simp add: word_bytes_le_def)
qed

lemma rfc_length_words:
  "rfc_length n = word_bytes_le (of_nat (8 * n)) @ word_bytes_le (of_nat (8 * n div 2 ^ 32))"
proof -
  define m where "m = 8 * n"
  define w :: "64 word" where "w = of_nat m"
  have low: "(of_nat m :: u32) = ucast w"
    by (simp add: w_def unsigned_of_nat word_of_nat_eq_iff)
  have "unat w = take_bit 64 m"
    by (simp add: w_def unat_of_nat take_bit_eq_mod)
  then have "unat (drop_bit 32 w) = take_bit 32 (drop_bit 32 m)"
    by (simp add: unat_drop_bit_eq drop_bit_take_bit)
  moreover have "(ucast (drop_bit 32 w) :: u32) = of_nat (unat (drop_bit 32 w))"
    by simp
  ultimately have high: "(of_nat (m div 2 ^ 32) :: u32) = ucast (drop_bit 32 w)"
    by (simp only: drop_bit_eq_div [symmetric] word_of_nat_eq_iff) simp
  show ?thesis
    unfolding rfc_length_def m_def [symmetric] low high w_def [symmetric] word_bytes_le_simp
    by (simp add: upt_rec) (intro conjI bit_word_eqI; simp add: bit_simps)
qed

lemma Encode_2: "Encode [a, b] 0 0 8 = Inr (word_bytes_le a @ word_bytes_le b)"
  by (simp add: Encode.simps)

lemma Encode_4: "length h = 4 \<Longrightarrow> Encode h 0 0 16 = Inr (concat (map word_bytes_le h))"
  by (auto simp: Encode.simps length_Suc_conv numeral_eq_Suc)

lemma MD5Final_after:
  assumes c: "ctx_after c msg"
  shows "MD5Final c = Inr (rfc_md5 msg,
     \<lparr>ctx_state = replicate 4 0, ctx_count0 = 0, ctx_count1 = 0, ctx_buffer = replicate 64 0\<rparr>)"
proof -
  let ?i = "ctx_index c"
  define n where "n = (if ?i < 56 then 56 - ?i else 120 - ?i)"
  let ?k = "(119 - length msg mod 64) mod 64"
  have i: "unat ?i = length msg mod 64"
    using c by (simp add: ctx_after_def ctx_index_ok)
  have n: "unat n = Suc ?k"
  proof (cases "?i < 56")
    case True
    with i have "119 - length msg mod 64 = 55 - length msg mod 64 + 64"
      by (simp add: word_less_nat_alt)
    then have "?k = (55 - length msg mod 64) mod 64"
      by (simp only: mod_add_self2)
    then have "?k = 55 - length msg mod 64" "56 - length msg mod 64 = Suc (55 - length msg mod 64)"
      using True i by (simp_all add: word_less_nat_alt Suc_diff_le [symmetric])
    with True i show ?thesis
      by (simp add: n_def unat_sub word_le_nat_alt word_less_nat_alt)
  next
    case False
    with i have "119 - length msg mod 64 < 64" "length msg mod 64 < 64"
      by (simp_all add: word_less_nat_alt)
    with False i show ?thesis
      by (simp add: n_def unat_sub word_le_nat_alt word_less_nat_alt)
  qed
  have k: "?k < 64"
    by simp
  obtain c1 where c1: "MD5Update c PADDING n = Inr c1" "ctx_after c1 (msg @ take (unat n) PADDING)"
    using MD5Update_after [OF c, of n PADDING] n k by (auto simp: PADDING_def)
  let ?bits = "rfc_length (length msg)"
  have bits: "Encode [ctx_count0 c, ctx_count1 c] 0 0 8 = Inr ?bits"
    using c by (simp add: Encode_2 rfc_length_words ctx_after_def)
  have pad: "(msg @ take (unat n) PADDING) @ take 8 ?bits = rfc_pad msg"
    using n k by (simp add: PADDING_def rfc_pad_def rfc_length_def)
  obtain c2 where c2: "MD5Update c1 ?bits 8 = Inr c2" "ctx_after c2 (rfc_pad msg)"
    using MD5Update_after [OF c1(2), of 8 ?bits] pad by (auto simp: rfc_length_def)
  have st: "ctx_state c2 = rfc_hash rfc_iv (rfc_pad msg)" "length (ctx_state c2) = 4"
    "length (ctx_buffer c2) = 64"
    using c2(2) unfolding ctx_after_def ctx_ok_def by blast+
  show ?thesis
    using bits c1(1) c2(1) st(2,3) Encode_4 [OF st(2)]
    by (simp add: MD5Final_def Let_def n_def [symmetric] rfc_md5_def MD5_memset_def st(1))
qed

fun md5_feed :: "md5_ctx \<Rightarrow> u8 list list \<Rightarrow> md5_ctx res" where
  "md5_feed c [] = Inr c"
| "md5_feed c (xs # xss) = bindE (MD5Update c xs (of_nat (length xs))) (\<lambda>c'. md5_feed c' xss)"

lemma md5_feed_after:
  "ctx_after c msg \<Longrightarrow> \<forall>xs\<in>set xss. length xs \<le> 2 ^ 32 - 64 \<Longrightarrow>
   \<exists>c'. md5_feed c xss = Inr c' \<and> ctx_after c' (msg @ concat xss)"
proof (induction xss arbitrary: c msg)
  case Nil
  then show ?case by simp
next
  case (Cons xs xss)
  then have len: "unat (of_nat (length xs) :: u32) = length xs"
    by (auto simp: unat_of_nat_small)
  obtain c' where "MD5Update c xs (of_nat (length xs)) = Inr c'" "ctx_after c' (msg @ xs)"
    using MD5Update_after [OF Cons.prems(1), of "of_nat (length xs)" xs] Cons.prems(2)
    by (auto simp: len)
  then show ?case
    using Cons.IH [of c' "msg @ xs"] Cons.prems(2) by simp
qed


text \<open>The digest of RFC 1321 for "abc" (A.5), by evaluation.\<close>

lemma rfc_md5_abc: "rfc_md5 [0x61, 0x62, 0x63] =
     [0x90, 0x01, 0x50, 0x98, 0x3c, 0xd2, 0x4f, 0xb0,
      0xd6, 0x96, 0x3f, 0x7d, 0x28, 0xe1, 0x7f, 0x72]"
  by code_simp


end
