(* ===== verification/Rtp_Random.thy ===== *)
theory Rtp_Random
  imports Md5
begin

text \<open>
  \<^verbatim>\<open>src/rtp_random.c\<close>: the random numbers that SSRCs, sequence numbers and timestamps start from are
  the digest of what the host says of itself, folded to 32 bits.

  What the system calls leave in the structure that is hashed, padding included, is a parameter
  (\<open>host\<close>), and so is what the stack held before (\<open>junk\<close>): the union of the digest is declared as
  four elements of \<^verbatim>\<open>u_long\<close>, which is as large as the digest only where \<^verbatim>\<open>u_long\<close> has four octets.
\<close>

section \<open>The union of the digest\<close>

text \<open>The octets of \<open>union { char c[16]; u_long x[4]; }\<close> after the digest was stored into it:
  \<open>ul\<close> is the size of \<^verbatim>\<open>u_long\<close>.\<close>

definition digest_union :: "nat \<Rightarrow> u8 list \<Rightarrow> u8 list \<Rightarrow> u8 list" where
  "digest_union ul junk digest = digest @ drop (length digest) (take (4 * ul) junk)"

text \<open>The 32 low bits of \<open>digest.x[i]\<close>, on a little-endian machine. The exclusive or into a
  \<open>uint32_t\<close> drops the others.\<close>

definition digest_x :: "nat \<Rightarrow> u8 list \<Rightarrow> nat \<Rightarrow> u32 res" where
  "digest_x ul u i =
     bindE (rd8 u (ul * i)) (\<lambda>a. bindE (rd8 u (ul * i + 1)) (\<lambda>b.
     bindE (rd8 u (ul * i + 2)) (\<lambda>c. bindE (rd8 u (ul * i + 3)) (\<lambda>d. Inr (le32 a b c d)))))"

section \<open>\<open>md_32\<close> and \<open>rtp_random32\<close>\<close>

text \<open>\<open>stack\<close> is the context before its initialisation: uninitialised memory.\<close>

definition md_32 :: "nat \<Rightarrow> md5_ctx \<Rightarrow> u8 list \<Rightarrow> u8 list \<Rightarrow> u32 \<Rightarrow> u32 res" where
  "md_32 ul stack junk str len =
     bindE (MD5Update (MD5Init stack) str len) (\<lambda>context.
     bindE (MD5Final context) (\<lambda>(digest, _).
     let u = digest_union ul junk digest
     in bindE (digest_x ul u 0) (\<lambda>x0.
        bindE (digest_x ul u 1) (\<lambda>x1.
        bindE (digest_x ul u 2) (\<lambda>x2.
        Inr (((0 XOR x0) XOR x1) XOR x2))))))"

definition rtp_random32 :: "nat \<Rightarrow> md5_ctx \<Rightarrow> u8 list \<Rightarrow> (int \<Rightarrow> u8 list) \<Rightarrow> int \<Rightarrow> u32 res" where
  "rtp_random32 ul stack junk host type =
     (let s = host type in md_32 ul stack junk s (of_nat (length s)))"

section \<open>What is returned\<close>

lemma length_word_bytes_le [simp]: "length (word_bytes_le w) = 4"
  by (simp add: word_bytes_le_def)

lemma le32_word_bytes: "le32 (ucast w) (ucast (drop_bit 8 w)) (ucast (drop_bit 16 w)) (ucast (drop_bit 24 w)) = w"
proof (rule bit_word_eqI)
  fix n :: nat
  assume "n < LENGTH(32)"
  then consider "n < 8" | "8 \<le> n" "n < 16" | "16 \<le> n" "n < 24" | "24 \<le> n" "n < 32"
    by fastforce
  then show "bit (le32 (ucast w) (ucast (drop_bit 8 w)) (ucast (drop_bit 16 w)) (ucast (drop_bit 24 w))) n
      \<longleftrightarrow> bit w n"
    by cases (auto simp: le32_def bit_simps)
qed

lemma digest_x_at:
  assumes "seg u (ul * i) 4 = word_bytes_le w"
  shows "digest_x ul u i = Inr w"
proof -
  have len: "ul * i + 3 < length u"
    using arg_cong [OF assms, of length] by (simp add: seg_def)
  have "u ! (ul * i) = word_bytes_le w ! 0" "u ! (ul * i + 1) = word_bytes_le w ! 1"
    "u ! (ul * i + 2) = word_bytes_le w ! 2" "u ! (ul * i + 3) = word_bytes_le w ! 3"
    using len seg_nth [of _ 4 "ul * i" u] by (simp_all add: assms [symmetric])
  with len show ?thesis
    by (simp add: digest_x_def word_bytes_le_simp le32_word_bytes numeral_2_eq_2 numeral_3_eq_3)
qed

lemma md_32_digest:
  assumes "ctx_ok stack" "length str \<le> 2 ^ 32 - 64"
  shows "md_32 ul stack junk str (of_nat (length str)) =
     (let u = digest_union ul junk (rfc_md5 str)
      in bindE (digest_x ul u 0) (\<lambda>x0. bindE (digest_x ul u 1) (\<lambda>x1. bindE (digest_x ul u 2) (\<lambda>x2.
         Inr (x0 XOR x1 XOR x2)))))"
proof -
  have n: "unat (of_nat (length str) :: u32) = length str"
    using assms(2) by (simp add: unat_of_nat_small)
  obtain c where "MD5Update (MD5Init stack) str (of_nat (length str)) = Inr c" "ctx_after c str"
    using MD5Update_after [OF MD5Init_after [OF assms(1)], of "of_nat (length str)" str] assms(2)
    by (auto simp: n)
  then show ?thesis
    by (simp add: md_32_def MD5Final_after Let_def xor.assoc)
qed

text \<open>The four words of the digest of a message.\<close>

definition digest_words :: "u8 list \<Rightarrow> u32 list" where
  "digest_words str = rfc_hash rfc_iv (rfc_pad str)"

lemma digest_words_bytes:
  "rfc_md5 str = word_bytes_le (digest_words str ! 0) @ word_bytes_le (digest_words str ! 1) @
     word_bytes_le (digest_words str ! 2) @ word_bytes_le (digest_words str ! 3)"
proof -
  have "length (digest_words str) = 4"
    by (simp add: digest_words_def rfc_iv_def)
  then obtain a b c d where "digest_words str = [a, b, c, d]"
    by (auto simp: length_Suc_conv numeral_eq_Suc)
  then show ?thesis
    by (simp add: rfc_md5_def digest_words_def)
qed

lemma seg_append1: "i + n \<le> length a \<Longrightarrow> seg (a @ b) i n = seg a i n"
  by (simp add: seg_def)

lemma seg_append2: "length a \<le> i \<Longrightarrow> seg (a @ b) i n = seg b (i - length a) n"
  by (simp add: seg_def)

lemma seg_all: "length a = n \<Longrightarrow> seg a 0 n = a"
  by (simp add: seg_def)

lemmas seg_digest = digest_union_def digest_words_bytes seg_append1 seg_append2 seg_all

lemma digest_x_narrow:
  "digest_x 4 (digest_union 4 junk (rfc_md5 str)) 0 = Inr (digest_words str ! 0)"
  "digest_x 4 (digest_union 4 junk (rfc_md5 str)) 1 = Inr (digest_words str ! 1)"
  "digest_x 4 (digest_union 4 junk (rfc_md5 str)) 2 = Inr (digest_words str ! 2)"
  by (rule digest_x_at, simp add: seg_digest)+

lemma digest_x_wide:
  "digest_x 8 (digest_union 8 junk (rfc_md5 str)) 0 = Inr (digest_words str ! 0)"
  "digest_x 8 (digest_union 8 junk (rfc_md5 str)) 1 = Inr (digest_words str ! 2)"
  by (rule digest_x_at, simp add: seg_digest)+

lemma digest_x_junk:
  "length junk = 32 \<Longrightarrow> seg junk 16 4 = word_bytes_le w \<Longrightarrow>
   digest_x 8 (digest_union 8 junk (rfc_md5 str)) 2 = Inr w"
  by (rule digest_x_at) (simp add: seg_digest, simp add: seg_def)

text \<open>Where \<^verbatim>\<open>u_long\<close> has four octets, the random number is the exclusive or of the first three
  words of the digest of what the host says of itself. Where it has eight, it is that of the first
  word, the third, and a word of memory that was never written, so that it can be any number.\<close>

lemma random32_of_digest:
  assumes "ctx_ok stack" "length (host type) \<le> 2 ^ 32 - 64"
  shows "rtp_random32 4 stack junk host type =
      Inr (digest_words (host type) ! 0 XOR digest_words (host type) ! 1 XOR digest_words (host type) ! 2) \<and>
    (\<exists>junk'. length junk' = 32 \<and> rtp_random32 8 stack junk' host type = Inr r)"
proof
  let ?h = "digest_words (host type)"
  show "rtp_random32 4 stack junk host type = Inr (?h ! 0 XOR ?h ! 1 XOR ?h ! 2)"
    using assms by (simp add: rtp_random32_def Let_def md_32_digest digest_x_narrow [simplified])
  let ?junk = "replicate 16 0 @ word_bytes_le (?h ! 0 XOR ?h ! 2 XOR r) @ replicate 12 0"
  have "digest_x 8 (digest_union 8 ?junk (rfc_md5 (host type))) 2 = Inr (?h ! 0 XOR ?h ! 2 XOR r)"
    by (rule digest_x_junk) (simp_all add: seg_append1 seg_append2 seg_all)
  then have "rtp_random32 8 stack ?junk host type = Inr (?h ! 0 XOR ?h ! 2 XOR (?h ! 0 XOR ?h ! 2 XOR r))"
    using assms by (simp only: rtp_random32_def Let_def md_32_digest digest_x_wide bindE.simps)
  also have "?h ! 0 XOR ?h ! 2 XOR (?h ! 0 XOR ?h ! 2 XOR r) = r"
    by (rule bit_word_eqI) (auto simp: bit_simps)
  finally show "\<exists>junk'. length junk' = 32 \<and> rtp_random32 8 stack junk' host type = Inr r"
    by (intro exI [of _ ?junk]) simp
qed

theorem random32_of_digest_witness:
  "\<exists>junk'. length junk' = 32 \<and>
     rtp_random32 8 \<lparr>ctx_state = replicate 4 0, ctx_count0 = 0, ctx_count1 = 0,
       ctx_buffer = replicate 64 0\<rparr> junk' (\<lambda>_. [0x61, 0x62, 0x63]) 0 = Inr 0xdeadbeef"
  by (rule conjunct2 [OF random32_of_digest]) (simp_all add: ctx_ok_def)

end
