(* ===== verification/Rtcp_Interval.thy ===== *)
theory Rtcp_Interval
  imports Session
begin

text \<open>
  The RTCP transmission interval of \<^verbatim>\<open>src/rtcp.c\<close>: the interval computation (RFC 3550, A.7), the
  timer that it schedules, and the estimates of members and senders it is computed from, with
  reverse reconsideration when the membership shrinks. The \<open>double\<close> values are real numbers.
  A bandwidth of zero gives the code an infinite interval, or no number at all, and its
  conversion to an integer delay is undefined: the division is the fault \<open>FpRange\<close> here.
\<close>

section \<open>Time\<close>

text \<open>In seconds.\<close>

definition rtcp_current_time :: "rtp_session \<Rightarrow> real" where
  "rtcp_current_time sess =
     real_of_int (uint (soft_timer_get_tick_time (sess_tmr sess))) / 1000"

definition rtcp_interval_cal_delta_in_ms :: "real \<Rightarrow> real \<Rightarrow> u32 res" where
  "rtcp_interval_cal_delta_in_ms tc tn' =
     bindE (real_to_u32 ((tn' - tc) * 1000)) (\<lambda>delta.
     Inr (if sint delta \<le> 0 then 1 else delta))"

section \<open>The timer\<close>

definition rtcp_interval_schedule :: "rtp_session \<Rightarrow> real \<Rightarrow> real \<Rightarrow> rtp_session res" where
  "rtcp_interval_schedule sess tc tn' =
     (let sess = sess\<lparr>rtcp_var := (rtcp_var sess)\<lparr>tn := tn'\<rparr>\<rparr> in
      bindE (rtcp_interval_cal_delta_in_ms tc tn') (\<lambda>delta.
      start_te sess RtcpTimer (sint delta)))"

definition rtcp_interval_stop_timer :: "rtp_session \<Rightarrow> rtp_session" where
  "rtcp_interval_stop_timer sess = stop_te sess RtcpTimer"

definition rtcp_interval_reschedule :: "rtp_session \<Rightarrow> real \<Rightarrow> real \<Rightarrow> rtp_session res" where
  "rtcp_interval_reschedule sess tc tn' =
     (let sess = stop_te (sess\<lparr>rtcp_var := (rtcp_var sess)\<lparr>tn := tn'\<rparr>\<rparr>) RtcpTimer in
      bindE (rtcp_interval_cal_delta_in_ms tc tn') (\<lambda>delta.
      start_te sess RtcpTimer (sint delta)))"

section \<open>The interval\<close>

text \<open>\<open>u\<close> is the value of \<open>drand48()\<close>.\<close>

definition rtcp_interval_calc :: "rtcp_control_var \<Rightarrow> real \<Rightarrow> real res" where
  "rtcp_interval_calc cvar u =
     (let rtcp_min_time = (if initial cvar then 5 / 2 else 5 :: real);
          few_senders = real (unat (senders cvar)) \<le> real (unat (members cvar)) * (1 / 4);
          bw = (if few_senders then rtcp_bw cvar * (if we_sent cvar then 1 / 4 else 1 - 1 / 4)
                else rtcp_bw cvar);
          n = (if few_senders
               then (if we_sent cvar then sint (senders cvar)
                     else sint (members cvar - senders cvar))
               else sint (members cvar))
      in if bw = 0 then Inl FpRange
         else
           let t = avg_rtcp_size cvar * real_of_int n / bw;
               t = (if t < rtcp_min_time then rtcp_min_time else t);
               t = t * (u + 1 / 2);
               t = t / (2.71828 - 1.5)
           in Inr t)"

definition sess_interval_calc :: "rtp_session \<Rightarrow> (rtp_session \<times> real) res" where
  "sess_interval_calc sess =
     (let (sess, u) = draw_drand48 sess in
      bindE (rtcp_interval_calc (rtcp_var sess) u) (\<lambda>t. Inr (sess, t)))"

definition rtcp_interval_control_var_init :: "rtp_session \<Rightarrow> rtp_session" where
  "rtcp_interval_control_var_init sess =
     sess\<lparr>rtcp_var := (rtcp_var sess)
       \<lparr>tp := 0, senders := 0, pmembers := 1, members := 1, we_sent := False, initial := True,
        rtcp_bw := real (unat (session_bw (config sess))),
        avg_rtcp_size := real RTP_CONFIG_AVERAGE_RTCP_SIZE\<rparr>\<rparr>"

section \<open>Members and senders\<close>

definition rtcp_interval_handle_rtp_event :: "rtp_session \<Rightarrow> bool \<Rightarrow> bool \<Rightarrow> rtp_session" where
  "rtcp_interval_handle_rtp_event sess new_member new_sender =
     (let cvar = rtcp_var sess;
          cvar = (if new_member then cvar\<lparr>members := members cvar + 1\<rparr> else cvar);
          cvar = (if new_sender then cvar\<lparr>senders := senders cvar + 1\<rparr> else cvar)
      in sess\<lparr>rtcp_var := cvar\<rparr>)"

text \<open>\<open>RTCP_EVENT_RX_NON_BYE\<close>, \<open>RTCP_EVENT_RX_BYE\<close> and \<open>RTCP_EVENT_TIMEOUT\<close>; the flags
  \<open>RTCP_INTERVAL_FLAGS_SENDER\<close> and \<open>RTCP_INTERVAL_FLAGS_MEMBER\<close> are two truth values.\<close>

datatype rtcp_event = RxNonBye | RxBye | Timeout

definition rtcp_interval_handle_rtcp_event ::
  "rtp_session \<Rightarrow> rtcp_event \<Rightarrow> bool \<Rightarrow> bool \<Rightarrow> u32 \<Rightarrow> rtp_session res" where
  "rtcp_interval_handle_rtcp_event sess event flag_sender flag_member pkt_size =
     (let cvar = rtcp_var sess; tc = rtcp_current_time sess; tn' = tn cvar in
      case event of
        RxNonBye \<Rightarrow>
          let cvar = (if flag_member then cvar\<lparr>members := members cvar + 1\<rparr> else cvar);
              cvar = cvar\<lparr>avg_rtcp_size :=
                1 / 16 * real (unat pkt_size) + 15 / 16 * avg_rtcp_size cvar\<rparr>
          in Inr (sess\<lparr>rtcp_var := cvar\<rparr>)
      | _ \<Rightarrow>
          let cvar = (if flag_sender then cvar\<lparr>senders := senders cvar - 1\<rparr> else cvar);
              cvar = (if flag_member then cvar\<lparr>members := members cvar - 1\<rparr> else cvar)
          in if members cvar < pmembers cvar then
               let q = real (unat (members cvar)) / real (unat (pmembers cvar));
                   tn' = tc + q * (tn' - tc);
                   cvar = cvar\<lparr>tp := tc - q * (tc - tp cvar)\<rparr>
               in bindE (rtcp_interval_reschedule (sess\<lparr>rtcp_var := cvar\<rparr>) tc tn') (\<lambda>sess.
                  Inr (sess\<lparr>rtcp_var := (rtcp_var sess)\<lparr>pmembers := members (rtcp_var sess)\<rparr>\<rparr>))
             else Inr (sess\<lparr>rtcp_var := cvar\<rparr>))"

text \<open>Nothing calls this one: the library does not send BYE packets.\<close>

definition rtcp_interval_tx_bye :: "rtp_session \<Rightarrow> rtp_session" where
  "rtcp_interval_tx_bye sess =
     sess\<lparr>rtcp_var := (rtcp_var sess)\<lparr>members := members (rtcp_var sess) + 1\<rparr>\<rparr>"

definition rtcp_tx_bye :: "rtp_session \<Rightarrow> rtp_session" where
  "rtcp_tx_bye sess = sess"

section \<open>Timeouts of members and senders\<close>

definition rtcp_interval_member_timedout :: "rtp_session \<Rightarrow> nat \<Rightarrow> rtp_session res" where
  "rtcp_interval_member_timedout sess m =
     bindE (if rtp_member_is_rtp_heard (mem sess m)
            then rtcp_interval_handle_rtcp_event sess Timeout True True 0
            else rtcp_interval_handle_rtcp_event sess Timeout False True 0) (\<lambda>sess.
     Inr (rtp_session_dealloc_member sess m))"

definition rtcp_interval_sender_timedout :: "rtp_session \<Rightarrow> nat \<Rightarrow> rtp_session res" where
  "rtcp_interval_sender_timedout sess m =
     (let sess = upd_mem m rtp_member_clear_rtp_heard sess;
          sess = (if self sess = Some m
                  then (upd_mem m rtp_member_clear_sender sess)
                    \<lparr>rtcp_var := (rtcp_var sess)\<lparr>we_sent := False\<rparr>\<rparr>
                  else sess)
      in rtcp_interval_handle_rtcp_event sess Timeout True False 0)"

section \<open>The interval against RFC 3550\<close>

text \<open>The deterministic interval of section 6.3.1 of the RFC.\<close>

definition rfc_deterministic_interval :: "rtcp_control_var \<Rightarrow> real" where
  "rfc_deterministic_interval cvar =
     (let s = real (unat (senders cvar)); m = real (unat (members cvar));
          C = avg_rtcp_size cvar / rtcp_bw cvar;
          Tmin = (if initial cvar then 2.5 else 5)
      in max Tmin
           (if s \<le> m / 4 then (if we_sent cvar then s * (4 * C) else (m - s) * (4 / 3 * C))
            else m * C))"

lemma sint_small: "unat w < 2 ^ 31 \<Longrightarrow> sint w = int (unat w)" for w :: u32
proof -
  assume w: "unat w < 2 ^ 31"
  have u: "uint w = int (unat w)" by simp
  have "int (unat w) < int (2 ^ 31)" using w by (simp only: of_nat_less_iff)
  with u have "0 \<le> uint w" "uint w < 2 ^ 31" by simp_all
  then have "signed_take_bit 31 (uint w) = uint w" by (intro signed_take_bit_int_eq_self)
      (use order_trans [of "- (2 ^ 31)" 0 "uint w"] in simp_all)
  then have "sint w = uint w" by (simp add: sint_uint)
  with u show ?thesis by simp
qed

text \<open>
  C17: the interval is the deterministic interval of the RFC (the minimum of five seconds,
  halved at the start, or the time the bandwidth share of the group needs for one packet of
  each of its members), multiplied by a random factor between 0.5 and 1.5 and divided by
  \<open>e - 3/2\<close>, as the RFC computes it; it is computed for every non-zero bandwidth.
\<close>

theorem interval_calc_rfc:
  assumes "unat (members cvar) < 2 ^ 31" "unat (senders cvar) < 2 ^ 31" "0 < rtcp_bw cvar"
    "0 \<le> u" "u < 1"
  shows "\<exists>t. rtcp_interval_calc cvar u = Inr t \<and>
     t = rfc_deterministic_interval cvar * (u + 0.5) / (2.71828 - 1.5) \<and>
     rfc_deterministic_interval cvar * 0.5 / 1.21828 \<le> t \<and>
     t < rfc_deterministic_interval cvar * 1.5 / 1.21828 \<and> 1 < t"
proof -
  let ?T = "rfc_deterministic_interval cvar"
  let ?s = "unat (senders cvar)" and ?m = "unat (members cvar)"
  have T: "2.5 \<le> ?T" by (simp add: rfc_deterministic_interval_def Let_def le_max_iff_disj del: of_nat_unat)
  have s: "sint (senders cvar) = int ?s" "sint (members cvar) = int ?m"
    using assms by (simp_all add: sint_small)
  have d: "real_of_int (sint (members cvar - senders cvar)) = real ?m - real ?s"
    if "real ?s \<le> real ?m * (1 / 4)"
  proof -
    have le: "?s \<le> ?m" using that by linarith
    then have "unat (members cvar - senders cvar) = ?m - ?s"
      by (simp add: unat_sub word_le_nat_alt)
    with le assms show ?thesis by (simp add: sint_small)
  qed
  define few where "few \<longleftrightarrow> real ?s \<le> real ?m * (1 / 4)"
  define bw where "bw = (if few then rtcp_bw cvar * (if we_sent cvar then 1 / 4 else 1 - 1 / 4)
      else rtcp_bw cvar)"
  define n where "n = (if few then (if we_sent cvar then real ?s else real ?m - real ?s) else real ?m)"
  define lo where "lo = (if initial cvar then 5 / 2 else 5 :: real)"
  have bw: "bw \<noteq> 0" using assms(3) by (simp add: bw_def)
  have n: "real_of_int (if few then (if we_sent cvar then sint (senders cvar)
      else sint (members cvar - senders cvar)) else sint (members cvar)) = n"
    using d by (simp add: n_def s few_def)
  have "rtcp_interval_calc cvar u =
      Inr (max lo (avg_rtcp_size cvar * n / bw) * (u + 1 / 2) / (2.71828 - 1.5))"
    using bw n unfolding rtcp_interval_calc_def Let_def few_def [symmetric] bw_def [symmetric]
      lo_def [symmetric]
    by (simp add: max_def not_less)
  moreover have "avg_rtcp_size cvar * n / bw =
      (if few then (if we_sent cvar then real ?s * (4 * (avg_rtcp_size cvar / rtcp_bw cvar))
         else (real ?m - real ?s) * (4 / 3 * (avg_rtcp_size cvar / rtcp_bw cvar)))
       else real ?m * (avg_rtcp_size cvar / rtcp_bw cvar))"
    using assms(3) by (simp add: bw_def n_def field_simps del: of_nat_unat)
  ultimately have "rtcp_interval_calc cvar u = Inr (?T * (u + 1 / 2) / (2.71828 - 1.5))"
    by (simp add: rfc_deterministic_interval_def Let_def few_def lo_def max_def del: of_nat_unat)
  moreover have "?T * 0.5 \<le> ?T * (u + 0.5)" "?T * (u + 0.5) < ?T * 1.5"
    using T assms(4,5) by (auto intro!: mult_left_mono)
  then have "?T * 0.5 / 1.21828 \<le> ?T * (u + 0.5) / 1.21828"
    "?T * (u + 0.5) / 1.21828 < ?T * 1.5 / 1.21828" "1 < ?T * (u + 0.5) / 1.21828"
    using T by (simp_all add: divide_right_mono field_simps)
  ultimately show ?thesis by (intro exI [of _ "?T * (u + 0.5) / 1.21828"]) (use assms(5) in simp)
qed


text \<open>The first interval of a session with a bandwidth of 64000 and the middle random value.\<close>

definition first_interval :: rtcp_control_var where
  "first_interval = \<lparr>tp = 0, tn = 0, pmembers = 1, members = 1, senders = 0, rtcp_bw = 64000,
     avg_rtcp_size = 256, we_sent = False, initial = True\<rparr>"

theorem interval_calc_rfc_witness:
  "\<exists>t. rtcp_interval_calc first_interval 0.5 = Inr t \<and> t = 2.5 / 1.21828"
proof -
  have T: "rfc_deterministic_interval first_interval = 2.5"
    by (simp add: rfc_deterministic_interval_def first_interval_def)
  have "unat (members first_interval) < 2 ^ 31" "unat (senders first_interval) < 2 ^ 31"
    "0 < rtcp_bw first_interval" "(0 :: real) \<le> 0.5" "(0.5 :: real) < 1"
    by (simp_all add: first_interval_def)
  from interval_calc_rfc [OF this] obtain t where "rtcp_interval_calc first_interval 0.5 = Inr t"
    "t = rfc_deterministic_interval first_interval * (0.5 + 0.5) / (2.71828 - 1.5)" by blast
  then show ?thesis unfolding T by (intro exI [of _ t]) simp
qed

end
