(* ===== verification/Rtcp_Report.thy ===== *)
theory Rtcp_Report
  imports Rtcp_Interval Rtcp_Encoder
begin

text \<open>
  RTCP reports, \<^verbatim>\<open>src/rtcp.c\<close>: the report blocks of the other members (RFC 3550, A.3), the
  compound packet of a report and a source description, and the timeout of the RTCP interval,
  which decides between sending and rescheduling.
\<close>

section \<open>Report blocks\<close>

text \<open>The numbers of one block: fraction lost, cumulative loss, extended highest sequence
  number. \<open>lost\<close> is an \<open>int32_t\<close> that is masked; \<open>lost_interval\<close> is unsigned, so that its test
  against zero only catches zero.\<close>

definition report_numbers :: "rtp_source \<Rightarrow> rtp_source \<times> u8 \<times> u32 \<times> u32" where
  "report_numbers s =
     (let extended_max = cycles s + ucast (max_seq s);
          expected = extended_max - base_seq s + 1;
          lost = expected - received s;
          lost = (if 0 \<le> sint lost then lost AND 0x7fffff else lost AND 0x800000);
          expected_interval = expected - expected_prior s;
          s = s\<lparr>expected_prior := expected\<rparr>;
          received_interval = received s - received_prior s;
          s = s\<lparr>received_prior := received s\<rparr>;
          lost_interval = expected_interval - received_interval;
          frct = (if expected_interval = 0 \<or> lost_interval = 0 then 0
                  else ucast (push_bit 8 lost_interval div expected_interval))
      in (s, frct, lost, extended_max))"

text \<open>The delay since the last sender report, in units of 1/65536 seconds; zero when none has
  been received.\<close>

definition report_dlsr :: "rtp_session \<Rightarrow> nat \<Rightarrow> (rtp_session \<times> u32) res" where
  "report_dlsr sess m =
     (let t = last_sr_local_time (mem sess m) in
      if second t = 0 \<and> fraction t = 0 then Inr (sess, 0)
      else bindE (sess_ntp_ts_now sess) (\<lambda>(sess, now).
           bindE (ntp_ts_diff_in_sec t now) (\<lambda>d.
           bindE (real_to_u32 (d * 65536)) (\<lambda>dlsr. Inr (sess, dlsr)))))"

text \<open>One turn of the loop over the members; the flag is false when the encoder is full.\<close>

definition report_member ::
  "bool \<Rightarrow> rtp_session \<Rightarrow> rtcp_encoder \<Rightarrow> nat \<Rightarrow> (rtp_session \<times> rtcp_encoder \<times> bool) res" where
  "report_member sr sess enc m =
     (if rtp_member_is_self (mem sess m) \<or> rtp_member_is_bye_received (mem sess m)
      then Inr (sess, enc, True)
      else
        let (s, frct, lost, extended_max) = report_numbers (rtp_src (mem sess m));
            sess = upd_mem m (\<lambda>x. x\<lparr>rtp_src := s\<rparr>) sess
        in bindE (report_dlsr sess m) (\<lambda>(sess, dlsr).
           let x = mem sess m;
               lsr = push_bit 16 (second (last_sr x)) OR drop_bit 16 (fraction (last_sr x))
           in bindE ((if sr then rtcp_encoder_sr_add_rr else rtcp_encoder_rr_add_rr)
                       enc (m_ssrc x) frct lost extended_max (jitter s) lsr dlsr) (\<lambda>(enc, ok).
              Inr (sess, enc, ok))))"

text \<open>The loop follows \<open>get_first\<close> and \<open>get_next\<close>; the fuel is one more than the table has
  slots.\<close>

fun report_members ::
  "nat \<Rightarrow> bool \<Rightarrow> rtp_session \<Rightarrow> rtcp_encoder \<Rightarrow> nat option \<Rightarrow> (rtp_session \<times> rtcp_encoder \<times> bool) res"
  where
  "report_members fuel sr sess enc None = Inr (sess, enc, True)"
| "report_members 0 sr sess enc (Some m) = Inl NoReturn"
| "report_members (Suc fuel) sr sess enc (Some m) =
     bindE (report_member sr sess enc m) (\<lambda>(sess, enc, ok).
     if ok then report_members fuel sr sess enc (rtp_member_table_get_next (member_table sess) (Some m))
     else Inr (sess, enc, False))"

definition rtcp_send_report_gen_rr ::
  "rtp_session \<Rightarrow> rtcp_encoder \<Rightarrow> bool \<Rightarrow> (rtp_session \<times> rtcp_encoder \<times> bool) res" where
  "rtcp_send_report_gen_rr sess enc sr =
     report_members (RTP_CONFIG_MAX_MEMBERS_PER_SESSION + 1) sr sess enc
       (rtp_member_table_get_first (member_table sess))"

section \<open>The report\<close>

text \<open>\<open>REPORT_RET_IF_FALSE\<close>: go on with the encoder, or return 0.\<close>

definition or_return_0 ::
  "(rtcp_encoder \<times> bool) res \<Rightarrow> rtp_session \<Rightarrow> (rtcp_encoder \<Rightarrow> (rtp_session \<times> u32) res) \<Rightarrow>
   (rtp_session \<times> u32) res" where
  "or_return_0 r sess k = bindE r (\<lambda>(enc, ok). if ok then k enc else Inr (sess, 0))"

text \<open>The source description that ends the packet, and its transmission.\<close>

definition send_report_sdes :: "rtp_session \<Rightarrow> rtcp_encoder \<Rightarrow> rtp_member \<Rightarrow> (rtp_session \<times> u32) res" where
  "send_report_sdes sess enc me =
     or_return_0 (rtcp_encoder_sdes_begin enc) sess (\<lambda>enc.
     or_return_0 (rtcp_encoder_sdes_chunk_begin enc (m_ssrc me)) sess (\<lambda>enc.
     or_return_0 (rtcp_encoder_sdes_chunk_add_cname enc (cname me) (cname_len me)) sess (\<lambda>enc.
     or_return_0 (rtcp_encoder_sdes_chunk_end enc) sess (\<lambda>enc.
     bindE (rtcp_encoder_end_packet enc) (\<lambda>enc.
     let pkt_len = rtcp_encoder_msg_len enc in
     Inr (emit (TxRtcp (take (unat pkt_len) (enc_buf enc))) sess, pkt_len))))))"

text \<open>The encoder is a local variable: its buffer starts with whatever the stack holds.\<close>

definition rtcp_send_report :: "rtp_session \<Rightarrow> (rtp_session \<times> u32) res" where
  "rtcp_send_report sess =
     (let (sess, garbage) = draw_stack sess in
      bindE (rtcp_encoder_init \<lparr>enc_buf = garbage, enc_rtcp = 0, enc_buf_len = 0, write_ndx = 0,
               chunk_begin = 0\<rparr> (of_nat RTP_CONFIG_RTCP_ENCODER_BUFFER_LEN)) (\<lambda>enc.
      bindE (sess_ntp_ts_now sess) (\<lambda>(sess, ts).
      let (sess, rtp_ts) = rtp_session_timestamp sess in
      bindE (deref (self sess)) (\<lambda>me.
      let sr = rtp_member_is_sender (mem sess me) in
      or_return_0 (if sr
          then rtcp_encoder_sr_begin enc (m_ssrc (mem sess me)) (second ts) (fraction ts) rtp_ts
                 (tx_pkt_count sess) (tx_octet_count sess)
          else rtcp_encoder_rr_begin enc (m_ssrc (mem sess me))) sess (\<lambda>enc.
      bindE (rtcp_send_report_gen_rr sess enc sr) (\<lambda>(sess, enc, ok).
      if \<not> ok then Inr (sess, 0)
      else bindE (rtcp_encoder_end_packet enc) (\<lambda>enc.
           send_report_sdes sess enc (mem sess me))))))))"

section \<open>The interval timer\<close>

definition rtcp_interval_timeout :: "rtp_session \<Rightarrow> rtp_session res" where
  "rtcp_interval_timeout sess =
     (let tc = rtcp_current_time sess in
      bindE (sess_interval_calc sess) (\<lambda>(sess, t).
      let tn' = tp (rtcp_var sess) + t in
      if tn' \<le> tc then
        bindE (rtcp_send_report sess) (\<lambda>(sess, pkt_size).
        let sess = sess\<lparr>rtcp_var := (rtcp_var sess)
              \<lparr>avg_rtcp_size := 1 / 16 * real (unat pkt_size) + 15 / 16 * avg_rtcp_size (rtcp_var sess),
               tp := tc\<rparr>\<rparr> in
        bindE (sess_interval_calc sess) (\<lambda>(sess, t).
        bindE (rtcp_interval_schedule sess tc (t + tc)) (\<lambda>sess.
        Inr (sess\<lparr>rtcp_var := (rtcp_var sess)\<lparr>initial := False\<rparr>\<rparr>))))
      else rtcp_interval_schedule sess tc tn'))"

end
