(* ===== verification/Rtcp.thy ===== *)
theory Rtcp
  imports Rtcp_Interval Rtcp_Encoder
begin

text \<open>
  Reception of RTCP, \<^verbatim>\<open>src/rtcp.c\<close>: the check of a compound packet, the handling of a source,
  and the handlers of sender reports, receiver reports, source descriptions and BYE.
  Positions in the datagram are in octets for the handlers and in 32-bit words where the code
  steps through the compound packet with \<open>uint32_t\<close> pointers. A read outside of the datagram
  is the fault \<open>OobRead\<close>.
\<close>

section \<open>The common header\<close>

definition rtcp_count :: "u8 list \<Rightarrow> nat \<Rightarrow> nat res" where
  "rtcp_count pkt r = bindE (rd8 pkt r) (\<lambda>b. Inr (unat (take_bit 5 b)))"

definition rtcp_version :: "u8 list \<Rightarrow> nat \<Rightarrow> nat res" where
  "rtcp_version pkt r = bindE (rd8 pkt r) (\<lambda>b. Inr (unat (drop_bit 6 b)))"

text \<open>\<open>ntohs(r->common.length)\<close>, and the field without the conversion, as a little endian
  machine reads it.\<close>

definition rtcp_length :: "u8 list \<Rightarrow> nat \<Rightarrow> nat res" where
  "rtcp_length pkt r = bindE (rd16 pkt (r + 2)) (\<lambda>w. Inr (unat w))"

definition rtcp_length_raw :: "u8 list \<Rightarrow> nat \<Rightarrow> nat res" where
  "rtcp_length_raw pkt r =
     bindE (rd8 pkt (r + 2)) (\<lambda>a. bindE (rd8 pkt (r + 3)) (\<lambda>b. Inr (unat (be16 b a))))"

section \<open>The check of a compound packet\<close>

text \<open>The loop: \<open>r\<close> and \<open>end\<close> count words. It stops behind the last packet, at a packet of
  another version, or beyond the end.\<close>

function rtcp_check_loop :: "u8 list \<Rightarrow> nat \<Rightarrow> nat \<Rightarrow> nat res" where
  "rtcp_check_loop pkt len_4 r =
     bindE (rtcp_length pkt (4 * r)) (\<lambda>l.
     let r' = r + l + 1 in
     if r' < len_4 then
       bindE (rtcp_version pkt (4 * r')) (\<lambda>v.
       if v = 2 then rtcp_check_loop pkt len_4 r' else Inr r')
     else Inr r')"
  by pat_completeness auto
termination by (relation "measure (\<lambda>(pkt, len_4, r). len_4 - r)") auto

declare rtcp_check_loop.simps [simp del]

text \<open>\<open>RTCP_VALID_MASK\<close> and \<open>RTCP_VALID_VALUE\<close> on the first two octets.\<close>

definition rtcp_check_pkt :: "rtp_session \<Rightarrow> u8 list \<Rightarrow> u32 \<Rightarrow> (rtp_session \<times> bool) res" where
  "rtcp_check_pkt sess pkt len =
     (let len_4 = unat len div 4;
          fail = (\<lambda>e. Inr (sess\<lparr>last_rtcp_error := e\<rparr>, False)) in
      if unat len < 4 then fail rtcp_rx_error_header_too_short
      else if unat len mod 4 \<noteq> 0 then fail rtcp_rx_error_len_not_multiple_4
      else bindE (rd8 pkt 0) (\<lambda>b0. bindE (rd8 pkt 1) (\<lambda>b1.
        if b0 AND 0xE0 \<noteq> 0x80 \<or> b1 AND 0xFE \<noteq> RTCP_SR then fail rtcp_rx_error_invalid_mask
        else bindE (rtcp_check_loop pkt len_4 0) (\<lambda>r.
          if r \<noteq> len_4 then fail rtcp_rx_error_invalid_compound_packet
          else Inr (sess\<lparr>last_rtcp_error := rtcp_rx_error_no_error\<rparr>, True)))))"

section \<open>Sources\<close>

definition rtcp_handle_ssrc ::
  "rtp_session \<Rightarrow> u32 \<Rightarrow> sockaddr_in \<Rightarrow> u32 \<Rightarrow> (rtp_session \<times> nat option) res" where
  "rtcp_handle_ssrc sess ssrc from pkt_size =
     (case rtp_member_table_lookup (member_table sess) ssrc of
        None \<Rightarrow>
          bindE (rtp_session_alloc_member sess ssrc) (\<lambda>(sess, r).
          case r of
            None \<Rightarrow> Inr (sess\<lparr>last_rtcp_error := rtcp_rx_error_member_alloc_failed\<rparr>, None)
          | Some m \<Rightarrow>
              let sess = upd_mem m (\<lambda>x. x\<lparr>m_rtcp_addr := from\<rparr>) sess;
                  sess = upd_mem m rtp_member_set_rtcp_heard sess
              in bindE (rtcp_interval_handle_rtcp_event sess RxNonBye False True pkt_size) (\<lambda>sess.
                 bindE (rtp_timers_member_start sess m) (\<lambda>sess.
                 Inr (sess\<lparr>last_rtcp_error := rtcp_rx_error_member_first_heard\<rparr>, Some m))))
      | Some m \<Rightarrow>
          if rtp_member_is_bye_received (mem sess m) then
            Inr (sess\<lparr>last_rtcp_error := rtcp_rx_error_member_bye_in_progress\<rparr>, None)
          else if \<not> rtp_member_is_self (mem sess m) \<and> \<not> rtp_member_is_rtcp_heard (mem sess m) then
            let sess = upd_mem m (\<lambda>x. x\<lparr>m_rtcp_addr := from\<rparr>) sess;
                sess = upd_mem m rtp_member_set_rtcp_heard sess
            in bindE (rtp_timers_member_restart sess m) (\<lambda>sess.
               Inr (sess\<lparr>last_rtcp_error := rtcp_rx_error_member_first_heard\<rparr>, Some m))
          else if m_rtcp_addr (mem sess m) \<noteq> from then
            bindE (deref (self sess)) (\<lambda>me.
            if ssrc \<noteq> m_ssrc (mem sess me) then
              Inr (sess\<lparr>last_rtcp_error := rtcp_rx_error_3rd_party_conflict\<rparr>, None)
            else
              bindE (sess_conflict_lookup sess from) (\<lambda>(sess, found).
              if found then
                Inr (sess\<lparr>last_rtcp_error := rtcp_rx_error_source_in_conflict_list\<rparr>, None)
              else
                bindE (sess_conflict_add sess from) (\<lambda>sess.
                bindE (sess_change_random_ssrc (rtcp_tx_bye sess) m) (\<lambda>sess.
                Inr ((rtp_session_reset_tx_stats sess)
                       \<lparr>last_rtcp_error := rtcp_rx_error_ssrc_conflict\<rparr>, None)))))
          else
            bindE (rtp_timers_member_restart (upd_mem m rtp_member_set_rtcp_heard sess) m) (\<lambda>sess.
            bindE (rtcp_interval_handle_rtcp_event sess RxNonBye False False pkt_size) (\<lambda>sess.
            Inr (sess\<lparr>last_rtcp_error := rtcp_rx_error_no_error\<rparr>, Some m))))"

section \<open>Handlers\<close>

text \<open>The report blocks at \<open>r + base\<close>: a pointer to each is passed on, nothing is read.\<close>

definition rtcp_handle_rr_item :: "rtp_session \<Rightarrow> u32 \<Rightarrow> nat \<Rightarrow> rtp_session" where
  "rtcp_handle_rr_item sess from_ssrc rr = emit (RrRpt from_ssrc rr) sess"

definition handle_rr_items :: "rtp_session \<Rightarrow> u32 \<Rightarrow> nat \<Rightarrow> nat \<Rightarrow> rtp_session" where
  "handle_rr_items sess ssrc first n =
     fold (\<lambda>i sess. rtcp_handle_rr_item sess ssrc (first + 24 * i)) [0..<n] sess"

definition rtcp_handle_sr ::
  "rtp_session \<Rightarrow> u8 list \<Rightarrow> nat \<Rightarrow> sockaddr_in \<Rightarrow> u32 \<Rightarrow> rtp_session res" where
  "rtcp_handle_sr sess pkt r from cpkt_size =
     bindE (rd32 pkt (r + 4)) (\<lambda>ssrc.
     bindE (rtcp_handle_ssrc sess ssrc from cpkt_size) (\<lambda>(sess, m).
     case m of
       None \<Rightarrow> Inr sess
     | Some m \<Rightarrow>
         bindE (rd32 pkt (r + 8)) (\<lambda>ntp_sec.
         bindE (rd32 pkt (r + 12)) (\<lambda>ntp_frac.
         bindE (rd32 pkt (r + 16)) (\<lambda>ts.
         bindE (rd32 pkt (r + 20)) (\<lambda>psent.
         bindE (rd32 pkt (r + 24)) (\<lambda>osent.
         let sess = upd_mem m (\<lambda>x. x\<lparr>last_sr := \<lparr>second = ntp_sec, fraction = ntp_frac\<rparr>,
               m_rtp_ts := ts, m_pkt_count := psent, m_octet_count := osent\<rparr>) sess
         in bindE (sess_ntp_ts_now sess) (\<lambda>(sess, now).
            let sess = upd_mem m (\<lambda>x. x\<lparr>last_sr_local_time := now\<rparr>) sess in
            bindE (rtcp_count pkt r) (\<lambda>count.
            let sess = handle_rr_items sess ssrc (r + 28) count in
            Inr (emit (SrRpt ssrc r) sess))))))))))"

definition rtcp_handle_rr ::
  "rtp_session \<Rightarrow> u8 list \<Rightarrow> nat \<Rightarrow> sockaddr_in \<Rightarrow> u32 \<Rightarrow> rtp_session res" where
  "rtcp_handle_rr sess pkt r from cpkt_size =
     bindE (rd32 pkt (r + 4)) (\<lambda>ssrc.
     bindE (rtcp_handle_ssrc sess ssrc from cpkt_size) (\<lambda>(sess, m).
     case m of
       None \<Rightarrow> Inr sess
     | Some m \<Rightarrow>
         bindE (rtcp_count pkt r) (\<lambda>count.
         Inr (handle_rr_items sess ssrc (r + 8) count))))"

text \<open>The loop over the items of a chunk; the result is the position at which it stopped.\<close>

definition sdes_cname ::
  "rtp_session \<Rightarrow> u8 list \<Rightarrow> nat option \<Rightarrow> nat \<Rightarrow> u8 \<Rightarrow> u8 \<Rightarrow> rtp_session res" where
  "sdes_cname sess pkt m rsp type len =
     (case m of
        None \<Rightarrow> Inr sess
      | Some m \<Rightarrow>
          if type = RTCP_SDES_CNAME then
            bindE (rtp_member_set_cname (mem sess m) (drop (rsp + 2) pkt) len) (\<lambda>x.
            Inr (upd_mem m (\<lambda>_. rtp_member_set_validated x) sess))
          else Inr sess)"

function sdes_items ::
  "rtp_session \<Rightarrow> u8 list \<Rightarrow> nat option \<Rightarrow> nat \<Rightarrow> nat \<Rightarrow> (rtp_session \<times> nat) res" where
  "sdes_items sess pkt m stop rsp =
     bindE (rd8 pkt rsp) (\<lambda>type.
     if type = 0 then Inr (sess, rsp)
     else
       bindE (rd8 pkt (rsp + 1)) (\<lambda>len.
       let rspn = rsp + unat len + 2 in
       if rspn \<ge> stop then Inr (sess, rspn)
       else bindE (sdes_cname sess pkt m rsp type len) (\<lambda>sess.
            sdes_items sess pkt m stop rspn)))"
  by pat_completeness auto
termination by (relation "measure (\<lambda>(sess, pkt, m, stop, rsp). length pkt - rsp)")
  (auto simp: res_iff)

declare sdes_items.simps [simp del]

text \<open>The loop over the chunks: \<open>sd\<close> is the position of the chunk.\<close>

fun sdes_chunks ::
  "nat \<Rightarrow> rtp_session \<Rightarrow> u8 list \<Rightarrow> nat \<Rightarrow> nat \<Rightarrow> sockaddr_in \<Rightarrow> u32 \<Rightarrow> rtp_session res" where
  "sdes_chunks 0 sess pkt stop sd from cpkt_size = Inr sess"
| "sdes_chunks (Suc n) sess pkt stop sd from cpkt_size =
     (let rsp = sd + 4 in
      if rsp \<ge> stop then Inr sess
      else
        bindE (rd32 pkt sd) (\<lambda>src.
        bindE (rtcp_handle_ssrc sess src from cpkt_size) (\<lambda>(sess, m).
        bindE (sdes_items sess pkt m stop rsp) (\<lambda>(sess, rsp).
        sdes_chunks n sess pkt stop (sd + 4 * ((rsp - sd) div 4 + 1)) from cpkt_size))))"

definition rtcp_handle_sdes ::
  "rtp_session \<Rightarrow> u8 list \<Rightarrow> nat \<Rightarrow> sockaddr_in \<Rightarrow> u32 \<Rightarrow> rtp_session res" where
  "rtcp_handle_sdes sess pkt r from cpkt_size =
     bindE (rtcp_count pkt r) (\<lambda>count.
     bindE (rtcp_length_raw pkt r) (\<lambda>l.
     sdes_chunks count sess pkt (r + 4 * (l + 1)) (r + 4) from cpkt_size))"

definition bye_member :: "rtp_session \<Rightarrow> nat \<Rightarrow> u32 \<Rightarrow> rtp_session res" where
  "bye_member sess m pkt_size =
     bindE (if rtp_member_is_rtp_heard (mem sess m)
            then rtcp_interval_handle_rtcp_event sess RxBye True True pkt_size
            else rtcp_interval_handle_rtcp_event sess RxBye False True pkt_size) (\<lambda>sess.
     let sess = upd_mem m rtp_member_set_bye_received sess;
         sess = rtp_timers_sender_stop sess m;
         sess = rtp_timers_member_stop sess m
     in rtp_timers_leave_start sess m)"

fun bye_sources :: "nat \<Rightarrow> nat \<Rightarrow> rtp_session \<Rightarrow> u8 list \<Rightarrow> nat \<Rightarrow> u32 \<Rightarrow> rtp_session res" where
  "bye_sources 0 i sess pkt r pkt_size = Inr sess"
| "bye_sources (Suc n) i sess pkt r pkt_size =
     bindE (rd32 pkt (r + 4 + 4 * i)) (\<lambda>src.
     bindE (case rtp_session_lookup_member sess src of
              None \<Rightarrow> Inr sess
            | Some m \<Rightarrow>
                if rtp_member_is_bye_received (mem sess m) then Inr sess
                else bye_member sess m pkt_size) (\<lambda>sess.
     bye_sources n (i + 1) sess pkt r pkt_size))"

definition rtcp_handle_bye :: "rtp_session \<Rightarrow> u8 list \<Rightarrow> nat \<Rightarrow> u32 \<Rightarrow> rtp_session res" where
  "rtcp_handle_bye sess pkt r pkt_size =
     bindE (rtcp_count pkt r) (\<lambda>count. bye_sources count 0 sess pkt r pkt_size)"

section \<open>Reception\<close>

definition rtcp_handle_packet ::
  "rtp_session \<Rightarrow> u8 list \<Rightarrow> nat \<Rightarrow> sockaddr_in \<Rightarrow> u32 \<Rightarrow> rtp_session res" where
  "rtcp_handle_packet sess pkt r from len =
     bindE (rd8 pkt (r + 1)) (\<lambda>pt.
     if pt = RTCP_SR then rtcp_handle_sr sess pkt r from len
     else if pt = RTCP_RR then rtcp_handle_rr sess pkt r from len
     else if pt = RTCP_SDES then rtcp_handle_sdes sess pkt r from len
     else if pt = RTCP_BYE then rtcp_handle_bye sess pkt r len
     else Inr sess)"

function rtcp_rx_loop ::
  "rtp_session \<Rightarrow> u8 list \<Rightarrow> nat \<Rightarrow> nat \<Rightarrow> sockaddr_in \<Rightarrow> u32 \<Rightarrow> rtp_session res" where
  "rtcp_rx_loop sess pkt len_4 r from len =
     (if r < len_4 then
        bindE (rtcp_handle_packet sess pkt (4 * r) from len) (\<lambda>sess.
        bindE (rtcp_length pkt (4 * r)) (\<lambda>l.
        rtcp_rx_loop sess pkt len_4 (r + (l + 1)) from len))
      else Inr sess)"
  by pat_completeness auto
termination by (relation "measure (\<lambda>(sess, pkt, len_4, r, from, len). len_4 - r)") auto

declare rtcp_rx_loop.simps [simp del]

definition rtcp_rx :: "rtp_session \<Rightarrow> u8 list \<Rightarrow> u32 \<Rightarrow> sockaddr_in \<Rightarrow> rtp_session res" where
  "rtcp_rx sess pkt len from =
     bindE (rtcp_check_pkt sess pkt len) (\<lambda>(sess, ok).
     if \<not> ok then Inr (sess\<lparr>invalid_rtcp_pkt := invalid_rtcp_pkt sess + 1\<rparr>)
     else rtcp_rx_loop sess pkt (unat len div 4) 0 from len)"

end
