(* ===== verification/Rtp.thy ===== *)
theory Rtp
  imports Rtcp_Interval Rtp_Header Rtp_Seq
begin

text \<open>
  RTP, \<^verbatim>\<open>src/rtp.c\<close>: the handling of the sources of a packet, reception and transmission.
\<close>

section \<open>Sources\<close>

definition rtp_handle_ssrc ::
  "rtp_session \<Rightarrow> u32 \<Rightarrow> u16 \<Rightarrow> sockaddr_in \<Rightarrow> bool \<Rightarrow> (rtp_session \<times> nat option) res" where
  "rtp_handle_ssrc sess ssrc seq from csrc =
     (case rtp_session_lookup_member sess ssrc of
        None \<Rightarrow>
          bindE (rtp_session_alloc_member sess ssrc) (\<lambda>(sess, r).
          case r of
            None \<Rightarrow> Inr (sess\<lparr>last_rtp_error := rtp_rx_error_member_alloc_failed\<rparr>, None)
          | Some m \<Rightarrow>
              let sess = upd_mem m (\<lambda>x. x\<lparr>rtp_src := rtp_init_seq (rtp_src x) seq True\<rparr>) sess;
                  sess = upd_mem m (\<lambda>x. x\<lparr>m_rtp_addr := from\<rparr>) sess;
                  sess = upd_mem m rtp_member_set_rtp_heard sess;
                  sess = rtcp_interval_handle_rtp_event sess True True
              in bindE (rtp_timers_sender_start sess m) (\<lambda>sess.
                 bindE (rtp_timers_member_start sess m) (\<lambda>sess.
                 let sess = sess\<lparr>last_rtp_error := rtp_rx_error_member_first_heard\<rparr> in
                 if csrc then
                   Inr (upd_mem m rtp_member_set_csrc (upd_mem m rtp_member_set_validated sess), Some m)
                 else Inr (sess, None))))
      | Some m \<Rightarrow>
          if rtp_member_is_bye_received (mem sess m) then
            Inr (sess\<lparr>last_rtp_error := rtp_rx_error_member_bye_in_progress\<rparr>, None)
          else if \<not> rtp_member_is_self (mem sess m) \<and> \<not> rtp_member_is_rtp_heard (mem sess m) then
            let sess = upd_mem m (\<lambda>x. x\<lparr>rtp_src := rtp_init_seq (rtp_src x) seq True\<rparr>) sess;
                sess = upd_mem m (\<lambda>x. x\<lparr>m_rtp_addr := from\<rparr>) sess;
                sess = upd_mem m rtp_member_set_rtp_heard sess;
                sess = rtcp_interval_handle_rtp_event sess False True
            in bindE (rtp_timers_sender_start sess m) (\<lambda>sess.
               bindE (rtp_timers_member_restart sess m) (\<lambda>sess.
               Inr (sess\<lparr>last_rtp_error := rtp_rx_error_member_first_heard\<rparr>, None)))
          else if m_rtp_addr (mem sess m) \<noteq> from then
            if \<not> rtp_member_is_self (mem sess m) then
              Inr (sess\<lparr>last_rtp_error := rtp_rx_error_3rd_party_conflict\<rparr>, None)
            else
              bindE (sess_conflict_lookup sess from) (\<lambda>(sess, found).
              if found then
                Inr (sess\<lparr>last_rtp_error := rtp_rx_error_source_in_conflict_list\<rparr>, None)
              else
                bindE (sess_conflict_add sess from) (\<lambda>sess.
                bindE (sess_change_random_ssrc (rtcp_tx_bye sess) m) (\<lambda>sess.
                Inr ((rtp_session_reset_tx_stats sess)
                       \<lparr>last_rtp_error := rtp_rx_error_ssrc_conflict\<rparr>, None))))
          else
            bindE (rtp_timers_sender_restart (upd_mem m rtp_member_set_rtp_heard sess) m) (\<lambda>sess.
            bindE (rtp_timers_member_restart sess m) (\<lambda>sess.
            Inr (sess, Some m))))"

section \<open>Reception\<close>

text \<open>The jitter of the source of member \<open>m\<close>.\<close>

definition sess_compute_jitter :: "rtp_session \<Rightarrow> nat \<Rightarrow> u32 \<Rightarrow> u32 \<Rightarrow> rtp_session res" where
  "sess_compute_jitter sess m rtp_ts arrival =
     bindE (rtcp_compute_jitter (rtp_src (mem sess m)) rtp_ts arrival) (\<lambda>s.
     Inr (upd_mem m (\<lambda>x. x\<lparr>rtp_src := s\<rparr>) sess))"

text \<open>The loop over the CSRC list, from the \<open>i\<close>-th of \<open>i + n\<close> on; the result is the list of the
  CSRCs read.\<close>

fun rtp_rx_csrcs ::
  "nat \<Rightarrow> nat \<Rightarrow> rtp_session \<Rightarrow> u8 list \<Rightarrow> u16 \<Rightarrow> u32 \<Rightarrow> u32 \<Rightarrow> sockaddr_in \<Rightarrow> u32 list \<Rightarrow>
   (rtp_session \<times> u32 list) res" where
  "rtp_rx_csrcs 0 i sess pkt seq ts arrival from acc = Inr (sess, acc)"
| "rtp_rx_csrcs (Suc n) i sess pkt seq ts arrival from acc =
     bindE (rd32 pkt (12 + 4 * i)) (\<lambda>c.
     bindE (rtp_handle_ssrc sess c seq from True) (\<lambda>(sess, m).
     bindE (case m of None \<Rightarrow> Inr sess | Some m \<Rightarrow> sess_compute_jitter sess m ts arrival) (\<lambda>sess.
     rtp_rx_csrcs n (i + 1) sess pkt seq ts arrival from (acc @ [c]))))"

text \<open>The end of \<open>rtp_rx\<close>, for a packet in sequence: jitter, validation, CSRCs, report.\<close>

definition rtp_rx_deliver ::
  "rtp_session \<Rightarrow> u8 list \<Rightarrow> nat \<Rightarrow> nat \<Rightarrow> u32 \<Rightarrow> u16 \<Rightarrow> u32 \<Rightarrow> u32 \<Rightarrow> sockaddr_in \<Rightarrow> rtp_session res"
  where
  "rtp_rx_deliver sess pkt m payload payload_len seq ts arrival from =
     bindE (sess_compute_jitter sess m ts arrival) (\<lambda>sess.
     let sess = upd_mem m rtp_member_set_validated sess in
     bindE (rd8 pkt 0) (\<lambda>b0.
     bindE (rtp_rx_csrcs (hdr_cc b0) 0 sess pkt seq ts arrival from []) (\<lambda>(sess, csrcs).
     let sess = sess\<lparr>last_rtp_error := rtp_rx_error_no_error\<rparr>;
         rpt = \<lparr>rpt_payload = seg pkt payload (unat payload_len),
                rpt_payload_len = payload_len, rpt_rtp_ts = ts, rpt_seq = seq,
                rpt_csrc = csrcs, rpt_ncsrc = of_nat (hdr_cc b0)\<rparr>
     in Inr (emit (RxRtp rpt) sess))))"

definition rtp_rx :: "rtp_session \<Rightarrow> u8 list \<Rightarrow> u32 \<Rightarrow> sockaddr_in \<Rightarrow> rtp_session res" where
  "rtp_rx sess pkt len from =
     (let (sess, arrival) = rtp_session_timestamp sess in
      bindE (rtp_header_validity_check sess pkt len (c_pt (config sess))) (\<lambda>(sess, r).
      case r of
        None \<Rightarrow> Inr (sess\<lparr>invalid_rtp_pkt := invalid_rtp_pkt sess + 1\<rparr>)
      | Some (payload, payload_len) \<Rightarrow>
          bindE (rd32 pkt 8) (\<lambda>ssrc.
          bindE (rd16 pkt 2) (\<lambda>seq.
          bindE (rd32 pkt 4) (\<lambda>ts.
          bindE (rtp_handle_ssrc sess ssrc seq from False) (\<lambda>(sess, m).
          case m of
            None \<Rightarrow> Inr sess
          | Some m \<Rightarrow>
              let (s, ok) = rtp_update_seq (rtp_src (mem sess m)) seq;
                  sess = upd_mem m (\<lambda>x. x\<lparr>rtp_src := s\<rparr>) sess
              in if \<not> ok then Inr (sess\<lparr>last_rtp_error := rtp_rx_error_seq_error\<rparr>)
                 else rtp_rx_deliver sess pkt m payload payload_len seq ts arrival from))))))"

section \<open>Transmission\<close>

definition put_pkt :: "rtp_session \<Rightarrow> nat \<Rightarrow> u8 list \<Rightarrow> rtp_session res" where
  "put_pkt sess i bs = bindE (wr (rtp_pkt sess) i bs) (\<lambda>b. Inr (sess\<lparr>rtp_pkt := b\<rparr>))"

fun put_pkt_words :: "rtp_session \<Rightarrow> nat \<Rightarrow> u32 list \<Rightarrow> rtp_session res" where
  "put_pkt_words sess i [] = Inr sess"
| "put_pkt_words sess i (w # ws) =
     bindE (put_pkt sess i (bytes32 w)) (\<lambda>sess. put_pkt_words sess (i + 4) ws)"

text \<open>The fixed header: the bit-fields are two octets.\<close>

definition put_rtp_header :: "rtp_session \<Rightarrow> nat \<Rightarrow> u32 \<Rightarrow> u32 \<Rightarrow> rtp_session res" where
  "put_rtp_header sess ncsrc rtp_ts ssrc =
     bindE (put_pkt sess 0 [rtp_first_byte False ncsrc, take_bit 7 (c_pt (config sess))]) (\<lambda>sess.
     bindE (put_pkt sess 2 (bytes16 (sess_seq sess))) (\<lambda>sess.
     bindE (put_pkt sess 4 (bytes32 rtp_ts)) (\<lambda>sess.
     put_pkt sess 8 (bytes32 ssrc))))"

text \<open>The padding to a multiple of four octets; \<open>None\<close> when there is no room for it.\<close>

definition rtp_tx_align :: "rtp_session \<Rightarrow> nat \<Rightarrow> (rtp_session \<times> nat option) res" where
  "rtp_tx_align sess pkt_size =
     (if align_by_4 (config sess) = 1 \<and> pkt_size mod 4 \<noteq> 0 then
        let pad = 4 - pkt_size mod 4 in
        if pkt_size + 4 > RTP_CONFIG_MAX_RTP_PKT_SIZE then Inr (sess, None)
        else bindE (put_pkt sess pkt_size (pad_bytes pad)) (\<lambda>sess.
             bindE (rd8 (rtp_pkt sess) 0) (\<lambda>b0.
             bindE (put_pkt sess 0 [b0 OR 0x20]) (\<lambda>sess.
             Inr (sess, Some (pkt_size + pad)))))
      else Inr (sess, Some pkt_size))"

definition rtp_tx ::
  "rtp_session \<Rightarrow> u8 list \<Rightarrow> u32 \<Rightarrow> u32 \<Rightarrow> u32 list \<Rightarrow> u8 \<Rightarrow> rtp_session res" where
  "rtp_tx sess payload payload_len rtp_ts csrc ncsrc =
     bindE (deref (self sess)) (\<lambda>me.
     let sess = (if \<not> we_sent (rtcp_var sess)
                 then rtcp_interval_handle_rtp_event
                   (upd_mem me rtp_member_set_sender
                      (sess\<lparr>rtcp_var := (rtcp_var sess)\<lparr>we_sent := True\<rparr>\<rparr>)) False True
                 else sess)
     in bindE (rtp_timers_sender_restart sess me) (\<lambda>sess.
        let sess = sess\<lparr>tx_pkt_count := tx_pkt_count sess + 1,
                        tx_octet_count := tx_octet_count sess + payload_len\<rparr>;
            n = unat ncsrc; plen = unat payload_len
        in if RTP_PKT_SIZE n plen > RTP_CONFIG_MAX_RTP_PKT_SIZE then Inr sess
        else if length payload < plen then Inl OobRead
        else
          bindE (put_pkt sess (RTP_HDR_SIZE n) (take plen payload)) (\<lambda>sess.
          bindE (put_rtp_header sess n rtp_ts (m_ssrc (mem sess me))) (\<lambda>sess.
          if length csrc < n then Inl OobRead else
          bindE (put_pkt_words sess 12 (take n csrc)) (\<lambda>sess.
          bindE (rtp_tx_align sess (RTP_PKT_SIZE n plen)) (\<lambda>(sess, r).
          case r of
            None \<Rightarrow> Inr sess
          | Some pkt_size \<Rightarrow>
              let sess = emit (TxRtp (take pkt_size (rtp_pkt sess))) sess
              in Inr (sess\<lparr>sess_seq := sess_seq sess + 1\<rparr>)))))))"

end
