(* ===== verification/Session_Inv.thy ===== *)
theory Session_Inv
  imports Rtcp_Interval
begin

text \<open>
  The invariant of a session, and how the steps that its handlers are made of keep it.
  A handler passes through states in which the member estimate is one off, or in which the
  timers of one member do not yet fit its flags; the invariant is stated with that slack, and
  a session between two calls has none.
\<close>

section \<open>The invariant\<close>

definition bye_of :: "rtp_session \<Rightarrow> nat \<Rightarrow> bool" where
  "bye_of sess m \<longleftrightarrow> rtp_member_is_bye_received (mem sess m)"

text \<open>The members that have not said BYE.\<close>

definition active :: "rtp_session \<Rightarrow> nat list" where
  "active sess = filter (\<lambda>m. \<not> bye_of sess m) (used sess)"

abbreviation te_running :: "rtp_session \<Rightarrow> timer_id \<Rightarrow> bool" where
  "te_running sess \<equiv> is_soft_timer_running (sess_tmr sess)"

text \<open>The values that the outside may deliver: random numbers of \<open>[0, 1)\<close>, microseconds of one
  second, stack buffers of the encoder's size.\<close>

definition world_ok :: "world \<Rightarrow> bool" where
  "world_ok w \<longleftrightarrow>
     (\<forall>n. 0 \<le> w_drand48 w n \<and> w_drand48 w n < 1) \<and>
     (\<forall>n. 0 \<le> tv_usec (w_gettimeofday w n) \<and> tv_usec (w_gettimeofday w n) < 1000000) \<and>
     (\<forall>n. length (w_stack w n) = RTP_CONFIG_RTCP_ENCODER_BUFFER_LEN)"

text \<open>Sizes of the arrays, and the pointer to the session's own member.\<close>

definition sess_shape :: "rtp_session \<Rightarrow> bool" where
  "sess_shape sess \<longleftrightarrow>
     length (rtp_pkt sess) = RTP_CONFIG_AVERAGE_RTCP_SIZE \<and>
     (\<forall>x \<in> set (member_array (member_table sess)). length (cname x) = RTP_CONFIG_SDES_CNAME_MAX + 1) \<and>
     (\<exists>m. self sess = Some m \<and> m < RTP_CONFIG_MAX_MEMBERS_PER_SESSION) \<and>
     world_ok (env sess)"

text \<open>\<open>d\<close> is the number of members the estimate is short of, \<open>X\<close> the members whose timers are
  in between.\<close>

definition sess_inv_at :: "u32 \<Rightarrow> nat set \<Rightarrow> rtp_session \<Rightarrow> bool" where
  "sess_inv_at d X sess \<longleftrightarrow>
     timer_wf (sess_tmr sess) \<and>
     mt_wf (member_table sess) \<and>
     conflict_wf (sess_tmr sess) (src_conflict sess) \<and>
     sess_shape sess \<and>
     (\<forall>m. m \<notin> X \<longrightarrow> te_running sess (MemberTe m) \<longrightarrow> m \<in> set (active sess)) \<and>
     (\<forall>m. m \<notin> X \<longrightarrow> (te_running sess (LeaveTe m) \<longleftrightarrow> m \<in> set (used sess) \<and> bye_of sess m)) \<and>
     members (rtcp_var sess) + d = of_nat (length (active sess))"

definition sess_inv :: "rtp_session \<Rightarrow> bool" where
  "sess_inv sess \<longleftrightarrow> sess_inv_at 0 {} sess"

section \<open>Steps that leave the membership alone\<close>

text \<open>\<open>calm \<delta> s s'\<close>: from \<open>s\<close> to \<open>s'\<close> the member estimate has grown by \<open>\<delta>\<close>, and of what the
  invariant speaks about nothing else has changed, except that membership timers may have
  been stopped, or started for active members.\<close>

definition calm :: "u32 \<Rightarrow> rtp_session \<Rightarrow> rtp_session \<Rightarrow> bool" where
  "calm \<delta> s s' \<longleftrightarrow>
     timer_wf (sess_tmr s') \<and>
     length (timeout_list (sess_tmr s')) \<le> length (timeout_list (sess_tmr s)) \<and>
     (\<forall>m. te_running s' (MemberTe m) \<longrightarrow> te_running s (MemberTe m) \<or> m \<in> set (active s)) \<and>
     (\<forall>m. te_running s' (LeaveTe m) \<longleftrightarrow> te_running s (LeaveTe m)) \<and>
     (\<forall>c. te_running s' (ConflictTe c) \<longleftrightarrow> te_running s (ConflictTe c)) \<and>
     src_conflict s' = src_conflict s \<and>
     used s' = used s \<and> free_list (member_table s') = free_list (member_table s) \<and>
     num_members (member_table s') = num_members (member_table s) \<and>
     length (member_array (member_table s')) = length (member_array (member_table s)) \<and>
     (\<forall>m. bye_of s' m = bye_of s m \<and> m_ssrc (mem s' m) = m_ssrc (mem s m)) \<and>
     (sess_shape s \<longrightarrow> sess_shape s') \<and>
     members (rtcp_var s') = members (rtcp_var s) + \<delta>"

lemma calm_refl: "timer_wf (sess_tmr s) \<Longrightarrow> calm 0 s s"
  by (simp add: calm_def)

lemma active_cong: "used s' = used s \<Longrightarrow> (\<And>m. bye_of s' m = bye_of s m) \<Longrightarrow> active s' = active s"
  by (simp add: active_def)

lemma calm_active: "calm \<delta> s s' \<Longrightarrow> active s' = active s"
  by (rule active_cong) (simp_all add: calm_def)

lemma calm_trans: "calm \<delta> s t \<Longrightarrow> calm \<epsilon> t u \<Longrightarrow> calm (\<delta> + \<epsilon>) s u"
  using calm_active [of \<delta> s t] by (auto simp: calm_def add.assoc)

lemma calm_trans0: "calm 0 s t \<Longrightarrow> calm \<epsilon> t u \<Longrightarrow> calm \<epsilon> s u"
  using calm_trans [of 0 s t \<epsilon> u] by simp

lemma calm_wf: "calm \<delta> s s' \<Longrightarrow> timer_wf (sess_tmr s')"
  by (simp add: calm_def)

lemma calm_used: "calm \<delta> s s' \<Longrightarrow> used s' = used s"
  by (simp add: calm_def)

lemma calm_mt_wf: "calm \<delta> s s' \<Longrightarrow> mt_wf (member_table s) \<Longrightarrow> mt_wf (member_table s')"
  by (auto simp: calm_def mt_wf_def mt_slots_def ssrcs_def mem_def)

lemma calm_inv:
  assumes "sess_inv_at d X s" "calm \<delta> s s'"
  shows "sess_inv_at (d - \<delta>) X s'"
proof -
  have "mt_wf (member_table s')" using assms calm_mt_wf by (auto simp: sess_inv_at_def)
  moreover have "conflict_wf (sess_tmr s') (src_conflict s')"
    using assms conflict_wf_cong [of "sess_tmr s" "src_conflict s" "sess_tmr s'"]
    by (auto simp: sess_inv_at_def calm_def)
  ultimately show ?thesis
    using assms calm_active [OF assms(2)]
    by (auto simp: sess_inv_at_def calm_def algebra_simps)
qed

lemma calm_inv0: "sess_inv_at d X s \<Longrightarrow> calm 0 s s' \<Longrightarrow> sess_inv_at d X s'"
  using calm_inv [of d X s 0 s'] by simp

section \<open>Primitive steps\<close>

text \<open>The elements whose timers the invariant does not speak about.\<close>

definition free_te :: "timer_id \<Rightarrow> bool" where
  "free_te e \<longleftrightarrow> (case e of RtcpTimer \<Rightarrow> True | SenderTe _ \<Rightarrow> True | _ \<Rightarrow> False)"

lemma free_te_simps [simp]: "free_te RtcpTimer" "free_te (SenderTe m)"
  by (simp_all add: free_te_def)

lemma start_te_total: "timer_wf (sess_tmr s) \<Longrightarrow> start_te s e ms \<noteq> Inl f"
  using soft_timer_add_total [of "sess_tmr s" e ms] by (auto simp: start_te_def)

lemma calm_start:
  assumes "timer_wf (sess_tmr s)" "start_te s e ms = Inr s'"
    and "free_te e \<or> (\<exists>m. e = MemberTe m \<and> m \<in> set (active s))"
  shows "calm 0 s s'"
proof -
  obtain t where t: "soft_timer_add (sess_tmr s) e ms = Inr t" "s' = s\<lparr>sess_tmr := t\<rparr>"
    using assms(2) by (auto simp: start_te_def res_iff)
  have "bye_of s' = bye_of s" "mem s' = mem s" "sess_shape s' = sess_shape s"
    by (auto simp: t(2) bye_of_def mem_def sess_shape_def fun_eq_iff)
  then show ?thesis
    using assms(3) soft_timer_add_wf [OF assms(1) t(1)] soft_timer_add_frame [OF t(1)]
      soft_timer_add_running [OF assms(1) t(1)]
    by (auto simp: calm_def t(2) free_te_def)
qed

lemma calm_stop:
  assumes "timer_wf (sess_tmr s)" "free_te e \<or> (\<exists>m. e = MemberTe m)"
  shows "calm 0 s (stop_te s e)"
proof -
  have "bye_of (stop_te s e) = bye_of s" "mem (stop_te s e) = mem s"
    "sess_shape (stop_te s e) = sess_shape s"
    by (auto simp: stop_te_def bye_of_def mem_def sess_shape_def fun_eq_iff)
  then show ?thesis
    using assms soft_timer_del_wf [OF assms(1), of e] soft_timer_del_shrinks [of "sess_tmr s" e]
    by (auto simp: calm_def stop_te_def free_te_def soft_timer_del_running [OF assms(1)])
qed

lemma mem_upd_mem:
  "mem (upd_mem m f s) i =
     (if i = m \<and> m < length (member_array (member_table s)) then f (mem s m) else mem s i)"
  by (cases "m < length (member_array (member_table s))")
    (auto simp: mem_def upd_mem_def nth_list_update list_update_beyond)

lemma upd_mem_frame [simp]:
  "sess_tmr (upd_mem m f s) = sess_tmr s" "used (upd_mem m f s) = used s"
  "free_list (member_table (upd_mem m f s)) = free_list (member_table s)"
  "num_members (member_table (upd_mem m f s)) = num_members (member_table s)"
  "length (member_array (member_table (upd_mem m f s))) = length (member_array (member_table s))"
  "src_conflict (upd_mem m f s) = src_conflict s" "rtcp_var (upd_mem m f s) = rtcp_var s"
  "self (upd_mem m f s) = self s" "env (upd_mem m f s) = env s" "rtp_pkt (upd_mem m f s) = rtp_pkt s"
  "config (upd_mem m f s) = config s" "sess_seq (upd_mem m f s) = sess_seq s"
  by (simp_all add: upd_mem_def)

lemma shape_upd_mem:
  "(\<And>x. length (cname (f x)) = length (cname x)) \<Longrightarrow> sess_shape s \<Longrightarrow> sess_shape (upd_mem m f s)"
proof -
  assume f: "\<And>x. length (cname (f x)) = length (cname x)" and s: "sess_shape s"
  show ?thesis
  proof (cases "m < length (member_array (member_table s))")
    case True
    then have "length (cname (f (mem s m))) = RTP_CONFIG_SDES_CNAME_MAX + 1"
      using s by (auto simp: f sess_shape_def mem_def)
    with s show ?thesis
      using set_update_subset_insert [of "member_array (member_table s)" m "f (mem s m)"]
      by (auto simp: sess_shape_def) (auto simp: upd_mem_def)
  next
    case False
    then have "upd_mem m f s = s" by (simp add: upd_mem_def list_update_beyond)
    with s show ?thesis by simp
  qed
qed

lemma calm_upd_mem:
  assumes "timer_wf (sess_tmr s)"
    and "\<And>x. has_flag RTP_FLAG_BYE_RECEIVED (f x) = has_flag RTP_FLAG_BYE_RECEIVED x"
    and "\<And>x. m_ssrc (f x) = m_ssrc x" "\<And>x. length (cname (f x)) = length (cname x)"
  shows "calm 0 s (upd_mem m f s)"
  using assms shape_upd_mem [of f s m]
  by (auto simp: calm_def bye_of_def mem_upd_mem rtp_member_is_bye_received_def)

lemma cname_flag_frame [simp]:
  "cname (set_flag k x) = cname x" "cname (clear_flag k x) = cname x"
  by (simp_all add: set_flag_def clear_flag_def)

text \<open>The updates of a member that the handlers make.\<close>

lemma calm_flag:
  assumes "timer_wf (sess_tmr s)"
  shows "calm 0 s (upd_mem m rtp_member_set_rtp_heard s)"
    "calm 0 s (upd_mem m rtp_member_clear_rtp_heard s)"
    "calm 0 s (upd_mem m rtp_member_set_rtcp_heard s)"
    "calm 0 s (upd_mem m rtp_member_set_validated s)"
    "calm 0 s (upd_mem m rtp_member_set_csrc s)"
    "calm 0 s (upd_mem m rtp_member_set_sender s)"
    "calm 0 s (upd_mem m rtp_member_clear_sender s)"
  by (rule calm_upd_mem [OF assms]; simp add: flag_simps)+

lemma calm_fields:
  assumes "timer_wf (sess_tmr s)"
  shows "calm 0 s (upd_mem m (\<lambda>x. x\<lparr>rtp_src := g x\<rparr>) s)"
    "calm 0 s (upd_mem m (\<lambda>x. x\<lparr>m_rtp_addr := a\<rparr>) s)"
    "calm 0 s (upd_mem m (\<lambda>x. x\<lparr>m_rtcp_addr := a\<rparr>) s)"
    "calm 0 s (upd_mem m (\<lambda>x. x\<lparr>last_sr := n, m_rtp_ts := t, m_pkt_count := p, m_octet_count := q\<rparr>) s)"
    "calm 0 s (upd_mem m (\<lambda>x. x\<lparr>last_sr_local_time := n\<rparr>) s)"
  by (rule calm_upd_mem [OF assms]; simp add: has_flag_def)+

text \<open>Changing a component that the invariant does not read.\<close>

lemma calm_var:
  assumes "timer_wf (sess_tmr s)"
  shows "calm 0 s (s\<lparr>last_rtp_error := a\<rparr>)" "calm 0 s (s\<lparr>last_rtcp_error := b\<rparr>)"
    "calm 0 s (s\<lparr>invalid_rtp_pkt := n\<rparr>)" "calm 0 s (s\<lparr>invalid_rtcp_pkt := n\<rparr>)"
    "calm 0 s (s\<lparr>tx_pkt_count := n, tx_octet_count := k\<rparr>)" "calm 0 s (s\<lparr>sess_seq := q\<rparr>)"
    "calm 0 s (emit e s)" "calm 0 s (fst (rtp_session_timestamp s))" "calm 0 s (fst (draw_drand48 s))"
    "calm 0 s (fst (draw_time s))" "calm 0 s (fst (draw_stack s))"
    "calm 0 s (rtp_session_reset_tx_stats s)" "calm 0 s (rtcp_tx_bye s)"
    "length p = RTP_CONFIG_AVERAGE_RTCP_SIZE \<Longrightarrow> calm 0 s (s\<lparr>rtp_pkt := p\<rparr>)"
    "calm (members v - members (rtcp_var s)) s (s\<lparr>rtcp_var := v\<rparr>)"
  using assms
  by (simp_all add: calm_def bye_of_def mem_def sess_shape_def emit_def rtp_session_timestamp_def
      draw_drand48_def draw_time_def draw_stack_def rtp_session_reset_tx_stats_def rtcp_tx_bye_def
      world_ok_def)

lemma calm_rtp_event:
  "timer_wf (sess_tmr s) \<Longrightarrow>
   calm (if new_member then 1 else 0) s (rtcp_interval_handle_rtp_event s new_member new_sender)"
  using calm_var(15) [of s "rtcp_var (rtcp_interval_handle_rtp_event s new_member new_sender)"]
  by (auto simp: rtcp_interval_handle_rtp_event_def Let_def split: if_splits)

lemma calm_schedule:
  assumes "timer_wf (sess_tmr s)" "rtcp_interval_schedule s tc t = Inr s'"
  shows "calm 0 s s'"
proof -
  let ?s = "s\<lparr>rtcp_var := (rtcp_var s)\<lparr>tn := t\<rparr>\<rparr>"
  obtain d where "start_te ?s RtcpTimer d = Inr s'"
    using assms(2) by (auto simp: rtcp_interval_schedule_def Let_def res_iff)
  then have "calm 0 ?s s'"
    using assms(1) calm_start [of ?s RtcpTimer d s'] by simp
  moreover have "calm 0 s ?s" using calm_var(15) [OF assms(1), of "(rtcp_var s)\<lparr>tn := t\<rparr>"] by simp
  ultimately show ?thesis by (rule calm_trans0 [rotated])
qed

lemma calm_reschedule:
  assumes "timer_wf (sess_tmr s)" "rtcp_interval_reschedule s tc t = Inr s'"
  shows "calm 0 s s'"
proof -
  let ?s = "s\<lparr>rtcp_var := (rtcp_var s)\<lparr>tn := t\<rparr>\<rparr>"
  obtain d where d: "start_te (stop_te ?s RtcpTimer) RtcpTimer d = Inr s'"
    using assms(2) by (auto simp: rtcp_interval_reschedule_def Let_def res_iff)
  have 1: "calm 0 s ?s" using calm_var(15) [OF assms(1), of "(rtcp_var s)\<lparr>tn := t\<rparr>"] by simp
  have 2: "calm 0 ?s (stop_te ?s RtcpTimer)"
    using assms(1) by (intro calm_stop) simp_all
  have 3: "calm 0 (stop_te ?s RtcpTimer) s'"
    by (rule calm_start [OF calm_wf [OF 2] d]) simp
  from calm_trans0 [OF calm_trans0 [OF 1 2] 3] show ?thesis .
qed

lemma calm_rtcp_event:
  assumes "timer_wf (sess_tmr s)" "rtcp_interval_handle_rtcp_event s ev fs fm n = Inr s'"
  shows "calm (if fm then (if ev = RxNonBye then 1 else - 1) else 0) s s'"
proof (cases "ev = RxNonBye")
  case True
  with assms(2) have "s' = s\<lparr>rtcp_var := rtcp_var s'\<rparr>"
    "members (rtcp_var s') = members (rtcp_var s) + (if fm then 1 else 0)"
    by (auto simp: rtcp_interval_handle_rtcp_event_def Let_def)
  with calm_var(15) [OF assms(1), of "rtcp_var s'"] True show ?thesis by (auto split: if_splits)
next
  case False
  define v where "v = (let cvar = (if fs then (rtcp_var s)\<lparr>senders := senders (rtcp_var s) - 1\<rparr> else rtcp_var s)
    in if fm then cvar\<lparr>members := members cvar - 1\<rparr> else cvar)"
  have mv: "members v = members (rtcp_var s) + (if fm then - 1 else 0)"
    by (simp add: v_def Let_def)
  have e: "rtcp_interval_handle_rtcp_event s ev fs fm n =
      (let tc = rtcp_current_time s; tn' = tn (rtcp_var s) in
       if members v < pmembers v then
         let q = real (unat (members v)) / real (unat (pmembers v));
             tn' = tc + q * (tn' - tc);
             cvar = v\<lparr>tp := tc - q * (tc - tp v)\<rparr>
         in bindE (rtcp_interval_reschedule (s\<lparr>rtcp_var := cvar\<rparr>) tc tn') (\<lambda>sess.
            Inr (sess\<lparr>rtcp_var := (rtcp_var sess)\<lparr>pmembers := members (rtcp_var sess)\<rparr>\<rparr>))
       else Inr (s\<lparr>rtcp_var := v\<rparr>))"
    using False unfolding rtcp_interval_handle_rtcp_event_def Let_def v_def by (cases ev) simp_all
  have fin: "calm (if fm then - 1 else 0) s t" if "calm 0 (s\<lparr>rtcp_var := w\<rparr>) t" "members w = members v" for w t
    using calm_trans [OF calm_var(15) [OF assms(1), of w] that(1)] that(2) mv by simp
  show ?thesis
  proof (cases "members v < pmembers v")
    case True
    let ?q = "real (unat (members v)) / real (unat (pmembers v))" and ?tc = "rtcp_current_time s"
    let ?w = "v\<lparr>tp := ?tc - ?q * (?tc - tp v)\<rparr>"
    obtain s1 where s1: "rtcp_interval_reschedule (s\<lparr>rtcp_var := ?w\<rparr>) ?tc
          (?tc + ?q * (tn (rtcp_var s) - ?tc)) = Inr s1"
      and s': "s' = s1\<lparr>rtcp_var := (rtcp_var s1)\<lparr>pmembers := members (rtcp_var s1)\<rparr>\<rparr>"
      using assms(2) unfolding e Let_def if_P [OF True] bindE_Inr_iff by blast
    have w: "members ?w = members v" by simp
    have c: "calm 0 (s\<lparr>rtcp_var := ?w\<rparr>) s1" using s1 assms(1) by (intro calm_reschedule) auto
    have "calm 0 s1 s'"
      unfolding s' using calm_var(15) [OF calm_wf [OF c], of "(rtcp_var s1)\<lparr>pmembers := members (rtcp_var s1)\<rparr>"]
      by simp
    from fin [OF calm_trans0 [OF c this] w] False show ?thesis by (simp split: if_splits)
  next
    case f: False
    with assms(2) have "s' = s\<lparr>rtcp_var := v\<rparr>" unfolding e by (simp add: Let_def)
    with calm_var(15) [OF assms(1), of v] mv False show ?thesis by (simp split: if_splits)
  qed
qed

lemma rtcp_event_fails:
  assumes "timer_wf (sess_tmr s)" "rtcp_interval_handle_rtcp_event s ev fs fm n = Inl f"
  shows "f = FpRange"
proof -
  have r: "f = FpRange" if "rtcp_interval_reschedule s1 tc t = Inl f" "timer_wf (sess_tmr s1)" for s1 tc t
  proof -
    have "start_te (stop_te (s1\<lparr>rtcp_var := w\<rparr>) RtcpTimer) RtcpTimer d \<noteq> Inl f" for w d
      using that(2) by (intro start_te_total) (simp add: stop_te_def soft_timer_del_wf)
    with that(1) show ?thesis
      by (auto simp: rtcp_interval_reschedule_def Let_def bindE_Inl_iff
          rtcp_interval_cal_delta_in_ms_def dest: real_to_u32_fails)
  qed
  show ?thesis
    using assms r
    by (cases ev) (auto simp: rtcp_interval_handle_rtcp_event_def Let_def bindE_Inl_iff
        split: if_splits)
qed

section \<open>Steps that change the membership\<close>

lemma sess_inv_atD:
  assumes "sess_inv_at d X s"
  shows "timer_wf (sess_tmr s)" "mt_wf (member_table s)" "sess_shape s"
    "conflict_wf (sess_tmr s) (src_conflict s)" "mt_slots (member_table s)" "distinct (used s)"
    "m \<in> set (used s) \<Longrightarrow> m < length (member_array (member_table s))"
    "length (member_array (member_table s)) = RTP_CONFIG_MAX_MEMBERS_PER_SESSION"
  using assms mt_slotsD [of "member_table s"]
  by (auto simp: sess_inv_at_def mt_wf_def) (simp add: mt_slots_def)

lemma init_elem_Inr: "soft_timer_init_elem t e = Inr t' \<Longrightarrow> t' = t \<and> \<not> is_soft_timer_running t e"
  by (simp add: soft_timer_init_elem_def split: if_splits)

lemma alloc_member_effect:
  assumes "rtp_session_alloc_member s ssrc = Inr (s', Some m)"
  obtains mt where "rtp_member_table_alloc_member (member_table s) ssrc = Some (mt, m)"
    "s' = s\<lparr>member_table := mt\<rparr>" "\<not> te_running s (MemberTe m)" "\<not> te_running s (SenderTe m)"
    "\<not> te_running s (LeaveTe m)"
proof -
  obtain mt m' where a: "rtp_member_table_alloc_member (member_table s) ssrc = Some (mt, m')"
    using assms by (auto simp: rtp_session_alloc_member_def split: option.splits)
  then have "rtp_timers_init_member (s\<lparr>member_table := mt\<rparr>) m = Inr s'" "m' = m"
    using assms by (auto simp: rtp_session_alloc_member_def res_iff)
  then have "s' = s\<lparr>member_table := mt\<rparr>" "\<not> te_running s (MemberTe m)" "\<not> te_running s (SenderTe m)"
    "\<not> te_running s (LeaveTe m)"
    by (auto simp: rtp_timers_init_member_def res_iff dest!: init_elem_Inr)
  with a \<open>m' = m\<close> that show thesis by blast
qed

lemma alloc_member_None:
  "rtp_session_alloc_member s ssrc = Inr (s', None) \<Longrightarrow> s' = s"
  by (auto simp: rtp_session_alloc_member_def res_iff split: option.splits)

lemma alloc_member_fails:
  "rtp_session_alloc_member s ssrc = Inl f \<Longrightarrow> f = ListCorrupt"
  by (auto simp: rtp_session_alloc_member_def rtp_timers_init_member_def soft_timer_init_elem_def
      bindE_Inl_iff split: option.splits if_splits)

lemma alloc_inv:
  assumes "sess_inv_at 0 {} s" "rtp_session_lookup_member s ssrc = None"
    and "rtp_session_alloc_member s ssrc = Inr (s', Some m)"
  shows "sess_inv_at 1 {} s'" "m \<in> set (active s')" "sess_tmr s' = sess_tmr s"
    "rtcp_var s' = rtcp_var s"
proof -
  obtain mt where a: "rtp_member_table_alloc_member (member_table s) ssrc = Some (mt, m)"
    and s': "s' = s\<lparr>member_table := mt\<rparr>" and off: "\<not> te_running s (LeaveTe m)"
    using alloc_member_effect [OF assms(3)] by blast
  note inv = sess_inv_atD [OF assms(1)]
  have wf: "mt_wf mt"
    using alloc_wf [OF inv(2) _ a] assms(2) by (simp add: rtp_session_lookup_member_def)
  have fresh: "m < RTP_CONFIG_MAX_MEMBERS_PER_SESSION" "m \<notin> set (used s)"
    using mt.alloc_fresh [OF mt_slots_pool [OF inv(5)] a] by auto
  note f = alloc_member_Some [OF a]
  have other: "mem s' i = mem s i" if "i \<noteq> m" for i
    using that by (simp add: s' mem_def f)
  have new: "mem s' m = rtp_member_init (mem s m) ssrc"
    using fresh(1) inv(8) by (simp add: s' mem_def f)
  have bye: "bye_of s' i \<longleftrightarrow> i \<noteq> m \<and> bye_of s i" for i
    using other [of i] new by (cases "i = m") (simp_all add: bye_of_def is_flag_defs)
  have act: "active s' = active s @ [m]"
    using fresh(2) by (auto simp: active_def s' f(2) bye [unfolded s'] intro!: filter_cong)
  have "set (member_array mt) \<subseteq> insert (rtp_member_init (mem s m) ssrc) (set (member_array (member_table s)))"
    unfolding f mem_def by (rule set_update_subset_insert)
  moreover have "length (cname (rtp_member_init x ssrc)) = length (cname x)" for x
    by (simp add: rtp_member_init_def)
  ultimately have shape: "sess_shape s'"
    using inv(3,8) fresh(1) by (auto simp: sess_shape_def s' mem_def)
  have u: "used s' = used s @ [m]" by (simp add: s' f(2))
  show "sess_inv_at 1 {} s'"
    using assms(1) wf shape act bye off fresh(2) u by (auto simp: sess_inv_at_def s')
  show "m \<in> set (active s')" "sess_tmr s' = sess_tmr s" "rtcp_var s' = rtcp_var s"
    using act by (simp_all add: s')
qed

lemma dealloc_inv:
  assumes "sess_inv_at d {m} s" "m \<in> set (used s)"
  shows "sess_inv_at (d - (if bye_of s m then 0 else 1)) {} (rtp_session_dealloc_member s m)"
    "length (timeout_list (sess_tmr (rtp_session_dealloc_member s m))) \<le> length (timeout_list (sess_tmr s))"
proof -
  note inv = sess_inv_atD [OF assms(1)]
  let ?t1 = "soft_timer_del (sess_tmr s) (MemberTe m)"
  let ?t2 = "soft_timer_del ?t1 (SenderTe m)"
  let ?t3 = "soft_timer_del ?t2 (LeaveTe m)"
  let ?mt = "rtp_member_table_free (member_table s) m"
  have s': "rtp_session_dealloc_member s m = s\<lparr>sess_tmr := ?t3, member_table := ?mt\<rparr>"
    by (simp add: rtp_session_dealloc_member_def rtp_timers_deinit_member_def stop_te_def Let_def)
  have wf1: "timer_wf ?t1" "timer_wf ?t2" "timer_wf ?t3"
    using inv(1) by (simp_all add: soft_timer_del_wf)
  have run: "is_soft_timer_running ?t3 e \<longleftrightarrow>
      e \<noteq> MemberTe m \<and> e \<noteq> SenderTe m \<and> e \<noteq> LeaveTe m \<and> te_running s e" for e
    using soft_timer_del_running [OF inv(1)] soft_timer_del_running [OF wf1(1)]
      soft_timer_del_running [OF wf1(2)] by auto
  have mt: "mt_wf ?mt" by (rule free_wf [OF inv(2) assms(2)])
  have u: "used_list ?mt = remove1 m (used s)" by (simp add: rtp_member_table_free_def)
  let ?s' = "s\<lparr>sess_tmr := ?t3, member_table := ?mt\<rparr>"
  have bye: "bye_of ?s' i = bye_of s i" for i
    by (simp add: bye_of_def mem_def rtp_member_table_free_def)
  have act: "active ?s' = remove1 m (active s)"
    using inv(6) by (simp add: active_def u bye distinct_remove1_removeAll removeAll_filter_not_eq
        conj_commute)
  have len: "of_nat (length (remove1 m (active s))) = (of_nat (length (active s)) :: u32) -
      (if bye_of s m then 0 else 1)"
  proof (cases "bye_of s m")
    case True
    then show ?thesis by (simp add: active_def remove1_idem)
  next
    case False
    then have "m \<in> set (active s)" using assms(2) by (simp add: active_def)
    then have "length (active s) = Suc (length (remove1 m (active s)))"
      using length_pos_if_in_set [of m "active s"] by (simp add: length_remove1)
    with False show ?thesis by simp
  qed
  have "sess_shape ?s'"
    using inv(3) by (simp add: sess_shape_def rtp_member_table_free_def)
  moreover have "conflict_wf ?t3 (src_conflict s)"
    by (rule conflict_wf_cong [OF inv(4)]) (simp add: run)
  moreover have "i \<in> set (active ?s')" if "is_soft_timer_running ?t3 (MemberTe i)" for i
    using that assms(1) inv(6) act by (auto simp: sess_inv_at_def run active_def)
  moreover have "is_soft_timer_running ?t3 (LeaveTe i) \<longleftrightarrow> i \<in> set (used ?s') \<and> bye_of ?s' i" for i
    using assms(1) inv(6) u by (auto simp: sess_inv_at_def run bye)
  moreover have "members (rtcp_var s) + (d - (if bye_of s m then 0 else 1)) = of_nat (length (active ?s'))"
    using assms(1) by (simp only: act len) (simp add: sess_inv_at_def algebra_simps)
  ultimately show "sess_inv_at (d - (if bye_of s m then 0 else 1)) {} (rtp_session_dealloc_member s m)"
    using mt wf1(3) unfolding s' sess_inv_at_def by simp
  show "length (timeout_list (sess_tmr (rtp_session_dealloc_member s m))) \<le> length (timeout_list (sess_tmr s))"
    unfolding s' using soft_timer_del_shrinks [of "sess_tmr s" "MemberTe m"]
      soft_timer_del_shrinks [of ?t1 "SenderTe m"] soft_timer_del_shrinks [of ?t2 "LeaveTe m"]
    by simp
qed

section \<open>Conflicts\<close>

lemma sess_conflict_lookup_calm:
  assumes "sess_inv_at d X s" "sess_conflict_lookup s from = Inr (s', b)"
  shows "calm 0 s s'" "b \<longleftrightarrow> from \<in> conflict_addrs (src_conflict s)" "src_conflict s' = src_conflict s"
proof -
  note inv = sess_inv_atD [OF assms(1)]
  obtain t where t: "rtp_source_conflict_lookup (sess_tmr s) (src_conflict s) from = Inr (t, b)"
    and s': "s' = s\<lparr>sess_tmr := t\<rparr>"
    using assms(2) by (auto simp: sess_conflict_lookup_def res_iff)
  note f = conflict_lookup_Inr [OF inv(1,4) t]
  show "calm 0 s s'"
    using f by (simp add: calm_def s' bye_of_def mem_def sess_shape_def)
  show "b \<longleftrightarrow> from \<in> conflict_addrs (src_conflict s)" by (rule f(3))
  show "src_conflict s' = src_conflict s" by (simp add: s')
qed

lemma sess_conflict_add_inv:
  assumes "sess_inv_at d X s" "from \<notin> conflict_addrs (src_conflict s)"
    "sess_conflict_add s from = Inr s'"
  shows "sess_inv_at d X s'" "member_table s' = member_table s"
    "length (timeout_list (sess_tmr s')) \<le> length (timeout_list (sess_tmr s))"
proof -
  note inv = sess_inv_atD [OF assms(1)]
  obtain t tbl b where t: "rtp_source_conflict_add (sess_tmr s) (src_conflict s) from = Inr (t, tbl, b)"
    and s': "s' = s\<lparr>sess_tmr := t, src_conflict := tbl\<rparr>"
    using assms(3) by (auto simp: sess_conflict_add_def res_iff)
  note f = conflict_add_Inr [OF inv(1,4) assms(2) t]
  have "bye_of s' = bye_of s" by (simp add: fun_eq_iff bye_of_def mem_def s')
  then have "active s' = active s" by (simp add: active_def s')
  then show "sess_inv_at d X s'"
    using assms(1) f(1,2) f(5) [of "MemberTe _"] f(5) [of "LeaveTe _"]
      \<open>bye_of s' = bye_of s\<close>
    by (simp add: sess_inv_at_def s' sess_shape_def)
  show "member_table s' = member_table s" by (simp add: s')
  show "length (timeout_list (sess_tmr s')) \<le> length (timeout_list (sess_tmr s))"
    using f(8) by (simp add: s')
qed

lemma sess_conflict_total:
  assumes "timer_wf (sess_tmr s)"
  shows "sess_conflict_lookup s from \<noteq> Inl f" "sess_conflict_add s from \<noteq> Inl f"
  using conflict_lookup_total [OF assms, of "src_conflict s" "from"]
    conflict_add_total [OF assms, of "src_conflict s" "from"]
  by (auto simp: sess_conflict_lookup_def sess_conflict_add_def split: prod.splits)

lemma change_ssrc_inv:
  assumes "sess_inv_at d X s" "m \<in> set (used s)" "sess_change_random_ssrc s m = Inr s'"
  shows "sess_inv_at d X s'" "sess_tmr s' = sess_tmr s"
proof -
  note inv = sess_inv_atD [OF assms(1)]
  obtain mt n where c: "rtp_member_table_change_random_ssrc (member_table s) m (w_random32 (env s))
      (n_random32 (env s)) = Inr (mt, n)"
    and s': "s' = s\<lparr>member_table := mt, env := (env s)\<lparr>n_random32 := n\<rparr>\<rparr>"
    using assms(3) by (auto simp: sess_change_random_ssrc_def res_iff)
  obtain x where d: "draw_ssrc (member_table s) (w_random32 (env s)) (n_random32 (env s)) = Some (x, n)"
    and mt: "mt = set_ssrc (member_table s) m x"
    using c by (auto simp: rtp_member_table_change_random_ssrc_def split: option.splits)
  have "x \<notin> set (ssrcs (member_table s))" using draw_ssrc_Some [OF d] by auto
  then have wf: "mt_wf mt" unfolding mt by (rule set_ssrc_wf [OF inv(2) assms(2)])
  have m: "m < length (member_array (member_table s))" by (rule inv(7) [OF assms(2)])
  have "bye_of s' i = bye_of s i" for i
    using m by (cases "i = m")
      (simp_all add: bye_of_def s' mt mem_def set_ssrc_def is_flag_defs has_flag_def)
  then have b: "bye_of s' = bye_of s" by (simp add: fun_eq_iff)
  have u: "used s' = used s" by (simp add: s' mt set_ssrc_def)
  then have a: "active s' = active s" by (simp add: active_def b)
  have "set (member_array mt) \<subseteq> insert ((mem s m)\<lparr>m_ssrc := x\<rparr>) (set (member_array (member_table s)))"
    unfolding mt set_ssrc_def mem_def by (simp add: set_update_subset_insert)
  then have "sess_shape s'"
    using inv(3) m by (auto simp: sess_shape_def s' world_ok_def mem_def)
  then show "sess_inv_at d X s'"
    using assms(1) wf a b u by (simp add: sess_inv_at_def) (simp add: s')
  show "sess_tmr s' = sess_tmr s" by (simp add: s')
qed

lemma change_ssrc_fails: "sess_change_random_ssrc s m = Inl f \<Longrightarrow> f = NoReturn"
  by (auto simp: sess_change_random_ssrc_def rtp_member_table_change_random_ssrc_def bindE_Inl_iff
      split: option.splits prod.splits)

section \<open>Timeouts\<close>

text \<open>Taking the first element off the list of timed out elements is stopping its timer.\<close>

lemma pop_is_del:
  assumes "timer_wf t" "timeout_list t = p # ps"
  shows "t\<lparr>timeout_list := ps\<rparr> = soft_timer_del t p"
proof -
  have "is_soft_timer_running t p" using assms(2) by (simp add: is_soft_timer_running_def)
  moreover have "p \<notin> set b" if "b \<in> set (buckets t)" for b
    using assms that by (auto simp: timer_wf_def)
  then have "map (remove1 p) (buckets t) = buckets t"
    by (intro map_idI) (simp add: remove1_idem)
  ultimately show ?thesis using assms(2) by (simp add: soft_timer_del_def)
qed

lemma pop_is_stop:
  "\<lbrakk>timer_wf (sess_tmr s); timeout_list (sess_tmr s) = p # ps\<rbrakk> \<Longrightarrow>
   sess_tmr_update (\<lambda>t. t\<lparr>timeout_list := ps\<rparr>) s = stop_te s p"
  using pop_is_del [of "sess_tmr s" p ps] by (simp add: stop_te_def)

lemma sess_inv_at_mono: "sess_inv_at d X s \<Longrightarrow> X \<subseteq> Y \<Longrightarrow> sess_inv_at d Y s"
  by (auto simp: sess_inv_at_def)

lemma member_timedout_inv:
  assumes "sess_inv s" "m \<in> set (active s)" "rtcp_interval_member_timedout s m = Inr s'"
  shows "sess_inv s'" "length (timeout_list (sess_tmr s')) \<le> length (timeout_list (sess_tmr s))"
proof -
  have inv: "sess_inv_at 0 {} s" using assms(1) by (simp add: sess_inv_def)
  note wf = sess_inv_atD(1) [OF inv]
  obtain fs s1 where ev: "rtcp_interval_handle_rtcp_event s Timeout fs True 0 = Inr s1"
    and s': "s' = rtp_session_dealloc_member s1 m"
    using assms(3) by (auto simp: rtcp_interval_member_timedout_def res_iff split: if_splits)
  have c: "calm (- 1) s s1" using calm_rtcp_event [OF wf ev] by simp
  have i1: "sess_inv_at 1 {m} s1"
    using sess_inv_at_mono [OF calm_inv [OF inv c], of "{m}"] by simp
  have "m \<in> set (active s1)" using assms(2) calm_active [OF c] by simp
  then have m: "m \<in> set (used s1)" "\<not> bye_of s1 m" by (auto simp: active_def)
  from dealloc_inv [OF i1 m(1)] m(2) show "sess_inv s'" by (simp add: s' sess_inv_def)
  have "length (timeout_list (sess_tmr s1)) \<le> length (timeout_list (sess_tmr s))"
    using c by (simp add: calm_def)
  with dealloc_inv(2) [OF i1 m(1)]
  show "length (timeout_list (sess_tmr s')) \<le> length (timeout_list (sess_tmr s))" by (simp add: s')
qed

lemma sender_timedout_calm:
  assumes "timer_wf (sess_tmr s)" "rtcp_interval_sender_timedout s m = Inr s'"
  shows "calm 0 s s'"
proof -
  let ?s1 = "upd_mem m rtp_member_clear_rtp_heard s"
  let ?s2 = "upd_mem m rtp_member_clear_sender ?s1"
  let ?s3 = "?s2\<lparr>rtcp_var := (rtcp_var ?s1)\<lparr>we_sent := False\<rparr>\<rparr>"
  have c1: "calm 0 s ?s1" by (rule calm_flag(2) [OF assms(1)])
  have c2: "calm 0 s ?s2" by (rule calm_trans0 [OF c1 calm_flag(7) [OF calm_wf [OF c1]]])
  have c3: "calm 0 s ?s3"
    using calm_trans0 [OF c2 calm_var(15) [OF calm_wf [OF c2], of "(rtcp_var ?s1)\<lparr>we_sent := False\<rparr>"]]
    by simp
  let ?s4 = "if self ?s1 = Some m then ?s3 else ?s1"
  have c4: "calm 0 s ?s4" using c1 c3 by simp
  have "rtcp_interval_handle_rtcp_event ?s4 Timeout True False 0 = Inr s'"
    using assms(2) unfolding rtcp_interval_sender_timedout_def Let_def .
  from calm_rtcp_event [OF calm_wf [OF c4] this] have "calm 0 ?s4 s'" by simp
  with c4 show ?thesis by (rule calm_trans0)
qed

definition sess_conflict_expired :: "rtp_session \<Rightarrow> nat \<Rightarrow> rtp_session" where
  "sess_conflict_expired s c =
     s\<lparr>src_conflict := rtp_source_conflict_timer_expired (src_conflict s) c\<rparr>"

lemma conflict_expired_inv:
  assumes "sess_inv s" "te_running s (ConflictTe c)"
  shows "sess_inv (sess_conflict_expired (stop_te s (ConflictTe c)) c)"
proof -
  have inv: "sess_inv_at 0 {} s" using assms(1) by (simp add: sess_inv_def)
  note D = sess_inv_atD [OF inv]
  let ?t = "soft_timer_del (sess_tmr s) (ConflictTe c)"
  let ?s' = "sess_conflict_expired (stop_te s (ConflictTe c)) c"
  have run: "is_soft_timer_running ?t e \<longleftrightarrow> e \<noteq> ConflictTe c \<and> te_running s e" for e
    by (rule soft_timer_del_running [OF D(1)])
  have "conflict_wf ?t (rtp_source_conflict_timer_expired (src_conflict s) c)"
    using D(4) assms(2) by (intro conflict_expired_wf) (auto simp: conflict_wf_def run)
  moreover have "bye_of ?s' = bye_of s"
    by (simp add: fun_eq_iff bye_of_def mem_def sess_conflict_expired_def stop_te_def)
  moreover from this have "active ?s' = active s"
    by (simp add: active_def sess_conflict_expired_def stop_te_def)
  ultimately show ?thesis
    using inv soft_timer_del_wf [OF D(1)]
    by (simp add: sess_inv_def sess_inv_at_def run sess_shape_def)
      (simp add: sess_conflict_expired_def stop_te_def run)
qed

end
