(* ===== verification/Rtp_Inv.thy ===== *)
theory Rtp_Inv
  imports Rtp Session_Inv
begin

text \<open>
  RTP reception keeps the invariant of the session, and the faults it can run into are few.
\<close>

section \<open>Sources\<close>

definition keeps :: "rtp_session \<Rightarrow> rtp_session \<Rightarrow> bool" where
  "keeps s s' \<longleftrightarrow> sess_inv s' \<and>
     length (timeout_list (sess_tmr s')) \<le> length (timeout_list (sess_tmr s))"

lemma calm_keeps: "sess_inv s \<Longrightarrow> calm 0 s s' \<Longrightarrow> keeps s s'"
  using calm_inv0 [of 0 "{}" s s'] by (simp add: sess_inv_def keeps_def calm_def)

lemma keeps_trans: "keeps s t \<Longrightarrow> keeps t u \<Longrightarrow> keeps s u"
  by (auto simp: keeps_def)

lemma keeps_inv: "keeps s t \<Longrightarrow> sess_inv t"
  by (simp add: keeps_def)

lemma sess_inv_wf: "sess_inv s \<Longrightarrow> timer_wf (sess_tmr s)"
  by (simp add: sess_inv_def sess_inv_at_def)

lemma calm_start_sender:
  "timer_wf (sess_tmr s) \<Longrightarrow> rtp_timers_sender_start s m = Inr s' \<Longrightarrow> calm 0 s s'"
  by (auto simp: rtp_timers_sender_start_def intro: calm_start)

lemma calm_restart_sender:
  assumes "timer_wf (sess_tmr s)" "rtp_timers_sender_restart s m = Inr s'"
  shows "calm 0 s s'"
proof -
  have c: "calm 0 s (stop_te s (SenderTe m))" by (rule calm_stop [OF assms(1)]) simp
  have "calm 0 (stop_te s (SenderTe m)) s'"
    using assms(2) by (intro calm_start [OF calm_wf [OF c]]) (auto simp: rtp_timers_sender_restart_def)
  with c show ?thesis by (rule calm_trans0)
qed

lemma calm_start_member:
  "\<lbrakk>timer_wf (sess_tmr s); rtp_timers_member_start s m = Inr s'; m \<in> set (active s)\<rbrakk> \<Longrightarrow> calm 0 s s'"
  by (auto simp: rtp_timers_member_start_def intro: calm_start)

lemma calm_restart_member:
  assumes "timer_wf (sess_tmr s)" "rtp_timers_member_restart s m = Inr s'" "m \<in> set (active s)"
  shows "calm 0 s s'"
proof -
  have c: "calm 0 s (stop_te s (MemberTe m))" by (rule calm_stop [OF assms(1)]) simp
  have "calm 0 (stop_te s (MemberTe m)) s'"
    using assms(2,3) calm_active [OF c]
    by (intro calm_start [OF calm_wf [OF c]]) (auto simp: rtp_timers_member_restart_def)
  with c show ?thesis by (rule calm_trans0)
qed

lemma timer_steps_total:
  assumes "timer_wf (sess_tmr s)"
  shows "rtp_timers_sender_start s m \<noteq> Inl f" "rtp_timers_sender_restart s m \<noteq> Inl f"
    "rtp_timers_member_start s m \<noteq> Inl f" "rtp_timers_member_restart s m \<noteq> Inl f"
    "rtp_timers_leave_start s m \<noteq> Inl f"
proof -
  have "timer_wf (sess_tmr (stop_te s e))" for e
    using assms by (simp add: stop_te_def soft_timer_del_wf)
  then show "rtp_timers_sender_start s m \<noteq> Inl f" "rtp_timers_sender_restart s m \<noteq> Inl f"
    "rtp_timers_member_start s m \<noteq> Inl f" "rtp_timers_member_restart s m \<noteq> Inl f"
    "rtp_timers_leave_start s m \<noteq> Inl f"
    using assms by (auto simp: rtp_timers_sender_start_def rtp_timers_sender_restart_def
      rtp_timers_member_start_def rtp_timers_member_restart_def rtp_timers_leave_start_def
      dest: start_te_total)
qed

text \<open>What is set up for the first packet of a source.\<close>

definition first_heard :: "rtp_session \<Rightarrow> nat \<Rightarrow> u16 \<Rightarrow> sockaddr_in \<Rightarrow> bool \<Rightarrow> rtp_session" where
  "first_heard s m seq from new =
     rtcp_interval_handle_rtp_event
       (upd_mem m rtp_member_set_rtp_heard
         (upd_mem m (\<lambda>x. x\<lparr>m_rtp_addr := from\<rparr>)
           (upd_mem m (\<lambda>x. x\<lparr>rtp_src := rtp_init_seq (rtp_src x) seq True\<rparr>) s))) new True"

lemma first_heard_calm:
  assumes "timer_wf (sess_tmr s)"
  shows "calm (if new then 1 else 0) s (first_heard s m seq from new)"
proof -
  let ?s1 = "upd_mem m (\<lambda>x. x\<lparr>rtp_src := rtp_init_seq (rtp_src x) seq True\<rparr>) s"
  let ?s2 = "upd_mem m (\<lambda>x. x\<lparr>m_rtp_addr := from\<rparr>) ?s1"
  let ?s3 = "upd_mem m rtp_member_set_rtp_heard ?s2"
  have c1: "calm 0 s ?s1" by (rule calm_fields(1) [OF assms])
  have c2: "calm 0 s ?s2" by (rule calm_trans0 [OF c1 calm_fields(2) [OF calm_wf [OF c1]]])
  have c3: "calm 0 s ?s3" by (rule calm_trans0 [OF c2 calm_flag(1) [OF calm_wf [OF c2]]])
  show ?thesis
    unfolding first_heard_def by (rule calm_trans0 [OF c3 calm_rtp_event [OF calm_wf [OF c3]]])
qed

lemma handle_new_inv:
  assumes "sess_inv s" "rtp_session_lookup_member s ssrc = None"
    and "rtp_handle_ssrc s ssrc seq from csrc = Inr (s', r)"
  shows "keeps s s' \<and> (\<forall>m. r = Some m \<longrightarrow> m \<in> set (active s'))"
proof -
  have inv: "sess_inv_at 0 {} s" using assms(1) by (simp add: sess_inv_def)
  note wf = sess_inv_wf [OF assms(1)]
  obtain s1 r1 where a: "rtp_session_alloc_member s ssrc = Inr (s1, r1)"
    using assms(2,3) by (auto simp: rtp_handle_ssrc_def res_iff)
  show ?thesis
  proof (cases r1)
    case None
    then have "s1 = s" using a alloc_member_None by blast
    then have "s' = s\<lparr>last_rtp_error := rtp_rx_error_member_alloc_failed\<rparr>" "r = None"
      using assms(2,3) a None by (auto simp: rtp_handle_ssrc_def)
    then show ?thesis using calm_keeps [OF assms(1) calm_var(1) [OF wf]] by simp
  next
    case (Some m)
    note al = alloc_inv [OF inv assms(2) a [unfolded Some]]
    have wf1: "timer_wf (sess_tmr s1)" using al(3) wf by simp
    let ?s2 = "first_heard s1 m seq from True"
    let ?fin = "\<lambda>s4. (if csrc then
        Inr (upd_mem m rtp_member_set_csrc (upd_mem m rtp_member_set_validated
          (s4\<lparr>last_rtp_error := rtp_rx_error_member_first_heard\<rparr>)), Some m)
      else Inr (s4\<lparr>last_rtp_error := rtp_rx_error_member_first_heard\<rparr>, None))
      :: (rtp_session \<times> nat option) res"
    have "rtp_handle_ssrc s ssrc seq from csrc =
        bindE (rtp_timers_sender_start ?s2 m) (\<lambda>s3. bindE (rtp_timers_member_start s3 m) ?fin)"
      using assms(2) a Some
      by (simp add: rtp_handle_ssrc_def Let_def first_heard_def)
    from this [unfolded assms(3), symmetric]
    obtain s3 s4 where s3: "rtp_timers_sender_start ?s2 m = Inr s3"
      and s4: "rtp_timers_member_start s3 m = Inr s4" and fin: "?fin s4 = Inr (s', r)"
      unfolding bindE_Inr_iff by blast
    have c2: "calm 1 s1 ?s2" using first_heard_calm [OF wf1, of True m seq "from"] by simp
    have c3: "calm 0 ?s2 s3" by (rule calm_start_sender [OF calm_wf [OF c2] s3])
    have act: "m \<in> set (active s3)" using al(2) calm_active [OF c2] calm_active [OF c3] by simp
    have c4: "calm 0 s3 s4" by (rule calm_start_member [OF calm_wf [OF c3] s4 act])
    have c5: "calm 0 s4 (s4\<lparr>last_rtp_error := rtp_rx_error_member_first_heard\<rparr>)" (is "calm 0 s4 ?s5")
      by (rule calm_var(1) [OF calm_wf [OF c4]])
    have c6: "calm 0 ?s5 (upd_mem m rtp_member_set_validated ?s5)" (is "calm 0 _ ?s6")
      by (rule calm_flag(4) [OF calm_wf [OF c5]])
    have c7: "calm 0 ?s6 (upd_mem m rtp_member_set_csrc ?s6)" (is "calm 0 _ ?s7")
      by (rule calm_flag(5) [OF calm_wf [OF c6]])
    have c15: "calm 1 s1 ?s5" using calm_trans [OF calm_trans [OF calm_trans [OF c2 c3] c4] c5] by simp
    have c17: "calm 1 s1 ?s7" using calm_trans [OF calm_trans [OF c15 c6] c7] by simp
    have "calm 1 s1 s'" "r = Some m \<or> r = None"
      using fin c15 c17 by (auto split: if_splits)
    then show ?thesis
      using calm_inv [OF al(1), of 1 s'] al(2,3) calm_active [of 1 s1 s']
      by (auto simp: keeps_def sess_inv_def calm_def)
  qed
qed

lemma handle_known_inv:
  assumes "sess_inv s" "rtp_session_lookup_member s ssrc = Some m"
    and "rtp_handle_ssrc s ssrc seq from csrc = Inr (s', r)"
  shows "keeps s s' \<and> (\<forall>m. r = Some m \<longrightarrow> m \<in> set (active s'))"
proof -
  have inv: "sess_inv_at 0 {} s" using assms(1) by (simp add: sess_inv_def)
  note wf = sess_inv_wf [OF assms(1)]
  have used: "m \<in> set (used s)"
    using assms(2) lookup_Some by (auto simp: rtp_session_lookup_member_def)
  note e = assms(3) [unfolded rtp_handle_ssrc_def assms(2) option.case]
  have err: "keeps t (t\<lparr>last_rtp_error := x\<rparr>)" if "sess_inv t" for t x
    by (rule calm_keeps [OF that calm_var(1) [OF sess_inv_wf [OF that]]])
  show ?thesis
  proof (cases "rtp_member_is_bye_received (mem s m)")
    case True
    then show ?thesis using e err [OF assms(1)] by auto
  next
    case nb: False
    then have act: "m \<in> set (active s)" using used by (simp add: active_def bye_of_def)
    consider (first) "\<not> rtp_member_is_self (mem s m)" "\<not> rtp_member_is_rtp_heard (mem s m)"
      | (third) "rtp_member_is_self (mem s m) \<or> rtp_member_is_rtp_heard (mem s m)"
          "m_rtp_addr (mem s m) \<noteq> from" "\<not> rtp_member_is_self (mem s m)"
      | (own) "rtp_member_is_self (mem s m)" "m_rtp_addr (mem s m) \<noteq> from"
      | (known) "rtp_member_is_self (mem s m) \<or> rtp_member_is_rtp_heard (mem s m)"
          "m_rtp_addr (mem s m) = from"
      by blast
    then show ?thesis
    proof cases
      case first
      let ?s1 = "first_heard s m seq from False"
      obtain s2 s3 where s2: "rtp_timers_sender_start ?s1 m = Inr s2"
        and s3: "rtp_timers_member_restart s2 m = Inr s3"
        and s': "s' = s3\<lparr>last_rtp_error := rtp_rx_error_member_first_heard\<rparr>" "r = None"
        using e nb first by (auto simp: Let_def res_iff first_heard_def [symmetric])
      have c1: "calm 0 s ?s1" using first_heard_calm [OF wf, of False] by simp
      have c2: "calm 0 s s2" by (rule calm_trans0 [OF c1 calm_start_sender [OF calm_wf [OF c1] s2]])
      have "m \<in> set (active s2)" using act calm_active [OF c2] by simp
      then have c3: "calm 0 s s3"
        by (rule calm_trans0 [OF c2 calm_restart_member [OF calm_wf [OF c2] s3]])
      from calm_trans0 [OF c3 calm_var(1) [OF calm_wf [OF c3]]] s' calm_keeps [OF assms(1)]
      show ?thesis by blast
    next
      case third
      then show ?thesis using e nb err [OF assms(1)] by auto
    next
      case own
      obtain s1 found where s1: "sess_conflict_lookup s from = Inr (s1, found)"
        and e1: "(if found then Inr (s1\<lparr>last_rtp_error := rtp_rx_error_source_in_conflict_list\<rparr>, None)
           else bindE (sess_conflict_add s1 from) (\<lambda>sess.
                bindE (sess_change_random_ssrc (rtcp_tx_bye sess) m) (\<lambda>sess.
                Inr ((rtp_session_reset_tx_stats sess)
                       \<lparr>last_rtp_error := rtp_rx_error_ssrc_conflict\<rparr>, None)))) = Inr (s', r)"
        using e nb own by (auto simp: res_iff)
      note l = sess_conflict_lookup_calm [OF inv s1]
      have i1: "sess_inv s1" "keeps s s1" using calm_keeps [OF assms(1) l(1)] by (auto simp: keeps_def)
      show ?thesis
      proof (cases found)
        case True
        then show ?thesis using e1 keeps_trans [OF i1(2) err [OF i1(1)]] by auto
      next
        case False
        then obtain s2 s3 where s2: "sess_conflict_add s1 from = Inr s2"
          and s3: "sess_change_random_ssrc s2 m = Inr s3"
          and s': "s' = (rtp_session_reset_tx_stats s3)\<lparr>last_rtp_error := rtp_rx_error_ssrc_conflict\<rparr>"
            "r = None"
          using e1 by (auto simp: res_iff rtcp_tx_bye_def)
        have i1': "sess_inv_at 0 {} s1" using i1(1) by (simp add: sess_inv_def)
        have "from \<notin> conflict_addrs (src_conflict s1)" using l(2,3) False by simp
        note a = sess_conflict_add_inv [OF i1' this s2]
        have "m \<in> set (used s2)" using used calm_used [OF l(1)] a(2) by simp
        note ch = change_ssrc_inv [OF a(1) this s3]
        have i3: "sess_inv s3" using ch(1) by (simp add: sess_inv_def)
        have k3: "keeps s s3" using i1(2) a(3) i3 ch(2) by (simp add: keeps_def)
        note k4 = calm_keeps [OF i3 calm_var(12) [OF sess_inv_wf [OF i3]]]
        show ?thesis using keeps_trans [OF k3 keeps_trans [OF k4 err [OF keeps_inv [OF k4]]]] s' by simp
      qed
    next
      case known
      let ?s1 = "upd_mem m rtp_member_set_rtp_heard s"
      obtain s2 where s2: "rtp_timers_sender_restart ?s1 m = Inr s2"
        and s3: "rtp_timers_member_restart s2 m = Inr s'" and r: "r = Some m"
        using e nb known by (auto simp: res_iff)
      have c1: "calm 0 s ?s1" by (rule calm_flag(1) [OF wf])
      have c2: "calm 0 s s2" by (rule calm_trans0 [OF c1 calm_restart_sender [OF calm_wf [OF c1] s2]])
      have "m \<in> set (active s2)" using act calm_active [OF c2] by simp
      then have c3: "calm 0 s s'"
        by (rule calm_trans0 [OF c2 calm_restart_member [OF calm_wf [OF c2] s3]])
      show ?thesis using calm_keeps [OF assms(1) c3] act calm_active [OF c3] r by simp
    qed
  qed
qed

lemma rtp_handle_ssrc_inv:
  assumes "sess_inv s" "rtp_handle_ssrc s ssrc seq from csrc = Inr (s', r)"
  shows "keeps s s'" "r = Some m \<Longrightarrow> m \<in> set (active s')"
  using handle_new_inv [OF assms(1) _ assms(2)] handle_known_inv [OF assms(1) _ assms(2)]
  by (cases "rtp_session_lookup_member s ssrc"; auto)+

section \<open>Faults\<close>

lemma first_heard_tmr [simp]: "sess_tmr (first_heard s m seq from new) = sess_tmr s"
  by (simp add: first_heard_def rtcp_interval_handle_rtp_event_def Let_def)

lemma rtp_handle_ssrc_fails:
  assumes "sess_inv s" "rtp_handle_ssrc s ssrc seq from csrc = Inl f"
  shows "f = NoReturn \<or> f = ListCorrupt"
proof -
  have inv: "sess_inv_at 0 {} s" using assms(1) by (simp add: sess_inv_def)
  note wf = sess_inv_wf [OF assms(1)]
  show ?thesis
  proof (cases "rtp_session_lookup_member s ssrc")
    case None
    show ?thesis
    proof (cases "rtp_session_alloc_member s ssrc")
      case (Inl g)
      with None assms(2) alloc_member_fails [OF Inl] show ?thesis by (simp add: rtp_handle_ssrc_def)
    next
      case (Inr x)
      then obtain s1 r1 where a: "rtp_session_alloc_member s ssrc = Inr (s1, r1)" by (cases x) auto
      then obtain m where r1: "r1 = Some m"
        using None assms(2) by (cases r1) (auto simp: rtp_handle_ssrc_def)
      note al = alloc_inv [OF inv None a [unfolded r1]]
      let ?s2 = "first_heard s1 m seq from True"
      have wf2: "timer_wf (sess_tmr ?s2)" using al(3) wf by simp
      have e: "rtp_handle_ssrc s ssrc seq from csrc =
        bindE (rtp_timers_sender_start ?s2 m) (\<lambda>s3. bindE (rtp_timers_member_start s3 m) (\<lambda>s4.
          (if csrc then
            Inr (upd_mem m rtp_member_set_csrc (upd_mem m rtp_member_set_validated
              (s4\<lparr>last_rtp_error := rtp_rx_error_member_first_heard\<rparr>)), Some m)
          else Inr (s4\<lparr>last_rtp_error := rtp_rx_error_member_first_heard\<rparr>, None))))"
        using None a r1 by (simp add: rtp_handle_ssrc_def Let_def first_heard_def)
      have False
        using assms(2) timer_steps_total(1) [OF wf2] timer_steps_total(3) [OF calm_wf [OF calm_start_sender [OF wf2]]]
        unfolding e by (auto simp: bindE_Inl_iff split: if_splits)
      then show ?thesis ..
    qed
  next
    case (Some m)
    note e = assms(2) [unfolded rtp_handle_ssrc_def Some option.case]
    have nb: "\<not> rtp_member_is_bye_received (mem s m)" using e by auto
    consider (first) "\<not> rtp_member_is_self (mem s m)" "\<not> rtp_member_is_rtp_heard (mem s m)"
      | (third) "rtp_member_is_self (mem s m) \<or> rtp_member_is_rtp_heard (mem s m)"
          "m_rtp_addr (mem s m) \<noteq> from" "\<not> rtp_member_is_self (mem s m)"
      | (own) "rtp_member_is_self (mem s m)" "m_rtp_addr (mem s m) \<noteq> from"
      | (known) "rtp_member_is_self (mem s m) \<or> rtp_member_is_rtp_heard (mem s m)"
          "m_rtp_addr (mem s m) = from"
      by blast
    then show ?thesis
    proof cases
      case first
      let ?s1 = "first_heard s m seq from False"
      have wf1: "timer_wf (sess_tmr ?s1)" using wf by simp
      show ?thesis
        using e nb first timer_steps_total(1) [OF wf1]
          timer_steps_total(4) [OF calm_wf [OF calm_start_sender [OF wf1]]]
        by (auto simp: Let_def bindE_Inl_iff first_heard_def [symmetric])
    next
      case third
      then show ?thesis using e nb by auto
    next
      case own
      have "f = NoReturn"
        using e nb own sess_conflict_total(1) [OF wf]
          sess_conflict_total(2) [OF calm_wf [OF sess_conflict_lookup_calm(1) [OF inv]]]
        by (auto simp: bindE_Inl_iff dest: change_ssrc_fails split: if_splits)
      then show ?thesis ..
    next
      case known
      let ?s1 = "upd_mem m rtp_member_set_rtp_heard s"
      have wf1: "timer_wf (sess_tmr ?s1)" using wf by simp
      show ?thesis
        using e nb known timer_steps_total(2) [OF wf1]
          timer_steps_total(4) [OF calm_wf [OF calm_restart_sender [OF wf1]]]
        by (auto simp: bindE_Inl_iff)
    qed
  qed
qed

lemma sess_compute_jitter_calm:
  "timer_wf (sess_tmr s) \<Longrightarrow> sess_compute_jitter s m ts arr = Inr s' \<Longrightarrow> calm 0 s s'"
  by (auto simp: sess_compute_jitter_def res_iff intro: calm_fields(1))

lemma sess_compute_jitter_fails: "sess_compute_jitter s m ts arr = Inl f \<Longrightarrow> f = IntOverflow"
  by (auto simp: sess_compute_jitter_def rtcp_compute_jitter_def Let_def bindE_Inl_iff split: if_splits)

lemma rtp_rx_csrcs_inv:
  "sess_inv s \<Longrightarrow> 12 + 4 * (i + n) \<le> length pkt \<Longrightarrow>
   (case rtp_rx_csrcs n i s pkt seq ts arr from acc of
      Inl f \<Rightarrow> f = NoReturn \<or> f = ListCorrupt \<or> f = IntOverflow
    | Inr (s', _) \<Rightarrow> keeps s s')"
proof (induction n arbitrary: i s acc)
  case 0
  then show ?case by (simp add: keeps_def)
next
  case (Suc n)
  obtain c where c: "rd32 pkt (12 + 4 * i) = Inr c" using Suc.prems(2) by (simp add: rd32_ok)
  show ?case
  proof (cases "rtp_handle_ssrc s c seq from True")
    case (Inl f)
    then show ?thesis using c rtp_handle_ssrc_fails [OF Suc.prems(1) Inl] by auto
  next
    case (Inr x)
    then obtain s1 r where h: "rtp_handle_ssrc s c seq from True = Inr (s1, r)" by (cases x) auto
    note k1 = rtp_handle_ssrc_inv(1) [OF Suc.prems(1) h]
    show ?thesis
    proof (cases "case r of None \<Rightarrow> Inr s1 | Some m \<Rightarrow> sess_compute_jitter s1 m ts arr")
      case (Inl f)
      then have "f = IntOverflow" by (cases r) (auto dest: sess_compute_jitter_fails)
      with Inl c h show ?thesis by simp
    next
      case (Inr s2)
      have "calm 0 s1 s2"
        using Inr calm_refl [OF sess_inv_wf [OF keeps_inv [OF k1]]]
          sess_compute_jitter_calm [OF sess_inv_wf [OF keeps_inv [OF k1]]]
        by (cases r) auto
      then have k2: "keeps s s2" using keeps_trans [OF k1 calm_keeps [OF keeps_inv [OF k1]]] by blast
      show ?thesis
        using Suc.IH [OF keeps_inv [OF k2], of "i + 1" "acc @ [c]"] Suc.prems(2) c h Inr
          keeps_trans [OF k2]
        by (auto split: sum.splits)
    qed
  qed
qed

section \<open>Reception\<close>

text \<open>The ways in which reception may fail.\<close>

definition rx_ok :: "rtp_session \<Rightarrow> rtp_session res \<Rightarrow> bool" where
  "rx_ok s r \<longleftrightarrow> (case r of
      Inl f \<Rightarrow> f = NoReturn \<or> f = IntOverflow \<or> f = ListCorrupt
    | Inr s' \<Rightarrow> keeps s s')"

lemma rx_ok_simps [simp]:
  "rx_ok s (Inl f) \<longleftrightarrow> f = NoReturn \<or> f = IntOverflow \<or> f = ListCorrupt"
  "rx_ok s (Inr s') \<longleftrightarrow> keeps s s'"
  by (simp_all add: rx_ok_def)

lemma rx_ok_trans: "keeps s t \<Longrightarrow> rx_ok t r \<Longrightarrow> rx_ok s r"
  by (cases r) (auto intro: keeps_trans)

lemma keeps_calm: "keeps s t \<Longrightarrow> calm 0 t u \<Longrightarrow> keeps s u"
  by (rule keeps_trans [OF _ calm_keeps [OF keeps_inv]])

lemma keeps_wf: "keeps s t \<Longrightarrow> timer_wf (sess_tmr t)"
  by (rule sess_inv_wf [OF keeps_inv])

text \<open>The updates at the end of a reception.\<close>

lemma keeps_steps:
  assumes "keeps s t"
  shows "keeps s (t\<lparr>last_rtp_error := a\<rparr>)" "keeps s (t\<lparr>last_rtcp_error := b\<rparr>)"
    "keeps s (t\<lparr>invalid_rtp_pkt := n\<rparr>)" "keeps s (t\<lparr>invalid_rtcp_pkt := n\<rparr>)"
    "keeps s (emit e t)" "keeps s (upd_mem m (\<lambda>x. x\<lparr>rtp_src := g x\<rparr>) t)"
    "keeps s (upd_mem m rtp_member_set_validated t)"
  using keeps_calm [OF assms] calm_var [OF keeps_wf [OF assms]] calm_fields(1) [OF keeps_wf [OF assms]]
    calm_flag(4) [OF keeps_wf [OF assms]] by blast+

lemma rtp_rx_deliver_inv:
  assumes "sess_inv s" "12 + 4 * hdr_cc (pkt ! 0) \<le> length pkt"
  shows "rx_ok s (rtp_rx_deliver s pkt m payload plen seq ts arr from)"
proof (cases "sess_compute_jitter s m ts arr")
  case (Inl f)
  then show ?thesis using sess_compute_jitter_fails [OF Inl] by (simp add: rtp_rx_deliver_def)
next
  case (Inr s3)
  let ?s4 = "upd_mem m rtp_member_set_validated s3"
  have "0 < length pkt" using assms(2) by linarith
  then have b0: "rd8 pkt 0 = Inr (pkt ! 0)" by (rule rd8_ok)
  have k4: "keeps s ?s4"
    by (rule keeps_steps [OF calm_keeps [OF assms(1)
        sess_compute_jitter_calm [OF sess_inv_wf [OF assms(1)] Inr]]])
  have cs: "case rtp_rx_csrcs (hdr_cc (pkt ! 0)) 0 ?s4 pkt seq ts arr from [] of
      Inl f \<Rightarrow> f = NoReturn \<or> f = ListCorrupt \<or> f = IntOverflow | Inr (s', _) \<Rightarrow> keeps ?s4 s'"
    using assms(2) by (intro rtp_rx_csrcs_inv [OF keeps_inv [OF k4]]) simp
  show ?thesis
  proof (cases "rtp_rx_csrcs (hdr_cc (pkt ! 0)) 0 ?s4 pkt seq ts arr from []")
    case (Inl f)
    then show ?thesis using cs Inr b0 by (auto simp: rtp_rx_deliver_def)
  next
    case in5: (Inr y)
    then obtain s5 cl where y: "y = (s5, cl)" by (cases y) auto
    then have "keeps s s5" using cs in5 keeps_trans [OF k4] by simp
    then show ?thesis
      using Inr b0 in5 y by (simp add: rtp_rx_deliver_def Let_def keeps_steps)
  qed
qed

lemma rtp_rx_keeps:
  assumes "sess_inv s" "unat len = length pkt"
  shows "rx_ok s (rtp_rx s pkt len from)"
proof -
  obtain s0 arr where s0: "rtp_session_timestamp s = (s0, arr)" by fastforce
  have k0: "keeps s s0"
    using calm_keeps [OF assms(1) calm_var(8) [OF sess_inv_wf [OF assms(1)]]] s0 by simp
  show ?thesis
  proof (cases "rtp_well_formed pkt (c_pt (config s0))")
    case False
    then show ?thesis
      using header_check_value [OF assms(2), of "c_pt (config s0)" s0] k0
      by (auto simp: rtp_rx_def s0 keeps_steps)
  next
    case True
    then have len: "12 + 4 * hdr_cc (pkt ! 0) \<le> length pkt" by (simp add: rtp_well_formed_def)
    obtain ssrc seq ts where rd: "rd32 pkt 8 = Inr ssrc" "rd16 pkt 2 = Inr seq" "rd32 pkt 4 = Inr ts"
      using len by (simp add: rd32_ok rd16_ok)
    obtain plen where chk: "rtp_header_validity_check s0 pkt len (c_pt (config s0)) =
        Inr (s0, Some (12 + 4 * hdr_cc (pkt ! 0), plen))"
      using header_check_value [OF assms(2), of "c_pt (config s0)" s0] True by auto
    show ?thesis
    proof (cases "rtp_handle_ssrc s0 ssrc seq from False")
      case (Inl f)
      then show ?thesis
        using rtp_handle_ssrc_fails [OF keeps_inv [OF k0] Inl] chk rd by (auto simp: rtp_rx_def s0)
    next
      case (Inr x)
      then obtain s1 r where h: "rtp_handle_ssrc s0 ssrc seq from False = Inr (s1, r)" by (cases x) auto
      have k1: "keeps s s1" by (rule keeps_trans [OF k0 rtp_handle_ssrc_inv(1) [OF keeps_inv [OF k0] h]])
      note k2 = keeps_steps(6) [OF k1]
      show ?thesis
        using k1 k2 chk rd h rx_ok_trans [OF k2 rtp_rx_deliver_inv [OF keeps_inv [OF k2] len]]
        by (auto simp: rtp_rx_def s0 keeps_steps Let_def split: option.splits prod.splits)
    qed
  qed
qed

text \<open>
  C3: whatever datagram arrives, of whatever length and content, RTP reception reads nothing
  outside of it, writes nothing outside of its buffers and keeps the invariant of the session,
  unless it ends in one of three ways: no unused random SSRC is ever drawn, the transit time
  difference is exactly \<open>- 2 ^ 31\<close>, or the slot given to a new member still has a running timer.
\<close>

theorem rtp_rx_safe:
  assumes "sess_inv s" "unat len = length pkt"
  shows "case rtp_rx s pkt len from of
      Inl f \<Rightarrow> f = NoReturn \<or> f = IntOverflow \<or> f = ListCorrupt
    | Inr s' \<Rightarrow> sess_inv s' \<and>
        length (timeout_list (sess_tmr s')) \<le> length (timeout_list (sess_tmr s))"
  using rtp_rx_keeps [OF assms, of "from"] by (simp add: rx_ok_def keeps_def split: sum.splits)

end
