(* ===== verification/Rtcp_Inv.thy ===== *)
theory Rtcp_Inv
  imports Rtcp Rtp_Inv
begin

text \<open>
  RTCP reception keeps the invariant of the session; the faults it can run into, and the
  malformed packets that lead it there.
\<close>

section \<open>Outcomes of the steps\<close>

lemma outcome_keepsI:
  "sess_inv s \<Longrightarrow> outcome F (\<lambda>s'. calm 0 s s') r \<Longrightarrow> outcome F (keeps s) r"
  by (rule outcome_mono [of F "calm 0 s"]) (auto intro: calm_keeps)

lemma outcome_keeps_trans: "keeps s t \<Longrightarrow> outcome F (keeps t) r \<Longrightarrow> outcome F (keeps s) r"
  by (rule outcome_mono [of F "keeps t"]) (auto intro: keeps_trans)

lemma outcome_calm_trans: "calm 0 s t \<Longrightarrow> outcome F (calm \<delta> t) r \<Longrightarrow> outcome F (calm \<delta> s) r"
  by (rule outcome_mono [of F "calm \<delta> t"]) (auto intro: calm_trans0)

lemma outcome_member_start:
  "timer_wf (sess_tmr s) \<Longrightarrow> m \<in> set (active s) \<Longrightarrow> outcome F (calm 0 s) (rtp_timers_member_start s m)"
  by (rule outcomeI) (auto dest: timer_steps_total(3) calm_start_member)

lemma outcome_member_restart:
  "timer_wf (sess_tmr s) \<Longrightarrow> m \<in> set (active s) \<Longrightarrow> outcome F (calm 0 s) (rtp_timers_member_restart s m)"
  by (rule outcomeI) (auto dest: timer_steps_total(4) calm_restart_member)

lemma outcome_non_bye:
  "timer_wf (sess_tmr s) \<Longrightarrow>
   outcome F (calm (if fm then 1 else 0) s) (rtcp_interval_handle_rtcp_event s RxNonBye fs fm n)"
  using calm_rtcp_event [of s RxNonBye fs fm n]
  by (intro outcomeI) (auto simp: rtcp_interval_handle_rtcp_event_def Let_def)

section \<open>Sources\<close>

text \<open>A member that is returned has not said BYE.\<close>

definition ssrc_ok :: "rtp_session \<Rightarrow> rtp_session \<times> nat option \<Rightarrow> bool" where
  "ssrc_ok s x \<longleftrightarrow> keeps s (fst x) \<and> (\<forall>m. snd x = Some m \<longrightarrow> m \<in> set (active (fst x)))"

lemma ssrc_ok_simps [simp]:
  "ssrc_ok s (s', None) \<longleftrightarrow> keeps s s'"
  "ssrc_ok s (s', Some m) \<longleftrightarrow> keeps s s' \<and> m \<in> set (active s')"
  by (simp_all add: ssrc_ok_def)

lemma handle_rtcp_new:
  assumes "sess_inv s" "rtp_session_lookup_member s ssrc = None"
  shows "outcome {NoReturn, ListCorrupt} (ssrc_ok s) (rtcp_handle_ssrc s ssrc from n)"
proof -
  have inv: "sess_inv_at 0 {} s" using assms(1) by (simp add: sess_inv_def)
  note wf = sess_inv_wf [OF assms(1)]
  have lk: "rtp_member_table_lookup (member_table s) ssrc = None"
    using assms(2) by (simp add: rtp_session_lookup_member_def)
  show ?thesis
  proof (cases "rtp_session_alloc_member s ssrc")
    case (Inl f)
    then show ?thesis using alloc_member_fails [OF Inl] by (simp add: rtcp_handle_ssrc_def lk)
  next
    case (Inr x)
    then obtain s1 r where a: "rtp_session_alloc_member s ssrc = Inr (s1, r)" by (cases x) auto
    show ?thesis
    proof (cases r)
      case None
      then have "s1 = s" using a alloc_member_None by blast
      then show ?thesis
        using a None calm_keeps [OF assms(1) calm_var(2) [OF wf]]
        by (simp add: rtcp_handle_ssrc_def lk)
    next
      case (Some m)
      note al = alloc_inv [OF inv assms(2) a [unfolded Some]]
      let ?s2 = "upd_mem m (\<lambda>x. x\<lparr>m_rtcp_addr := from\<rparr>) s1"
      let ?s3 = "upd_mem m rtp_member_set_rtcp_heard ?s2"
      have wf1: "timer_wf (sess_tmr s1)" using al(3) wf by simp
      have c2: "calm 0 s1 ?s2" by (rule calm_fields(3) [OF wf1])
      have c3: "calm 0 s1 ?s3" by (rule calm_trans0 [OF c2 calm_flag(3) [OF calm_wf [OF c2]]])
      have "outcome {NoReturn, ListCorrupt} (ssrc_ok s)
        (bindE (rtcp_interval_handle_rtcp_event ?s3 RxNonBye False True n) (\<lambda>sess.
         bindE (rtp_timers_member_start sess m) (\<lambda>sess.
         Inr (sess\<lparr>last_rtcp_error := rtcp_rx_error_member_first_heard\<rparr>, Some m))))"
      proof (rule outcome_bind [OF outcome_non_bye [OF calm_wf [OF c3], of _ True False n]])
        fix s4 assume "calm (if True then 1 else 0) ?s3 s4"
        then have c4: "calm 1 s1 s4" using calm_trans0 [OF c3] by simp
        have act: "m \<in> set (active s4)" using al(2) calm_active [OF c4] by simp
        show "outcome {NoReturn, ListCorrupt} (ssrc_ok s)
          (bindE (rtp_timers_member_start s4 m) (\<lambda>sess.
           Inr (sess\<lparr>last_rtcp_error := rtcp_rx_error_member_first_heard\<rparr>, Some m)))"
        proof (rule outcome_bind [OF outcome_member_start [OF calm_wf [OF c4] act]])
          fix s5 assume c5: "calm 0 s4 s5"
          let ?s6 = "s5\<lparr>last_rtcp_error := rtcp_rx_error_member_first_heard\<rparr>"
          have c6: "calm 1 s1 ?s6"
            using calm_trans [OF calm_trans [OF c4 c5] calm_var(2) [OF calm_wf [OF c5]]] by simp
          have "sess_inv ?s6" using calm_inv [OF al(1) c6] by (simp add: sess_inv_def)
          moreover have "length (timeout_list (sess_tmr ?s6)) \<le> length (timeout_list (sess_tmr s))"
            using c6 al(3) by (simp add: calm_def)
          ultimately show "outcome {NoReturn, ListCorrupt} (ssrc_ok s) (Inr (?s6, Some m))"
            using al(2) calm_active [OF c6] by (simp add: keeps_def)
        qed
      qed
      then show ?thesis using a Some by (simp add: rtcp_handle_ssrc_def lk Let_def)
    qed
  qed
qed

lemma handle_own_conflict:
  assumes "sess_inv s" "m \<in> set (used s)"
  shows "outcome {NoReturn, ListCorrupt} (ssrc_ok s)
    (bindE (sess_conflict_lookup s from) (\<lambda>(sess, found).
      if found then
        Inr (sess\<lparr>last_rtcp_error := rtcp_rx_error_source_in_conflict_list\<rparr>, None)
      else
        bindE (sess_conflict_add sess from) (\<lambda>sess.
        bindE (sess_change_random_ssrc (rtcp_tx_bye sess) m) (\<lambda>sess.
        Inr ((rtp_session_reset_tx_stats sess)
               \<lparr>last_rtcp_error := rtcp_rx_error_ssrc_conflict\<rparr>, None)))))"
proof -
  have inv: "sess_inv_at 0 {} s" using assms(1) by (simp add: sess_inv_def)
  note wf = sess_inv_wf [OF assms(1)]
  obtain s1 found where s1: "sess_conflict_lookup s from = Inr (s1, found)"
    using sess_conflict_total(1) [OF wf] by (cases "sess_conflict_lookup s from") auto
  note l = sess_conflict_lookup_calm [OF inv s1]
  have k1: "keeps s s1" by (rule calm_keeps [OF assms(1) l(1)])
  show ?thesis
  proof (cases found)
    case True
    then show ?thesis using s1 keeps_steps(2) [OF k1] by simp
  next
    case False
    have i1: "sess_inv_at 0 {} s1" using keeps_inv [OF k1] by (simp add: sess_inv_def)
    obtain s2 where s2: "sess_conflict_add s1 from = Inr s2"
      using sess_conflict_total(2) [OF keeps_wf [OF k1]] by (cases "sess_conflict_add s1 from") auto
    have "from \<notin> conflict_addrs (src_conflict s1)" using l(2,3) False by simp
    note a = sess_conflict_add_inv [OF i1 this s2]
    have m: "m \<in> set (used s2)" using assms(2) calm_used [OF l(1)] a(2) by simp
    show ?thesis
    proof (cases "sess_change_random_ssrc s2 m")
      case (Inl f)
      then show ?thesis using s1 s2 False change_ssrc_fails [OF Inl] by (simp add: rtcp_tx_bye_def)
    next
      case (Inr s3)
      note ch = change_ssrc_inv [OF a(1) m Inr]
      have k3: "keeps s s3" using k1 a(3) ch by (simp add: keeps_def sess_inv_def)
      have "keeps s (rtp_session_reset_tx_stats s3)"
        by (rule keeps_calm [OF k3 calm_var(12) [OF keeps_wf [OF k3]]])
      from keeps_steps(2) [OF this] show ?thesis using s1 s2 False Inr by (simp add: rtcp_tx_bye_def)
    qed
  qed
qed

lemma sess_inv_slot_used:
  assumes "sess_inv s" "rtp_session_lookup_member s ssrc = Some m"
  shows "m \<in> set (used s)"
  using assms by (auto simp: rtp_session_lookup_member_def dest!: lookup_Some)

lemma handle_rtcp_known:
  assumes "sess_inv s" "rtp_session_lookup_member s ssrc = Some m"
  shows "outcome {NoReturn, ListCorrupt} (ssrc_ok s) (rtcp_handle_ssrc s ssrc from n)"
proof -
  note wf = sess_inv_wf [OF assms(1)]
  have lk: "rtp_member_table_lookup (member_table s) ssrc = Some m"
    using assms(2) by (simp add: rtp_session_lookup_member_def)
  note used = sess_inv_slot_used [OF assms]
  have err: "keeps s (s\<lparr>last_rtcp_error := e\<rparr>)" for e
    by (rule calm_keeps [OF assms(1) calm_var(2) [OF wf]])
  obtain me where me: "self s = Some me"
    using assms(1) by (auto simp: sess_inv_def sess_inv_at_def sess_shape_def)
  consider (bye) "rtp_member_is_bye_received (mem s m)"
    | (first) "m \<in> set (active s)" "\<not> rtp_member_is_bye_received (mem s m)"
        "\<not> rtp_member_is_self (mem s m)" "\<not> rtp_member_is_rtcp_heard (mem s m)"
    | (other) "m \<in> set (active s)" "\<not> rtp_member_is_bye_received (mem s m)"
        "rtp_member_is_self (mem s m) \<or> rtp_member_is_rtcp_heard (mem s m)"
        "m_rtcp_addr (mem s m) \<noteq> from"
    | (known) "m \<in> set (active s)" "\<not> rtp_member_is_bye_received (mem s m)"
        "rtp_member_is_self (mem s m) \<or> rtp_member_is_rtcp_heard (mem s m)"
        "m_rtcp_addr (mem s m) = from"
    using used by (fastforce simp: active_def bye_of_def)
  then show ?thesis
  proof cases
    case bye
    then show ?thesis using err by (simp add: rtcp_handle_ssrc_def lk)
  next
    case first
    let ?s2 = "upd_mem m (\<lambda>x. x\<lparr>m_rtcp_addr := from\<rparr>) s"
    let ?s3 = "upd_mem m rtp_member_set_rtcp_heard ?s2"
    have c2: "calm 0 s ?s2" by (rule calm_fields(3) [OF wf])
    have c3: "calm 0 s ?s3" by (rule calm_trans0 [OF c2 calm_flag(3) [OF calm_wf [OF c2]]])
    have act: "m \<in> set (active ?s3)" using first(1) calm_active [OF c3] by simp
    have "outcome {NoReturn, ListCorrupt} (ssrc_ok s) (bindE (rtp_timers_member_restart ?s3 m)
        (\<lambda>sess. Inr (sess\<lparr>last_rtcp_error := rtcp_rx_error_member_first_heard\<rparr>, Some m)))"
    proof (rule outcome_bind [OF outcome_member_restart [OF calm_wf [OF c3] act]])
      fix t assume c4: "calm 0 ?s3 t"
      have c5: "calm 0 s (t\<lparr>last_rtcp_error := rtcp_rx_error_member_first_heard\<rparr>)"
        by (rule calm_trans0 [OF calm_trans0 [OF c3 c4] calm_var(2) [OF calm_wf [OF c4]]])
      show "outcome {NoReturn, ListCorrupt} (ssrc_ok s)
          (Inr (t\<lparr>last_rtcp_error := rtcp_rx_error_member_first_heard\<rparr>, Some m))"
        using calm_keeps [OF assms(1) c5] calm_active [OF c5] first(1) by simp
    qed
    then show ?thesis using first by (simp add: rtcp_handle_ssrc_def lk Let_def)
  next
    case other
    then show ?thesis
      using err handle_own_conflict [OF assms(1) used, of "from"]
      by (auto simp: rtcp_handle_ssrc_def lk me)
  next
    case known
    let ?s2 = "upd_mem m rtp_member_set_rtcp_heard s"
    have c2: "calm 0 s ?s2" by (rule calm_flag(3) [OF wf])
    have act: "m \<in> set (active ?s2)" using known(1) calm_active [OF c2] by simp
    have "outcome {NoReturn, ListCorrupt} (ssrc_ok s) (bindE (rtp_timers_member_restart ?s2 m) (\<lambda>sess.
        bindE (rtcp_interval_handle_rtcp_event sess RxNonBye False False n) (\<lambda>sess.
        Inr (sess\<lparr>last_rtcp_error := rtcp_rx_error_no_error\<rparr>, Some m))))"
    proof (rule outcome_bind [OF outcome_member_restart [OF calm_wf [OF c2] act]])
      fix t assume c3: "calm 0 ?s2 t"
      show "outcome {NoReturn, ListCorrupt} (ssrc_ok s)
         (bindE (rtcp_interval_handle_rtcp_event t RxNonBye False False n) (\<lambda>sess.
          Inr (sess\<lparr>last_rtcp_error := rtcp_rx_error_no_error\<rparr>, Some m)))"
      proof (rule outcome_bind [OF outcome_non_bye [OF calm_wf [OF c3], of _ False False n]])
        fix u assume "calm (if False then 1 else 0) t u"
        then have c4: "calm 0 t u" by simp
        have c5: "calm 0 s (u\<lparr>last_rtcp_error := rtcp_rx_error_no_error\<rparr>)"
          by (rule calm_trans0 [OF calm_trans0 [OF calm_trans0 [OF c2 c3] c4] calm_var(2) [OF calm_wf [OF c4]]])
        show "outcome {NoReturn, ListCorrupt} (ssrc_ok s)
            (Inr (u\<lparr>last_rtcp_error := rtcp_rx_error_no_error\<rparr>, Some m))"
          using calm_keeps [OF assms(1) c5] calm_active [OF c5] known(1) by simp
      qed
    qed
    then show ?thesis using known by (auto simp: rtcp_handle_ssrc_def lk)
  qed
qed

lemma rtcp_handle_ssrc_ok:
  "sess_inv s \<Longrightarrow> outcome {NoReturn, ListCorrupt} (ssrc_ok s) (rtcp_handle_ssrc s ssrc from n)"
  by (cases "rtp_session_lookup_member s ssrc") (auto intro: handle_rtcp_new handle_rtcp_known)

section \<open>Handlers\<close>

text \<open>The faults of RTCP reception.\<close>

definition rtcp_faults :: "fault set" where
  "rtcp_faults = {NoReturn, ListCorrupt, OobRead, FpRange}"

lemma rtcp_faults_simps [simp]:
  "NoReturn \<in> rtcp_faults" "ListCorrupt \<in> rtcp_faults" "OobRead \<in> rtcp_faults" "FpRange \<in> rtcp_faults"
  by (simp_all add: rtcp_faults_def)

lemma handle_ssrc_then:
  assumes "sess_inv s"
    and "\<And>t. keeps s t \<Longrightarrow> outcome rtcp_faults (keeps s) (f (t, None))"
    and "\<And>t m. keeps s t \<Longrightarrow> m \<in> set (active t) \<Longrightarrow> outcome rtcp_faults (keeps s) (f (t, Some m))"
  shows "outcome rtcp_faults (keeps s) (bindE (rtcp_handle_ssrc s ssrc from n) f)"
proof (rule outcome_bind)
  show "outcome rtcp_faults (ssrc_ok s) (rtcp_handle_ssrc s ssrc from n)"
    by (rule outcome_mono [OF rtcp_handle_ssrc_ok [OF assms(1)]]) (auto simp: rtcp_faults_def)
  fix x assume "ssrc_ok s x"
  then show "outcome rtcp_faults (keeps s) (f x)"
    using assms(2,3) by (cases x; cases "snd x") auto
qed

lemma handle_rr_items_keeps: "keeps s t \<Longrightarrow> keeps s (handle_rr_items t ssrc first n)"
proof -
  have "keeps s t \<Longrightarrow> keeps s (fold (\<lambda>i sess. rtcp_handle_rr_item sess ssrc (first + 24 * i)) is t)" for "is"
    by (induction "is" arbitrary: t) (simp_all add: rtcp_handle_rr_item_def keeps_steps(5))
  then show "keeps s t \<Longrightarrow> ?thesis" by (simp add: handle_rr_items_def)
qed

text \<open>Reads of the packet, as they occur in the handlers.\<close>

lemma outcome_rd32: "(\<And>v. outcome rtcp_faults P (f v)) \<Longrightarrow> outcome rtcp_faults P (bindE (rd32 pkt i) f)"
  by (rule outcome_bind [where P = "\<lambda>_. True"]) simp_all

lemma outcome_rd8: "(\<And>v. outcome rtcp_faults P (f v)) \<Longrightarrow> outcome rtcp_faults P (bindE (rd8 pkt i) f)"
  by (rule outcome_bind [where P = "\<lambda>_. True"]) simp_all

lemma outcome_common:
  "(\<And>v. outcome rtcp_faults P (f v)) \<Longrightarrow> outcome rtcp_faults P (bindE (rtcp_count pkt i) f)"
  "(\<And>v. outcome rtcp_faults P (f v)) \<Longrightarrow> outcome rtcp_faults P (bindE (rtcp_length pkt i) f)"
  "(\<And>v. outcome rtcp_faults P (f v)) \<Longrightarrow> outcome rtcp_faults P (bindE (rtcp_length_raw pkt i) f)"
  by (simp_all add: rtcp_count_def rtcp_length_def rtcp_length_raw_def rd16_def bindE_assoc outcome_rd8)

lemma rtcp_handle_rr_keeps: "sess_inv s \<Longrightarrow> outcome rtcp_faults (keeps s) (rtcp_handle_rr s pkt r from n)"
  unfolding rtcp_handle_rr_def
  by (rule outcome_rd32) (rule handle_ssrc_then; simp add: outcome_common(1) handle_rr_items_keeps)

text \<open>The time of a sender report: the clock of the world shows less than a second of
  microseconds.\<close>

lemma ntp_now_keeps:
  assumes "keeps s t"
  shows "outcome rtcp_faults (\<lambda>x. keeps s (fst x)) (sess_ntp_ts_now t)"
proof -
  have k: "keeps s (fst (draw_time t))" by (rule keeps_calm [OF assms calm_var(10) [OF keeps_wf [OF assms]]])
  have "outcome rtcp_faults (\<lambda>_. True) (ntp_ts_now tv)" if "tv = snd (draw_time t)" for tv
    by (rule outcomeI) (auto simp: ntp_ts_now_def dest: from_unix_time_fails)
  with k show ?thesis
    by (cases "draw_time t") (auto simp: sess_ntp_ts_now_def intro!: outcome_bind [where P = "\<lambda>_. True"])
qed

lemma keeps_sr:
  assumes "keeps s t"
  shows "keeps s (upd_mem m (\<lambda>x. x\<lparr>last_sr := n, m_rtp_ts := ts, m_pkt_count := p, m_octet_count := q\<rparr>) t)"
    "keeps s (upd_mem m (\<lambda>x. x\<lparr>last_sr_local_time := n\<rparr>) t)"
  using keeps_calm [OF assms calm_fields(4) [OF keeps_wf [OF assms]]]
    keeps_calm [OF assms calm_fields(5) [OF keeps_wf [OF assms]]] by blast+

lemma rtcp_handle_sr_keeps: "sess_inv s \<Longrightarrow> outcome rtcp_faults (keeps s) (rtcp_handle_sr s pkt r from n)"
  unfolding rtcp_handle_sr_def
proof (rule outcome_rd32, erule handle_ssrc_then, goal_cases)
  case (2 v t m)
  show ?case
    by (simp add: Let_def)
      (intro outcome_rd32 outcome_bind [OF ntp_now_keeps] outcome_common keeps_sr 2;
        auto simp: 2 intro!: outcome_common(1) keeps_steps(5) handle_rr_items_keeps keeps_sr(2))
qed simp

text \<open>Replacing the content of a member's slot.\<close>

lemma calm_set_mem:
  assumes "timer_wf (sess_tmr s)" "m_ssrc y = m_ssrc (mem s m)" "length (cname y) = length (cname (mem s m))"
    "has_flag RTP_FLAG_BYE_RECEIVED y = has_flag RTP_FLAG_BYE_RECEIVED (mem s m)"
  shows "calm 0 s (upd_mem m (\<lambda>_. y) s)"
proof -
  let ?f = "\<lambda>z. if z = mem s m then y else z"
  have "calm 0 s (upd_mem m ?f s)" using assms by (intro calm_upd_mem) auto
  moreover have "upd_mem m ?f s = upd_mem m (\<lambda>_. y) s" by (simp add: upd_mem_def)
  ultimately show ?thesis by simp
qed

lemma set_cname_frame:
  assumes "rtp_member_set_cname x name len = Inr y"
  shows "m_ssrc y = m_ssrc x" "length (cname y) = length (cname x)" "has_flag k y = has_flag k x"
  using assms by (auto simp: rtp_member_set_cname_def Let_def res_iff has_flag_def split: if_splits)

lemma set_cname_fails:
  "length (cname x) = RTP_CONFIG_SDES_CNAME_MAX + 1 \<Longrightarrow> rtp_member_set_cname x name len = Inl f \<Longrightarrow> f = OobRead"
  by (auto simp: rtp_member_set_cname_def Let_def bindE_Inl_iff wr_def split: if_splits)

lemma sdes_cname_keeps:
  assumes "keeps s t" "\<And>j. m = Some j \<Longrightarrow> j < RTP_CONFIG_MAX_MEMBERS_PER_SESSION"
  shows "outcome rtcp_faults (keeps s) (sdes_cname t pkt m rsp type len)"
proof (cases m)
  case None
  then show ?thesis using assms by (simp add: sdes_cname_def)
next
  case (Some j)
  have inv: "sess_inv_at 0 {} t" using keeps_inv [OF assms(1)] by (simp add: sess_inv_def)
  have "mem t j \<in> set (member_array (member_table t))"
    using assms(2) [OF Some] sess_inv_atD(8) [OF inv] by (simp add: mem_def)
  then have l: "length (cname (mem t j)) = RTP_CONFIG_SDES_CNAME_MAX + 1"
    using sess_inv_atD(3) [OF inv] by (simp add: sess_shape_def)
  have "outcome rtcp_faults (keeps s) (bindE (rtp_member_set_cname (mem t j) (drop (rsp + 2) pkt) len)
      (\<lambda>x. Inr (upd_mem j (\<lambda>_. rtp_member_set_validated x) t)))"
  proof (rule outcome_bind [OF outcomeI])
    fix x assume "rtp_member_set_cname (mem t j) (drop (rsp + 2) pkt) len = Inr x"
    note f = set_cname_frame [OF this]
    have "calm 0 t (upd_mem j (\<lambda>_. rtp_member_set_validated x) t)"
      by (rule calm_set_mem [OF keeps_wf [OF assms(1)]]) (simp_all add: flag_simps f)
    then show "keeps s (upd_mem j (\<lambda>_. rtp_member_set_validated x) t)"
      by (rule keeps_calm [OF assms(1)])
  qed (auto dest: set_cname_fails [OF l])
  then show ?thesis using Some assms(1) by (simp add: sdes_cname_def)
qed

lemma sdes_items_keeps:
  "keeps s t \<Longrightarrow> (\<And>j. m = Some j \<Longrightarrow> j < RTP_CONFIG_MAX_MEMBERS_PER_SESSION) \<Longrightarrow>
   outcome rtcp_faults (\<lambda>x. keeps s (fst x)) (sdes_items t pkt m stop rsp)"
proof (induction t pkt m stop rsp rule: sdes_items.induct)
  case (1 t pkt m stop rsp)
  show ?case
  proof (cases "rsp < length pkt \<and> rsp + 1 < length pkt \<and> pkt ! rsp \<noteq> 0 \<and>
      rsp + unat (pkt ! (rsp + 1)) + 2 < stop")
    case True
    let ?next = "rsp + unat (pkt ! (rsp + 1)) + 2"
    have rd: "rd8 pkt rsp = Inr (pkt ! rsp)" "rd8 pkt (rsp + 1) = Inr (pkt ! (rsp + 1))"
      using True by simp_all
    have "outcome rtcp_faults (\<lambda>x. keeps s (fst x))
        (bindE (sdes_cname t pkt m rsp (pkt ! rsp) (pkt ! (rsp + 1))) (\<lambda>t. sdes_items t pkt m stop ?next))"
    proof (rule outcome_bind [OF outcome_conj [OF sdes_cname_keeps [OF 1(2,3)]]])
      let ?r = "sdes_cname t pkt m rsp (pkt ! rsp) (pkt ! (rsp + 1))"
      show "outcome rtcp_faults (\<lambda>u. ?r = Inr u) ?r"
        using outcome_Inl [OF sdes_cname_keeps [OF 1(2,3)]] by (intro outcomeI)
      fix u assume "keeps s u \<and> ?r = Inr u"
      with True rd show "outcome rtcp_faults (\<lambda>x. keeps s (fst x)) (sdes_items u pkt m stop ?next)"
        by (intro 1(1) [OF rd(1) _ rd(2) refl _ _ _ 1(3)]) simp_all
    qed
    with True rd show ?thesis by (subst sdes_items.simps) (simp add: Let_def not_le)
  next
    case False
    then show ?thesis
      using 1(2) by (subst sdes_items.simps) (auto simp: Let_def rd8_def not_less)
  qed
qed

lemma active_bound:
  assumes "sess_inv s" "m \<in> set (active s)"
  shows "m < RTP_CONFIG_MAX_MEMBERS_PER_SESSION"
proof -
  have inv: "sess_inv_at 0 {} s" using assms(1) by (simp add: sess_inv_def)
  show ?thesis using sess_inv_atD(7,8) [OF inv] assms(2) by (auto simp: active_def)
qed

lemma sdes_chunks_keeps:
  "sess_inv s \<Longrightarrow> outcome rtcp_faults (keeps s) (sdes_chunks k s pkt stop sd from n)"
proof (induction k arbitrary: s sd)
  case 0
  then show ?case by (simp add: keeps_def)
next
  case (Suc k)
  have step: "outcome rtcp_faults (keeps s) (bindE (sdes_items u pkt m stop rsp)
      (\<lambda>(sess, rsp). sdes_chunks k sess pkt stop (sd + 4 * ((rsp - sd) div 4 + 1)) from n))"
    if "keeps s u" "\<And>j. m = Some j \<Longrightarrow> j < RTP_CONFIG_MAX_MEMBERS_PER_SESSION" for u m rsp
    using outcome_keeps_trans [OF _ Suc.IH [OF keeps_inv]]
    by (intro outcome_bind [OF sdes_items_keeps [OF that]]) (auto split: prod.splits)
  show ?case
  proof (cases "sd + 4 < stop")
    case True
    have "outcome rtcp_faults (keeps s) (bindE (rd32 pkt sd) (\<lambda>src.
        bindE (rtcp_handle_ssrc s src from n) (\<lambda>(sess, m).
        bindE (sdes_items sess pkt m stop (sd + 4)) (\<lambda>(sess, rsp).
        sdes_chunks k sess pkt stop (sd + 4 * ((rsp - sd) div 4 + 1)) from n))))"
      using step active_bound keeps_inv
      by (intro outcome_rd32 handle_ssrc_then [OF Suc.prems]) fastforce+
    then show ?thesis using True by (simp add: Let_def not_le)
  next
    case False
    then show ?thesis using Suc.prems by (simp add: keeps_def)
  qed
qed

lemma rtcp_handle_sdes_keeps:
  "sess_inv s \<Longrightarrow> outcome rtcp_faults (keeps s) (rtcp_handle_sdes s pkt r from n)"
  unfolding rtcp_handle_sdes_def by (intro outcome_common sdes_chunks_keeps)

section \<open>BYE\<close>

lemma set_bye_inv:
  assumes "sess_inv_at d {} s" "m \<in> set (active s)"
  shows "sess_inv_at (d - 1) {m} (upd_mem m rtp_member_set_bye_received s)"
    "bye_of (upd_mem m rtp_member_set_bye_received s) m"
proof -
  let ?s' = "upd_mem m rtp_member_set_bye_received s"
  note inv = sess_inv_atD [OF assms(1)]
  have m: "m \<in> set (used s)" "\<not> bye_of s m" using assms(2) by (auto simp: active_def)
  have bye: "bye_of ?s' i \<longleftrightarrow> i = m \<or> bye_of s i" for i
    using inv(7) [OF m(1)] by (simp add: bye_of_def mem_upd_mem flag_simps)
  then show "bye_of ?s' m" by simp
  have u: "used ?s' = used s" by simp
  have act: "active ?s' = remove1 m (active s)"
    using inv(6) by (auto simp: active_def u bye distinct_remove1_removeAll removeAll_filter_not_eq
        intro!: filter_cong)
  have "length (active s) = Suc (length (active ?s'))"
    using length_pos_if_in_set [OF assms(2)] assms(2) by (simp add: act length_remove1)
  then have "of_nat (length (active ?s')) = (of_nat (length (active s)) :: u32) - 1" by simp
  moreover have "m_ssrc (mem ?s' i) = m_ssrc (mem s i)" for i by (simp add: mem_upd_mem flag_simps)
  then have "mt_wf (member_table ?s')"
    using inv(2) by (auto simp: mt_wf_def mt_slots_def ssrcs_def mem_def)
  moreover have "sess_shape ?s'" by (rule shape_upd_mem [OF _ inv(3)]) (simp add: flag_simps)
  ultimately show "sess_inv_at (d - 1) {m} ?s'"
    using assms(1) inv(6) by (auto simp: sess_inv_at_def act bye u algebra_simps)
qed

lemma leave_start_inv:
  assumes "sess_inv_at d {m} s" "m \<in> set (used s)" "bye_of s m" "\<not> te_running s (MemberTe m)"
    "rtp_timers_leave_start s m = Inr s'"
  shows "sess_inv_at d {} s'" "length (timeout_list (sess_tmr s')) = length (timeout_list (sess_tmr s))"
proof -
  note inv = sess_inv_atD [OF assms(1)]
  obtain t where t: "soft_timer_add (sess_tmr s) (LeaveTe m) RTP_CONFIG_LEAVE_TIMEOUT = Inr t"
    and s': "s' = s\<lparr>sess_tmr := t\<rparr>"
    using assms(5) by (auto simp: rtp_timers_leave_start_def start_te_def res_iff)
  note run = soft_timer_add_running [OF inv(1) t]
  have "bye_of s' = bye_of s" by (simp add: fun_eq_iff bye_of_def mem_def s')
  moreover from this have "active s' = active s" by (simp add: active_def s')
  moreover have "conflict_wf t (src_conflict s)" by (rule conflict_wf_cong [OF inv(4)]) (simp add: run)
  ultimately show "sess_inv_at d {} s'"
    using assms(1-4) soft_timer_add_wf [OF inv(1) t]
    by (auto simp: sess_inv_at_def s' run sess_shape_def)
  show "length (timeout_list (sess_tmr s')) = length (timeout_list (sess_tmr s))"
    using soft_timer_add_frame [OF t] by (simp add: s')
qed

lemma bye_member_keeps:
  assumes "sess_inv s" "m \<in> set (active s)"
  shows "outcome rtcp_faults (keeps s) (bye_member s m n)"
proof -
  have inv: "sess_inv_at 0 {} s" using assms(1) by (simp add: sess_inv_def)
  note wf = sess_inv_wf [OF assms(1)]
  let ?ev = "\<lambda>fs. rtcp_interval_handle_rtcp_event s RxBye fs True n"
  let ?rest = "\<lambda>t. rtp_timers_leave_start (rtp_timers_member_stop (rtp_timers_sender_stop
    (upd_mem m rtp_member_set_bye_received t) m) m) m"
  have ev: "outcome rtcp_faults (calm (- 1) s) (?ev fs)" for fs
    using calm_rtcp_event [OF wf, of RxBye fs True n] rtcp_event_fails [OF wf, of RxBye fs True n]
    by (auto intro!: outcomeI)
  have rest: "outcome rtcp_faults (keeps s) (?rest t)" if c: "calm (- 1) s t" for t
  proof -
    let ?t1 = "upd_mem m rtp_member_set_bye_received t"
    let ?t2 = "rtp_timers_sender_stop ?t1 m"
    let ?t3 = "rtp_timers_member_stop ?t2 m"
    have i: "sess_inv_at 1 {} t" using calm_inv [OF inv c] by simp
    have m: "m \<in> set (active t)" using assms(2) calm_active [OF c] by simp
    have b: "sess_inv_at 0 {m} ?t1" "bye_of ?t1 m" using set_bye_inv [OF i m] by simp_all
    have c2: "calm 0 ?t1 ?t2"
      unfolding rtp_timers_sender_stop_def by (rule calm_stop [OF sess_inv_atD(1) [OF b(1)]]) simp
    have c3: "calm 0 ?t2 ?t3"
      unfolding rtp_timers_member_stop_def by (rule calm_stop [OF calm_wf [OF c2]]) simp
    have c13: "calm 0 ?t1 ?t3" by (rule calm_trans0 [OF c2 c3])
    have i3: "sess_inv_at 0 {m} ?t3" by (rule calm_inv0 [OF b(1) c13])
    have "m \<in> set (used ?t3)" using m calm_used [OF c13] by (simp add: active_def)
    moreover have "bye_of ?t3 m" using b(2) c13 by (simp add: calm_def)
    moreover have "\<not> te_running ?t3 (MemberTe m)"
      by (simp add: rtp_timers_member_stop_def stop_te_def soft_timer_del_running [OF calm_wf [OF c2]])
    ultimately have l: "sess_inv u" "length (timeout_list (sess_tmr u)) = length (timeout_list (sess_tmr ?t3))"
      if "rtp_timers_leave_start ?t3 m = Inr u" for u
      using leave_start_inv [OF i3 _ _ _ that] by (simp_all add: sess_inv_def)
    have "length (timeout_list (sess_tmr ?t3)) \<le> length (timeout_list (sess_tmr s))"
      using c c13 by (simp add: calm_def)
    with l timer_steps_total(5) [OF calm_wf [OF c3]] show ?thesis
      by (intro outcomeI) (auto simp: keeps_def)
  qed
  have "outcome rtcp_faults (keeps s) (bindE (?ev fs) ?rest)" for fs
    by (rule outcome_bind [OF ev rest])
  then show ?thesis by (simp add: bye_member_def Let_def)
qed

lemma bye_sources_keeps: "sess_inv s \<Longrightarrow> outcome rtcp_faults (keeps s) (bye_sources k i s pkt r n)"
proof (induction k arbitrary: i s)
  case 0
  then show ?case by (simp add: keeps_def)
next
  case (Suc k)
  have one: "outcome rtcp_faults (keeps s) (case rtp_session_lookup_member s src of
        None \<Rightarrow> Inr s
      | Some m \<Rightarrow> if rtp_member_is_bye_received (mem s m) then Inr s else bye_member s m n)" for src
    using Suc.prems sess_inv_slot_used [OF Suc.prems] bye_member_keeps [OF Suc.prems]
    by (auto simp: keeps_def active_def bye_of_def split: option.splits)
  show ?case
    unfolding bye_sources.simps
    by (intro outcome_rd32 outcome_bind [OF one] outcome_keeps_trans [OF _ Suc.IH [OF keeps_inv]])
qed

section \<open>Reception\<close>

lemma handle_packet_keeps: "sess_inv s \<Longrightarrow> outcome rtcp_faults (keeps s) (rtcp_handle_packet s pkt r from n)"
  unfolding rtcp_handle_packet_def
  by (rule outcome_rd8)
    (auto simp: keeps_def [of s s] rtcp_handle_bye_def intro!: rtcp_handle_sr_keeps rtcp_handle_rr_keeps
      rtcp_handle_sdes_keeps outcome_common(1) bye_sources_keeps)

lemma rtcp_rx_loop_keeps: "sess_inv s \<Longrightarrow> outcome rtcp_faults (keeps s) (rtcp_rx_loop s pkt l4 r from n)"
proof (induction s pkt l4 r "from" n rule: rtcp_rx_loop.induct)
  case (1 s pkt l4 r "from" n)
  show ?case
  proof (cases "r < l4")
    case True
    let ?r = "rtcp_handle_packet s pkt (4 * r) from n"
    have h: "outcome rtcp_faults (keeps s) ?r" by (rule handle_packet_keeps [OF 1(2)])
    have "outcome rtcp_faults (\<lambda>u. keeps s u \<and> ?r = Inr u) ?r"
      by (rule outcome_conj [OF h]) (cases ?r; use h in simp)
    then have "outcome rtcp_faults (keeps s) (bindE ?r (\<lambda>sess.
        bindE (rtcp_length pkt (4 * r)) (\<lambda>l. rtcp_rx_loop sess pkt l4 (r + (l + 1)) from n)))"
    proof (rule outcome_bind)
      fix u assume u: "keeps s u \<and> ?r = Inr u"
      show "outcome rtcp_faults (keeps s)
          (bindE (rtcp_length pkt (4 * r)) (\<lambda>l. rtcp_rx_loop u pkt l4 (r + (l + 1)) from n))"
      proof (cases "rtcp_length pkt (4 * r)")
        case (Inl f)
        then show ?thesis using outcome_common(2) [of "\<lambda>_. True" "\<lambda>_. Inr ()" pkt "4 * r"] by simp
      next
        case (Inr l)
        from u have "outcome rtcp_faults (keeps u) (rtcp_rx_loop u pkt l4 (r + (l + 1)) from n)"
          by (intro 1(1) [OF True _ Inr]) (auto simp: keeps_def)
        with u Inr show ?thesis by (auto intro: outcome_keeps_trans)
      qed
    qed
    with True show ?thesis by (subst rtcp_rx_loop.simps) simp
  next
    case False
    then show ?thesis using 1(2) by (subst rtcp_rx_loop.simps) (simp add: keeps_def)
  qed
qed

section \<open>Compound packets\<close>

text \<open>One packet of a compound packet: version 2, and as long as its length field says.\<close>

definition rtcp_sized :: "u8 list \<Rightarrow> bool" where
  "rtcp_sized p \<longleftrightarrow> 4 \<le> length p \<and> length p = 4 * (unat (be16 (p ! 2) (p ! 3)) + 1)"

definition rtcp_unit :: "u8 list \<Rightarrow> bool" where
  "rtcp_unit p \<longleftrightarrow> rtcp_sized p \<and> unat (drop_bit 6 (p ! 0)) = 2"

text \<open>A compound packet: a sequence of such packets, the first of which is a report without
  padding.\<close>

definition rtcp_compound :: "u8 list \<Rightarrow> bool" where
  "rtcp_compound pkt \<longleftrightarrow>
     (\<exists>p ps. pkt = p @ concat ps \<and> rtcp_sized p \<and> (\<forall>q \<in> set ps. rtcp_unit q) \<and>
        p ! 0 AND 0xE0 = 0x80 \<and> p ! 1 AND 0xFE = RTCP_SR)"

text \<open>The length field of the packet at a position, and the packet itself.\<close>

lemma rtcp_length_at:
  "i + 3 < length pkt \<Longrightarrow> rtcp_length pkt i = Inr (unat (be16 (pkt ! (i + 2)) (pkt ! (i + 3))))"
  by (simp add: rtcp_length_def rd16_ok numeral_3_eq_3)

lemma sized_prefix:
  assumes "drop i pkt = p @ xs" "rtcp_sized p"
  shows "rtcp_length pkt i = Inr (unat (be16 (p ! 2) (p ! 3)))"
    "drop (i + 4 * (unat (be16 (p ! 2) (p ! 3)) + 1)) pkt = xs"
    "pkt ! i = p ! 0" "i < length pkt" "pkt ! (i + 1) = p ! 1"
proof -
  have len: "4 \<le> length p" "length p = 4 * (unat (be16 (p ! 2) (p ! 3)) + 1)"
    using assms(2) by (simp_all add: rtcp_sized_def)
  have i: "i + 3 < length pkt" using arg_cong [OF assms(1), of length] len(1) by simp
  have at: "pkt ! (i + j) = p ! j" if "j < 4" for j
  proof -
    have "pkt ! (i + j) = drop i pkt ! j" using i that by simp
    then show ?thesis using that len(1) by (simp add: assms(1) nth_append)
  qed
  show "rtcp_length pkt i = Inr (unat (be16 (p ! 2) (p ! 3)))"
    using at [of 2] at [of 3] by (simp add: rtcp_length_at [OF i])
  show "pkt ! i = p ! 0" "pkt ! (i + 1) = p ! 1" using at [of 0] at [of 1] by simp_all
  show "i < length pkt" using i by simp
  have "drop (i + length p) pkt = drop (length p) (drop i pkt)" by (simp add: add.commute)
  then show "drop (i + 4 * (unat (be16 (p ! 2) (p ! 3)) + 1)) pkt = xs"
    using assms(1) by (simp only: len(2) [symmetric] append_eq_conv_conj) simp
qed

text \<open>\<open>units_at\<close>: from a position on, the datagram is a sequence of packets; \<open>group_at\<close>: the same
  but for the version of the first one, which the loop has looked at before.\<close>

definition units_at :: "u8 list \<Rightarrow> nat \<Rightarrow> bool" where
  "units_at pkt i \<longleftrightarrow> (\<exists>ps. drop i pkt = concat ps \<and> (\<forall>q \<in> set ps. rtcp_unit q))"

definition group_at :: "u8 list \<Rightarrow> nat \<Rightarrow> bool" where
  "group_at pkt i \<longleftrightarrow>
     (\<exists>p ps. drop i pkt = p @ concat ps \<and> rtcp_sized p \<and> (\<forall>q \<in> set ps. rtcp_unit q))"

lemma group_at_next:
  assumes "i + 3 < length pkt" "rtcp_length pkt i = Inr l"
  shows "group_at pkt i \<longleftrightarrow> i + 4 * (l + 1) \<le> length pkt \<and> units_at pkt (i + 4 * (l + 1))"
proof
  assume "group_at pkt i"
  then obtain p ps where p: "drop i pkt = p @ concat ps" "rtcp_sized p" "\<forall>q \<in> set ps. rtcp_unit q"
    by (auto simp: group_at_def)
  note f = sized_prefix [OF p(1,2)]
  have l: "l = unat (be16 (p ! 2) (p ! 3))" using f(1) assms(2) by simp
  have "length (drop i pkt) = 4 * (l + 1) + length (concat ps)"
    using p(2) by (simp only: p(1) length_append rtcp_sized_def l)
  then have "i + 4 * (l + 1) \<le> length pkt" using assms(1) by simp
  moreover have "units_at pkt (i + 4 * (l + 1))"
    unfolding units_at_def using f(2) p(3) l by blast
  ultimately show "i + 4 * (l + 1) \<le> length pkt \<and> units_at pkt (i + 4 * (l + 1))" ..
next
  assume r: "i + 4 * (l + 1) \<le> length pkt \<and> units_at pkt (i + 4 * (l + 1))"
  then obtain ps where ps: "drop (i + 4 * (l + 1)) pkt = concat ps" "\<forall>q \<in> set ps. rtcp_unit q"
    by (auto simp: units_at_def)
  let ?p = "take (4 * (l + 1)) (drop i pkt)"
  have l: "l = unat (be16 (pkt ! (i + 2)) (pkt ! (i + 3)))"
    using assms(2) rtcp_length_at [OF assms(1)] by simp
  have "?p ! 2 = pkt ! (i + 2)" "?p ! 3 = pkt ! (i + 3)" using r by simp_all
  moreover have "length ?p = 4 * (l + 1)" using r by auto
  ultimately have "rtcp_sized ?p" by (simp only: rtcp_sized_def l) simp
  moreover have "drop i pkt = ?p @ drop (4 * (l + 1)) (drop i pkt)" by (rule append_take_drop_id [symmetric])
  then have "drop i pkt = ?p @ concat ps" using ps(1) by (simp add: add.commute)
  ultimately show "group_at pkt i" using ps(2) unfolding group_at_def by blast
qed

lemma units_at_end: "length pkt \<le> i \<Longrightarrow> units_at pkt i"
  by (auto simp: units_at_def intro!: exI [of _ "[]"])

lemma units_at_group:
  assumes "i < length pkt"
  shows "units_at pkt i \<longleftrightarrow> unat (drop_bit 6 (pkt ! i)) = 2 \<and> group_at pkt i"
proof
  assume "units_at pkt i"
  then obtain ps where ps: "drop i pkt = concat ps" "\<forall>q \<in> set ps. rtcp_unit q" by (auto simp: units_at_def)
  moreover have "drop i pkt \<noteq> []" using assms by simp
  ultimately obtain p qs where q: "ps = p # qs" by (cases ps) auto
  then have "drop i pkt = p @ concat qs" "rtcp_sized p" "unat (drop_bit 6 (p ! 0)) = 2"
    using ps by (simp_all add: rtcp_unit_def)
  with sized_prefix(3) [OF this(1,2)] ps(2) q
  show "unat (drop_bit 6 (pkt ! i)) = 2 \<and> group_at pkt i" by (auto simp: group_at_def)
next
  assume v: "unat (drop_bit 6 (pkt ! i)) = 2 \<and> group_at pkt i"
  then obtain p ps where p: "drop i pkt = p @ concat ps" "rtcp_sized p" "\<forall>q \<in> set ps. rtcp_unit q"
    by (auto simp: group_at_def)
  then have "rtcp_unit p" using v sized_prefix(3) [OF p(1,2)] by (simp add: rtcp_unit_def)
  then show "units_at pkt i" using p unfolding units_at_def by (intro exI [of _ "p # ps"]) simp
qed

lemma check_loop_compound:
  "length pkt = 4 * l4 \<Longrightarrow> r < l4 \<Longrightarrow>
   \<exists>e. rtcp_check_loop pkt l4 r = Inr e \<and> (e = l4 \<longleftrightarrow> group_at pkt (4 * r))"
proof (induction pkt l4 r rule: rtcp_check_loop.induct)
  case (1 pkt l4 r)
  have i: "4 * r + 3 < length pkt" using 1(2,3) by simp
  obtain l where len: "rtcp_length pkt (4 * r) = Inr l" using rtcp_length_at [OF i] by blast
  let ?n = "r + l + 1"
  have g: "group_at pkt (4 * r) \<longleftrightarrow> ?n \<le> l4 \<and> units_at pkt (4 * ?n)"
  proof -
    have "4 * r + 4 * (l + 1) = 4 * ?n" by simp
    moreover have "4 * ?n \<le> length pkt \<longleftrightarrow> ?n \<le> l4" using 1(2) by auto
    ultimately show ?thesis using group_at_next [OF i len] by (simp only:)
  qed
  show ?case
  proof (cases "?n < l4")
    case False
    then have "rtcp_check_loop pkt l4 r = Inr ?n"
      by (subst rtcp_check_loop.simps) (simp add: len Let_def)
    then show ?thesis using False g 1(2) units_at_end [of pkt "4 * ?n"] by auto
  next
    case True
    then have n: "4 * ?n < length pkt" using 1(2) by simp
    let ?v = "unat (drop_bit 6 (pkt ! (4 * ?n)))"
    have v: "rtcp_version pkt (4 * ?n) = Inr ?v" using n by (simp add: rtcp_version_def)
    have e: "rtcp_check_loop pkt l4 r = (if ?v = 2 then rtcp_check_loop pkt l4 ?n else Inr ?n)"
      using True v by (subst rtcp_check_loop.simps) (simp add: len Let_def)
    have g': "group_at pkt (4 * r) \<longleftrightarrow> ?v = 2 \<and> group_at pkt (4 * ?n)"
      using g True units_at_group [OF n] by simp
    show ?thesis
    proof (cases "?v = 2")
      case ok: True
      from 1(1) [OF len refl True v ok 1(2) True] show ?thesis using e g' ok by simp
    next
      case False
      then show ?thesis using e g' True by simp
    qed
  qed
qed

lemma check_pkt_value:
  assumes "unat len = length pkt"
  shows "if 4 dvd length pkt \<and> rtcp_compound pkt
    then rtcp_check_pkt s pkt len = Inr (s\<lparr>last_rtcp_error := rtcp_rx_error_no_error\<rparr>, True)
    else \<exists>e. e \<noteq> rtcp_rx_error_no_error \<and> rtcp_check_pkt s pkt len = Inr (s\<lparr>last_rtcp_error := e\<rparr>, False)"
proof (cases "4 \<le> length pkt \<and> 4 dvd length pkt")
  case False
  then have "\<not> (4 dvd length pkt \<and> rtcp_compound pkt)"
    by (auto simp: rtcp_compound_def rtcp_sized_def)
  then show ?thesis
    using False assms by (auto simp: rtcp_check_pkt_def Let_def dvd_eq_mod_eq_0)
next
  case True
  define l4 where "l4 = length pkt div 4"
  have l4: "length pkt = 4 * l4" "0 < l4" using True by (auto simp: l4_def)
  have rd: "rd8 pkt 0 = Inr (pkt ! 0)" "rd8 pkt 1 = Inr (pkt ! 1)" using l4 by simp_all
  obtain e where e: "rtcp_check_loop pkt l4 0 = Inr e" "e = l4 \<longleftrightarrow> group_at pkt 0"
    using check_loop_compound [OF l4] by auto
  have "rtcp_compound pkt \<longleftrightarrow> group_at pkt 0 \<and> pkt ! 0 AND 0xE0 = 0x80 \<and> pkt ! 1 AND 0xFE = RTCP_SR"
  proof -
    have "p ! 0 = pkt ! 0 \<and> p ! 1 = pkt ! 1" if "pkt = p @ concat ps" "rtcp_sized p" for p ps
      using sized_prefix(3,5) [of 0 pkt p "concat ps"] that by simp
    then show ?thesis unfolding rtcp_compound_def group_at_def by (simp only: drop_0) metis
  qed
  then show ?thesis
    using True assms l4 rd e by (auto simp: rtcp_check_pkt_def Let_def)
qed

text \<open>
  C13: the check reads nothing outside of the datagram and accepts exactly the compound
  packets: sequences of version 2 packets that fill the datagram, the first one a sender or
  receiver report without padding.
\<close>

theorem rtcp_check_correct:
  assumes "unat len = length pkt"
  shows "if 4 dvd length pkt \<and> rtcp_compound pkt
    then rtcp_check_pkt s pkt len = Inr (s\<lparr>last_rtcp_error := rtcp_rx_error_no_error\<rparr>, True)
    else \<exists>e. e \<noteq> rtcp_rx_error_no_error \<and> rtcp_check_pkt s pkt len = Inr (s\<lparr>last_rtcp_error := e\<rparr>, False)"
  by (rule check_pkt_value [OF assms])

text \<open>The packets of a compound packet, handled one after the other; \<open>i\<close> is the position of the
  first one in the datagram.\<close>

fun handle_units ::
  "rtp_session \<Rightarrow> u8 list \<Rightarrow> nat \<Rightarrow> u8 list list \<Rightarrow> sockaddr_in \<Rightarrow> u32 \<Rightarrow> rtp_session res" where
  "handle_units s pkt i [] from n = Inr s"
| "handle_units s pkt i (p # ps) from n =
     bindE (rtcp_handle_packet s pkt i from n) (\<lambda>s. handle_units s pkt (i + length p) ps from n)"

lemma rx_loop_units:
  "length pkt = 4 * l4 \<Longrightarrow> drop (4 * r) pkt = concat ps \<Longrightarrow> (\<forall>p \<in> set ps. rtcp_sized p) \<Longrightarrow> r \<le> l4 \<Longrightarrow>
   rtcp_rx_loop s pkt l4 r from n = handle_units s pkt (4 * r) ps from n"
proof (induction ps arbitrary: s r)
  case Nil
  then have "\<not> r < l4" by simp
  then show ?case by (subst rtcp_rx_loop.simps) simp
next
  case (Cons p ps)
  let ?l = "unat (be16 (p ! 2) (p ! 3))"
  have d: "drop (4 * r) pkt = p @ concat ps" "rtcp_sized p" using Cons.prems(2,3) by simp_all
  note f = sized_prefix [OF d]
  have lp: "length p = 4 * (?l + 1)" using d(2) by (simp add: rtcp_sized_def)
  have pos: "4 * (r + (?l + 1)) = 4 * r + length p" by (simp add: lp)
  have r: "r < l4" using f(4) Cons.prems(1) by simp
  have "length pkt = 4 * r + length (drop (4 * r) pkt)" using f(4) by simp
  also have "\<dots> = 4 * r + (length p + length (concat ps))" by (simp only: d(1) length_append)
  finally have "r + (k + 1) \<le> l4" if "length p = 4 * (k + 1)" for k
    using Cons.prems(1) that by simp
  from this [OF lp] have le: "r + (?l + 1) \<le> l4" .
  have next_: "drop (4 * (r + (?l + 1))) pkt = concat ps" using f(2) by (simp only: pos lp)
  have "rtcp_rx_loop u pkt l4 (r + (?l + 1)) from n = handle_units u pkt (4 * r + length p) ps from n" for u
    using Cons.IH [OF Cons.prems(1) next_ _ le, of u] Cons.prems(3) by (simp only: pos) simp
  then show ?case
    using r f(1) by (subst rtcp_rx_loop.simps) simp
qed

lemma sized_dvd: "\<forall>q \<in> set ps. rtcp_sized q \<Longrightarrow> 4 dvd length (concat ps)"
  by (induction ps) (auto simp: rtcp_sized_def)

text \<open>
  C20: a compound packet is taken apart as it was put together: each of its packets is handled
  once, in order, at its own position; a datagram that is no compound packet only counts as
  invalid.
\<close>

theorem rtcp_rx_visits:
  assumes "unat len = length pkt"
  shows "(\<forall>p ps. pkt = p @ concat ps \<and> rtcp_sized p \<and> (\<forall>q \<in> set ps. rtcp_unit q) \<and>
        p ! 0 AND 0xE0 = 0x80 \<and> p ! 1 AND 0xFE = RTCP_SR \<longrightarrow>
      rtcp_rx s pkt len from =
        handle_units (s\<lparr>last_rtcp_error := rtcp_rx_error_no_error\<rparr>) pkt 0 (p # ps) from len) \<and>
    (\<not> rtcp_compound pkt \<longrightarrow> (\<exists>e. rtcp_rx s pkt len from =
        Inr (s\<lparr>last_rtcp_error := e, invalid_rtcp_pkt := invalid_rtcp_pkt s + 1\<rparr>)))"
proof (intro conjI allI impI, elim conjE)
  fix p ps
  assume p: "pkt = p @ concat ps" "rtcp_sized p" "\<forall>q \<in> set ps. rtcp_unit q" "p ! 0 AND 0xE0 = 0x80"
    "p ! 1 AND 0xFE = RTCP_SR"
  have sized: "\<forall>q \<in> set (p # ps). rtcp_sized q" using p(2,3) by (simp add: rtcp_unit_def)
  have "4 dvd length (concat (p # ps))" by (rule sized_dvd [OF sized])
  then obtain l4 where l4: "length pkt = 4 * l4" using p(1) by (auto elim: dvdE)
  have "rtcp_compound pkt" using p unfolding rtcp_compound_def by blast
  then have "rtcp_check_pkt s pkt len = Inr (s\<lparr>last_rtcp_error := rtcp_rx_error_no_error\<rparr>, True)"
    using check_pkt_value [OF assms, of s] l4 by simp
  moreover have "rtcp_rx_loop u pkt l4 0 from len = handle_units u pkt 0 (p # ps) from len" for u
    using rx_loop_units [OF l4 _ sized, of 0 u "from" len] p(1) by simp
  ultimately show "rtcp_rx s pkt len from =
      handle_units (s\<lparr>last_rtcp_error := rtcp_rx_error_no_error\<rparr>) pkt 0 (p # ps) from len"
    using l4 by (simp add: rtcp_rx_def assms)
next
  assume "\<not> rtcp_compound pkt"
  then obtain e where "rtcp_check_pkt s pkt len = Inr (s\<lparr>last_rtcp_error := e\<rparr>, False)"
    using check_pkt_value [OF assms, of s] by auto
  then show "\<exists>e. rtcp_rx s pkt len from =
      Inr (s\<lparr>last_rtcp_error := e, invalid_rtcp_pkt := invalid_rtcp_pkt s + 1\<rparr>)"
    by (auto simp: rtcp_rx_def)
qed

lemma rtcp_rx_keeps:
  assumes "sess_inv s" "unat len = length pkt"
  shows "outcome rtcp_faults (keeps s) (rtcp_rx s pkt len from)"
proof -
  obtain e b where c: "rtcp_check_pkt s pkt len = Inr (s\<lparr>last_rtcp_error := e\<rparr>, b)"
    using check_pkt_value [OF assms(2), of s] by (auto split: if_splits)
  have k: "keeps s (s\<lparr>last_rtcp_error := e\<rparr>)"
    by (rule calm_keeps [OF assms(1) calm_var(2) [OF sess_inv_wf [OF assms(1)]]])
  show ?thesis
    using c k keeps_steps(4) [OF k] outcome_keeps_trans [OF k rtcp_rx_loop_keeps [OF keeps_inv [OF k]]]
    by (simp add: rtcp_rx_def)
qed

text \<open>
  C2: whatever datagram arrives, RTCP reception keeps the invariant of the session; it fails
  only by reading past the end of the datagram, which malformed packets make it do, by a clock
  value or a timer delay that no integer holds, when no unused random SSRC is ever drawn, or
  when the slot given to a new member still has a running timer.
\<close>

theorem rtcp_rx_safe:
  assumes "sess_inv s" "unat len = length pkt"
  shows "case rtcp_rx s pkt len from of
      Inl f \<Rightarrow> f = OobRead \<or> f = FpRange \<or> f = NoReturn \<or> f = ListCorrupt
    | Inr s' \<Rightarrow> sess_inv s' \<and>
        length (timeout_list (sess_tmr s')) \<le> length (timeout_list (sess_tmr s))"
  using rtcp_rx_keeps [OF assms, of "from"] by (auto simp: outcome_def keeps_def rtcp_faults_def split: sum.splits)

text \<open>
  The counts and lengths inside of a packet are trusted: a sender report of one word is a
  valid compound packet, and reception reads past its end.
\<close>

lemma short_sr_read: "rtcp_rx s [0x80, 200, 0, 0] 4 from = Inl OobRead"
proof -
  have "rtcp_check_pkt s [0x80, 200, 0, 0] 4 = Inr (s\<lparr>last_rtcp_error := rtcp_rx_error_no_error\<rparr>, True)"
    by (simp add: rtcp_check_pkt_def rtcp_check_loop.simps rtcp_length_def rd16_def rd8_def be16_def RTCP_SR_def)
  moreover have "rtcp_handle_packet u [0x80, 200, 0, 0] 0 from 4 = Inl OobRead" for u
    by (simp add: rtcp_handle_packet_def rtcp_handle_sr_def rd32_def rd8_def RTCP_SR_def)
  ultimately show ?thesis by (simp add: rtcp_rx_def rtcp_rx_loop.simps)
qed

end
