(* ===== verification/Report_Inv.thy ===== *)
theory Report_Inv
  imports Rtcp_Report Rtcp_Inv
begin

text \<open>
  RTCP reports: what a report says about each member, what the whole packet is, that every
  receiver accepts it, and that the timeout of the interval keeps the invariant of the session.
\<close>

section \<open>The loop over the members\<close>

text \<open>The loop as a recursion over the list of members.\<close>

fun report_list ::
  "bool \<Rightarrow> rtp_session \<Rightarrow> rtcp_encoder \<Rightarrow> nat list \<Rightarrow> (rtp_session \<times> rtcp_encoder \<times> bool) res" where
  "report_list sr s enc [] = Inr (s, enc, True)"
| "report_list sr s enc (m # ms) =
     bindE (report_member sr s enc m) (\<lambda>(s, enc, ok).
     if ok then report_list sr s enc ms else Inr (s, enc, False))"

lemma report_dlsr_frame: "report_dlsr s m = Inr (s', d) \<Longrightarrow> member_table s' = member_table s"
  by (auto simp: report_dlsr_def Let_def res_iff sess_ntp_ts_now_def draw_time_def split: if_splits)

lemma report_member_used:
  "report_member sr s enc m = Inr (s', enc', ok) \<Longrightarrow> used s' = used s"
  by (auto simp: report_member_def Let_def res_iff dest!: report_dlsr_frame split: if_splits prod.splits)

lemma report_members_list:
  "distinct (used s) \<Longrightarrow> k < length (used s) \<Longrightarrow> length (used s) - k \<le> fuel \<Longrightarrow>
   report_members fuel sr s enc (Some (used s ! k)) = report_list sr s enc (drop k (used s))"
proof (induction fuel arbitrary: s enc k)
  case (Suc fuel)
  let ?m = "used s ! k"
  have d: "drop k (used s) = ?m # drop (Suc k) (used s)" using Suc.prems(2) by (rule Cons_nth_drop_Suc [symmetric])
  have "report_members fuel sr s1 enc1 (rtp_member_table_get_next (member_table s1) (Some ?m)) =
      report_list sr s1 enc1 (drop (Suc k) (used s))"
    if "report_member sr s enc ?m = Inr (s1, enc1, ok)" for s1 enc1 ok
  proof -
    note u = report_member_used [OF that]
    show ?thesis
    proof (cases "Suc k < length (used s)")
      case True
      then show ?thesis
        using Suc.IH [of s1 "Suc k" enc1] Suc.prems u
        by (simp add: rtp_member_table_get_next_def next_in_nth)
    next
      case False
      then have "k = length (used s) - 1" "used s \<noteq> []" using Suc.prems(2) by auto
      then have "used s ! k = last (used s)" "used s \<noteq> []" by (simp_all add: last_conv_nth)
      then have "next_in (used s1) ?m = None" using next_in_last [OF Suc.prems(1)] u by simp
      then show ?thesis using False by (simp add: rtp_member_table_get_next_def)
    qed
  qed
  then show ?case unfolding d by (auto intro!: bindE_cong)
qed simp

lemma gen_rr_list:
  assumes "mt_slots (member_table s)"
  shows "rtcp_send_report_gen_rr s enc sr = report_list sr s enc (used s)"
proof (cases "used s")
  case Nil
  then show ?thesis by (simp add: rtcp_send_report_gen_rr_def rtp_member_table_get_first_def)
next
  case (Cons a as)
  then have f: "rtp_member_table_get_first (member_table s) = Some (used s ! 0)"
    by (simp add: rtp_member_table_get_first_def)
  have "length (used s) \<le> RTP_CONFIG_MAX_MEMBERS_PER_SESSION + 1" "distinct (used s)" "0 < length (used s)"
    using mt_slotsD [OF assms] Cons by auto
  then have "report_members (RTP_CONFIG_MAX_MEMBERS_PER_SESSION + 1) sr s enc (Some (used s ! 0)) =
      report_list sr s enc (drop 0 (used s))"
    by (intro report_members_list) simp_all
  then show ?thesis unfolding rtcp_send_report_gen_rr_def f by (simp only: drop_0)
qed

section \<open>What a report says\<close>

definition reports :: "rtp_session \<Rightarrow> nat \<Rightarrow> bool" where
  "reports s m \<longleftrightarrow> \<not> rtp_member_is_self (mem s m) \<and> \<not> rtp_member_is_bye_received (mem s m)"

text \<open>The block of a member: its SSRC, the numbers of its source, the middle of the time stamp of
  its last sender report and the delay since then, zero when there was none.\<close>

definition describes :: "rtp_session \<Rightarrow> nat \<Rightarrow> u8 list \<Rightarrow> bool" where
  "describes s m b \<longleftrightarrow>
     (\<exists>dlsr. let x = mem s m; (q, frct, lost, ext) = report_numbers (rtp_src x) in
        b = rr_block (m_ssrc x) frct lost ext (jitter q)
              (push_bit 16 (second (last_sr x)) OR drop_bit 16 (fraction (last_sr x))) dlsr \<and>
        (second (last_sr_local_time x) = 0 \<and> fraction (last_sr_local_time x) = 0 \<longrightarrow> dlsr = 0))"

lemma length_described: "describes s m b \<Longrightarrow> length b = 24"
  by (cases "report_numbers (rtp_src (mem s m))") (auto simp: describes_def Let_def)

text \<open>What reporting leaves alone.\<close>

definition report_frame :: "rtp_session \<Rightarrow> rtp_session \<Rightarrow> nat set \<Rightarrow> bool" where
  "report_frame s s' X \<longleftrightarrow>
     calm 0 s s' \<and> trace (env s') = trace (env s) \<and> self s' = self s \<and>
     (\<forall>i. i \<notin> X \<longrightarrow> mem s' i = mem s i) \<and> (\<forall>i. \<exists>src. mem s' i = (mem s i)\<lparr>rtp_src := src\<rparr>)"

lemma rtp_src_same: "\<exists>src. x = x\<lparr>rtp_src := src\<rparr>" for x :: rtp_member
  by (rule exI [of _ "rtp_src x"]) simp

lemma report_frame_refl: "timer_wf (sess_tmr s) \<Longrightarrow> report_frame s s X"
  by (simp add: report_frame_def calm_refl rtp_src_same)

lemma report_frame_trans:
  "report_frame s t X \<Longrightarrow> report_frame t u Y \<Longrightarrow> report_frame s u (X \<union> Y)"
  unfolding report_frame_def
proof (elim conjE, intro conjI allI impI)
  fix i assume "\<forall>i. \<exists>src. mem t i = mem s i\<lparr>rtp_src := src\<rparr>" "\<forall>i. \<exists>src. mem u i = mem t i\<lparr>rtp_src := src\<rparr>"
  then obtain a b where "mem t i = mem s i\<lparr>rtp_src := a\<rparr>" "mem u i = mem t i\<lparr>rtp_src := b\<rparr>" by blast
  then show "\<exists>src. mem u i = mem s i\<lparr>rtp_src := src\<rparr>" by auto
qed (auto intro: calm_trans0)

lemma report_frame_upd:
  assumes "timer_wf (sess_tmr s)"
  shows "report_frame s (upd_mem m (\<lambda>x. x\<lparr>rtp_src := q\<rparr>) s) {m}"
proof -
  have "\<exists>src. mem (upd_mem m (\<lambda>x. x\<lparr>rtp_src := q\<rparr>) s) i = mem s i\<lparr>rtp_src := src\<rparr>" for i
    by (cases "i = m \<and> m < length (member_array (member_table s))")
      (auto simp: mem_upd_mem rtp_src_same)
  then show ?thesis
    using calm_fields(1) [OF assms, of m "\<lambda>_. q"] by (simp add: report_frame_def mem_upd_mem)
qed

lemma report_dlsr_ok:
  assumes "timer_wf (sess_tmr s)"
  shows "outcome {FpRange} (\<lambda>(s', d). report_frame s s' {} \<and> member_table s' = member_table s \<and>
    (second (last_sr_local_time (mem s m)) = 0 \<and> fraction (last_sr_local_time (mem s m)) = 0 \<longrightarrow> d = 0))
    (report_dlsr s m)"
proof -
  have fr: "report_frame s (fst (draw_time s)) {}"
    using calm_var(10) [OF assms]
    by (simp add: report_frame_def draw_time_def mem_def rtp_src_same)
  have "f = FpRange" if "ntp_ts_to_unix_time x = Inl f" for x f
    using that by (auto simp: ntp_ts_to_unix_time_def bindE_Inl_iff dest: real_to_u32_fails)
  then show ?thesis
    using fr report_frame_refl [OF assms, of "{}"]
    by (intro outcomeI)
      (auto simp: report_dlsr_def Let_def res_iff bindE_Inl_iff sess_ntp_ts_now_def draw_time_def
        ntp_ts_now_def ntp_ts_diff_in_sec_def dest: real_to_u32_fails from_unix_time_fails split: if_splits)
qed

lemma report_member_ok:
  assumes "timer_wf (sess_tmr s)" "m < length (member_array (member_table s))" "reports s m"
    and "enc_cur enc [] n pt body rest" "4 + length body = (if sr then 28 else 8) + 24 * n"
  shows "outcome {FpRange} (\<lambda>(s', enc', ok). report_frame s s' {m} \<and>
    (if length rest < 24 then \<not> ok
     else ok \<and> (\<exists>b. describes s m b \<and> enc_cur enc' [] (Suc n) pt (body @ b) (drop 24 rest))))
    (report_member sr s enc m)"
proof -
  obtain q frct lost ext where nums: "report_numbers (rtp_src (mem s m)) = (q, frct, lost, ext)"
    by (cases "report_numbers (rtp_src (mem s m))")
  let ?s1 = "upd_mem m (\<lambda>x. x\<lparr>rtp_src := q\<rparr>) s"
  note f1 = report_frame_upd [OF assms(1), of m q]
  have wf1: "timer_wf (sess_tmr ?s1)" using assms(1) by simp
  have m1: "mem ?s1 m = (mem s m)\<lparr>rtp_src := q\<rparr>" using assms(2) by (simp add: mem_upd_mem)
  let ?x = "mem s m"
  let ?lsr = "push_bit 16 (second (last_sr ?x)) OR drop_bit 16 (fraction (last_sr ?x))"
  have n: "n < 31"
    using assms(4,5) by (auto simp: enc_cur_def enc_at_def split: if_splits)
  let ?add = "\<lambda>dlsr. (if sr then rtcp_encoder_sr_add_rr else rtcp_encoder_rr_add_rr)
    enc (m_ssrc ?x) frct lost ext (jitter q) ?lsr dlsr"
  have e: "report_member sr s enc m =
      bindE (report_dlsr ?s1 m) (\<lambda>(s2, dlsr).
      let x = mem s2 m in
      bindE ((if sr then rtcp_encoder_sr_add_rr else rtcp_encoder_rr_add_rr)
               enc (m_ssrc x) frct lost ext (jitter q)
               (push_bit 16 (second (last_sr x)) OR drop_bit 16 (fraction (last_sr x))) dlsr)
        (\<lambda>(enc, ok). Inr (s2, enc, ok)))"
    using assms(3) nums by (simp add: report_member_def reports_def Let_def)
  show ?thesis
    unfolding e
  proof (rule outcome_bind [OF report_dlsr_ok [OF wf1]], clarify)
    fix s2 and dlsr :: u32
    assume f2: "report_frame ?s1 s2 {}" and mt: "member_table s2 = member_table ?s1"
      and z: "second (last_sr_local_time (mem ?s1 m)) = 0 \<and> fraction (last_sr_local_time (mem ?s1 m)) = 0
        \<longrightarrow> dlsr = 0"
    have fr: "report_frame s s2 {m}" using report_frame_trans [OF f1 f2] by simp
    have m2: "mem s2 m = (mem s m)\<lparr>rtp_src := q\<rparr>" using mt m1 by (simp add: mem_def)
    have add: "?add dlsr = put_rr_block enc (if sr then 28 else 8) (m_ssrc ?x) frct lost ext (jitter q) ?lsr dlsr"
      by (simp add: rtcp_encoder_sr_add_rr_def rtcp_encoder_rr_add_rr_def)
    have blk: "if length rest < 24 then ?add dlsr = Inr (enc, False)
      else \<exists>re'. ?add dlsr = Inr (re', True) \<and>
        enc_cur re' [] (Suc n) pt (body @ rr_block (m_ssrc ?x) frct lost ext (jitter q) ?lsr dlsr) (drop 24 rest) \<and>
        chunk_begin re' = chunk_begin enc"
      using rr_block_at [OF assms(4) _ n, of "if sr then 28 else 8" "m_ssrc ?x" frct lost ext "jitter q" ?lsr dlsr]
        assms(5) unfolding add by simp
    have "describes s m (rr_block (m_ssrc ?x) frct lost ext (jitter q) ?lsr dlsr)"
      using z by (auto simp: describes_def nums m1 Let_def intro!: exI [of _ dlsr])
    with blk fr m2 show "outcome {FpRange} (\<lambda>(s', enc', ok). report_frame s s' {m} \<and>
      (if length rest < 24 then \<not> ok
       else ok \<and> (\<exists>b. describes s m b \<and> enc_cur enc' [] (Suc n) pt (body @ b) (drop 24 rest))))
      (let x = mem s2 m in
        bindE ((if sr then rtcp_encoder_sr_add_rr else rtcp_encoder_rr_add_rr)
               enc (m_ssrc x) frct lost ext (jitter q)
               (push_bit 16 (second (last_sr x)) OR drop_bit 16 (fraction (last_sr x))) dlsr)
          (\<lambda>(enc, ok). Inr (s2, enc, ok)))"
      by (auto simp: Let_def split: if_splits)
  qed
qed

lemma describes_frame:
  "mem s' m = mem s m \<Longrightarrow> describes s' m b \<longleftrightarrow> describes s m b"
  by (simp add: describes_def)

lemma reports_frame: "report_frame s s' X \<Longrightarrow> reports s' m \<longleftrightarrow> reports s m"
proof -
  assume "report_frame s s' X"
  then obtain q where "mem s' m = (mem s m)\<lparr>rtp_src := q\<rparr>" by (auto simp: report_frame_def)
  then show ?thesis by (simp add: reports_def is_flag_defs has_flag_def)
qed

lemma report_list_ok:
  assumes "timer_wf (sess_tmr s)" "distinct ms" "\<forall>m \<in> set ms. m < length (member_array (member_table s))"
    and "enc_cur enc [] n pt body rest" "4 + length body = (if sr then 28 else 8) + 24 * n"
  shows "outcome {FpRange} (\<lambda>(s', enc', ok). report_frame s s' (set ms) \<and>
    (let rs = filter (reports s) ms; k = length rs in
     if length rest < 24 * k then \<not> ok
     else ok \<and> (\<exists>bs. list_all2 (describes s) rs bs \<and>
       enc_cur enc' [] (n + k) pt (body @ concat bs) (drop (24 * k) rest))))
    (report_list sr s enc ms)"
  using assms
proof (induction ms arbitrary: s enc n body rest)
  case Nil
  then show ?case by (auto simp: report_frame_refl)
next
  case (Cons m ms)
  let ?Q = "\<lambda>s n body rest ms (s', enc', ok). report_frame s s' (set ms) \<and>
    (let rs = filter (reports s) ms; k = length rs in
     if length rest < 24 * k then \<not> ok
     else ok \<and> (\<exists>bs. list_all2 (describes s) rs bs \<and>
       enc_cur enc' [] (n + k) pt (body @ concat bs) (drop (24 * k) rest)))"
  show ?case
  proof (cases "reports s m")
    case False
    then have "report_member sr s enc m = Inr (s, enc, True)"
      by (auto simp: report_member_def reports_def)
    moreover have "outcome {FpRange} (?Q s n body rest ms) (report_list sr s enc ms)"
      using Cons.IH [OF Cons.prems(1) _ _ Cons.prems(4,5)] Cons.prems(2,3) by simp
    ultimately show ?thesis
      using False by (auto simp: outcome_def report_frame_def Let_def split: sum.splits)
  next
    case True
    have ok: "outcome {FpRange} (\<lambda>(s', enc', ok). report_frame s s' {m} \<and>
      (if length rest < 24 then \<not> ok
       else ok \<and> (\<exists>b. describes s m b \<and> enc_cur enc' [] (Suc n) pt (body @ b) (drop 24 rest))))
      (report_member sr s enc m)"
      using Cons.prems by (intro report_member_ok [OF _ _ True]) auto
    show ?thesis
      unfolding report_list.simps
    proof (rule outcome_bind [OF ok], clarify)
      fix s1 enc1 b1
      assume f1: "report_frame s s1 {m}"
        and r: "if length rest < 24 then \<not> b1
          else b1 \<and> (\<exists>b. describes s m b \<and> enc_cur enc1 [] (Suc n) pt (body @ b) (drop 24 rest))"
      show "outcome {FpRange} (?Q s n body rest (m # ms))
          (if b1 then report_list sr s1 enc1 ms else Inr (s1, enc1, False))"
      proof (cases "length rest < 24")
        case short: True
        then show ?thesis using r f1 True by (auto simp: Let_def report_frame_def)
      next
        case long: False
        then obtain b where b: b1 "describes s m b" "enc_cur enc1 [] (Suc n) pt (body @ b) (drop 24 rest)"
          using r by auto
        have c: "calm 0 s s1" using f1 by (simp add: report_frame_def)
        have "4 + length (body @ b) = (if sr then 28 else 8) + 24 * Suc n"
          using Cons.prems(5) length_described [OF b(2)] by simp
        moreover have "\<forall>i \<in> set ms. i < length (member_array (member_table s1))"
          using Cons.prems(3) c by (simp add: calm_def)
        ultimately have ih: "outcome {FpRange} (?Q s1 (Suc n) (body @ b) (drop 24 rest) ms)
            (report_list sr s1 enc1 ms)"
          using Cons.prems(2) by (intro Cons.IH [OF calm_wf [OF c] _ _ b(3)]) auto
        have rs: "filter (reports s1) ms = filter (reports s) ms"
          by (rule filter_cong [OF refl reports_frame [OF f1]])
        have d: "list_all2 (describes s1) (filter (reports s) ms) bs \<Longrightarrow>
            list_all2 (describes s) (filter (reports s) ms) bs" for bs
        proof (erule list.rel_mono_strong)
          fix i b assume "i \<in> set (filter (reports s) ms)" "describes s1 i b"
          moreover from this have "i \<noteq> m" using Cons.prems(2) by auto
          ultimately show "describes s i b"
            using f1 describes_frame [of s1 i s] by (simp add: report_frame_def)
        qed
        have "outcome {FpRange} (?Q s n body rest (m # ms)) (report_list sr s1 enc1 ms)"
        proof (rule outcome_mono [OF ih subset_refl], clarify, intro conjI)
          fix s2 enc2 b2
          assume f2: "report_frame s1 s2 (set ms)"
            and q: "let rs = filter (reports s1) ms; k = length rs in
              if length (drop 24 rest) < 24 * k then \<not> b2
              else b2 \<and> (\<exists>bs. list_all2 (describes s1) rs bs \<and>
                enc_cur enc2 [] (Suc n + k) pt ((body @ b) @ concat bs) (drop (24 * k) (drop 24 rest)))"
          show "report_frame s s2 (set (m # ms))"
            using report_frame_trans [OF f1 f2] by simp
          show "let rs = filter (reports s) (m # ms); k = length rs in
              if length rest < 24 * k then \<not> b2
              else b2 \<and> (\<exists>bs. list_all2 (describes s) rs bs \<and>
                enc_cur enc2 [] (n + k) pt (body @ concat bs) (drop (24 * k) rest))"
          proof (cases "length rest < 24 * Suc (length (filter (reports s) ms))")
            case True
            then show ?thesis using q rs \<open>reports s m\<close> long by (auto simp: Let_def)
          next
            case False
            then have "\<not> length (drop 24 rest) < 24 * length (filter (reports s) ms)" by simp
            note q1 = q [unfolded Let_def rs if_not_P [OF this]]
            then obtain bs where b2 "list_all2 (describes s1) (filter (reports s) ms) bs"
              "enc_cur enc2 [] (Suc n + length (filter (reports s) ms)) pt ((body @ b) @ concat bs)
                 (drop (24 * length (filter (reports s) ms)) (drop 24 rest))"
              by blast
            with d b(2) \<open>reports s m\<close> False show ?thesis
              by (auto simp: Let_def add.commute intro!: exI [of _ "b # bs"])
          qed
        qed
        then show ?thesis using b(1) by simp
      qed
    qed
  qed
qed

section \<open>The report as a whole\<close>

definition reported :: "rtp_session \<Rightarrow> nat list" where
  "reported s = filter (reports s) (used s)"

text \<open>The source description: one chunk with the canonical name.\<close>

definition sdes_body :: "rtp_member \<Rightarrow> u8 list" where
  "sdes_body x = bytes32 (m_ssrc x) @ [1, cname_len x] @ take (unat (cname_len x)) (cname x) @
     replicate (chunk_zeros (6 + unat (cname_len x))) 0"

text \<open>The fixed words of a sender report or of a receiver report.\<close>

definition report_words :: "rtp_session \<Rightarrow> rtp_member \<Rightarrow> ntp_ts \<Rightarrow> u32 \<Rightarrow> u32 list" where
  "report_words s x ts rtp_ts =
     (if rtp_member_is_sender x
      then [m_ssrc x, second ts, fraction ts, rtp_ts, tx_pkt_count s, tx_octet_count s]
      else [m_ssrc x])"

definition report_packet :: "rtp_session \<Rightarrow> rtp_member \<Rightarrow> ntp_ts \<Rightarrow> u32 \<Rightarrow> u8 list list \<Rightarrow> u8 list" where
  "report_packet s x ts rtp_ts blocks =
     rtcp_packet (length blocks) (if rtp_member_is_sender x then RTCP_SR else RTCP_RR)
       (concat (map bytes32 (report_words s x ts rtp_ts)) @ concat blocks) @
     rtcp_packet 1 RTCP_SDES (sdes_body x)"

definition report_size :: "rtp_session \<Rightarrow> rtp_member \<Rightarrow> nat" where
  "report_size s x =
     (if rtp_member_is_sender x then 28 else 8) + 24 * length (reported s) + (4 + length (sdes_body x))"

lemma sdes_body_dvd: "unat (cname_len x) \<le> length (cname x) \<Longrightarrow> 4 dvd length (sdes_body x)"
  using chunk_zeros_align [of "6 + unat (cname_len x)"]
  by (simp add: sdes_body_def add.assoc)

text \<open>The source description after a complete report.\<close>

lemma send_sdes:
  assumes "enc_at enc pre rest" "unat (cname_len x) \<le> length (cname x)"
  shows "if length rest < 4 + length (sdes_body x) then \<exists>u. send_report_sdes s enc x = Inr (u, 0) \<and> u = s
    else send_report_sdes s enc x =
      Inr (emit (TxRtcp (pre @ rtcp_packet 1 RTCP_SDES (sdes_body x))) s,
           of_nat (length pre + (4 + length (sdes_body x))))"
proof -
  let ?len = "unat (cname_len x)" and ?z = "chunk_zeros (6 + unat (cname_len x))"
  have l: "length (sdes_body x) = 6 + ?len + ?z" using assms(2) by (simp add: sdes_body_def)
  show ?thesis
  proof (cases "length rest < 4")
    case True
    then show ?thesis
      using sdes_begin_at [OF assms(1)] by (simp add: send_report_sdes_def or_return_0_def)
  next
    case False
    then obtain e1 where e1: "rtcp_encoder_sdes_begin enc = Inr (e1, True)"
      "enc_cur e1 pre 0 202 [] (drop 4 rest)"
      using sdes_begin_at [OF assms(1)] by auto
    show ?thesis
    proof (cases "length rest < 8")
      case True
      then show ?thesis
        using chunk_begin_at [OF e1(2), of "m_ssrc x"] e1(1) l
        by (simp add: send_report_sdes_def or_return_0_def)
    next
      case f8: False
      then obtain e2 where e2: "rtcp_encoder_sdes_chunk_begin e1 (m_ssrc x) = Inr (e2, True)"
        "enc_cur e2 pre 1 202 (bytes32 (m_ssrc x)) (drop 8 rest)"
        "chunk_begin e2 = of_nat (length pre + (4 + 0))"
      proof -
        have "\<not> length (drop 4 rest) < 4" using f8 by simp
        with chunk_begin_at [OF e1(2), of "m_ssrc x"] that show ?thesis by (auto simp: add.commute)
      qed
      show ?thesis
      proof (cases "length rest < 10 + ?len")
        case True
        then show ?thesis
          using add_cname_at [OF e2(2) assms(2)] e1(1) e2(1) l
          by (simp add: send_report_sdes_def or_return_0_def)
      next
        case f10: False
        then obtain e3 where e3: "rtcp_encoder_sdes_chunk_add_cname e2 (cname x) (cname_len x) = Inr (e3, True)"
          "enc_cur e3 pre 1 202 (bytes32 (m_ssrc x) @ [1, cname_len x] @ take ?len (cname x)) (drop (10 + ?len) rest)"
          "chunk_begin e3 = of_nat (length pre + (4 + 0))"
        proof -
          have "\<not> length (drop 8 rest) < ?len + 2" using f10 by simp
          from add_cname_at [OF e2(2) assms(2), unfolded if_not_P [OF this]] e2(3) that
          show ?thesis by (auto simp: add.commute add.left_commute)
        qed
        have z: "?z = chunk_zeros (length (bytes32 (m_ssrc x) @ [1, cname_len x] @ take ?len (cname x)) - 0)"
          using assms(2) by simp
        note ce = chunk_end_at [OF e3(2,3) _ z]
        show ?thesis
        proof (cases "length (drop (10 + ?len) rest) < ?z")
          case True
          then have "length rest < 4 + length (sdes_body x)" using l f10 by simp
          with True ce e1(1) e2(1) e3(1) show ?thesis
            by (auto simp: send_report_sdes_def or_return_0_def)
        next
          case fz: False
          let ?m = "pre @ rtcp_packet 1 202 (sdes_body x)"
          obtain e4 where e4: "rtcp_encoder_sdes_chunk_end e3 = Inr (e4, True)"
            "enc_cur e4 pre 1 202 (sdes_body x) (drop ?z (drop (10 + ?len) rest))"
            using ce [unfolded if_not_P [OF fz]] by (auto simp: sdes_body_def)
          obtain e5 r where e5: "rtcp_encoder_end_packet e4 = Inr e5" "enc_at e5 ?m r"
            using end_packet_at [OF e4(2) sdes_body_dvd [OF assms(2)]] by blast
          have w: "unat (write_ndx e5) = length ?m" "enc_buf e5 = ?m @ r" using e5(2) by (simp_all add: enc_at_def)
          then have "write_ndx e5 = of_nat (length ?m)" by (metis of_nat_unat ucast_id)
          moreover have "\<not> length rest < 4 + length (sdes_body x)" using l f10 fz by simp
          ultimately show ?thesis
            using e1(1) e2(1) e3(1) e4(1) e5(1) w
            by (simp add: send_report_sdes_def or_return_0_def rtcp_encoder_msg_len_def rtcp_types Let_def)
        qed
      qed
    qed
  qed
qed

text \<open>The report up to the source description.\<close>

definition report_head :: "rtp_session \<Rightarrow> rtcp_encoder \<Rightarrow> rtp_member \<Rightarrow> ntp_ts \<Rightarrow> u32 \<Rightarrow> (rtcp_encoder \<times> bool) res" where
  "report_head s enc x ts rtp_ts =
     (if rtp_member_is_sender x
      then rtcp_encoder_sr_begin enc (m_ssrc x) (second ts) (fraction ts) rtp_ts
             (tx_pkt_count s) (tx_octet_count s)
      else rtcp_encoder_rr_begin enc (m_ssrc x))"

lemma report_head_at:
  assumes "enc_at enc [] rest"
  shows "\<exists>e. report_head s enc x ts rtp_ts = Inr (e, True) \<and>
    enc_cur e [] 0 (if rtp_member_is_sender x then RTCP_SR else RTCP_RR)
      (concat (map bytes32 (report_words s x ts rtp_ts))) (drop (if rtp_member_is_sender x then 28 else 8) rest)"
proof -
  have l: "length rest = 256" using assms by (simp add: enc_at_def)
  show ?thesis
  proof (cases "rtp_member_is_sender x")
    case True
    have "\<not> length rest < 28" using l by simp
    from sr_begin_at [OF assms, of "m_ssrc x" "second ts" "fraction ts" rtp_ts "tx_pkt_count s" "tx_octet_count s",
        unfolded if_not_P [OF this]] True
    show ?thesis unfolding report_head_def report_words_def rtcp_types by (simp only: if_True) blast
  next
    case False
    have "\<not> length rest < 8" using l by simp
    from rr_begin_at [OF assms, of "m_ssrc x", unfolded if_not_P [OF this]] False
    show ?thesis unfolding report_head_def report_words_def rtcp_types by (auto)
  qed
qed

text \<open>The effect of sending a report: the packet is sent if it fits the buffer of the encoder,
  and its size is returned, or nothing is sent.\<close>

definition report_sent ::
  "rtp_session \<Rightarrow> rtp_member \<Rightarrow> ntp_ts \<Rightarrow> u32 \<Rightarrow> rtp_session \<times> u32 \<Rightarrow> bool" where
  "report_sent s x ts rtp_ts r \<longleftrightarrow>
     (let (s', n) = r in
      if report_size s x \<le> RTP_CONFIG_RTCP_ENCODER_BUFFER_LEN
      then unat n = report_size s x \<and>
        (\<exists>blocks. list_all2 (describes s) (reported s) blocks \<and>
           trace (env s') = trace (env s) @ [TxRtcp (report_packet s x ts rtp_ts blocks)])
      else n = 0 \<and> trace (env s') = trace (env s))"

lemma self_cname:
  assumes "sess_inv s" "self s = Some me"
  shows "unat (cname_len (mem s me)) \<le> length (cname (mem s me))"
    "me < length (member_array (member_table s))"
proof -
  have inv: "sess_inv_at 0 {} s" using assms(1) by (simp add: sess_inv_def)
  note D = sess_inv_atD [OF inv]
  show m: "me < length (member_array (member_table s))"
    using D(3,8) assms(2) by (simp add: sess_shape_def)
  then have "length (cname (mem s me)) = RTP_CONFIG_SDES_CNAME_MAX + 1"
    using D(3) by (simp add: sess_shape_def mem_def)
  then show "unat (cname_len (mem s me)) \<le> length (cname (mem s me))"
    using unsigned_less [of "cname_len (mem s me)", where 'a = nat] by (simp add: config_defs)
qed

lemma report_body:
  assumes "sess_inv s" "self s = Some me" "enc_at enc [] rest"
  defines "x \<equiv> mem s me"
  defines "sr \<equiv> rtp_member_is_sender x"
  shows "outcome {FpRange} (\<lambda>r. keeps s (fst r) \<and> report_sent s x ts rtp_ts r)
    (or_return_0 (report_head s enc x ts rtp_ts) s (\<lambda>enc.
      bindE (rtcp_send_report_gen_rr s enc sr) (\<lambda>(s, enc, ok).
      if \<not> ok then Inr (s, 0)
      else bindE (rtcp_encoder_end_packet enc) (\<lambda>enc. send_report_sdes s enc (mem s me)))))"
proof -
  have inv: "sess_inv_at 0 {} s" using assms(1) by (simp add: sess_inv_def)
  note D = sess_inv_atD [OF inv]
  let ?pt = "if sr then RTCP_SR else RTCP_RR" and ?h = "if sr then 28 else 8 :: nat"
  let ?b = "concat (map bytes32 (report_words s x ts rtp_ts))"
  have l: "length rest = 256" using assms(3) by (simp add: enc_at_def)
  obtain e1 where e1: "report_head s enc x ts rtp_ts = Inr (e1, True)"
    "enc_cur e1 [] 0 ?pt ?b (drop ?h rest)"
    using report_head_at [OF assms(3), of s x ts rtp_ts] by (auto simp: sr_def)
  have lb: "4 + length ?b = ?h + 24 * 0" by (simp add: report_words_def sr_def)
  have used: "distinct (used s)" "\<forall>m \<in> set (used s). m < length (member_array (member_table s))"
    using D(6,7) by auto
  note loop = report_list_ok [OF D(1) used e1(2) lb]
  let ?k = "length (reported s)"
  have size: "report_size s x = ?h + 24 * ?k + (4 + length (sdes_body x))" by (simp add: report_size_def sr_def)
  show ?thesis
    unfolding or_return_0_def e1(1) bindE.simps split_conv if_True gen_rr_list [OF D(5)]
  proof (rule outcome_bind [OF loop], clarify)
    fix s1 e2 ok
    assume f: "report_frame s s1 (set (used s))"
      and q: "let rs = filter (reports s) (used s); k = length rs in
        if length (drop ?h rest) < 24 * k then \<not> ok
        else ok \<and> (\<exists>bs. list_all2 (describes s) rs bs \<and>
          enc_cur e2 [] (0 + k) ?pt (?b @ concat bs) (drop (24 * k) (drop ?h rest)))"
    have k1: "keeps s s1" using f calm_keeps [OF assms(1)] by (simp add: report_frame_def)
    have tr: "trace (env s1) = trace (env s)" using f by (simp add: report_frame_def)
    obtain src where "mem s1 me = x\<lparr>rtp_src := src\<rparr>" using f unfolding report_frame_def x_def by blast
    then have x1: "sdes_body (mem s1 me) = sdes_body x" "cname_len (mem s1 me) = cname_len x"
      "cname (mem s1 me) = cname x" by (simp_all add: sdes_body_def)
    show "outcome {FpRange} (\<lambda>r. keeps s (fst r) \<and> report_sent s x ts rtp_ts r)
        (if \<not> ok then Inr (s1, 0)
         else bindE (rtcp_encoder_end_packet e2) (\<lambda>enc. send_report_sdes s1 enc (mem s1 me)))"
    proof (cases "length (drop ?h rest) < 24 * ?k")
      case True
      then have "\<not> ok" using q by (simp add: Let_def reported_def)
      moreover have "\<not> report_size s x \<le> 256" using True l size by auto
      ultimately show ?thesis using k1 tr by (simp add: report_sent_def config_defs)
    next
      case False
      then obtain bs where bs: ok "list_all2 (describes s) (reported s) bs"
        "enc_cur e2 [] ?k ?pt (?b @ concat bs) (drop (24 * ?k) (drop ?h rest))"
        using q [unfolded Let_def, folded reported_def, unfolded if_not_P [OF False]] by auto
      have "length (concat bs) = 24 * ?k"
        using bs(2) by (induction rule: list_all2_induct) (simp_all add: length_described)
      then have lc: "length (?b @ concat bs) = ?h - 4 + 24 * ?k" using lb by simp
      then have dv: "4 dvd length (?b @ concat bs)" by (simp add: sr_def)
      let ?p = "rtcp_packet ?k ?pt (?b @ concat bs)"
      obtain e3 r where e3: "rtcp_encoder_end_packet e2 = Inr e3" "enc_at e3 ?p r"
        using end_packet_at [OF bs(3) dv] by auto
      have lp: "length ?p = ?h + 24 * ?k" using lc by (simp add: sr_def)
      have lr: "length ?p + length r = 256" using e3(2) by (simp add: enc_at_def)
      have kb: "length bs = ?k" using bs(2) by (simp add: list_all2_lengthD)
      note sd = send_sdes [OF e3(2), of "mem s1 me" s1, unfolded x1, OF self_cname(1) [OF assms(1,2), folded x_def]]
      show ?thesis
      proof (cases "length r < 4 + length (sdes_body x)")
        case True
        then have "send_report_sdes s1 e3 (mem s1 me) = Inr (s1, 0)" using sd by auto
        moreover have "\<not> report_size s x \<le> 256" using True lr lp size by simp
        ultimately show ?thesis using bs(1) e3(1) k1 tr by (simp add: report_sent_def config_defs)
      next
        case False
        have "length ?p + (4 + length (sdes_body x)) = report_size s x" unfolding lp size by simp
        then have "send_report_sdes s1 e3 (mem s1 me) =
            Inr (emit (TxRtcp (?p @ rtcp_packet 1 RTCP_SDES (sdes_body x))) s1, of_nat (report_size s x))"
          using sd [unfolded if_not_P [OF False]] by simp
        moreover have "report_size s x \<le> 256" using False lr lp size by simp
        moreover from this have "unat (of_nat (report_size s x) :: u32) = report_size s x"
          by (intro unat_of_nat_small) simp
        moreover have "report_packet s x ts rtp_ts bs = ?p @ rtcp_packet 1 RTCP_SDES (sdes_body x)"
          by (simp add: report_packet_def kb sr_def)
        moreover have "keeps s (emit e s1)" for e by (rule keeps_steps(5) [OF k1])
        ultimately show ?thesis
          using bs(1,2) e3(1) tr by (auto simp: report_sent_def config_defs emit_def)
      qed
    qed
  qed
qed

lemma report_sent_env:
  assumes "trace w = trace (env s)"
  shows "report_sent (s\<lparr>env := w\<rparr>) x ts rtp_ts r = report_sent s x ts rtp_ts r"
proof -
  have m: "mem (s\<lparr>env := w\<rparr>) = mem s" by (simp add: fun_eq_iff mem_def)
  have "reports (s\<lparr>env := w\<rparr>) = reports s" "describes (s\<lparr>env := w\<rparr>) = describes s"
    by (simp_all add: fun_eq_iff reports_def describes_def m)
  then have "reported (s\<lparr>env := w\<rparr>) = reported s" "describes (s\<lparr>env := w\<rparr>) = describes s"
    by (simp_all add: reported_def)
  then show ?thesis
    by (simp add: report_sent_def report_size_def report_packet_def report_words_def assms Let_def)
qed

lemma send_report_outcome:
  assumes "sess_inv s" "self s = Some me"
  shows "outcome {FpRange} (\<lambda>r. keeps s (fst r) \<and>
      (\<exists>ts. ntp_ts_now (w_gettimeofday (env s) (n_gettimeofday (env s))) = Inr ts \<and>
         report_sent s (mem s me) ts (w_rtp_timestamp (env s) (n_rtp_timestamp (env s))) r))
    (rtcp_send_report s)"
proof -
  have inv: "sess_inv_at 0 {} s" using assms(1) by (simp add: sess_inv_def)
  note wf = sess_inv_wf [OF assms(1)]
  let ?w = "env s" and ?tv = "w_gettimeofday (env s) (n_gettimeofday (env s))"
  let ?ts = "w_rtp_timestamp (env s) (n_rtp_timestamp (env s))"
  define s1 where "s1 = fst (draw_stack s)"
  define s2 where "s2 = fst (draw_time s1)"
  define s3 where "s3 = fst (rtp_session_timestamp s2)"
  note sd = s1_def s2_def s3_def draw_stack_def draw_time_def rtp_session_timestamp_def
  have d: "draw_stack s = (s1, w_stack ?w (n_stack ?w))" "draw_time s1 = (s2, ?tv)"
    "rtp_session_timestamp s2 = (s3, ?ts)"
    by (simp_all add: sd)
  obtain w where s3: "s3 = s\<lparr>env := w\<rparr>" "trace w = trace ?w" by (simp add: sd)
  have "sess_shape s" using sess_inv_atD(3) [OF inv] .
  then have "length (w_stack ?w (n_stack ?w)) = 256" by (simp add: sess_shape_def world_ok_def config_defs)
  then obtain enc rest where enc: "rtcp_encoder_init \<lparr>enc_buf = w_stack ?w (n_stack ?w), enc_rtcp = 0,
      enc_buf_len = 0, write_ndx = 0, chunk_begin = 0\<rparr> 256 = Inr enc" "enc_at enc [] rest"
    using encoder_init_at [of "\<lparr>enc_buf = w_stack ?w (n_stack ?w), enc_rtcp = 0, enc_buf_len = 0,
      write_ndx = 0, chunk_begin = 0\<rparr>"] by auto
  have c1: "calm 0 s s1" using calm_var(11) [OF wf] by (simp add: s1_def)
  have c2: "calm 0 s s2" using calm_trans0 [OF c1 calm_var(10) [OF calm_wf [OF c1]]] by (simp add: s2_def)
  have c3: "calm 0 s s3" using calm_trans0 [OF c2 calm_var(8) [OF calm_wf [OF c2]]] by (simp add: s3_def)
  have i3: "sess_inv s3" using calm_keeps [OF assms(1) c3] by (simp add: keeps_def)
  have self3: "self s3 = Some me" using assms(2) by (simp add: s3)
  have m3: "mem s3 me = mem s me" by (simp add: mem_def s3)
  show ?thesis
  proof (cases "ntp_ts_now ?tv")
    case (Inl f)
    then show ?thesis
      using enc(1) from_unix_time_fails [of ?tv f]
      by (simp add: rtcp_send_report_def d config_defs sess_ntp_ts_now_def ntp_ts_now_def)
  next
    case (Inr ts)
    have e: "rtcp_send_report s = or_return_0 (report_head s3 enc (mem s3 me) ts ?ts) s3 (\<lambda>enc.
        bindE (rtcp_send_report_gen_rr s3 enc (rtp_member_is_sender (mem s3 me))) (\<lambda>(s, enc, ok).
        if \<not> ok then Inr (s, 0)
        else bindE (rtcp_encoder_end_packet enc) (\<lambda>enc. send_report_sdes s enc (mem s me))))"
      using enc(1) Inr self3
      by (simp add: rtcp_send_report_def d config_defs sess_ntp_ts_now_def report_head_def Let_def
          or_return_0_def)
    have "outcome {FpRange} (\<lambda>r. keeps s3 (fst r) \<and> report_sent s3 (mem s3 me) ts ?ts r) (rtcp_send_report s)"
      unfolding e by (rule report_body [OF i3 self3 enc(2)])
    then show ?thesis
    proof (rule outcome_mono [OF _ subset_refl], elim conjE, intro conjI exI)
      fix r
      assume k: "keeps s3 (fst r)" and r: "report_sent s3 (mem s3 me) ts ?ts r"
      show "keeps s (fst r)" by (rule keeps_trans [OF calm_keeps [OF assms(1) c3] k])
      show "report_sent s (mem s me) ts ?ts r" using r [unfolded m3] unfolding s3(1) report_sent_env [OF s3(2)] .
      show "ntp_ts_now ?tv = Inr ts" by (rule Inr)
    qed
  qed
qed

text \<open>
  C14: a report is sent whenever it fits the buffer of 256 octets: a sender report, with the
  current time and the transmission counters, if the participant is a sender, a receiver report
  otherwise, with one block for each other member that has not left, in the order of the table,
  followed by the canonical name; otherwise nothing at all is sent. The size of what was sent is
  returned, the invariant of the session is kept, and only a clock value that no time stamp can
  hold makes it fail.
\<close>

theorem rtcp_send_report_correct:
  assumes "sess_inv s" "self s = Some me"
  shows "case rtcp_send_report s of
      Inl f \<Rightarrow> f = FpRange
    | Inr r \<Rightarrow> sess_inv (fst r) \<and>
        (\<exists>ts. ntp_ts_now (w_gettimeofday (env s) (n_gettimeofday (env s))) = Inr ts \<and>
           report_sent s (mem s me) ts (w_rtp_timestamp (env s) (n_rtp_timestamp (env s))) r)"
  using send_report_outcome [OF assms] by (auto simp: outcome_def keeps_def split: sum.splits)

section \<open>What a receiver makes of it\<close>

lemma sized_packet:
  assumes "4 dvd length body" "length body < 2 ^ 18" "n < 32"
  shows "rtcp_sized (rtcp_packet n pt body)" "rtcp_packet n pt body ! 0 AND 0xE0 = 0x80"
    "rtcp_packet n pt body ! 1 = pt" "unat (drop_bit 6 (rtcp_packet n pt body ! 0)) = 2"
proof -
  obtain k where k: "length body = 4 * k" using assms(1) by auto
  let ?p = "rtcp_packet n pt body"
  have "bytes16 w = [a, b] \<Longrightarrow> be16 a b = w" for w a b
    by (auto simp: bytes16_def be16_bytes16)
  then have "be16 (?p ! 2) (?p ! 3) = of_nat k"
    by (simp add: rtcp_packet_def k bytes16_def be16_bytes16 numeral_2_eq_2 numeral_3_eq_3)
  moreover have "unat (of_nat k :: u16) = k" using assms(2) k by (intro unat_of_nat_small) simp
  ultimately show "rtcp_sized ?p" by (simp add: rtcp_sized_def k)
  show "?p ! 0 AND 0xE0 = 0x80" using count_octet(2) [OF assms(3)] by (simp add: rtcp_packet_def)
  show "?p ! 1 = pt" by (simp add: rtcp_packet_def)
  have "take_bit 5 (of_nat n :: u8) = of_nat n"
    using assms(3) by (simp add: take_bit_of_nat take_bit_nat_eq_self)
  moreover have "drop_bit 6 (take_bit 5 x) = 0" for x :: u8
    by (rule bit_word_eqI) (simp add: bit_simps)
  ultimately have "drop_bit 6 (of_nat n :: u8) = 0" by metis
  then show "unat (drop_bit 6 (?p ! 0)) = 2" by (simp add: rtcp_packet_def)
qed

text \<open>
  A report that is sent passes the check of every receiver: it is a compound packet of a
  report and a source description.
\<close>

lemma report_accepted:
  assumes "list_all2 (describes s) (reported s) blocks" "unat (cname_len x) \<le> length (cname x)"
    "report_size s x \<le> RTP_CONFIG_RTCP_ENCODER_BUFFER_LEN"
  shows "rtcp_check_pkt r (report_packet s x ts rtp_ts blocks)
      (of_nat (length (report_packet s x ts rtp_ts blocks))) =
    Inr (r\<lparr>last_rtcp_error := rtcp_rx_error_no_error\<rparr>, True)"
proof -
  let ?b = "concat (map bytes32 (report_words s x ts rtp_ts)) @ concat blocks"
  let ?pt = "if rtp_member_is_sender x then RTCP_SR else RTCP_RR"
  let ?p = "rtcp_packet (length blocks) ?pt ?b" and ?q = "rtcp_packet 1 RTCP_SDES (sdes_body x)"
  let ?k = "length (reported s)"
  have "length (concat blocks) = 24 * ?k"
    using assms(1) by (induction rule: list_all2_induct) (simp_all add: length_described)
  then have l: "length ?b = (if rtp_member_is_sender x then 24 else 4) + 24 * ?k"
    by (simp add: report_words_def)
  have k: "length blocks = ?k" using assms(1) by (simp add: list_all2_lengthD)
  have sz: "length ?b + length (sdes_body x) \<le> 248" "?k < 32"
    using assms(3) l by (auto simp: report_size_def config_defs split: if_splits)
  have "4 dvd length ?b" unfolding l by simp
  note p = sized_packet [OF this, of "length blocks" ?pt]
  note q = sized_packet [OF sdes_body_dvd [OF assms(2)], of 1 RTCP_SDES]
  have eq: "report_packet s x ts rtp_ts blocks = ?p @ concat [?q]" by (simp add: report_packet_def)
  have "rtcp_sized ?p" "rtcp_unit ?q" "?p ! 0 AND 0xE0 = 0x80" "?p ! 1 AND 0xFE = RTCP_SR"
    using p q sz k by (simp_all add: rtcp_unit_def rtcp_types)
  then have c: "rtcp_compound (report_packet s x ts rtp_ts blocks)"
    unfolding rtcp_compound_def eq by (intro exI [of _ ?p] exI [of _ "[?q]"]) simp
  have len: "length (report_packet s x ts rtp_ts blocks) = 8 + (length ?b + length (sdes_body x))"
    by (simp add: eq)
  have d: "4 dvd length (report_packet s x ts rtp_ts blocks)"
    unfolding len using \<open>4 dvd length ?b\<close> sdes_body_dvd [OF assms(2)] by (intro dvd_add) simp_all
  have "unat (of_nat (length (report_packet s x ts rtp_ts blocks)) :: u32) =
      length (report_packet s x ts rtp_ts blocks)"
    using sz(1) by (intro unat_of_nat_small) (simp only: len, simp)
  from check_pkt_value [OF this, of r] c d show ?thesis by simp
qed

section \<open>The timeout of the interval\<close>

lemma interval_calc_keeps:
  assumes "keeps s t"
  shows "outcome {FpRange} (\<lambda>x. keeps s (fst x) \<and> rtcp_var (fst x) = rtcp_var t \<and> self (fst x) = self t)
    (sess_interval_calc t)"
proof -
  have "keeps s (fst (draw_drand48 t))" by (rule keeps_calm [OF assms calm_var(9) [OF keeps_wf [OF assms]]])
  then show ?thesis
    by (intro outcomeI) (auto simp: sess_interval_calc_def draw_drand48_def rtcp_interval_calc_def Let_def
        bindE_Inl_iff res_iff split: if_splits)
qed

lemma schedule_keeps:
  assumes "keeps s t"
  shows "outcome {FpRange} (keeps s) (rtcp_interval_schedule t tc tn')"
proof (rule outcomeI)
  fix u assume "rtcp_interval_schedule t tc tn' = Inr u"
  from keeps_calm [OF assms calm_schedule [OF keeps_wf [OF assms] this]] show "keeps s u" .
next
  fix f assume f: "rtcp_interval_schedule t tc tn' = Inl f"
  have "start_te (t\<lparr>rtcp_var := v\<rparr>) RtcpTimer d \<noteq> Inl f" for v d
    using keeps_wf [OF assms] by (intro start_te_total) simp
  with f show "f \<in> {FpRange}"
    by (auto simp: rtcp_interval_schedule_def Let_def bindE_Inl_iff rtcp_interval_cal_delta_in_ms_def
        dest: real_to_u32_fails)
qed

lemma keeps_var:
  assumes "keeps s t" "members v = members (rtcp_var t)"
  shows "keeps s (t\<lparr>rtcp_var := v\<rparr>)"
  using keeps_calm [OF assms(1)] calm_var(15) [OF keeps_wf [OF assms(1)], of v] assms(2) by simp

lemma send_report_keeps:
  assumes "keeps s t"
  shows "outcome {FpRange} (\<lambda>r. keeps s (fst r)) (rtcp_send_report t)"
proof -
  obtain me where "self t = Some me"
    using keeps_inv [OF assms] by (auto simp: sess_inv_def sess_inv_at_def sess_shape_def)
  from send_report_outcome [OF keeps_inv [OF assms] this] show ?thesis
    by (rule outcome_mono [OF _ subset_refl]) (elim conjE, rule keeps_trans [OF assms])
qed

lemma interval_timeout_keeps:
  assumes "sess_inv s"
  shows "outcome {FpRange} (keeps s) (rtcp_interval_timeout s)"
proof -
  have k: "keeps s s" using assms by (simp add: keeps_def)
  show ?thesis
    unfolding rtcp_interval_timeout_def Let_def
  proof (rule outcome_bind [OF interval_calc_keeps [OF k]], clarify)
    fix t and T :: real
    assume k1: "keeps s (fst (t, T))"
    show "outcome {FpRange} (keeps s)
      (if tp (rtcp_var t) + T \<le> rtcp_current_time s
       then bindE (rtcp_send_report t) (\<lambda>(sess, pkt_size).
         bindE (sess_interval_calc (sess\<lparr>rtcp_var := (rtcp_var sess)
              \<lparr>avg_rtcp_size := 1 / 16 * real (unat pkt_size) + 15 / 16 * avg_rtcp_size (rtcp_var sess),
               tp := rtcp_current_time s\<rparr>\<rparr>)) (\<lambda>(sess, t).
         bindE (rtcp_interval_schedule sess (rtcp_current_time s) (t + rtcp_current_time s)) (\<lambda>sess.
         Inr (sess\<lparr>rtcp_var := (rtcp_var sess)\<lparr>initial := False\<rparr>\<rparr>))))
       else rtcp_interval_schedule t (rtcp_current_time s) (tp (rtcp_var t) + T))"
    proof (cases "tp (rtcp_var t) + T \<le> rtcp_current_time s")
      case True
      show ?thesis
        unfolding if_P [OF True]
      proof (rule outcome_bind [OF send_report_keeps], use k1 in simp, clarify)
        fix u n assume "keeps s (fst (u, n :: u32))"
        then have k2: "keeps s (u\<lparr>rtcp_var := v\<rparr>)" if "members v = members (rtcp_var u)" for v
          using that keeps_var by simp
        show "outcome {FpRange} (keeps s)
          (bindE (sess_interval_calc (u\<lparr>rtcp_var := (rtcp_var u)
              \<lparr>avg_rtcp_size := 1 / 16 * real (unat n) + 15 / 16 * avg_rtcp_size (rtcp_var u),
               tp := rtcp_current_time s\<rparr>\<rparr>)) (\<lambda>(sess, t).
           bindE (rtcp_interval_schedule sess (rtcp_current_time s) (t + rtcp_current_time s)) (\<lambda>sess.
           Inr (sess\<lparr>rtcp_var := (rtcp_var sess)\<lparr>initial := False\<rparr>\<rparr>))))"
        proof (rule outcome_bind [OF interval_calc_keeps [OF k2]], simp, clarify)
          fix v T2 assume k3: "keeps s (fst (v, T2 :: real))"
          have "outcome {FpRange} (keeps s)
              (rtcp_interval_schedule v (rtcp_current_time s) (T2 + rtcp_current_time s))"
            using k3 by (simp add: schedule_keeps)
          then show "outcome {FpRange} (keeps s)
            (bindE (rtcp_interval_schedule v (rtcp_current_time s) (T2 + rtcp_current_time s)) (\<lambda>sess.
             Inr (sess\<lparr>rtcp_var := (rtcp_var sess)\<lparr>initial := False\<rparr>\<rparr>)))"
            by (rule outcome_bind) (simp add: keeps_var)
        qed
      qed
    next
      case False
      then show ?thesis using k1 by (simp add: schedule_keeps)
    qed
  qed
qed

end
