(* ===== verification/Rtp_Tx.thy ===== *)
theory Rtp_Tx
  imports Rtp_Inv
begin

text \<open>
  RTP transmission: the packet that \<open>rtp_tx\<close> hands to the transport, what a receiver makes of
  it, and the invariant of the session.
\<close>

section \<open>Writing the packet buffer\<close>

lemma put_pkt_here:
  "\<lbrakk>rtp_pkt s = m @ xs; i = length m; length bs \<le> length xs\<rbrakk> \<Longrightarrow>
   put_pkt s i bs = Inr (s\<lparr>rtp_pkt := m @ bs @ drop (length bs) xs\<rparr>)"
  by (simp add: put_pkt_def wr_def)

lemma put_pkt_words_here:
  "\<lbrakk>rtp_pkt s = m @ xs; i = length m; 4 * length ws \<le> length xs\<rbrakk> \<Longrightarrow>
   put_pkt_words s i ws =
     Inr (s\<lparr>rtp_pkt := m @ concat (map bytes32 ws) @ drop (4 * length ws) xs\<rparr>)"
proof (induction ws arbitrary: s m xs i)
  case (Cons w ws)
  have "put_pkt s i (bytes32 w) = Inr (s\<lparr>rtp_pkt := (m @ bytes32 w) @ drop 4 xs\<rparr>)"
    using Cons.prems by (simp add: put_pkt_here)
  with Cons.prems show ?case
    using Cons.IH [of "s\<lparr>rtp_pkt := (m @ bytes32 w) @ drop 4 xs\<rparr>" "m @ bytes32 w" "drop 4 xs" "i + 4"]
    by (simp add: add.commute)
qed simp

text \<open>The fixed header and the CSRCs, written one after the other from the start.\<close>

lemma put_four:
  assumes "length a = 2" "length b = 2" "length c = 4" "length d = 4" "12 \<le> length (rtp_pkt s)"
  shows "put_pkt s 0 a = Inr (s\<lparr>rtp_pkt := a @ drop 2 (rtp_pkt s)\<rparr>)"
    "put_pkt (s\<lparr>rtp_pkt := a @ drop 2 (rtp_pkt s)\<rparr>) 2 b =
       Inr (s\<lparr>rtp_pkt := a @ b @ drop 4 (rtp_pkt s)\<rparr>)"
    "put_pkt (s\<lparr>rtp_pkt := a @ b @ drop 4 (rtp_pkt s)\<rparr>) 4 c =
       Inr (s\<lparr>rtp_pkt := a @ b @ c @ drop 8 (rtp_pkt s)\<rparr>)"
    "put_pkt (s\<lparr>rtp_pkt := a @ b @ c @ drop 8 (rtp_pkt s)\<rparr>) 8 d =
       Inr (s\<lparr>rtp_pkt := a @ b @ c @ d @ drop 12 (rtp_pkt s)\<rparr>)"
  using assms by (simp_all add: put_pkt_def wr_def del: add_2_eq_Suc add_2_eq_Suc')

lemma put_header_words:
  assumes "12 + 4 * length ws \<le> length (rtp_pkt s)"
  shows "bindE (put_rtp_header s n ts ssrc) (\<lambda>s. put_pkt_words s 12 ws) =
    Inr (s\<lparr>rtp_pkt := [rtp_first_byte False n, take_bit 7 (c_pt (config s))] @ bytes16 (sess_seq s) @
      bytes32 ts @ bytes32 ssrc @ concat (map bytes32 ws) @ drop (12 + 4 * length ws) (rtp_pkt s)\<rparr>)"
proof -
  define b where "b = [rtp_first_byte False n, take_bit 7 (c_pt (config s))]"
  let ?B = "rtp_pkt s"
  let ?m = "b @ bytes16 (sess_seq s) @ bytes32 ts @ bytes32 ssrc"
  have b: "length b = 2" by (simp add: b_def)
  have B: "12 \<le> length ?B" "4 * length ws \<le> length (drop 12 ?B)" using assms by simp_all
  note f = put_four [OF b, of "bytes16 (sess_seq s)" "bytes32 ts" "bytes32 ssrc" s]
  have h: "put_rtp_header s n ts ssrc = Inr (s\<lparr>rtp_pkt := ?m @ drop 12 ?B\<rparr>)"
    using f B(1) by (simp add: put_rtp_header_def b_def [symmetric])
  have "put_pkt_words (s\<lparr>rtp_pkt := ?m @ drop 12 ?B\<rparr>) 12 ws =
      Inr ((s\<lparr>rtp_pkt := ?m @ drop 12 ?B\<rparr>)\<lparr>rtp_pkt := ?m @ concat (map bytes32 ws) @
        drop (4 * length ws) (drop 12 ?B)\<rparr>)"
    by (rule put_pkt_words_here [OF _ _ B(2)]) (simp_all add: b)
  with h show ?thesis by (simp add: b_def add.commute)
qed

lemma first_byte_padding: "rtp_first_byte False n OR 0x20 = rtp_first_byte True n"
  by (simp add: rtp_first_byte_def or.assoc or.commute or.left_commute)

lemma length_pad_bytes: "n < 256 \<Longrightarrow> length (pad_bytes n) = n"
  by (simp add: pad_bytes_def)

section \<open>The packet\<close>

text \<open>The padding of a packet of the given size, when the session aligns its packets.\<close>

definition tx_pad :: "rtp_session \<Rightarrow> nat \<Rightarrow> nat" where
  "tx_pad s k = (if align_by_4 (config s) = 1 \<and> k mod 4 \<noteq> 0 then 4 - k mod 4 else 0)"

lemma tx_pad_bound: "tx_pad s k \<le> 3"
  by (auto simp: tx_pad_def)

lemma tx_align_eq:
  assumes "rtp_pkt s = (b # m) @ rest" "k = Suc (length m)" "k + tx_pad s k \<le> length (rtp_pkt s)"
    "k + 4 \<le> 1024"
  shows "rtp_tx_align s k = Inr (s\<lparr>rtp_pkt := ((if tx_pad s k = 0 then b else b OR 0x20) # m) @
      pad_bytes (tx_pad s k) @ drop (tx_pad s k) rest\<rparr>, Some (k + tx_pad s k))"
proof (cases "align_by_4 (config s) = 1 \<and> k mod 4 \<noteq> 0")
  case False
  then show ?thesis
    using assms(1) by (auto simp: rtp_tx_align_def tx_pad_def pad_bytes_def)
next
  case True
  let ?p = "tx_pad s k"
  have p: "?p = 4 - k mod 4" "?p \<noteq> 0" using True by (auto simp: tx_pad_def)
  have l: "length (pad_bytes ?p) = ?p" using tx_pad_bound [of s k] by (simp add: length_pad_bytes)
  let ?s1 = "s\<lparr>rtp_pkt := (b # m) @ pad_bytes ?p @ drop ?p rest\<rparr>"
  have 1: "put_pkt s k (pad_bytes ?p) = Inr ?s1"
    using assms put_pkt_here [of s "b # m" rest k "pad_bytes ?p"] l by simp
  have 2: "put_pkt ?s1 0 [b OR 0x20] = Inr (?s1\<lparr>rtp_pkt := ((b OR 0x20) # m) @ pad_bytes ?p @ drop ?p rest\<rparr>)"
    using put_pkt_here [of ?s1 "[]" "(b # m) @ pad_bytes ?p @ drop ?p rest" 0 "[b OR 0x20]"] by simp
  show ?thesis
    using True assms(4) 1 2 p by (simp add: rtp_tx_align_def config_defs Let_def)
qed

text \<open>The packet of a call, as octets.\<close>

definition tx_packet :: "rtp_session \<Rightarrow> u8 list \<Rightarrow> u32 \<Rightarrow> u32 \<Rightarrow> u32 list \<Rightarrow> u8 list" where
  "tx_packet s payload ts ssrc csrc =
     (let pad = tx_pad s (12 + 4 * length csrc + length payload)
      in rtp_bytes (pad \<noteq> 0) (take_bit 7 (c_pt (config s))) (sess_seq s) ts ssrc csrc
           (payload @ pad_bytes pad))"

text \<open>What happens before the packet is built: the member becomes a sender, the counters move.\<close>

definition tx_account :: "rtp_session \<Rightarrow> nat \<Rightarrow> u32 \<Rightarrow> rtp_session res" where
  "tx_account s me plen =
     bindE (rtp_timers_sender_restart
       (if \<not> we_sent (rtcp_var s)
        then rtcp_interval_handle_rtp_event
          (upd_mem me rtp_member_set_sender (s\<lparr>rtcp_var := (rtcp_var s)\<lparr>we_sent := True\<rparr>\<rparr>)) False True
        else s) me) (\<lambda>s.
     Inr (s\<lparr>tx_pkt_count := tx_pkt_count s + 1, tx_octet_count := tx_octet_count s + plen\<rparr>))"

lemma restart_sender_frame:
  "rtp_timers_sender_restart s m = Inr s' \<Longrightarrow> \<exists>t. s' = s\<lparr>sess_tmr := t\<rparr>"
  by (auto simp: rtp_timers_sender_restart_def start_te_def stop_te_def res_iff)

lemma tx_account_ok:
  assumes "sess_inv s"
  shows "\<exists>s'. tx_account s me plen = Inr s' \<and> keeps s s' \<and> rtp_pkt s' = rtp_pkt s \<and>
    config s' = config s \<and> sess_seq s' = sess_seq s \<and> trace (env s') = trace (env s) \<and>
    m_ssrc (mem s' me) = m_ssrc (mem s me) \<and> self s' = self s \<and>
    tx_pkt_count s' = tx_pkt_count s + 1 \<and> tx_octet_count s' = tx_octet_count s + plen \<and>
    we_sent (rtcp_var s')"
proof -
  note wf = sess_inv_wf [OF assms]
  let ?s1 = "s\<lparr>rtcp_var := (rtcp_var s)\<lparr>we_sent := True\<rparr>\<rparr>"
  let ?s2 = "upd_mem me rtp_member_set_sender ?s1"
  let ?s3 = "if \<not> we_sent (rtcp_var s) then rtcp_interval_handle_rtp_event ?s2 False True else s"
  have c1: "calm 0 s ?s1" using calm_var(15) [OF wf, of "(rtcp_var s)\<lparr>we_sent := True\<rparr>"] by simp
  have c2: "calm 0 s ?s2" by (rule calm_trans0 [OF c1 calm_flag(6) [OF calm_wf [OF c1]]])
  have "calm 0 s (rtcp_interval_handle_rtp_event ?s2 False True)"
    using calm_trans0 [OF c2 calm_rtp_event [OF calm_wf [OF c2], of False True]] by simp
  then have c3: "calm 0 s ?s3" using calm_refl [OF wf] by simp
  have f3: "rtp_pkt ?s3 = rtp_pkt s" "config ?s3 = config s" "sess_seq ?s3 = sess_seq s"
    "env ?s3 = env s" "self ?s3 = self s" "tx_pkt_count ?s3 = tx_pkt_count s"
    "tx_octet_count ?s3 = tx_octet_count s" "m_ssrc (mem ?s3 me) = m_ssrc (mem s me)"
    "we_sent (rtcp_var ?s3)"
    using c3 by (auto simp: rtcp_interval_handle_rtp_event_def Let_def upd_mem_def calm_def)
  obtain s4 where s4: "rtp_timers_sender_restart ?s3 me = Inr s4"
    using timer_steps_total(2) [OF calm_wf [OF c3], of me]
    by (cases "rtp_timers_sender_restart ?s3 me") auto
  obtain t where t: "s4 = ?s3\<lparr>sess_tmr := t\<rparr>" using restart_sender_frame [OF s4] by blast
  have c4: "calm 0 s s4" by (rule calm_trans0 [OF c3 calm_restart_sender [OF calm_wf [OF c3] s4]])
  let ?s5 = "s4\<lparr>tx_pkt_count := tx_pkt_count s4 + 1, tx_octet_count := tx_octet_count s4 + plen\<rparr>"
  have "keeps s ?s5"
    by (rule calm_keeps [OF assms calm_trans0 [OF c4 calm_var(5) [OF calm_wf [OF c4]]]])
  moreover have "tx_account s me plen = Inr ?s5" unfolding tx_account_def s4 by simp
  ultimately show ?thesis using f3 by (intro exI [of _ ?s5]) (simp add: t mem_def)
qed

lemma rtp_tx_by_account:
  assumes "self s = Some me" "tx_account s me plen = Inr s1"
  shows "rtp_tx s payload plen ts csrc ncsrc =
    (let n = unat ncsrc; k = unat plen in
     if 12 + 4 * n + k > 1024 then Inr s1
     else if length payload < k then Inl OobRead
     else bindE (put_pkt s1 (12 + 4 * n) (take k payload)) (\<lambda>s2.
          bindE (put_rtp_header s2 n ts (m_ssrc (mem s2 me))) (\<lambda>s2.
          if length csrc < n then Inl OobRead else
          bindE (put_pkt_words s2 12 (take n csrc)) (\<lambda>s2.
          bindE (rtp_tx_align s2 (12 + 4 * n + k)) (\<lambda>(s2, r).
          case r of
            None \<Rightarrow> Inr s2
          | Some j \<Rightarrow> Inr ((emit (TxRtp (take j (rtp_pkt s2))) s2)\<lparr>sess_seq := sess_seq s2 + 1\<rparr>))))))"
  using assms
  by (auto simp: rtp_tx_def tx_account_def Let_def config_defs RTP_PKT_SIZE_def RTP_HDR_SIZE_def res_iff
      mult.commute emit_def cong: if_cong)

text \<open>Building the packet, once there is room for it.\<close>

lemma tx_build:
  fixes csrc payload k
  defines "n \<equiv> length csrc"
  assumes "length (rtp_pkt s) = 256" "12 + 4 * n + length payload \<le> 256"
  shows "\<exists>p. bindE (put_pkt s (12 + 4 * n) payload) (\<lambda>s2.
      bindE (put_rtp_header s2 n ts ssrc) (\<lambda>s2.
      bindE (put_pkt_words s2 12 csrc) (\<lambda>s2.
      rtp_tx_align s2 (12 + 4 * n + length payload)))) =
    Inr (s\<lparr>rtp_pkt := p\<rparr>, Some (length (tx_packet s payload ts ssrc csrc))) \<and>
    length p = 256 \<and>
    take (length (tx_packet s payload ts ssrc csrc)) p = tx_packet s payload ts ssrc csrc"
proof -
  let ?B = "rtp_pkt s" and ?h = "12 + 4 * n" and ?k = "12 + 4 * n + length payload"
  define s2 where "s2 = s\<lparr>rtp_pkt := take ?h ?B @ payload @ drop ?k ?B\<rparr>"
  define b where "b = rtp_first_byte False n"
  define m where "m = take_bit 7 (c_pt (config s)) # bytes16 (sess_seq s) @ bytes32 ts @ bytes32 ssrc @
      concat (map bytes32 csrc) @ payload"
  have s2: "rtp_pkt s2 = take ?h ?B @ payload @ drop ?k ?B" "config s2 = config s"
    "sess_seq s2 = sess_seq s" "length (rtp_pkt s2) = 256"
    using assms by (simp_all add: s2_def)
  have 1: "put_pkt s ?h payload = Inr s2"
    using assms by (simp add: put_pkt_def wr_def s2_def)
  have d: "drop ?h (rtp_pkt s2) = payload @ drop ?k ?B" using assms by (simp add: s2)
  have "?h \<le> length (rtp_pkt s2)" using assms by (simp add: s2)
  then have 2: "bindE (put_rtp_header s2 n ts ssrc) (\<lambda>s. put_pkt_words s 12 csrc) =
      Inr (s2\<lparr>rtp_pkt := (b # m) @ drop ?k ?B\<rparr>)"
    using put_header_words [of csrc s2 n ts ssrc] d by (simp add: n_def [symmetric] s2 b_def m_def)
  define s3 where "s3 = s2\<lparr>rtp_pkt := (b # m) @ drop ?k ?B\<rparr>"
  have k: "?k = Suc (length m)" by (simp add: m_def n_def)
  have p: "tx_pad s3 ?k = tx_pad s ?k" by (simp add: tx_pad_def s3_def s2_def)
  let ?pad = "tx_pad s ?k"
  have fit: "?k + ?pad \<le> 256"
  proof (cases "?k mod 4 = 0")
    case False
    then show ?thesis using assms(3) by (simp add: tx_pad_def; presburger)
  qed (use assms(3) in \<open>simp add: tx_pad_def\<close>)
  have l: "length (pad_bytes ?pad) = ?pad" using tx_pad_bound [of s ?k] by (simp add: length_pad_bytes)
  let ?p = "((if ?pad = 0 then b else b OR 0x20) # m) @ pad_bytes ?pad @ drop ?pad (drop ?k ?B)"
  have 3: "rtp_tx_align s3 ?k = Inr (s3\<lparr>rtp_pkt := ?p\<rparr>, Some (?k + ?pad))"
    using tx_align_eq [of s3 b m "drop ?k ?B" ?k] fit assms k p by (simp add: s3_def s2)
  have t: "tx_packet s payload ts ssrc csrc = (if ?pad = 0 then b else b OR 0x20) # m @ pad_bytes ?pad"
    by (simp add: tx_packet_def n_def Let_def rtp_bytes_def m_def b_def first_byte_padding)
  have lt: "length (tx_packet s payload ts ssrc csrc) = ?k + ?pad" using k l by (simp add: t)
  have "bindE (put_pkt s ?h payload) (\<lambda>s2. bindE (put_rtp_header s2 n ts ssrc) (\<lambda>s2.
      bindE (put_pkt_words s2 12 csrc) (\<lambda>s2. rtp_tx_align s2 ?k))) = Inr (s\<lparr>rtp_pkt := ?p\<rparr>, Some (?k + ?pad))"
    using 1 2 3 by (simp add: bindE_assoc [symmetric] s3_def [symmetric]) (simp add: s3_def s2_def)
  moreover have "take (?k + ?pad) ?p = tx_packet s payload ts ssrc csrc"
  proof -
    have "tx_packet s payload ts ssrc csrc @ drop ?pad (drop ?k ?B) = ?p" by (simp add: t)
    from append_eq_conv_conj [THEN iffD1, OF this] show ?thesis by (simp only: lt)
  qed
  moreover have "length ?p = 256" using k l fit assms(2) by simp
  ultimately show ?thesis unfolding lt by blast
qed

lemma tx_sends_packet:
  assumes "sess_inv s" "self s = Some me" "length csrc = unat ncsrc" "length payload = unat plen"
    "12 + 4 * length csrc + length payload \<le> RTP_CONFIG_AVERAGE_RTCP_SIZE"
  shows "\<exists>s'. rtp_tx s payload plen ts csrc ncsrc = Inr s' \<and> sess_inv s' \<and>
    trace (env s') = trace (env s) @ [TxRtp (tx_packet s payload ts (m_ssrc (mem s me)) csrc)] \<and>
    sess_seq s' = sess_seq s + 1 \<and> tx_pkt_count s' = tx_pkt_count s + 1 \<and>
    tx_octet_count s' = tx_octet_count s + plen \<and> we_sent (rtcp_var s') \<and>
    config s' = config s \<and> self s' = self s \<and> m_ssrc (mem s' me) = m_ssrc (mem s me)"
proof -
  obtain s1 where s1: "tx_account s me plen = Inr s1" "keeps s s1" "rtp_pkt s1 = rtp_pkt s"
    "config s1 = config s" "sess_seq s1 = sess_seq s" "trace (env s1) = trace (env s)"
    "self s1 = self s" "m_ssrc (mem s1 me) = m_ssrc (mem s me)" "tx_pkt_count s1 = tx_pkt_count s + 1"
    "tx_octet_count s1 = tx_octet_count s + plen" "we_sent (rtcp_var s1)"
    using tx_account_ok [OF assms(1), of me plen] by blast
  have len: "length (rtp_pkt s1) = 256"
    using assms(1) s1(3) by (simp add: sess_inv_def sess_inv_at_def sess_shape_def config_defs)
  let ?ssrc = "m_ssrc (mem s me)"
  have pk: "tx_packet s1 payload ts ssrc csrc = tx_packet s payload ts ssrc csrc" for ssrc
    using s1 by (simp add: tx_packet_def tx_pad_def)
  let ?P = "tx_packet s payload ts ?ssrc csrc"
  obtain p where p: "bindE (put_pkt s1 (12 + 4 * length csrc) payload) (\<lambda>s2.
      bindE (put_rtp_header s2 (length csrc) ts ?ssrc) (\<lambda>s2.
      bindE (put_pkt_words s2 12 csrc) (\<lambda>s2.
      rtp_tx_align s2 (12 + 4 * length csrc + length payload)))) = Inr (s1\<lparr>rtp_pkt := p\<rparr>, Some (length ?P))"
    "length p = 256" "take (length ?P) p = ?P"
    using tx_build [OF len, of csrc payload ts ?ssrc] assms(5) by (auto simp: pk config_defs)
  let ?s' = "(emit (TxRtp ?P) (s1\<lparr>rtp_pkt := p\<rparr>))\<lparr>sess_seq := sess_seq s1 + 1\<rparr>"
  let ?rest = "\<lambda>(s2, r). case r of
      None \<Rightarrow> Inr s2
    | Some j \<Rightarrow> Inr ((emit (TxRtp (take j (rtp_pkt s2))) s2)\<lparr>sess_seq := sess_seq s2 + 1\<rparr>)"
  obtain q where q: "put_pkt s1 (12 + 4 * length csrc) payload = Inr (s1\<lparr>rtp_pkt := q\<rparr>)"
    using assms(5) len by (simp add: put_pkt_def wr_def config_defs)
  have "rtp_tx s payload plen ts csrc ncsrc =
      bindE (bindE (put_pkt s1 (12 + 4 * length csrc) payload) (\<lambda>s2.
        bindE (put_rtp_header s2 (length csrc) ts ?ssrc) (\<lambda>s2.
        bindE (put_pkt_words s2 12 csrc) (\<lambda>s2.
        rtp_tx_align s2 (12 + 4 * length csrc + length payload))))) ?rest"
    using assms(5)
    by (simp add: rtp_tx_by_account [OF assms(2) s1(1)] assms(3,4) [symmetric] config_defs bindE_assoc
        q s1(8) [unfolded mem_def] mem_def Let_def cong: if_cong)
  then have "rtp_tx s payload plen ts csrc ncsrc = Inr ?s'"
    by (simp add: p emit_def)
  moreover have "keeps s ?s'"
  proof -
    have "keeps s (s1\<lparr>rtp_pkt := p\<rparr>)"
      using keeps_calm [OF s1(2) calm_var(14) [OF keeps_wf [OF s1(2)]]] p(2) by (simp add: config_defs)
    from keeps_steps(5) [OF this] have "keeps s (emit (TxRtp ?P) (s1\<lparr>rtp_pkt := p\<rparr>))" .
    from keeps_calm [OF this calm_var(6) [OF keeps_wf [OF this]]] show ?thesis .
  qed
  ultimately show ?thesis
    using s1 by (intro exI [of _ ?s']) (simp add: emit_def keeps_def mem_def)
qed

text \<open>
  C15: a packet that fits the buffer of the session is handed to the transport as exactly the
  octets of the RTP layout, with the session's sequence number, payload type and SSRC, padded
  to a multiple of four when the session asks for it; the next packet gets the next sequence
  number, the transmission counters move, the session has become a sender, and the invariant
  of the session holds on.
\<close>

theorem rtp_tx_sends:
  assumes "sess_inv s" "self s = Some me" "length csrc = unat ncsrc" "length payload = unat plen"
    "12 + 4 * length csrc + length payload \<le> RTP_CONFIG_AVERAGE_RTCP_SIZE"
  shows "\<exists>s'. rtp_tx s payload plen ts csrc ncsrc = Inr s' \<and> sess_inv s' \<and>
    trace (env s') = trace (env s) @ [TxRtp (tx_packet s payload ts (m_ssrc (mem s me)) csrc)] \<and>
    sess_seq s' = sess_seq s + 1 \<and> tx_pkt_count s' = tx_pkt_count s + 1 \<and>
    tx_octet_count s' = tx_octet_count s + plen \<and> we_sent (rtcp_var s')"
  using tx_sends_packet [OF assms] by blast


section \<open>What the receiver makes of it\<close>

lemma last_pad_bytes: "0 < n \<Longrightarrow> n < 256 \<Longrightarrow> unat (last (xs @ pad_bytes n)) = n"
  by (simp add: pad_bytes_def unat_of_nat_small)

text \<open>
  A transmitted packet passes the header check of a receiver that expects its payload
  type, and comes back as it was sent: payload, sequence number, timestamp, SSRC and CSRCs.
\<close>

lemma tx_packet_round_trip:
  fixes s payload ts ssrc csrc
  defines "msg \<equiv> tx_packet s payload ts ssrc csrc"
  assumes "length csrc < 16" "length payload < 2 ^ 16"
  shows "\<exists>plen. rtp_header_validity_check r msg (of_nat (length msg)) (take_bit 7 (c_pt (config s))) =
      Inr (r, Some (12 + 4 * length csrc, plen)) \<and>
    unat plen = length payload \<and> seg msg (12 + 4 * length csrc) (unat plen) = payload \<and>
    rd16 msg 2 = Inr (sess_seq s) \<and> rd32 msg 4 = Inr ts \<and> rd32 msg 8 = Inr ssrc \<and>
    (\<forall>i < length csrc. rd32 msg (12 + 4 * i) = Inr (csrc ! i))"
proof -
  let ?pad = "tx_pad s (12 + 4 * length csrc + length payload)" and ?pt = "take_bit 7 (c_pt (config s))"
  note pad = tx_pad_bound [of s "12 + 4 * length csrc + length payload"]
  have msg: "msg = rtp_bytes (?pad \<noteq> 0) ?pt (sess_seq s) ts ssrc csrc (payload @ pad_bytes ?pad)"
    by (simp add: msg_def tx_packet_def Let_def)
  note rd = read_rtp_bytes [where p = "?pad \<noteq> 0" and ?b1.0 = ?pt and seq = "sess_seq s" and ts = ts and
      ssrc = ssrc and csrcs = csrc and rest = "payload @ pad_bytes ?pad", folded msg]
  note b0 = hdr_first_byte [OF assms(2), of "?pad \<noteq> 0"]
  have len: "length msg = 12 + 4 * length csrc + length payload + ?pad"
    using pad by (simp add: msg length_rtp_bytes length_pad_bytes)
  have u: "unat (of_nat (length msg) :: u32) = length msg"
    using len pad assms(2,3) by (intro unat_of_nat_small) simp
  have la: "unat (last msg) = ?pad" if "?pad \<noteq> 0"
  proof -
    have "last msg = last (payload @ pad_bytes ?pad)" using that by (simp add: msg rtp_bytes_def pad_bytes_def)
    then show ?thesis using last_pad_bytes [of ?pad payload] that pad by simp
  qed
  have "payload \<noteq> []" if "?pad \<noteq> 0" using that by (auto simp: tx_pad_def split: if_splits)
  then have small: "?pad < length msg - (12 + 4 * length csrc)" if "?pad \<noteq> 0"
    using that len by simp
  have cc: "hdr_cc (msg ! 0) = length csrc" "hdr_version (msg ! 0) = 2" "\<not> hdr_x (msg ! 0)"
    "hdr_p (msg ! 0) \<longleftrightarrow> ?pad \<noteq> 0"
    unfolding rd(1) by (simp_all only: b0 not_False_eq_True)
  have wf: "rtp_well_formed msg ?pt"
    using cc rd(2) len la small by (simp add: rtp_well_formed_def hdr_pt_def)
  obtain plen where pl: "rtp_header_validity_check r msg (of_nat (length msg)) ?pt =
      Inr (r, Some (12 + 4 * length csrc, plen))"
    "12 + 4 * length csrc + unat plen + ?pad = length msg"
    using header_check_value [OF u, of ?pt r] wf cc la
    by (cases "?pad = 0") auto
  have "unat plen = length payload" "seg msg (12 + 4 * length csrc) (unat plen) = payload"
    using pl(2) len by (simp_all add: rd(7))
  with pl(1) rd(3-6) show ?thesis by blast
qed

end
