(* ===== verification/Session_Api.thy ===== *)
theory Session_Api
  imports Report_Inv Rtp_Tx
begin

text \<open>
  The interface of the library, \<^verbatim>\<open>src/rtp_session.c\<close>: initialisation, transmission, reception,
  the timer tick with the callbacks of \<^verbatim>\<open>src/rtp_timers.c\<close>, and shutdown; then the session as
  the owner of its timer service, and transmission as a step that keeps the invariant.
\<close>

section \<open>Initialisation\<close>

definition rtcp_init :: "rtp_session \<Rightarrow> rtp_session res" where
  "rtcp_init sess =
     (let tc = rtcp_current_time sess;
          sess = rtcp_interval_control_var_init sess
      in bindE (soft_timer_init_elem (sess_tmr sess) RtcpTimer) (\<lambda>t.
         bindE (sess_interval_calc (sess\<lparr>sess_tmr := t\<rparr>)) (\<lambda>(sess, d).
         rtcp_interval_schedule sess tc (tc + d))))"

definition rtp_init :: "rtp_session \<Rightarrow> rtp_session" where
  "rtp_init sess = sess"

definition rtp_session_init_self ::
  "rtp_session \<Rightarrow> sockaddr_in \<Rightarrow> sockaddr_in \<Rightarrow> u8 list \<Rightarrow> u8 \<Rightarrow> rtp_session res" where
  "rtp_session_init_self sess rtp_addr rtcp_addr name len =
     (let (sess, ssrc) = draw_random32 sess in
      bindE (rtp_session_alloc_member sess ssrc) (\<lambda>(sess, m).
      let sess = sess\<lparr>self := m\<rparr> in
      bindE (deref (self sess)) (\<lambda>me.
      let sess = upd_mem me rtp_member_set_self sess in
      bindE (rtp_member_set_cname (mem sess me) name len) (\<lambda>x.
      let sess = upd_mem me (\<lambda>_. x) sess;
          sess = upd_mem me (\<lambda>x. x\<lparr>m_rtp_addr := rtp_addr\<rparr>) sess;
          sess = upd_mem me (\<lambda>x. x\<lparr>m_rtcp_addr := rtcp_addr\<rparr>) sess
      in Inr sess))))"

text \<open>\<open>sess\<close> is the memory of the session before: its contents are arbitrary, its arrays have
  their sizes.\<close>

definition rtp_session_init :: "rtp_session \<Rightarrow> rtp_session_config \<Rightarrow> rtp_session res" where
  "rtp_session_init sess cfg =
     (let sess = sess\<lparr>config := cfg, last_rtp_error := rtp_rx_error_no_error,
                      last_rtcp_error := rtcp_rx_error_no_error,
                      sess_tmr := soft_timer_init (sess_tmr sess) 100\<rparr>
      in bindE (rtp_source_conflict_table_init (sess_tmr sess) (src_conflict sess)) (\<lambda>(t, tbl).
         let sess = sess\<lparr>sess_tmr := t, src_conflict := tbl,
                         member_table := rtp_member_table_init (member_table sess),
                         invalid_rtcp_pkt := 0, invalid_rtp_pkt := 0\<rparr>;
             (sess, r) = draw_random32 sess;
             sess = rtp_session_reset_tx_stats (sess\<lparr>sess_seq := ucast r\<rparr>)
         in bindE (rtp_session_init_self sess (c_rtp_addr cfg) (c_rtcp_addr cfg) (c_cname cfg)
                     (c_cname_len cfg)) (\<lambda>sess.
            rtcp_init (rtp_init sess))))"

section \<open>Shutdown\<close>

definition rtcp_deinit :: "rtp_session \<Rightarrow> rtp_session" where
  "rtcp_deinit sess = rtcp_interval_stop_timer sess"

definition rtp_deinit :: "rtp_session \<Rightarrow> rtp_session" where
  "rtp_deinit sess = sess"

text \<open>The loop over the members, with fuel.\<close>

fun deinit_members :: "nat \<Rightarrow> rtp_session \<Rightarrow> nat option \<Rightarrow> rtp_session res" where
  "deinit_members fuel sess None = Inr sess"
| "deinit_members 0 sess (Some m) = Inl NoReturn"
| "deinit_members (Suc fuel) sess (Some m) =
     (let sess = rtp_timers_deinit_member sess m
      in deinit_members fuel sess (rtp_member_table_get_next (member_table sess) (Some m)))"

definition soft_timer_deinit :: "sess_timer \<Rightarrow> sess_timer" where
  "soft_timer_deinit t = t"

definition rtp_session_deinit :: "rtp_session \<Rightarrow> rtp_session res" where
  "rtp_session_deinit sess =
     (let sess = rtcp_deinit (rtp_deinit sess) in
      bindE (deinit_members (RTP_CONFIG_MAX_MEMBERS_PER_SESSION + 1) sess
               (rtp_member_table_get_first (member_table sess))) (\<lambda>sess.
      let t = rtp_source_conflict_table_deinit (sess_tmr sess) (src_conflict sess)
      in Inr (sess\<lparr>sess_tmr := soft_timer_deinit t\<rparr>)))"

section \<open>Use\<close>

definition rtp_session_tx ::
  "rtp_session \<Rightarrow> u8 list \<Rightarrow> u32 \<Rightarrow> u32 \<Rightarrow> u32 list \<Rightarrow> u8 \<Rightarrow> (rtp_session \<times> int) res" where
  "rtp_session_tx sess payload payload_len rtp_ts csrc ncsrc =
     bindE (rtp_tx sess payload payload_len rtp_ts csrc ncsrc) (\<lambda>sess. Inr (sess, 0))"

definition rtp_session_bye :: "rtp_session \<Rightarrow> rtp_session \<times> int" where
  "rtp_session_bye sess = (rtcp_tx_bye sess, 0)"

definition rtp_session_rx_rtp :: "rtp_session \<Rightarrow> u8 list \<Rightarrow> u32 \<Rightarrow> sockaddr_in \<Rightarrow> rtp_session res" where
  "rtp_session_rx_rtp sess pkt len from = rtp_rx sess pkt len from"

definition rtp_session_rx_rtcp :: "rtp_session \<Rightarrow> u8 list \<Rightarrow> u32 \<Rightarrow> sockaddr_in \<Rightarrow> rtp_session res" where
  "rtp_session_rx_rtcp sess pkt len from = rtcp_rx sess pkt len from"

text \<open>The callback pointers of the timer elements, as a case distinction on the element.\<close>

definition rtp_timers_member_timedout :: "rtp_session \<Rightarrow> nat \<Rightarrow> rtp_session res" where
  "rtp_timers_member_timedout sess m = rtcp_interval_member_timedout sess m"

definition rtp_timers_sender_timedout :: "rtp_session \<Rightarrow> nat \<Rightarrow> rtp_session res" where
  "rtp_timers_sender_timedout sess m = rtcp_interval_sender_timedout sess m"

definition rtp_timers_leave_timedout :: "rtp_session \<Rightarrow> nat \<Rightarrow> rtp_session res" where
  "rtp_timers_leave_timedout sess m = Inr (rtp_session_dealloc_member sess m)"

fun sess_timer_cb :: "timer_id \<Rightarrow> rtp_session \<Rightarrow> rtp_session res" where
  "sess_timer_cb RtcpTimer sess = rtcp_interval_timeout sess"
| "sess_timer_cb (MemberTe m) sess = rtp_timers_member_timedout sess m"
| "sess_timer_cb (SenderTe m) sess = rtp_timers_sender_timedout sess m"
| "sess_timer_cb (LeaveTe m) sess = rtp_timers_leave_timedout sess m"
| "sess_timer_cb (ConflictTe c) sess = Inr (sess_conflict_expired sess c)"

definition rtp_session_timer_tick :: "rtp_session \<Rightarrow> rtp_session res" where
  "rtp_session_timer_tick sess = soft_timer_drive sess_tmr sess_tmr_update sess_timer_cb sess"

section \<open>The session as the owner of its timer\<close>

lemma running_head: "timeout_list t = p # ps \<Longrightarrow> is_soft_timer_running t p"
  by (simp add: is_soft_timer_running_def)

lemma sess_collect:
  assumes "sess_inv s" "timeout_list (sess_tmr s) = []"
  shows "sess_inv (sess_tmr_update timer_collect s)"
proof -
  have inv: "sess_inv_at 0 {} s" using assms(1) by (simp add: sess_inv_def)
  note D = sess_inv_atD [OF inv]
  note run = timer_collect_running [OF D(1) assms(2)]
  have "bye_of (sess_tmr_update timer_collect s) = bye_of s"
    by (simp add: fun_eq_iff bye_of_def mem_def)
  moreover from this have "active (sess_tmr_update timer_collect s) = active s" by (simp add: active_def)
  moreover have "conflict_wf (timer_collect (sess_tmr s)) (src_conflict s)"
    by (rule conflict_wf_cong [OF D(4)]) (simp add: run)
  ultimately show ?thesis
    using inv timer_collect_wf [OF D(1) assms(2)]
    by (simp add: sess_inv_def sess_inv_at_def run sess_shape_def)
qed

text \<open>Each callback, on the session whose list of timed out elements has lost its head.\<close>

lemma sess_cb_keeps:
  assumes "sess_inv s" "timeout_list (sess_tmr s) = p # ps"
  shows "outcome {FpRange} (\<lambda>s'. sess_inv s' \<and> length (timeout_list (sess_tmr s')) \<le> length ps)
    (sess_timer_cb p (stop_te s p))"
proof -
  have inv: "sess_inv_at 0 {} s" using assms(1) by (simp add: sess_inv_def)
  note D = sess_inv_atD [OF inv]
  let ?s = "stop_te s p"
  have run: "te_running s p" by (rule running_head [OF assms(2)])
  have len: "timeout_list (sess_tmr ?s) = ps"
    by (simp add: stop_te_def pop_is_del [OF D(1) assms(2), symmetric])
  have keep: "outcome {FpRange} (\<lambda>s'. sess_inv s' \<and> length (timeout_list (sess_tmr s')) \<le> length ps) r"
    if "outcome {FpRange} (keeps ?s) r" for r
    using that by (rule outcome_mono [OF _ subset_refl]) (simp add: keeps_def len)
  have calm: "sess_inv ?s" if "free_te p \<or> (\<exists>m. p = MemberTe m)"
    using calm_inv0 [OF inv calm_stop [OF D(1) that]] by (simp add: sess_inv_def)
  show ?thesis
  proof (cases p)
    case RtcpTimer
    have "sess_inv ?s" by (rule calm) (simp add: RtcpTimer)
    then show ?thesis using keep [OF interval_timeout_keeps [of ?s]] by (simp add: RtcpTimer)
  next
    case (MemberTe m)
    have i: "sess_inv ?s" by (rule calm) (simp add: MemberTe)
    have "m \<in> set (active s)" using inv run by (simp add: sess_inv_at_def MemberTe)
    then have act: "m \<in> set (active ?s)"
      using calm_active [OF calm_stop [OF D(1)], of p] MemberTe by simp
    have "outcome {FpRange} (keeps ?s) (rtcp_interval_member_timedout ?s m)"
    proof (rule outcomeI)
      fix f assume "rtcp_interval_member_timedout ?s m = Inl f"
      then show "f \<in> {FpRange}"
        using rtcp_event_fails [OF sess_inv_wf [OF i]]
        by (auto simp: rtcp_interval_member_timedout_def bindE_Inl_iff split: if_splits)
    qed (use member_timedout_inv [OF i act] in \<open>simp add: keeps_def\<close>)
    from keep [OF this] show ?thesis by (simp add: MemberTe rtp_timers_member_timedout_def)
  next
    case (SenderTe m)
    have i: "sess_inv ?s" by (rule calm) (simp add: SenderTe)
    have "outcome {FpRange} (keeps ?s) (rtcp_interval_sender_timedout ?s m)"
    proof (rule outcomeI)
      fix f assume "rtcp_interval_sender_timedout ?s m = Inl f"
      then show "f \<in> {FpRange}"
        using sess_inv_wf [OF i]
        by (auto simp: rtcp_interval_sender_timedout_def Let_def dest!: rtcp_event_fails [rotated] split: if_splits)
    qed (use calm_keeps [OF i sender_timedout_calm [OF sess_inv_wf [OF i]]] in blast)
    from keep [OF this] show ?thesis by (simp add: SenderTe rtp_timers_sender_timedout_def)
  next
    case (LeaveTe m)
    have m: "m \<in> set (used s)" "bye_of s m" using inv run by (auto simp: sess_inv_at_def LeaveTe)
    have b: "bye_of ?s = bye_of s" by (simp add: fun_eq_iff bye_of_def mem_def stop_te_def)
    then have "active ?s = active s" by (simp add: active_def stop_te_def)
    moreover have "conflict_wf (sess_tmr ?s) (src_conflict s)"
      by (rule conflict_wf_cong [OF D(4)]) (simp add: stop_te_def soft_timer_del_running [OF D(1)] LeaveTe)
    ultimately have "sess_inv_at 0 {m} ?s"
      using inv b soft_timer_del_wf [OF D(1), of p]
      by (auto simp: sess_inv_at_def sess_shape_def stop_te_def soft_timer_del_running [OF D(1)] LeaveTe)
    from dealloc_inv [OF this] m b len show ?thesis
      by (simp add: LeaveTe rtp_timers_leave_timedout_def sess_inv_def stop_te_def)
  next
    case (ConflictTe c)
    have "sess_inv (sess_conflict_expired ?s c)"
      using conflict_expired_inv [OF assms(1), of c] run by (simp add: ConflictTe)
    then show ?thesis using len by (simp add: ConflictTe sess_conflict_expired_def)
  qed
qed

text \<open>The contract of the timer service, met by the session.\<close>

interpretation st: timer_host sess_tmr sess_tmr_update sess_timer_cb sess_inv
proof unfold_locales
  fix s p ps s'
  assume a: "sess_inv s" "timeout_list (sess_tmr s) = p # ps"
    "sess_timer_cb p (sess_tmr_update (\<lambda>t. t\<lparr>timeout_list := ps\<rparr>) s) = Inr s'"
  show "sess_inv s' \<and> length (timeout_list (sess_tmr s')) \<le> length ps"
    using outcome_Inr [OF sess_cb_keeps [OF a(1,2)]] a(3) pop_is_stop [OF sess_inv_wf [OF a(1)] a(2)]
    by simp
qed (simp_all add: sess_collect)

lemma tick_keeps:
  assumes "sess_inv s" "timeout_list (sess_tmr s) = []"
  shows "outcome {FpRange} (\<lambda>s'. sess_inv s' \<and> timeout_list (sess_tmr s') = []) (rtp_session_timer_tick s)"
proof (rule outcomeI)
  fix s' assume "rtp_session_timer_tick s = Inr s'"
  then show "sess_inv s' \<and> timeout_list (sess_tmr s') = []"
    unfolding rtp_session_timer_tick_def by (rule st.drive_inv [OF assms])
next
  fix f assume "rtp_session_timer_tick s = Inl f"
  then obtain s1 p ps where a: "sess_inv s1" "timeout_list (sess_tmr s1) = p # ps"
    "sess_timer_cb p (sess_tmr_update (\<lambda>t. t\<lparr>timeout_list := ps\<rparr>) s1) = Inl f"
    unfolding rtp_session_timer_tick_def using st.drive_fails [OF assms] by blast
  then show "f \<in> {FpRange}"
    using outcome_Inl [OF sess_cb_keeps [OF a(1,2)]] pop_is_stop [OF sess_inv_wf [OF a(1)] a(2)] by simp
qed

section \<open>Transmission of anything\<close>

lemma put_pkt_keeps:
  assumes "keeps s t"
  shows "outcome {OobRead, OobWrite} (keeps s) (put_pkt t i bs)"
proof (rule outcomeI)
  fix u assume u: "put_pkt t i bs = Inr u"
  have "sess_inv_at 0 {} t" using keeps_inv [OF assms] by (simp add: sess_inv_def)
  then have "length (rtp_pkt t) = RTP_CONFIG_AVERAGE_RTCP_SIZE"
    by (simp add: sess_inv_at_def sess_shape_def)
  then obtain p where "u = t\<lparr>rtp_pkt := p\<rparr>" "length p = RTP_CONFIG_AVERAGE_RTCP_SIZE"
    using u by (auto simp: put_pkt_def res_iff)
  then show "keeps s u" using keeps_calm [OF assms calm_var(14) [OF keeps_wf [OF assms]]] by simp
qed (auto simp: put_pkt_def wr_def bindE_Inl_iff split: if_splits)

lemma put_pkt_words_keeps: "keeps s t \<Longrightarrow> outcome {OobRead, OobWrite} (keeps s) (put_pkt_words t i ws)"
  by (induction ws arbitrary: t i) (auto intro!: outcome_bind [OF put_pkt_keeps])

lemma put_header_keeps: "keeps s t \<Longrightarrow> outcome {OobRead, OobWrite} (keeps s) (put_rtp_header t n ts ssrc)"
  unfolding put_rtp_header_def by (intro outcome_bind [OF put_pkt_keeps] put_pkt_keeps)

lemma tx_align_keeps:
  assumes "keeps s t"
  shows "outcome {OobRead, OobWrite} (\<lambda>x. keeps s (fst x)) (rtp_tx_align t k)"
proof -
  have "outcome {OobRead, OobWrite} (\<lambda>x. keeps s (fst x))
      (bindE (rd8 (rtp_pkt u) 0) (\<lambda>b0. bindE (put_pkt u 0 [b0 OR 0x20]) (\<lambda>u. Inr (u, Some j))))"
    if "keeps s u" for u j
    by (rule outcome_bind [where P = "\<lambda>_. True"], simp) (rule outcome_bind [OF put_pkt_keeps [OF that]], simp)
  then show ?thesis
    using assms by (auto simp: rtp_tx_align_def Let_def intro!: outcome_bind [OF put_pkt_keeps [OF assms]])
qed

lemma tx_keeps:
  assumes "sess_inv s"
  shows "outcome {OobRead, OobWrite} (keeps s) (rtp_tx s payload plen ts csrc ncsrc)"
proof -
  obtain me where me: "self s = Some me"
    using assms by (auto simp: sess_inv_def sess_inv_at_def sess_shape_def)
  obtain s1 where s1: "tx_account s me plen = Inr s1" "keeps s s1"
    using tx_account_ok [OF assms, of me plen] by blast
  have fin: "outcome {OobRead, OobWrite} (keeps s) (case r of
      None \<Rightarrow> Inr u
    | Some j \<Rightarrow> Inr ((emit (TxRtp (take j (rtp_pkt u))) u)\<lparr>sess_seq := sess_seq u + 1\<rparr>))"
    if "keeps s u" for u r
  proof -
    have "keeps s (emit e u)" for e by (rule keeps_steps(5) [OF that])
    from keeps_calm [OF this calm_var(6) [OF keeps_wf [OF this]]] show ?thesis
      using that by (auto split: option.splits)
  qed
  show ?thesis
    unfolding rtp_tx_by_account [OF me s1(1)] Let_def
    using s1(2) by (auto intro!: outcome_bind [OF put_pkt_keeps] outcome_bind [OF put_header_keeps]
        outcome_bind [OF put_pkt_words_keeps] outcome_bind [OF tx_align_keeps] fin)
qed

end
