(* ===== verification/Session_Machine.thy ===== *)
theory Session_Machine
  imports Session_Api
begin

text \<open>
  The life of a session: what initialisation establishes from arbitrary memory, the session as a
  state machine driven by its user and by the network, the invariant of every state that can be
  reached, and what is left running after shutdown.
\<close>

section \<open>Initialisation\<close>

text \<open>Memory that has the sizes of the arrays of a session, whatever they hold.\<close>

definition raw_ok :: "rtp_session \<Rightarrow> bool" where
  "raw_ok raw \<longleftrightarrow>
     length (rtp_pkt raw) = RTP_CONFIG_AVERAGE_RTCP_SIZE \<and>
     length (member_array (member_table raw)) = RTP_CONFIG_MAX_MEMBERS_PER_SESSION \<and>
     (\<forall>x \<in> set (member_array (member_table raw)). length (cname x) = RTP_CONFIG_SDES_CNAME_MAX + 1) \<and>
     length (entry_addr (src_conflict raw)) = RTP_CONFIG_SOURCE_CONFLICT_TABLE_SIZE \<and>
     world_ok (env raw)"

lemma init_conflict_timers_idle:
  "(\<And>c. \<not> is_soft_timer_running t (ConflictTe c)) \<Longrightarrow> init_conflict_timers t cs = Inr t"
  by (induction cs) (simp_all add: soft_timer_init_elem_def)

lemma timer_init_idle:
  "\<not> is_soft_timer_running (soft_timer_init t r) e" "timeout_list (soft_timer_init t r) = []"
  by (simp_all add: is_soft_timer_running_def soft_timer_init_def num_buckets_def)

lemma init_interval:
  assumes "members v = 1" "senders v = 0" "\<not> we_sent v" "initial v" "1 \<le> rtcp_bw v"
    "avg_rtcp_size v = 256" "0 \<le> u" "u < 1"
  shows "\<exists>d. rtcp_interval_calc v u = Inr d \<and> 1 < d \<and> d < 1000"
proof -
  let ?t = "256 / (rtcp_bw v * (1 - 1 / 4))"
  let ?m = "if ?t < 5 / 2 then 5 / 2 else ?t"
  have t: "?t \<le> 342" "0 \<le> ?t" using assms(5) by (simp_all add: field_simps)
  have "1 < m * (u + 1 / 2) / (2.71828 - 1.5) \<and> m * (u + 1 / 2) / (2.71828 - 1.5) < 1000"
    if m: "5 / 2 \<le> m" "m \<le> 342" for m
  proof -
    have "5 / 2 * (1 / 2) \<le> m * (u + 1 / 2)" using m assms(7) by (intro mult_mono) auto
    moreover have "m * (u + 1 / 2) \<le> 342 * (3 / 2)" using m assms(7,8) by (intro mult_mono) auto
    ultimately show ?thesis by (simp add: field_simps)
  qed
  from this [of ?m] have "1 < ?m * (u + 1 / 2) / (2.71828 - 1.5) \<and> ?m * (u + 1 / 2) / (2.71828 - 1.5) < 1000"
    using t by (auto simp: not_less)
  moreover have "rtcp_interval_calc v u = Inr (?m * (u + 1 / 2) / (2.71828 - 1.5))"
    using assms(1-6) unfolding rtcp_interval_calc_def Let_def by simp
  ultimately show ?thesis by blast
qed

lemma init_schedule:
  assumes "timer_wf (sess_tmr s)" "1 < d" "d < 1000"
  shows "\<exists>t. rtcp_interval_schedule s 0 d =
      Inr (s\<lparr>rtcp_var := (rtcp_var s)\<lparr>tn := d\<rparr>, sess_tmr := t\<rparr>) \<and>
    timer_wf t \<and> timeout_list t = timeout_list (sess_tmr s) \<and>
    (\<forall>e. is_soft_timer_running t e \<longleftrightarrow> e = RtcpTimer \<or> te_running s e)"
proof -
  obtain x where x: "rtcp_interval_cal_delta_in_ms 0 d = Inr x"
    using assms(2,3) by (simp add: rtcp_interval_cal_delta_in_ms_def real_to_u32_def)
  obtain t where t: "soft_timer_add (sess_tmr s) RtcpTimer (sint x) = Inr t"
    using soft_timer_add_total [OF assms(1)] by blast
  show ?thesis
    using x t soft_timer_add_frame [OF t] soft_timer_add_running [OF assms(1) t] soft_timer_add_wf [OF assms(1) t]
    by (auto simp: rtcp_interval_schedule_def start_te_def)
qed

text \<open>The session before its own member is allocated, that member, and the session when its first
  timer is due to start.\<close>

definition blank_session :: "rtp_session \<Rightarrow> rtp_session_config \<Rightarrow> rtp_session" where
  "blank_session raw cfg = rtp_session_reset_tx_stats ((fst (draw_random32 (raw\<lparr>config := cfg,
     last_rtp_error := rtp_rx_error_no_error, last_rtcp_error := rtcp_rx_error_no_error,
     sess_tmr := soft_timer_init (sess_tmr raw) 100,
     src_conflict := (src_conflict raw)\<lparr>conflict_used := [],
       conflict_free := [0..<RTP_CONFIG_SOURCE_CONFLICT_TABLE_SIZE]\<rparr>,
     member_table := rtp_member_table_init (member_table raw), invalid_rtcp_pkt := 0,
     invalid_rtp_pkt := 0\<rparr>)))\<lparr>sess_seq := ucast (w_random32 (env raw) (n_random32 (env raw)))\<rparr>)"

definition self_member :: "rtp_session \<Rightarrow> sockaddr_in \<Rightarrow> sockaddr_in \<Rightarrow> u8 list \<Rightarrow> u8 \<Rightarrow> rtp_member" where
  "self_member s ra ca name len =
     (mem s 0)\<lparr>m_ssrc := snd (draw_random32 s), last_sr := ntp_ts_init, last_sr_local_time := ntp_ts_init,
       flags := RTP_FLAG_SELF, cname_len := len,
       cname := take (unat len) name @ drop (unat len) ((cname (mem s 0))[0 := 0]),
       m_rtp_addr := ra, m_rtcp_addr := ca\<rparr>"

definition with_self :: "rtp_session \<Rightarrow> nat list \<Rightarrow> rtp_member \<Rightarrow> rtp_session" where
  "with_self s ms x = (fst (draw_random32 s))\<lparr>self := Some 0, member_table :=
     \<lparr>member_array = (member_array (member_table s))[0 := x], free_list = ms, used_list = used s @ [0],
      num_members = num_members (member_table s) + 1\<rparr>\<rparr>"

definition fresh_session :: "rtp_session \<Rightarrow> rtp_session_config \<Rightarrow> rtp_session" where
  "fresh_session raw cfg =
     (let s = blank_session raw cfg
      in rtcp_interval_control_var_init (with_self s [1..<RTP_CONFIG_MAX_MEMBERS_PER_SESSION]
           (self_member s (c_rtp_addr cfg) (c_rtcp_addr cfg) (c_cname cfg) (c_cname_len cfg))))"

lemma set_cname_ok:
  assumes "length (cname x) = RTP_CONFIG_SDES_CNAME_MAX + 1" "unat len \<le> length name"
  shows "rtp_member_set_cname x name len =
    Inr (x\<lparr>cname_len := len, cname := take (unat len) name @ drop (unat len) (cname x)\<rparr>)"
proof -
  have n: "unat len \<le> RTP_CONFIG_SDES_CNAME_MAX"
    using unsigned_less [of len, where ?'a = nat] by (simp add: config_defs)
  with assms show ?thesis by (simp add: rtp_member_set_cname_def wr_def min_def Let_def)
qed

lemma upd_mem_twice:
  "m < length (member_array (member_table s)) \<Longrightarrow> upd_mem m f (upd_mem m g s) = upd_mem m (\<lambda>x. f (g x)) s"
  by (simp add: upd_mem_def mem_def)

text \<open>The session's own member takes the first slot of a free table.\<close>

lemma init_self_fresh:
  assumes "free_list (member_table s) = 0 # ms" "0 < length (member_array (member_table s))"
    "length (cname (mem s 0)) = RTP_CONFIG_SDES_CNAME_MAX + 1" "unat len \<le> length name"
    "\<And>e. \<not> te_running s e"
  shows "rtp_session_init_self s ra ca name len = Inr (with_self s ms (self_member s ra ca name len))"
proof -
  let ?r = "snd (draw_random32 s)"
  let ?s = "(fst (draw_random32 s))\<lparr>member_table := \<lparr>member_array = (member_array (member_table s))[0 :=
      rtp_member_init (mem s 0) ?r], free_list = ms, used_list = used s @ [0],
      num_members = num_members (member_table s) + 1\<rparr>\<rparr>"
  have "rtp_session_alloc_member (fst (draw_random32 s)) ?r = Inr (?s, Some 0)"
    using assms(1,5)
    by (simp add: rtp_session_alloc_member_def rtp_member_table_alloc_member_def rtp_timers_init_member_def
        soft_timer_init_elem_def draw_random32_def mem_def)
  then show ?thesis
    using assms(2-4) set_cname_ok [of "rtp_member_set_self (rtp_member_init (mem s 0) ?r)" len name]
    by (simp add: rtp_session_init_self_def Let_def deref_def split_beta upd_mem_twice mem_upd_mem)
      (simp add: upd_mem_def mem_def rtp_member_init_def rtp_member_set_self_def set_flag_def
        draw_random32_def with_self_def self_member_def)
qed

lemma rtcp_init_idle:
  assumes "tick (sess_tmr s) = 0" "\<not> te_running s RtcpTimer"
  shows "rtcp_init s = bindE (sess_interval_calc (rtcp_interval_control_var_init s))
    (\<lambda>(s, d). rtcp_interval_schedule s 0 d)"
proof -
  let ?s = "rtcp_interval_control_var_init s"
  have t: "sess_tmr ?s = sess_tmr s" by (simp add: rtcp_interval_control_var_init_def)
  have same: "?s\<lparr>sess_tmr := sess_tmr s\<rparr> = ?s" unfolding t [symmetric] by simp
  show ?thesis
    using assms by (simp add: rtcp_init_def rtcp_current_time_def soft_timer_get_tick_time_def
        soft_timer_init_elem_def t same Let_def split_beta)
qed

lemma session_init_fresh:
  assumes "raw_ok raw" "unat (c_cname_len cfg) \<le> length (c_cname cfg)"
  shows "rtp_session_init raw cfg = bindE (sess_interval_calc (fresh_session raw cfg))
    (\<lambda>(s, d). rtcp_interval_schedule s 0 d)"
proof -
  have pool: "[0..<RTP_CONFIG_MAX_MEMBERS_PER_SESSION] = 0 # [1..<RTP_CONFIG_MAX_MEMBERS_PER_SESSION]"
    by (simp add: upt_conv_Cons config_defs)
  have l: "0 < length (member_array (member_table raw))"
    using assms(1) by (simp add: raw_ok_def config_defs)
  have "\<forall>x \<in> set (member_array (member_table raw)). length (cname x) = RTP_CONFIG_SDES_CNAME_MAX + 1"
    using assms(1) by (simp add: raw_ok_def)
  then have cn: "length (cname (member_array (member_table raw) ! 0)) = RTP_CONFIG_SDES_CNAME_MAX + 1"
    by (rule bspec) (use l in simp)
  let ?t = "soft_timer_init (sess_tmr raw) 100" and ?s = "blank_session raw cfg"
  have c: "rtp_source_conflict_table_init ?t (src_conflict raw) = Inr (?t, (src_conflict raw)
      \<lparr>conflict_used := [], conflict_free := [0..<RTP_CONFIG_SOURCE_CONFLICT_TABLE_SIZE]\<rparr>)"
    by (simp add: rtp_source_conflict_table_init_def init_conflict_timers_idle timer_init_idle)
  have f: "free_list (member_table ?s) = [0..<RTP_CONFIG_MAX_MEMBERS_PER_SESSION]"
    "member_array (member_table ?s) = member_array (member_table raw)" "sess_tmr ?s = ?t"
    by (simp_all add: blank_session_def rtp_session_reset_tx_stats_def draw_random32_def
        rtp_member_table_init_def)
  have i: "rtp_session_init_self ?s (c_rtp_addr cfg) (c_rtcp_addr cfg) (c_cname cfg) (c_cname_len cfg) =
      Inr (with_self ?s [1..<RTP_CONFIG_MAX_MEMBERS_PER_SESSION]
        (self_member ?s (c_rtp_addr cfg) (c_rtcp_addr cfg) (c_cname cfg) (c_cname_len cfg)))"
    by (rule init_self_fresh) (use l cn assms(2) in \<open>simp_all add: f pool timer_init_idle mem_def\<close>)
  have "sess_tmr (with_self ?s ms x) = ?t" for ms x by (simp add: with_self_def draw_random32_def f)
  then have "rtcp_init (with_self ?s ms x) =
      bindE (sess_interval_calc (rtcp_interval_control_var_init (with_self ?s ms x)))
        (\<lambda>(s, d). rtcp_interval_schedule s 0 d)" for ms x
    by (intro rtcp_init_idle) (simp add: soft_timer_init_def, simp only: timer_init_idle not_False_eq_True)
  with c i show ?thesis
    by (simp add: rtp_session_init_def rtp_init_def fresh_session_def Let_def split_beta)
      (simp add: blank_session_def draw_random32_def)
qed

text \<open>What is known about the session then.\<close>

lemmas fresh_defs = fresh_session_def with_self_def blank_session_def rtp_session_reset_tx_stats_def
  draw_random32_def rtp_member_table_init_def Let_def rtcp_interval_control_var_init_def

lemma fresh_session_facts:
  "sess_tmr (fresh_session raw cfg) = soft_timer_init (sess_tmr raw) 100"
  "used (fresh_session raw cfg) = [0]" "self (fresh_session raw cfg) = Some 0"
  "free_list (member_table (fresh_session raw cfg)) = [1..<RTP_CONFIG_MAX_MEMBERS_PER_SESSION]"
  "num_members (member_table (fresh_session raw cfg)) = 1"
  "config (fresh_session raw cfg) = cfg" "trace (env (fresh_session raw cfg)) = trace (env raw)"
  "world_ok (env (fresh_session raw cfg)) = world_ok (env raw)"
  "w_drand48 (env (fresh_session raw cfg)) = w_drand48 (env raw)"
  "sess_seq (fresh_session raw cfg) = ucast (w_random32 (env raw) (n_random32 (env raw)))"
  "tx_pkt_count (fresh_session raw cfg) = 0" "tx_octet_count (fresh_session raw cfg) = 0"
  "invalid_rtp_pkt (fresh_session raw cfg) = 0" "invalid_rtcp_pkt (fresh_session raw cfg) = 0"
  "last_rtp_error (fresh_session raw cfg) = rtp_rx_error_no_error"
  "last_rtcp_error (fresh_session raw cfg) = rtcp_rx_error_no_error"
  "rtp_pkt (fresh_session raw cfg) = rtp_pkt raw"
  "src_conflict (fresh_session raw cfg) = (src_conflict raw)\<lparr>conflict_used := [],
     conflict_free := [0..<RTP_CONFIG_SOURCE_CONFLICT_TABLE_SIZE]\<rparr>"
  by (simp_all add: fresh_defs world_ok_def)

lemma fresh_session_var:
  "members (rtcp_var (fresh_session raw cfg)) = 1" "senders (rtcp_var (fresh_session raw cfg)) = 0"
  "pmembers (rtcp_var (fresh_session raw cfg)) = 1"
  "\<not> we_sent (rtcp_var (fresh_session raw cfg))" "initial (rtcp_var (fresh_session raw cfg))"
  "rtcp_bw (rtcp_var (fresh_session raw cfg)) = real (unat (session_bw cfg))"
  "avg_rtcp_size (rtcp_var (fresh_session raw cfg)) = 256"
  by (simp_all add: fresh_defs config_defs)

lemma fresh_session_members:
  "member_array (member_table (fresh_session raw cfg)) = (member_array (member_table raw))
     [0 := self_member (blank_session raw cfg) (c_rtp_addr cfg) (c_rtcp_addr cfg) (c_cname cfg) (c_cname_len cfg)]"
  by (simp add: fresh_defs)

lemma self_member_facts:
  "m_ssrc (self_member (blank_session raw cfg) ra ca name len) =
     w_random32 (env raw) (Suc (n_random32 (env raw)))"
  "m_rtp_addr (self_member s ra ca name len) = ra" "m_rtcp_addr (self_member s ra ca name len) = ca"
  "flags (self_member s ra ca name len) = RTP_FLAG_SELF"
  "cname_len (self_member s ra ca name len) = len"
  "unat len \<le> length name \<Longrightarrow>
     take (unat len) (cname (self_member s ra ca name len)) = take (unat len) name"
  by (simp_all add: self_member_def fresh_defs)

lemma fresh_session_inv:
  assumes "raw_ok raw" "unat (c_cname_len cfg) \<le> length (c_cname cfg)"
  shows "sess_inv (fresh_session raw cfg)"
proof -
  let ?s = "fresh_session raw cfg"
  let ?x = "self_member (blank_session raw cfg) (c_rtp_addr cfg) (c_rtcp_addr cfg) (c_cname cfg) (c_cname_len cfg)"
  note raw = assms(1) [unfolded raw_ok_def]
  have l: "length (member_array (member_table raw)) = 32" using raw by (simp add: config_defs)
  have cn: "length (cname (member_array (member_table raw) ! 0)) = RTP_CONFIG_SDES_CNAME_MAX + 1"
    by (rule bspec [of "set (member_array (member_table raw))"]) (use raw l in simp_all)
  have len: "unat (c_cname_len cfg) \<le> RTP_CONFIG_SDES_CNAME_MAX"
    using unsigned_less [of "c_cname_len cfg", where ?'a = nat] by (simp add: config_defs)
  have "length (cname ?x) = RTP_CONFIG_SDES_CNAME_MAX + 1"
    using cn len assms(2) by (simp add: self_member_def mem_def fresh_defs)
  then have shape: "sess_shape ?s"
    using raw set_update_subset_insert [of "member_array (member_table raw)" 0 ?x]
    by (auto simp: sess_shape_def fresh_session_facts fresh_session_members config_defs)
  have off: "\<not> te_running ?s e" for e unfolding fresh_session_facts by (rule timer_init_idle)
  have bye: "\<not> bye_of ?s 0"
    using l by (simp add: bye_of_def mem_def fresh_session_members self_member_facts is_flag_defs
        has_flag_def flag_defs)
  have act: "active ?s = [0]" using bye by (simp add: active_def fresh_session_facts)
  have "{0..<32} = insert 0 {Suc 0..<32 :: nat}" by auto
  then have "mset_set {0..<32} = add_mset 0 (mset_set {Suc 0..<32 :: nat})" by simp
  then have "mt_wf (member_table ?s)"
    using l by (auto simp: mt_wf_def mt_slots_def ssrcs_def fresh_session_facts fresh_session_members
        config_defs)
  moreover have "conflict_wf (sess_tmr ?s) (src_conflict ?s)"
    using raw off by (simp add: conflict_wf_def ct.pool_ok_def fresh_session_facts)
  moreover have "timer_wf (sess_tmr ?s)" by (simp add: fresh_session_facts timer_wf_init)
  ultimately show ?thesis
    using shape off act bye gr0I [of m for m]
    by (simp add: sess_inv_def sess_inv_at_def fresh_session_facts fresh_session_var) metis
qed

lemma session_init_value:
  assumes "raw_ok raw" "unat (c_cname_len cfg) \<le> length (c_cname cfg)"
  shows "if session_bw cfg = 0 then rtp_session_init raw cfg = Inl FpRange
    else \<exists>n d t. rtp_session_init raw cfg = Inr ((fresh_session raw cfg)
        \<lparr>env := (env (fresh_session raw cfg))\<lparr>n_drand48 := n\<rparr>,
         rtcp_var := (rtcp_var (fresh_session raw cfg))\<lparr>tn := d\<rparr>, sess_tmr := t\<rparr>) \<and>
      1 < d \<and> d < 1000 \<and> timer_wf t \<and> timeout_list t = [] \<and>
      (\<forall>e. is_soft_timer_running t e \<longleftrightarrow> e = RtcpTimer)"
proof (cases "session_bw cfg = 0")
  case True
  then have "rtcp_bw (rtcp_var (fresh_session raw cfg)) = 0" by (simp add: fresh_session_var)
  with True show ?thesis
    by (simp add: session_init_fresh [OF assms] sess_interval_calc_def draw_drand48_def
        rtcp_interval_calc_def Let_def)
next
  case False
  let ?s = "fresh_session raw cfg"
  let ?u = "w_drand48 (env raw) (n_drand48 (env ?s))"
  let ?r = "fst (draw_drand48 ?s)"
  have "0 \<le> ?u" "?u < 1" using assms(1) by (simp_all add: raw_ok_def world_ok_def)
  moreover have "unat (session_bw cfg) \<noteq> 0" using False by (simp add: unsigned_eq_0_iff)
  then have "1 \<le> real (unat (session_bw cfg))" by (simp del: of_nat_unat add: Suc_le_eq)
  ultimately obtain d where d: "rtcp_interval_calc (rtcp_var ?s) ?u = Inr d" "1 < d" "d < 1000"
    using init_interval [of "rtcp_var ?s" ?u] by (auto simp: fresh_session_var)
  have "timer_wf (sess_tmr ?r)" by (simp add: draw_drand48_def fresh_session_facts timer_wf_init)
  from init_schedule [OF this d(2,3)] obtain t where
    t: "rtcp_interval_schedule ?r 0 d = Inr (?r\<lparr>rtcp_var := (rtcp_var ?r)\<lparr>tn := d\<rparr>, sess_tmr := t\<rparr>)"
      "timer_wf t" "timeout_list t = timeout_list (sess_tmr ?r)"
      "\<forall>e. is_soft_timer_running t e \<longleftrightarrow> e = RtcpTimer \<or> te_running ?r e" by blast
  have off: "\<not> te_running ?r e" "timeout_list (sess_tmr ?r) = []" for e
    by (simp_all only: draw_drand48_def fst_conv fresh_session_facts timer_init_idle
        rtp_session.select_convs rtp_session.update_convs simp_thms) (simp_all add: fresh_session_facts timer_init_idle)
  have "sess_interval_calc ?s = Inr (?r, d)"
    using d(1) by (simp add: sess_interval_calc_def draw_drand48_def fresh_session_facts)
  then show ?thesis
    using False t off d(2,3) by (simp add: session_init_fresh [OF assms]) (auto simp: draw_drand48_def)
qed

lemma session_init_ok:
  assumes "raw_ok raw" "unat (c_cname_len cfg) \<le> length (c_cname cfg)" "rtp_session_init raw cfg = Inr s"
  shows "sess_inv s" "timeout_list (sess_tmr s) = []" "used s = [0]" "self s = Some 0"
    "te_running s e \<longleftrightarrow> e = RtcpTimer" "config s = cfg" "mem s 0 = mem (fresh_session raw cfg) 0"
proof -
  let ?s = "fresh_session raw cfg"
  obtain n d t where s: "s = ?s\<lparr>env := (env ?s)\<lparr>n_drand48 := n\<rparr>,
      rtcp_var := (rtcp_var ?s)\<lparr>tn := d\<rparr>, sess_tmr := t\<rparr>"
    and t: "timer_wf t" "timeout_list t = []" "\<forall>e. is_soft_timer_running t e \<longleftrightarrow> e = RtcpTimer"
    using session_init_value [OF assms(1,2)] assms(3) by (auto split: if_splits)
  have off: "\<not> te_running ?s e" for e unfolding fresh_session_facts by (rule timer_init_idle)
  have "bye_of s = bye_of ?s" by (simp add: fun_eq_iff bye_of_def mem_def s)
  then have "calm 0 ?s s"
    using t off by (simp add: calm_def s mem_def sess_shape_def world_ok_def)
  from calm_inv0 [OF _ this] fresh_session_inv [OF assms(1,2)] show "sess_inv s"
    by (simp add: sess_inv_def)
  show "timeout_list (sess_tmr s) = []" "used s = [0]" "self s = Some 0"
    "te_running s e \<longleftrightarrow> e = RtcpTimer" "config s = cfg" "mem s 0 = mem ?s 0"
    using t by (simp_all add: s fresh_session_facts mem_def)
qed

section \<open>The session as a state machine\<close>

text \<open>What the user and the network do to a session.\<close>

inductive sess_step :: "rtp_session \<Rightarrow> rtp_session \<Rightarrow> bool" where
  step_tx: "rtp_session_tx s payload plen ts csrc ncsrc = Inr (s', 0) \<Longrightarrow> sess_step s s'"
| step_bye: "rtp_session_bye s = (s', 0) \<Longrightarrow> sess_step s s'"
| step_rx_rtp: "unat len = length pkt \<Longrightarrow> rtp_session_rx_rtp s pkt len from = Inr s' \<Longrightarrow> sess_step s s'"
| step_rx_rtcp: "unat len = length pkt \<Longrightarrow> rtp_session_rx_rtcp s pkt len from = Inr s' \<Longrightarrow> sess_step s s'"
| step_tick: "rtp_session_timer_tick s = Inr s' \<Longrightarrow> sess_step s s'"

text \<open>The states of a session after its initialisation from the memory \<open>raw\<close>.\<close>

inductive sess_reach :: "rtp_session \<Rightarrow> rtp_session_config \<Rightarrow> rtp_session \<Rightarrow> bool"
  for raw :: rtp_session and cfg :: rtp_session_config where
  reach_init: "rtp_session_init raw cfg = Inr s \<Longrightarrow> sess_reach raw cfg s"
| reach_step: "sess_reach raw cfg s \<Longrightarrow> sess_step s s' \<Longrightarrow> sess_reach raw cfg s'"

text \<open>Between two calls no timeout is pending.\<close>

definition sess_idle :: "rtp_session \<Rightarrow> bool" where
  "sess_idle s \<longleftrightarrow> sess_inv s \<and> timeout_list (sess_tmr s) = []"

lemma keeps_idle: "keeps s s' \<Longrightarrow> sess_idle s \<Longrightarrow> sess_idle s'"
  by (simp add: keeps_def sess_idle_def)

lemma step_idle:
  assumes "sess_step s s'" "sess_idle s"
  shows "sess_idle s'"
proof -
  have inv: "sess_inv s" "timeout_list (sess_tmr s) = []" using assms(2) by (simp_all add: sess_idle_def)
  have keep: "sess_idle s'" if "keeps s s'" by (rule keeps_idle [OF that assms(2)])
  from assms(1) show ?thesis
  proof cases
    case (step_tx payload plen ts csrc ncsrc)
    then show ?thesis
      using outcome_Inr [OF tx_keeps [OF inv(1)]] by (auto simp: rtp_session_tx_def res_iff intro: keep)
  next
    case step_bye
    then show ?thesis using assms(2) by (simp add: rtp_session_bye_def rtcp_tx_bye_def)
  next
    case (step_rx_rtp len pkt "from")
    then show ?thesis
      using rtp_rx_keeps [OF inv(1) step_rx_rtp(1), of "from"]
      by (simp add: rtp_session_rx_rtp_def rx_ok_def keep)
  next
    case (step_rx_rtcp len pkt "from")
    then show ?thesis
      using outcome_Inr [OF rtcp_rx_keeps [OF inv(1) step_rx_rtcp(1), of "from"]]
      by (simp add: rtp_session_rx_rtcp_def keep)
  next
    case step_tick
    then show ?thesis using outcome_Inr [OF tick_keeps [OF inv]] by (simp add: sess_idle_def)
  qed
qed

lemma reach_idle:
  "sess_reach raw cfg s \<Longrightarrow> raw_ok raw \<Longrightarrow> unat (c_cname_len cfg) \<le> length (c_cname cfg) \<Longrightarrow> sess_idle s"
  by (induction rule: sess_reach.induct) (auto simp: sess_idle_def session_init_ok step_idle [unfolded sess_idle_def])

lemma used_bound:
  assumes "sess_inv_at d X s"
  shows "set (used s) \<subseteq> {..<RTP_CONFIG_MAX_MEMBERS_PER_SESSION}"
    "length (used s) \<le> RTP_CONFIG_MAX_MEMBERS_PER_SESSION"
proof -
  note D = sess_inv_atD [OF assms]
  show sub: "set (used s) \<subseteq> {..<RTP_CONFIG_MAX_MEMBERS_PER_SESSION}"
    using D(7) by (auto simp: D(8))
  have "length (used s) = card (set (used s))" using distinct_card [OF D(6)] by simp
  also have "\<dots> \<le> RTP_CONFIG_MAX_MEMBERS_PER_SESSION" using card_mono [OF _ sub] by simp
  finally show "length (used s) \<le> RTP_CONFIG_MAX_MEMBERS_PER_SESSION" .
qed

section \<open>Shutdown\<close>

lemma deinit_member_running:
  assumes "timer_wf (sess_tmr s)"
  shows "timer_wf (sess_tmr (rtp_timers_deinit_member s m))"
    "te_running (rtp_timers_deinit_member s m) e \<longleftrightarrow>
      te_running s e \<and> e \<noteq> MemberTe m \<and> e \<noteq> SenderTe m \<and> e \<noteq> LeaveTe m"
    "member_table (rtp_timers_deinit_member s m) = member_table s"
    "src_conflict (rtp_timers_deinit_member s m) = src_conflict s"
proof -
  let ?t1 = "soft_timer_del (sess_tmr s) (MemberTe m)"
  let ?t2 = "soft_timer_del ?t1 (SenderTe m)"
  have wf: "timer_wf ?t1" "timer_wf ?t2" using assms by (simp_all add: soft_timer_del_wf)
  show "timer_wf (sess_tmr (rtp_timers_deinit_member s m))"
    "te_running (rtp_timers_deinit_member s m) e \<longleftrightarrow>
      te_running s e \<and> e \<noteq> MemberTe m \<and> e \<noteq> SenderTe m \<and> e \<noteq> LeaveTe m"
    "member_table (rtp_timers_deinit_member s m) = member_table s"
    "src_conflict (rtp_timers_deinit_member s m) = src_conflict s"
    using wf by (auto simp: rtp_timers_deinit_member_def stop_te_def soft_timer_del_wf
        soft_timer_del_running [OF assms] soft_timer_del_running)
qed

lemma next_in_suffix: "distinct (xs @ m # ys) \<Longrightarrow>
    next_in (xs @ m # ys) m = (case ys of [] \<Rightarrow> None | y # _ \<Rightarrow> Some y)"
  by (induction xs rule: induct_list012) (auto split: list.splits)

text \<open>The timers of the members \<open>ms\<close> have been stopped, and no others.\<close>

definition stopped :: "nat list \<Rightarrow> rtp_session \<Rightarrow> rtp_session \<Rightarrow> bool" where
  "stopped ms s s' \<longleftrightarrow>
     timer_wf (sess_tmr s') \<and> src_conflict s' = src_conflict s \<and> used s' = used s \<and>
     (\<forall>e. te_running s' e \<longleftrightarrow> te_running s e \<and> e \<notin> MemberTe ` set ms \<union> SenderTe ` set ms \<union> LeaveTe ` set ms)"

lemma stopped_Cons:
  assumes "timer_wf (sess_tmr s)" "stopped ms (rtp_timers_deinit_member s m) s'"
  shows "stopped (m # ms) s s'"
  using assms(2) deinit_member_running [OF assms(1), of m] by (auto simp: stopped_def)

lemma deinit_members_at:
  assumes "timer_wf (sess_tmr s)" "used s = xs @ ys" "distinct (used s)" "length ys \<le> fuel"
  shows "\<exists>s'. deinit_members fuel s (case ys of [] \<Rightarrow> None | y # _ \<Rightarrow> Some y) = Inr s' \<and> stopped ys s s'"
  using assms
proof (induction ys arbitrary: s xs fuel)
  case Nil
  then show ?case by (simp add: stopped_def)
next
  case (Cons y ys)
  from Cons.prems(4) obtain k where k: "fuel = Suc k" "length ys \<le> k" by (cases fuel) auto
  let ?s = "rtp_timers_deinit_member s y"
  note d = deinit_member_running [OF Cons.prems(1), of y]
  have "distinct (xs @ y # ys)" using Cons.prems(2,3) by simp
  from next_in_suffix [OF this] have nx: "rtp_member_table_get_next (member_table ?s) (Some y) =
      (case ys of [] \<Rightarrow> None | z # _ \<Rightarrow> Some z)"
    by (simp add: rtp_member_table_get_next_def d Cons.prems(2))
  have "\<exists>s'. deinit_members k ?s (case ys of [] \<Rightarrow> None | z # _ \<Rightarrow> Some z) = Inr s' \<and> stopped ys ?s s'"
    by (rule Cons.IH [of ?s "xs @ [y]"]) (use d Cons.prems k in simp_all)
  then obtain s' where "deinit_members k ?s (case ys of [] \<Rightarrow> None | z # _ \<Rightarrow> Some z) = Inr s'"
    "stopped ys ?s s'" by blast
  then show ?case
    using stopped_Cons [OF Cons.prems(1)] by (intro exI [of _ s']) (simp add: k(1) nx)
qed

lemma conflict_deinit_running:
  assumes "timer_wf t"
  shows "timer_wf (fold (\<lambda>c t. soft_timer_del t (ConflictTe c)) cs t) \<and>
    (is_soft_timer_running (fold (\<lambda>c t. soft_timer_del t (ConflictTe c)) cs t) e \<longleftrightarrow>
      is_soft_timer_running t e \<and> e \<notin> ConflictTe ` set cs)"
  using assms by (induction cs arbitrary: t) (auto simp: soft_timer_del_wf soft_timer_del_running)

section \<open>The life of a session\<close>

text \<open>A session that has just been initialised.\<close>

definition session_up :: "rtp_session \<Rightarrow> rtp_session_config \<Rightarrow> rtp_session \<Rightarrow> bool" where
  "session_up raw cfg s \<longleftrightarrow>
     sess_idle s \<and> config s = cfg \<and> used s = [0] \<and> self s = Some 0 \<and>
     m_ssrc (mem s 0) = w_random32 (env raw) (Suc (n_random32 (env raw))) \<and>
     m_rtp_addr (mem s 0) = c_rtp_addr cfg \<and> m_rtcp_addr (mem s 0) = c_rtcp_addr cfg \<and>
     flags (mem s 0) = RTP_FLAG_SELF \<and> cname_len (mem s 0) = c_cname_len cfg \<and>
     take (unat (c_cname_len cfg)) (cname (mem s 0)) = take (unat (c_cname_len cfg)) (c_cname cfg) \<and>
     sess_seq s = ucast (w_random32 (env raw) (n_random32 (env raw))) \<and>
     conflict_addrs (src_conflict s) = {} \<and> (\<forall>e. te_running s e \<longleftrightarrow> e = RtcpTimer) \<and>
     tx_pkt_count s = 0 \<and> tx_octet_count s = 0 \<and> invalid_rtp_pkt s = 0 \<and> invalid_rtcp_pkt s = 0 \<and>
     trace (env s) = trace (env raw)"

text \<open>
  C9: initialisation needs nothing of the memory it is given but the sizes of its arrays. With a
  positive bandwidth it establishes the invariant: the session is its own only member, in the
  first slot, with a random SSRC and the configured addresses and name; the first sequence
  number is random; only the RTCP timer runs. With no bandwidth it divides by zero.
\<close>

theorem session_init_correct:
  assumes "raw_ok raw" "unat (c_cname_len cfg) \<le> length (c_cname cfg)"
  shows "if session_bw cfg = 0 then rtp_session_init raw cfg = Inl FpRange
    else \<exists>s. rtp_session_init raw cfg = Inr s \<and> session_up raw cfg s"
proof (cases "session_bw cfg = 0")
  case True
  then show ?thesis using session_init_value [OF assms] by simp
next
  case False
  then obtain n d t where i: "rtp_session_init raw cfg = Inr ((fresh_session raw cfg)
      \<lparr>env := (env (fresh_session raw cfg))\<lparr>n_drand48 := n\<rparr>,
       rtcp_var := (rtcp_var (fresh_session raw cfg))\<lparr>tn := d\<rparr>, sess_tmr := t\<rparr>)" (is "_ = Inr ?s")
    using session_init_value [OF assms] by auto
  have "length (member_array (member_table raw)) = 32"
    using assms(1) by (simp add: raw_ok_def config_defs)
  then have "mem (fresh_session raw cfg) 0 =
      self_member (blank_session raw cfg) (c_rtp_addr cfg) (c_rtcp_addr cfg) (c_cname cfg) (c_cname_len cfg)"
    by (simp add: mem_def fresh_session_members)
  then have "session_up raw cfg ?s"
    using session_init_ok [OF assms i]
    by (simp add: session_up_def sess_idle_def self_member_facts assms(2) conflict_addrs_def)
      (simp add: fresh_session_facts)
  with False i show ?thesis by simp
qed

text \<open>
  C1: whatever the user and the network do to a session, in whatever order, as long as no call
  fails: members are known by distinct SSRCs and addresses of conflicts are distinct; the
  estimate of the group size is the number of members that have not said BYE; a member waits for
  its removal exactly if it has; only members that have not may time out; and between two calls
  no expired timer is left over.
\<close>

theorem reachable_sessions:
  assumes "raw_ok raw" "unat (c_cname_len cfg) \<le> length (c_cname cfg)" "sess_reach raw cfg s"
  shows "distinct (map (\<lambda>m. m_ssrc (mem s m)) (used s)) \<and>
    set (used s) \<subseteq> {..<RTP_CONFIG_MAX_MEMBERS_PER_SESSION} \<and>
    unat (members (rtcp_var s)) = length (filter (\<lambda>m. \<not> rtp_member_is_bye_received (mem s m)) (used s)) \<and>
    (\<forall>m. is_soft_timer_running (sess_tmr s) (LeaveTe m) \<longleftrightarrow>
       m \<in> set (used s) \<and> rtp_member_is_bye_received (mem s m)) \<and>
    (\<forall>m. is_soft_timer_running (sess_tmr s) (MemberTe m) \<longrightarrow>
       m \<in> set (used s) \<and> \<not> rtp_member_is_bye_received (mem s m)) \<and>
    distinct (map ((!) (entry_addr (src_conflict s))) (conflict_used (src_conflict s))) \<and>
    (\<forall>c. is_soft_timer_running (sess_tmr s) (ConflictTe c) \<longleftrightarrow> c \<in> set (conflict_used (src_conflict s))) \<and>
    timeout_list (sess_tmr s) = []"
proof -
  have idle: "sess_idle s" by (rule reach_idle [OF assms(3,1,2)])
  then have inv: "sess_inv_at 0 {} s" by (simp add: sess_idle_def sess_inv_def)
  note D = sess_inv_atD [OF inv]
  note u = used_bound [OF inv]
  have "length (active s) \<le> length (used s)" by (simp add: active_def)
  also have "\<dots> \<le> 32" using u(2) by (simp add: config_defs)
  finally have "unat (members (rtcp_var s)) = length (active s)"
    using inv by (simp add: sess_inv_at_def unat_of_nat_small)
  moreover have "distinct (map (\<lambda>m. m_ssrc (mem s m)) (used s))"
    using D(2) by (simp add: mt_wf_def ssrcs_def mem_def)
  ultimately show ?thesis
    using inv D(4) u(1) idle
    by (auto simp: sess_inv_at_def active_def bye_of_def conflict_wf_def sess_idle_def)
qed


text \<open>
  C22: shutdown returns, and afterwards the timer service holds no element of the session any
  more, but possibly sender timers of slots that are not in use.
\<close>

theorem session_deinit_stops:
  assumes "sess_inv s"
  shows "\<exists>s'. rtp_session_deinit s = Inr s' \<and> timer_wf (sess_tmr s') \<and>
    (\<forall>e. is_soft_timer_running (sess_tmr s') e \<longrightarrow> (\<exists>m. e = SenderTe m \<and> m \<notin> set (used s)))"
proof -
  have inv: "sess_inv_at 0 {} s" using assms by (simp add: sess_inv_def)
  note D = sess_inv_atD [OF inv]
  let ?s = "rtcp_deinit (rtp_deinit s)"
  have s: "timer_wf (sess_tmr ?s)" "used ?s = used s" "src_conflict ?s = src_conflict s"
    "te_running ?s e \<longleftrightarrow> te_running s e \<and> e \<noteq> RtcpTimer" for e
    using D(1) by (auto simp: rtcp_deinit_def rtp_deinit_def rtcp_interval_stop_timer_def stop_te_def
        soft_timer_del_wf soft_timer_del_running)
  have len: "length (used s) \<le> RTP_CONFIG_MAX_MEMBERS_PER_SESSION + 1" using used_bound [OF inv] by simp
  have "\<exists>s'. deinit_members (RTP_CONFIG_MAX_MEMBERS_PER_SESSION + 1) ?s
      (case used s of [] \<Rightarrow> None | y # _ \<Rightarrow> Some y) = Inr s' \<and> stopped (used s) ?s s'"
    by (rule deinit_members_at [of _ "[]"]) (simp_all only: s append.simps D(6) len)
  then obtain s1 where s1: "deinit_members (RTP_CONFIG_MAX_MEMBERS_PER_SESSION + 1) ?s
      (rtp_member_table_get_first (member_table ?s)) = Inr s1" "stopped (used s) ?s s1"
    by (auto simp only: rtp_member_table_get_first_def s)
  have wf1: "timer_wf (sess_tmr s1)" using s1(2) by (simp add: stopped_def)
  let ?t = "rtp_source_conflict_table_deinit (sess_tmr s1) (src_conflict s1)"
  have t: "timer_wf ?t" "is_soft_timer_running ?t e \<longleftrightarrow>
      te_running s1 e \<and> e \<notin> ConflictTe ` set (conflict_used (src_conflict s))" for e
    using conflict_deinit_running [OF wf1] s1(2) s(3)
    by (simp_all add: rtp_source_conflict_table_deinit_def stopped_def)
  have "\<exists>m. e = SenderTe m \<and> m \<notin> set (used s)" if "is_soft_timer_running ?t e" for e
    using that inv D(4) s1(2)
    by (cases e) (auto simp: t stopped_def s sess_inv_at_def conflict_wf_def active_def)
  with s1(1) t(1) show ?thesis
    by (simp add: rtp_session_deinit_def soft_timer_deinit_def)
qed

end
