(* ===== verification/Session_Demo.thy ===== *)
theory Session_Demo
  imports Session_Machine
begin

text \<open>
  A concrete session, and the theorems about sessions applied to it: memory that is all zeros, a
  world whose random numbers count up and whose clock stands still, a bandwidth of 64000 and the
  canonical name \<open>ab\<close>.
\<close>

definition demo_world :: world where
  "demo_world = \<lparr>w_random32 = of_nat, w_drand48 = (\<lambda>_. 1 / 2),
     w_gettimeofday = (\<lambda>_. \<lparr>tv_sec = 0, tv_usec = 0\<rparr>), w_rtp_timestamp = (\<lambda>n. of_nat (160 * n)),
     w_stack = (\<lambda>_. replicate RTP_CONFIG_RTCP_ENCODER_BUFFER_LEN 0),
     n_random32 = 0, n_drand48 = 0, n_gettimeofday = 0, n_rtp_timestamp = 0, n_stack = 0, trace = []\<rparr>"

definition demo_cfg :: rtp_session_config where
  "demo_cfg = \<lparr>c_rtp_addr = zero_addr, c_rtcp_addr = zero_addr, session_bw = 64000, c_cname = [97, 98],
     c_cname_len = 2, c_pt = 0, align_by_4 = 0\<rparr>"

definition demo_raw :: rtp_session where
  "demo_raw = \<lparr>sess_tmr = idle_timer, rtp_pkt = replicate RTP_CONFIG_AVERAGE_RTCP_SIZE 0, sess_seq = 0,
     member_table = empty_table, rtcp_var = first_interval, self = None, src_conflict = empty_conflicts,
     invalid_rtcp_pkt = 0, invalid_rtp_pkt = 0, last_rtp_error = rtp_rx_error_no_error,
     last_rtcp_error = rtcp_rx_error_no_error, tx_pkt_count = 0, tx_octet_count = 0, config = demo_cfg,
     env = demo_world\<rparr>"

lemma demo_ok: "raw_ok demo_raw" "unat (c_cname_len demo_cfg) \<le> length (c_cname demo_cfg)"
  by (simp_all add: raw_ok_def demo_raw_def demo_cfg_def world_ok_def demo_world_def empty_table_def
      rtp_member_table_init_def zero_member_def empty_conflicts_def)

theorem session_init_correct_witness:
  "\<exists>s. rtp_session_init demo_raw demo_cfg = Inr s \<and> session_up demo_raw demo_cfg s"
  using session_init_correct [OF demo_ok] by (simp add: demo_cfg_def)

lemma demo_session:
  obtains s where "rtp_session_init demo_raw demo_cfg = Inr s" "sess_inv s" "sess_idle s" "self s = Some 0"
    "used s = [0]" "flags (mem s 0) = RTP_FLAG_SELF" "cname_len (mem s 0) = 2" "m_ssrc (mem s 0) = 1"
    "sess_seq s = 0" "config s = demo_cfg"
proof -
  obtain n d t where i: "rtp_session_init demo_raw demo_cfg = Inr ((fresh_session demo_raw demo_cfg)
      \<lparr>env := (env (fresh_session demo_raw demo_cfg))\<lparr>n_drand48 := n\<rparr>,
       rtcp_var := (rtcp_var (fresh_session demo_raw demo_cfg))\<lparr>tn := d\<rparr>, sess_tmr := t\<rparr>)" (is "_ = Inr ?s")
    using session_init_value [OF demo_ok] by (auto simp: demo_cfg_def)
  have "length (member_array (member_table demo_raw)) = 32"
    using demo_ok(1) by (simp add: raw_ok_def config_defs)
  then have m: "mem (fresh_session demo_raw demo_cfg) 0 =
      self_member (blank_session demo_raw demo_cfg) zero_addr zero_addr [97, 98] 2"
    by (simp add: mem_def fresh_session_members) (simp add: demo_cfg_def)
  note f = session_init_ok [OF demo_ok i]
  show thesis
  proof (rule that [OF i])
    show "sess_inv ?s" "sess_idle ?s" "self ?s = Some 0" "used ?s = [0]"
      using f(1-4) by (simp_all add: sess_idle_def)
    show "config ?s = demo_cfg" by (rule f(6))
    show "sess_seq ?s = 0" by (simp add: fresh_session_facts) (simp add: demo_raw_def demo_world_def)
    show "flags (mem ?s 0) = RTP_FLAG_SELF" "cname_len (mem ?s 0) = 2" "m_ssrc (mem ?s 0) = 1"
      unfolding f(7) m by (simp_all add: self_member_facts demo_raw_def demo_world_def)
  qed
qed

theorem reachable_sessions_witness:
  "\<exists>s. sess_reach demo_raw demo_cfg s \<and> unat (members (rtcp_var s)) =
     length (filter (\<lambda>m. \<not> rtp_member_is_bye_received (mem s m)) (used s))"
proof (rule demo_session)
  fix s assume s: "rtp_session_init demo_raw demo_cfg = Inr s"
  have r: "sess_reach demo_raw demo_cfg s" by (rule reach_init [OF s])
  with reachable_sessions [OF demo_ok r] show ?thesis by blast
qed


theorem session_deinit_stops_witness:
  "\<exists>s s'. rtp_session_init demo_raw demo_cfg = Inr s \<and> rtp_session_deinit s = Inr s' \<and>
     (\<forall>e. is_soft_timer_running (sess_tmr s') e \<longrightarrow> (\<exists>m. e = SenderTe m \<and> m \<notin> set (used s)))"
proof (rule demo_session)
  fix s assume s: "rtp_session_init demo_raw demo_cfg = Inr s" "sess_inv s"
  from session_deinit_stops [OF s(2)] s(1) show ?thesis by blast
qed

section \<open>RTP\<close>

theorem rtp_rx_safe_witness:
  "\<exists>s. rtp_session_init demo_raw demo_cfg = Inr s \<and>
     (case rtp_rx s [0x80, 0, 0, 1, 0, 0, 0, 0, 0, 0, 0, 9] 12 zero_addr of
        Inl f \<Rightarrow> f = NoReturn \<or> f = IntOverflow \<or> f = ListCorrupt
      | Inr s' \<Rightarrow> sess_inv s' \<and> length (timeout_list (sess_tmr s')) \<le> length (timeout_list (sess_tmr s)))"
proof (rule demo_session)
  fix s assume s: "rtp_session_init demo_raw demo_cfg = Inr s" "sess_inv s"
  from rtp_rx_safe [OF s(2), of 12 "[0x80, 0, 0, 1, 0, 0, 0, 0, 0, 0, 0, 9]" zero_addr] s(1)
  show ?thesis by (intro exI [of _ s]) simp
qed

theorem rtp_tx_sends_witness:
  "\<exists>s s'. rtp_session_init demo_raw demo_cfg = Inr s \<and> rtp_tx s [1, 2, 3] 3 160 [] 0 = Inr s' \<and>
     sess_inv s' \<and> trace (env s') = trace (env s) @ [TxRtp (tx_packet s [1, 2, 3] 160 1 [])]"
proof (rule demo_session)
  fix s assume s: "rtp_session_init demo_raw demo_cfg = Inr s" "sess_inv s" "self s = Some 0"
    "m_ssrc (mem s 0) = 1"
  from rtp_tx_sends [OF s(2,3), of "[]" 0 "[1, 2, 3]" 3 160] s(1,4)
  show ?thesis by (auto simp: config_defs)
qed


lemma tx_packet_round_trip_witness:
  "\<exists>plen. rtp_header_validity_check demo_raw (tx_packet demo_raw [1, 2, 3] 5 9 [7])
       (of_nat (length (tx_packet demo_raw [1, 2, 3] 5 9 [7]))) (take_bit 7 (c_pt (config demo_raw))) =
     Inr (demo_raw, Some (16, plen)) \<and> seg (tx_packet demo_raw [1, 2, 3] 5 9 [7]) 16 (unat plen) = [1, 2, 3]"
  using tx_packet_round_trip [of "[7]" "[1, 2, 3]" demo_raw demo_raw 5 9] by auto

section \<open>RTCP\<close>

text \<open>A receiver report without blocks.\<close>

abbreviation demo_rr :: "u8 list" where
  "demo_rr \<equiv> [0x80, 201, 0, 1, 0, 0, 0, 9]"

lemma demo_rr_ok: "rtcp_sized demo_rr" "demo_rr ! 0 AND 0xE0 = 0x80" "demo_rr ! 1 AND 0xFE = RTCP_SR"
  by (simp_all add: rtcp_sized_def be16_def RTCP_SR_def)

lemma demo_rr_compound: "rtcp_compound demo_rr"
  unfolding rtcp_compound_def using demo_rr_ok by (intro exI [of _ demo_rr] exI [of _ "[]"]) simp

theorem rtcp_check_correct_witness:
  "rtcp_check_pkt demo_raw demo_rr 8 =
     Inr (demo_raw\<lparr>last_rtcp_error := rtcp_rx_error_no_error\<rparr>, True)"
proof -
  have "length demo_rr = 4 * 2" by simp
  then have l: "unat (8 :: u32) = length demo_rr" "4 dvd length demo_rr" by (simp, metis dvd_triv_left)
  from rtcp_check_correct [OF l(1), of demo_raw] l(2) demo_rr_compound show ?thesis
    by (simp only: simp_thms if_True)
qed

theorem rtcp_rx_visits_witness:
  "rtcp_rx demo_raw demo_rr 8 zero_addr = handle_units (demo_raw\<lparr>last_rtcp_error := rtcp_rx_error_no_error\<rparr>)
     demo_rr 0 [demo_rr] zero_addr 8"
proof -
  have "unat (8 :: u32) = length demo_rr" by simp
  from rtcp_rx_visits [OF this, of demo_raw zero_addr, THEN conjunct1, rule_format, of demo_rr "[]"] demo_rr_ok
  show ?thesis by simp
qed

theorem rtcp_rx_safe_witness:
  "\<exists>s. rtp_session_init demo_raw demo_cfg = Inr s \<and>
     (case rtcp_rx s demo_rr 8 zero_addr of
        Inl f \<Rightarrow> f = OobRead \<or> f = FpRange \<or> f = NoReturn \<or> f = ListCorrupt
      | Inr s' \<Rightarrow> sess_inv s' \<and> length (timeout_list (sess_tmr s')) \<le> length (timeout_list (sess_tmr s)))"
proof (rule demo_session)
  fix s assume s: "rtp_session_init demo_raw demo_cfg = Inr s" "sess_inv s"
  from rtcp_rx_safe [OF s(2), of 8 demo_rr zero_addr] s(1) show ?thesis by (intro exI [of _ s]) simp
qed

theorem rtcp_send_report_correct_witness:
  "\<exists>s. rtp_session_init demo_raw demo_cfg = Inr s \<and>
     (case rtcp_send_report s of Inl f \<Rightarrow> f = FpRange | Inr r \<Rightarrow> sess_inv (fst r))"
proof (rule demo_session)
  fix s assume s: "rtp_session_init demo_raw demo_cfg = Inr s" "sess_inv s" "self s = Some 0"
  from rtcp_send_report_correct [OF s(2,3)] s(1) show ?thesis
    by (intro exI [of _ s]) (auto split: sum.splits)
qed

lemma report_accepted_witness:
  "\<exists>s. rtp_session_init demo_raw demo_cfg = Inr s \<and>
     rtcp_check_pkt demo_raw (report_packet s (mem s 0) ntp_ts_init 0 [])
       (of_nat (length (report_packet s (mem s 0) ntp_ts_init 0 []))) =
     Inr (demo_raw\<lparr>last_rtcp_error := rtcp_rx_error_no_error\<rparr>, True)"
proof (rule demo_session)
  fix s assume s: "rtp_session_init demo_raw demo_cfg = Inr s" "sess_inv s" "self s = Some 0"
    "used s = [0]" "flags (mem s 0) = RTP_FLAG_SELF" "cname_len (mem s 0) = 2"
  note c = self_cname(1) [OF s(2,3)]
  have r: "reported s = []" using s(4,5) by (simp add: reported_def reports_def rtp_member_is_self_def has_flag_def RTP_FLAG_SELF_def)
  have "report_size s (mem s 0) \<le> RTP_CONFIG_RTCP_ENCODER_BUFFER_LEN"
    using s(5,6) c r by (simp add: report_size_def sdes_body_def config_defs chunk_zeros_def)
  from report_accepted [of s "[]", OF _ c this] r s(1) show ?thesis by (intro exI [of _ s]) simp
qed

end
