(* ===== verification/Session_Live.thy ===== *)
theory Session_Live
  imports Session_Demo
begin

text \<open>
  What has to happen while nothing arrives any more: a member that has said BYE is removed when its leave
  timer has run for the configured time, whatever the other timers of the session do meanwhile.
\<close>

fun session_ticks :: "nat \<Rightarrow> rtp_session \<Rightarrow> rtp_session res" where
  "session_ticks 0 s = Inr s"
| "session_ticks (Suc n) s = bindE (rtp_session_timer_tick s) (session_ticks n)"

section \<open>What a timeout does to the timers of others\<close>

text \<open>From \<open>s\<close> to \<open>s'\<close> no time has passed, no member has joined or changed its mind, and the element \<open>e\<close> is
  linked into the wheel only where it was before.\<close>

definition linked :: "sess_timer \<Rightarrow> timer_id \<Rightarrow> bool" where
  "linked t e \<longleftrightarrow> e \<in> set (concat (buckets t))"

definition aside :: "timer_id \<Rightarrow> rtp_session \<Rightarrow> rtp_session \<Rightarrow> bool" where
  "aside e s s' \<longleftrightarrow>
     tick (sess_tmr s') = tick (sess_tmr s) \<and> tick_rate (sess_tmr s') = tick_rate (sess_tmr s) \<and>
     (linked (sess_tmr s') e \<longrightarrow> linked (sess_tmr s) e \<and> etick (sess_tmr s') e = etick (sess_tmr s) e) \<and>
     set (used s') \<subseteq> set (used s) \<and> bye_of s' = bye_of s"

lemma aside_refl [simp]: "aside e s s"
  by (simp add: aside_def)

lemma aside_trans: "aside e s t \<Longrightarrow> aside e t u \<Longrightarrow> aside e s u"
  by (auto simp: aside_def)

lemma asideI:
  "sess_tmr s' = sess_tmr s \<Longrightarrow> used s' = used s \<Longrightarrow> member_array (member_table s') = member_array (member_table s) \<Longrightarrow>
   aside e s s'"
  by (simp add: aside_def fun_eq_iff bye_of_def mem_def)

lemma aside_upd_mem:
  "(\<And>x. has_flag RTP_FLAG_BYE_RECEIVED (f x) = has_flag RTP_FLAG_BYE_RECEIVED x) \<Longrightarrow> aside e s (upd_mem m f s)"
  by (simp add: aside_def fun_eq_iff bye_of_def mem_upd_mem rtp_member_is_bye_received_def)

lemma aside_stop: "aside e s (stop_te s x)"
proof -
  have "set (concat (map (remove1 x) bs)) \<subseteq> set (concat bs)" for bs :: "timer_id list list"
    by (auto dest: set_remove1_subset [THEN subsetD])
  then show ?thesis
    by (auto simp: aside_def linked_def stop_te_def soft_timer_del_def fun_eq_iff bye_of_def mem_def)
qed

lemma set_concat_add_tail: "set (concat (add_tail_bucket i x bs)) \<subseteq> insert x (set (concat bs))"
proof (cases "i < length bs")
  case True
  then show ?thesis by (simp only: set_concat_update_snoc order_refl)
qed (auto simp: add_tail_bucket_def list_update_beyond)

lemma aside_start:
  assumes "start_te s x ms = Inr s'" "x \<noteq> e"
  shows "aside e s s'"
proof -
  obtain t where t: "soft_timer_add (sess_tmr s) x ms = Inr t" "s' = s\<lparr>sess_tmr := t\<rparr>"
    using assms(1) by (auto simp: start_te_def res_iff)
  have "linked t e \<longrightarrow> linked (sess_tmr s) e \<and> etick t e = etick (sess_tmr s) e"
  proof (cases "is_soft_timer_running (sess_tmr s) x")
    case True
    then show ?thesis using t(1) by (simp add: soft_timer_add_def)
  next
    case False
    from t(1) this obtain k where "t = (sess_tmr s)\<lparr>etick := (etick (sess_tmr s))(x := tick (sess_tmr s) + k),
        buckets := add_tail_bucket (unat (tick (sess_tmr s) + k) mod num_buckets) x (buckets (sess_tmr s))\<rparr>"
      by (rule soft_timer_add_Inr)
    then show ?thesis
      using assms(2) set_concat_add_tail [of "unat (tick (sess_tmr s) + k) mod num_buckets" x "buckets (sess_tmr s)"]
      by (simp add: linked_def) blast
  qed
  then show ?thesis using soft_timer_add_frame [OF t(1)] by (simp add: aside_def t(2) fun_eq_iff bye_of_def mem_def)
qed

lemma aside_dealloc: "aside e s (rtp_session_dealloc_member s m)"
proof -
  let ?s = "rtp_timers_deinit_member s m"
  have "aside e s ?s"
    unfolding rtp_timers_deinit_member_def by (rule aside_trans [OF aside_trans [OF aside_stop aside_stop] aside_stop])
  moreover have "aside e ?s (rtp_session_dealloc_member s m)"
    using set_remove1_subset [of m "used ?s"]
    by (simp add: rtp_session_dealloc_member_def aside_def Let_def fun_eq_iff bye_of_def mem_def rtp_member_table_free_def)
  ultimately show ?thesis by (rule aside_trans)
qed

section \<open>The timeout of the interval\<close>

text \<open>The result of an operation stays \<open>aside\<close>, if it has one.\<close>

abbreviation stays :: "timer_id \<Rightarrow> rtp_session \<Rightarrow> rtp_session res \<Rightarrow> bool" where
  "stays e s \<equiv> outcome UNIV (aside e s)"

lemma outcome_any: "outcome UNIV (\<lambda>_. True) r"
  by (cases r) simp_all

lemma stays_after: "aside e s t \<Longrightarrow> outcome UNIV (\<lambda>x. aside e t (g x)) r \<Longrightarrow> outcome UNIV (\<lambda>x. aside e s (g x)) r"
  by (erule outcome_mono) (auto intro: aside_trans)

lemma stays_start: "x \<noteq> e \<Longrightarrow> stays e s (start_te s x ms)"
  by (intro outcomeI) (simp_all add: aside_start)

lemma aside_var: "aside e s (s\<lparr>rtcp_var := v\<rparr>)"
  by (rule asideI) simp_all

lemma stays_schedule: "e \<noteq> RtcpTimer \<Longrightarrow> stays e s (rtcp_interval_schedule s tc t)"
  unfolding rtcp_interval_schedule_def Let_def
  by (rule outcome_bind [OF outcome_any]) (rule stays_after [OF aside_var stays_start], simp)

lemma stays_reschedule: "e \<noteq> RtcpTimer \<Longrightarrow> stays e s (rtcp_interval_reschedule s tc t)"
  unfolding rtcp_interval_reschedule_def Let_def
  by (rule outcome_bind [OF outcome_any]) (rule stays_after [OF aside_trans [OF aside_var aside_stop] stays_start], simp)

lemma stays_event:
  assumes "e \<noteq> RtcpTimer"
  shows "stays e s (rtcp_interval_handle_rtcp_event s ev fs fm n)"
proof -
  have re: "stays e s (bindE (rtcp_interval_reschedule (s\<lparr>rtcp_var := w\<rparr>) tc tn') (\<lambda>s. Inr (s\<lparr>rtcp_var := v s\<rparr>)))" for w v tc tn'
    by (rule outcome_bind [OF stays_after [OF aside_var stays_reschedule [OF assms]]])
      (simp add: aside_trans [OF _ aside_var])
  show ?thesis
    by (cases ev) (simp_all add: rtcp_interval_handle_rtcp_event_def Let_def aside_var re)
qed

lemma stays_calc: "outcome UNIV (\<lambda>x. aside e s (fst x)) (sess_interval_calc s)"
  unfolding sess_interval_calc_def draw_drand48_def Let_def prod.case
  by (rule outcome_bind [OF outcome_any]) (simp add: asideI)

lemma stays_dlsr: "outcome UNIV (\<lambda>x. aside e s (fst x)) (report_dlsr s m)"
proof -
  have "outcome UNIV (\<lambda>x. aside e s (fst x)) (sess_ntp_ts_now s)"
    unfolding sess_ntp_ts_now_def draw_time_def Let_def prod.case
    by (rule outcome_bind [OF outcome_any]) (simp add: asideI)
  then have "outcome UNIV (\<lambda>x. aside e s (fst x)) (bindE (sess_ntp_ts_now s) (\<lambda>(s, now). bindE (g now) (\<lambda>d. bindE (h d) (\<lambda>r. Inr (s, r)))))"
    for g :: "ntp_ts \<Rightarrow> real res" and h :: "real \<Rightarrow> u32 res"
    by (rule outcome_bind) (clarsimp, rule outcome_bind [OF outcome_any], rule outcome_bind [OF outcome_any], simp)
  then show ?thesis by (simp add: report_dlsr_def Let_def)
qed

lemma stays_report_member: "outcome UNIV (\<lambda>x. aside e s (fst x)) (report_member sr s enc m)"
proof -
  have up: "aside e s (upd_mem m (\<lambda>x. x\<lparr>rtp_src := q\<rparr>) s)" for q
    by (rule aside_upd_mem) (simp add: has_flag_def)
  have "outcome UNIV (\<lambda>x. aside e s (fst x)) (bindE (report_dlsr (upd_mem m (\<lambda>x. x\<lparr>rtp_src := q\<rparr>) s) m)
      (\<lambda>(s, d). bindE (g s d) (\<lambda>(enc, ok). Inr (s, enc, ok))))" for q and g :: "_ \<Rightarrow> _ \<Rightarrow> (rtcp_encoder \<times> bool) res"
    by (rule outcome_bind [OF stays_after [OF up stays_dlsr]]) (clarsimp, rule outcome_bind [OF outcome_any], clarsimp)
  then show ?thesis by (simp add: report_member_def Let_def split: prod.split)
qed

lemma stays_report_members: "outcome UNIV (\<lambda>x. aside e s (fst x)) (report_members fuel sr s enc p)"
proof (induction fuel arbitrary: s enc p)
  case 0
  then show ?case by (cases p) simp_all
next
  case (Suc fuel)
  show ?case
  proof (cases p)
    case (Some m)
    show ?thesis
      unfolding Some report_members.simps
    proof (rule outcome_bind [OF stays_report_member], clarify)
      fix t :: rtp_session and enc' :: rtcp_encoder and ok :: bool assume a: "aside e s (fst (t, enc', ok))"
      show "outcome UNIV (\<lambda>x. aside e s (fst x)) (if ok then report_members fuel sr t enc'
          (rtp_member_table_get_next (member_table t) (Some m)) else Inr (t, enc', False))"
        using a by (auto intro: stays_after [OF _ Suc.IH])
    qed
  qed simp
qed

lemma stays_or_return:
  "(\<And>enc. outcome UNIV (\<lambda>x. aside e s (fst x)) (k enc)) \<Longrightarrow> outcome UNIV (\<lambda>x. aside e s (fst x)) (or_return_0 r s k)"
  unfolding or_return_0_def by (rule outcome_bind [OF outcome_any]) (simp split: prod.split)

lemma stays_sdes: "outcome UNIV (\<lambda>x. aside e s (fst x)) (send_report_sdes s enc me)"
  unfolding send_report_sdes_def
  by (intro stays_or_return outcome_bind [OF outcome_any]) (simp add: Let_def emit_def asideI)

lemma stays_send_report: "outcome UNIV (\<lambda>x. aside e s (fst x)) (rtcp_send_report s)"
proof -
  have st: "aside e s (fst (draw_stack s))" for s by (simp add: draw_stack_def asideI)
  have ts: "aside e s (fst (rtp_session_timestamp s))" for s by (simp add: rtp_session_timestamp_def asideI)
  have now: "outcome UNIV (\<lambda>x. aside e s (fst x)) (sess_ntp_ts_now s)" for s
    unfolding sess_ntp_ts_now_def draw_time_def Let_def prod.case
    by (rule outcome_bind [OF outcome_any]) (simp add: asideI)
  have body: "outcome UNIV (\<lambda>x. aside e u (fst x)) (or_return_0 r u (\<lambda>enc.
      bindE (rtcp_send_report_gen_rr u enc sr) (\<lambda>(sess, enc, ok).
      if \<not> ok then Inr (sess, 0)
      else bindE (rtcp_encoder_end_packet enc) (\<lambda>enc. send_report_sdes sess enc (mem sess me)))))" for u r sr me
    unfolding rtcp_send_report_gen_rr_def
    by (rule stays_or_return, rule outcome_bind [OF stays_report_members [where e = e]], clarsimp)
      (intro impI outcome_bind [OF outcome_any] stays_after [OF _ stays_sdes])
  have tail: "outcome UNIV (\<lambda>x. aside e s (fst x)) (bindE d (\<lambda>me. or_return_0 (r me) u (\<lambda>enc.
      bindE (rtcp_send_report_gen_rr u enc (sr me)) (\<lambda>(sess, enc, ok).
      if \<not> ok then Inr (sess, 0)
      else bindE (rtcp_encoder_end_packet enc) (\<lambda>enc. send_report_sdes sess enc (mem sess me))))))"
    if "aside e s u" for d :: "nat res" and r u sr
    by (rule outcome_bind [OF outcome_any]) (rule stays_after [OF that body])
  have nxt: "aside e s a \<Longrightarrow> aside e s (fst (rtp_session_timestamp a))" for a by (rule aside_trans [OF _ ts])
  show ?thesis
    unfolding rtcp_send_report_def Let_def split_beta
    by (rule outcome_bind [OF outcome_any], rule outcome_bind [OF stays_after [OF st now]])
      (rule tail [unfolded split_beta], erule nxt)
qed

lemma stays_timeout:
  assumes "e \<noteq> RtcpTimer"
  shows "stays e s (rtcp_interval_timeout s)"
proof -
  have sched: "aside e s t \<Longrightarrow> stays e s (rtcp_interval_schedule t tc tn')" for t tc tn'
    by (rule stays_after [OF _ stays_schedule [OF assms]])
  show ?thesis
    unfolding rtcp_interval_timeout_def Let_def
  proof (rule outcome_bind [OF stays_calc], clarify)
    fix t and T :: real
    assume t: "aside e s (fst (t, T))"
    have "stays e s (bindE (rtcp_send_report t) (\<lambda>(sess, pkt_size).
         bindE (sess_interval_calc (sess\<lparr>rtcp_var := (rtcp_var sess)
              \<lparr>avg_rtcp_size := 1 / 16 * real (unat pkt_size) + 15 / 16 * avg_rtcp_size (rtcp_var sess),
               tp := rtcp_current_time s\<rparr>\<rparr>)) (\<lambda>(sess, t).
         bindE (rtcp_interval_schedule sess (rtcp_current_time s) (t + rtcp_current_time s)) (\<lambda>sess.
         Inr (sess\<lparr>rtcp_var := (rtcp_var sess)\<lparr>initial := False\<rparr>\<rparr>)))))"
    proof (rule outcome_bind [OF stays_after [OF _ stays_send_report]], use t in simp, clarify)
      fix u n assume "aside e s (fst (u, n :: u32))"
      then have u: "aside e s (u\<lparr>rtcp_var := v\<rparr>)" for v by (simp add: aside_trans [OF _ aside_var])
      show "stays e s (bindE (sess_interval_calc (u\<lparr>rtcp_var := (rtcp_var u)
              \<lparr>avg_rtcp_size := 1 / 16 * real (unat n) + 15 / 16 * avg_rtcp_size (rtcp_var u),
               tp := rtcp_current_time s\<rparr>\<rparr>)) (\<lambda>(sess, t).
         bindE (rtcp_interval_schedule sess (rtcp_current_time s) (t + rtcp_current_time s)) (\<lambda>sess.
         Inr (sess\<lparr>rtcp_var := (rtcp_var sess)\<lparr>initial := False\<rparr>\<rparr>))))"
        by (rule outcome_bind [OF stays_after [OF u stays_calc]], clarify, rule outcome_bind [OF sched])
          (simp_all add: aside_trans [OF _ aside_var])
    qed
    then show "stays e s
      (if tp (rtcp_var t) + T \<le> rtcp_current_time s
       then bindE (rtcp_send_report t) (\<lambda>(sess, pkt_size).
         bindE (sess_interval_calc (sess\<lparr>rtcp_var := (rtcp_var sess)
              \<lparr>avg_rtcp_size := 1 / 16 * real (unat pkt_size) + 15 / 16 * avg_rtcp_size (rtcp_var sess),
               tp := rtcp_current_time s\<rparr>\<rparr>)) (\<lambda>(sess, t).
         bindE (rtcp_interval_schedule sess (rtcp_current_time s) (t + rtcp_current_time s)) (\<lambda>sess.
         Inr (sess\<lparr>rtcp_var := (rtcp_var sess)\<lparr>initial := False\<rparr>\<rparr>))))
       else rtcp_interval_schedule t (rtcp_current_time s) (tp (rtcp_var t) + T))"
      using t sched by simp
  qed
qed

lemma stays_cb:
  assumes "e \<noteq> RtcpTimer"
  shows "stays e s (sess_timer_cb x s)"
proof (cases x)
  case (MemberTe m)
  have "stays e s (bindE (rtcp_interval_handle_rtcp_event s Timeout fs True 0) (\<lambda>s. Inr (rtp_session_dealloc_member s m)))" for fs
    by (rule outcome_bind [OF stays_event [OF assms]]) (simp add: aside_trans [OF _ aside_dealloc])
  then show ?thesis by (simp add: MemberTe rtp_timers_member_timedout_def rtcp_interval_member_timedout_def)
next
  case (SenderTe m)
  let ?s1 = "upd_mem m rtp_member_clear_rtp_heard s"
  have 1: "aside e s ?s1" by (rule aside_upd_mem) (simp add: flag_simps)
  have "aside e ?s1 (upd_mem m rtp_member_clear_sender ?s1)" by (rule aside_upd_mem) (simp add: flag_simps)
  then have "aside e s ((upd_mem m rtp_member_clear_sender ?s1)\<lparr>rtcp_var := (rtcp_var ?s1)\<lparr>we_sent := False\<rparr>\<rparr>)"
    by (rule aside_trans [OF aside_trans [OF 1] aside_var])
  with 1 show ?thesis
    by (simp add: SenderTe rtp_timers_sender_timedout_def rtcp_interval_sender_timedout_def Let_def
        stays_after [OF _ stays_event [OF assms]])
qed (simp_all add: assms stays_timeout rtp_timers_leave_timedout_def aside_dealloc sess_conflict_expired_def asideI)

section \<open>Ticks\<close>

lemma aside_pop: "aside e s (sess_tmr_update (\<lambda>t. t\<lparr>timeout_list := ps\<rparr>) s)"
  by (simp add: aside_def linked_def fun_eq_iff bye_of_def mem_def)

lemma stays_run:
  assumes "e \<noteq> RtcpTimer"
  shows "stays e s (run_timeouts sess_tmr sess_tmr_update sess_timer_cb fuel s)"
proof (induction fuel arbitrary: s)
  case 0
  then show ?case by (cases "timeout_list (sess_tmr s)") simp_all
next
  case (Suc fuel)
  show ?case
  proof (cases "timeout_list (sess_tmr s)")
    case (Cons p ps)
    show ?thesis
      unfolding run_timeouts_Cons [where get = sess_tmr and s = s, OF Cons]
      by (rule outcome_bind [OF stays_after [OF aside_pop stays_cb [OF assms]]]) (rule stays_after [OF _ Suc.IH])
  qed simp
qed

text \<open>After a tick a timer is linked only if it was before, and was not due.\<close>

definition passed :: "timer_id \<Rightarrow> nat \<Rightarrow> rtp_session \<Rightarrow> rtp_session \<Rightarrow> bool" where
  "passed e n s s' \<longleftrightarrow>
     tick (sess_tmr s') = tick (sess_tmr s) + of_nat n \<and>
     (linked (sess_tmr s') e \<longrightarrow> linked (sess_tmr s) e \<and> etick (sess_tmr s') e = etick (sess_tmr s) e \<and>
        (\<forall>k. 0 < k \<and> k \<le> n \<longrightarrow> etick (sess_tmr s) e \<noteq> tick (sess_tmr s) + of_nat k)) \<and>
     set (used s') \<subseteq> set (used s) \<and> bye_of s' = bye_of s"

lemma tick_passed:
  assumes "sess_idle s" "e \<noteq> RtcpTimer" "rtp_session_timer_tick s = Inr s'"
  shows "passed e 1 s s'"
proof -
  let ?t = "sess_tmr s" and ?s = "sess_tmr_update timer_collect s"
  have t: "timer_wf ?t" "timeout_list ?t = []"
    using assms(1) sess_inv_wf by (simp_all add: sess_idle_def)
  have l: "linked ?t e \<and> etick ?t e \<noteq> tick ?t + 1" if "linked (timer_collect ?t) e"
  proof -
    have r: "is_soft_timer_running (timer_collect ?t) e" using that by (simp add: linked_def is_soft_timer_running_def)
    have "e \<notin> set (timeout_list (timer_collect ?t))"
      using timer_collect_wf [OF t] that by (auto simp: timer_wf_def linked_def simp del: set_concat)
    moreover have run: "is_soft_timer_running ?t e" using r timer_collect_running [OF t] by simp
    ultimately have "etick ?t e \<noteq> tick ?t + 1" using timer_collect_timeout [OF t] by blast
    moreover have "linked ?t e" using run t(2) by (simp add: is_soft_timer_running_def linked_def)
    ultimately show ?thesis by blast
  qed
  have "aside e ?s s'"
    using stays_run [OF assms(2), of ?s] assms(3) unfolding rtp_session_timer_tick_def soft_timer_drive_def Let_def
    by (rule outcome_Inr)
  then show ?thesis
    using l by (auto simp: aside_def passed_def timer_collect_frame fun_eq_iff bye_of_def mem_def le_Suc_eq)
qed

lemma passed_step: "passed e 1 s t \<Longrightarrow> passed e n t u \<Longrightarrow> passed e (Suc n) s u"
proof -
  assume a: "passed e 1 s t" "passed e n t u"
  have "etick (sess_tmr s) e \<noteq> tick (sess_tmr s) + of_nat k"
    if l: "linked (sess_tmr u) e" and k: "0 < k" "k \<le> Suc n" for k
  proof (cases "k = 1")
    case True
    have "linked (sess_tmr t) e" using a(2) l by (simp add: passed_def)
    then have "\<forall>k. 0 < k \<and> k \<le> 1 \<longrightarrow> etick (sess_tmr s) e \<noteq> tick (sess_tmr s) + of_nat k"
      using a(1) by (simp add: passed_def)
    then show ?thesis unfolding True by (rule allE [of _ 1]) simp
  next
    case False
    with k obtain j where "k = Suc j" "0 < j" "j \<le> n" by (cases k) auto
    then show ?thesis using a l by (auto simp: passed_def add.assoc)
  qed
  then show ?thesis using a by (auto simp: passed_def add.assoc)
qed

lemma ticks_passed:
  assumes "sess_idle s" "e \<noteq> RtcpTimer"
  shows "outcome {FpRange} (\<lambda>s'. sess_idle s' \<and> passed e n s s') (session_ticks n s)"
  using assms(1)
proof (induction n arbitrary: s)
  case 0
  then show ?case by (simp add: passed_def)
next
  case (Suc n)
  have t: "outcome {FpRange} (\<lambda>s'. sess_idle s' \<and> passed e 1 s s') (rtp_session_timer_tick s)"
    using tick_keeps [of s] Suc.prems tick_passed [OF Suc.prems assms(2)] by (auto simp: sess_idle_def outcome_def split: sum.splits)
  show ?case
    unfolding session_ticks.simps
    by (rule outcome_bind [OF t], rule outcome_mono [OF Suc.IH]) (auto intro: passed_step)
qed

section \<open>The member that leaves\<close>

definition leave_ticks :: "rtp_session \<Rightarrow> nat" where
  "leave_ticks s = nat ((RTP_CONFIG_LEAVE_TIMEOUT + tick_rate (sess_tmr s) - 1) div tick_rate (sess_tmr s))"

lemma leave_ticks_100: "tick_rate (sess_tmr s) = 100 \<Longrightarrow> leave_ticks s = 30"
  by (simp add: leave_ticks_def config_defs)

lemma bye_starts_leaving:
  assumes "sess_inv s" "m \<in> set (active s)" "bye_member s m n0 = Inr s1"
  shows "unat (etick (sess_tmr s1) (LeaveTe m) - tick (sess_tmr s1)) = leave_ticks s1" "m \<in> set (used s1)" "bye_of s1 m"
proof -
  have inv: "sess_inv_at 0 {} s" using assms(1) by (simp add: sess_inv_def)
  note wf = sess_inv_wf [OF assms(1)]
  obtain fs t where ev: "rtcp_interval_handle_rtcp_event s RxBye fs True n0 = Inr t"
    and start: "rtp_timers_leave_start (rtp_timers_member_stop (rtp_timers_sender_stop
      (upd_mem m rtp_member_set_bye_received t) m) m) m = Inr s1"
    using assms(3) by (auto simp: bye_member_def Let_def res_iff split: if_splits)
  let ?t1 = "upd_mem m rtp_member_set_bye_received t"
  let ?t3 = "rtp_timers_member_stop (rtp_timers_sender_stop ?t1 m) m"
  have c: "calm (- 1) s t" using calm_rtcp_event [OF wf ev] by simp
  have off: "\<not> te_running t (LeaveTe m)" using c inv assms(2) by (simp add: calm_def sess_inv_at_def active_def)
  have wf1: "timer_wf (sess_tmr ?t1)" using calm_wf [OF c] by simp
  have wf2: "timer_wf (sess_tmr (stop_te ?t1 (SenderTe m)))" using soft_timer_del_wf [OF wf1] by (simp add: stop_te_def)
  have wf3: "timer_wf (sess_tmr ?t3)"
    using soft_timer_del_wf [OF wf2] by (simp add: rtp_timers_member_stop_def rtp_timers_sender_stop_def stop_te_def)
  have off3: "\<not> is_soft_timer_running (sess_tmr ?t3) (LeaveTe m)"
    using off soft_timer_del_running [OF wf1] soft_timer_del_running [OF wf2]
    by (simp add: rtp_timers_member_stop_def rtp_timers_sender_stop_def stop_te_def)
  obtain tm where tm: "soft_timer_add (sess_tmr ?t3) (LeaveTe m) RTP_CONFIG_LEAVE_TIMEOUT = Inr tm" "s1 = ?t3\<lparr>sess_tmr := tm\<rparr>"
    using start by (auto simp: rtp_timers_leave_start_def start_te_def res_iff)
  show "unat (etick (sess_tmr s1) (LeaveTe m) - tick (sess_tmr s1)) = leave_ticks s1"
    using soft_timer_add_etick [OF wf3 off3 _ _ tm(1)] soft_timer_add_frame [OF tm(1)]
    by (simp add: tm(2) leave_ticks_def config_defs)
  have m: "m \<in> set (active t)" using assms(2) calm_active [OF c] by simp
  have i: "sess_inv_at 1 {} t" using calm_inv [OF inv c] by simp
  show "m \<in> set (used s1)" "bye_of s1 m"
    using m set_bye_inv(2) [OF i m]
    by (simp_all add: tm(2) rtp_timers_member_stop_def rtp_timers_sender_stop_def stop_te_def active_def bye_of_def mem_def)
qed

text \<open>
  C7: a member that has said BYE is gone once the leave timeout has passed, 30 ticks of 100 milliseconds: whatever
  other timers run out meanwhile, after that many ticks, or more, it is no longer in the table, unless one of the
  ticks fails with a number that is out of range.
\<close>

theorem bye_member_leaves:
  assumes "sess_idle s" "m \<in> set (active s)" "bye_member s m n0 = Inr s1" "leave_ticks s1 \<le> n"
  shows "m \<in> set (used s1) \<and>
    (session_ticks n s1 = Inl FpRange \<or> (\<exists>s'. session_ticks n s1 = Inr s' \<and> sess_idle s' \<and> m \<notin> set (used s')))"
proof -
  have inv: "sess_inv s" using assms(1) by (simp add: sess_idle_def)
  note b = bye_starts_leaving [OF inv assms(2,3)]
  have i1: "sess_idle s1"
    using outcome_Inr [OF bye_member_keeps [OF inv assms(2)] assms(3)] keeps_idle assms(1) by blast
  have gone: "m \<notin> set (used s')" if "sess_idle s'" "passed (LeaveTe m) n s1 s'" for s'
  proof -
    let ?e = "etick (sess_tmr s1) (LeaveTe m)" and ?now = "tick (sess_tmr s1)"
    have "0 < leave_ticks s1"
      using timer_wf_rate [OF sess_inv_wf, of s1] i1 round_up_bounds [of "tick_rate (sess_tmr s1)" RTP_CONFIG_LEAVE_TIMEOUT]
      by (simp add: leave_ticks_def sess_idle_def config_defs)
    moreover have "?e = ?now + of_nat (leave_ticks s1)" unfolding b(1) [symmetric] by simp
    ultimately have "\<not> linked (sess_tmr s') (LeaveTe m)" using that(2) assms(4) by (auto simp: passed_def)
    then have "\<not> te_running s' (LeaveTe m)"
      using that(1) by (simp add: linked_def is_soft_timer_running_def sess_idle_def)
    moreover have "bye_of s' m" using that(2) b(3) by (simp add: passed_def)
    ultimately show ?thesis using that(1) by (simp add: sess_idle_def sess_inv_def sess_inv_at_def)
  qed
  have "outcome {FpRange} (\<lambda>s'. sess_idle s' \<and> m \<notin> set (used s')) (session_ticks n s1)"
    by (rule outcome_mono [OF ticks_passed [OF i1, of "LeaveTe m"]]) (use gone in auto)
  with b(2) show ?thesis by (cases "session_ticks n s1") auto
qed

section \<open>A concrete member\<close>

lemma last_member_event:
  assumes "timer_wf (sess_tmr s)" "members (rtcp_var s) = 1" "pmembers (rtcp_var s) = 1"
  shows "\<exists>s1. rtcp_interval_handle_rtcp_event s RxBye fs True n0 = Inr s1"
proof -
  have start: "\<exists>u. start_te (stop_te (s\<lparr>rtcp_var := v\<rparr>) RtcpTimer) RtcpTimer d = Inr u" for v d
    using soft_timer_add_total [OF soft_timer_del_wf [OF assms(1)], of RtcpTimer RtcpTimer d]
    by (auto simp: start_te_def stop_te_def)
  have "real_to_u32 0 = Inr 0" by (simp add: real_to_u32_def)
  then have "\<exists>u. rtcp_interval_reschedule (s\<lparr>rtcp_var := v\<rparr>) tc tc = Inr u" for v tc
    using start by (simp add: rtcp_interval_reschedule_def rtcp_interval_cal_delta_in_ms_def Let_def)
  then obtain u where "rtcp_interval_reschedule (s\<lparr>rtcp_var := (if fs then (rtcp_var s)\<lparr>senders := senders (rtcp_var s) - 1\<rparr>
      else rtcp_var s)\<lparr>members := 0, tp := rtcp_current_time s\<rparr>\<rparr>) (rtcp_current_time s) (rtcp_current_time s) = Inr u" by blast
  then show ?thesis using assms(2,3) by (cases fs) (simp_all add: rtcp_interval_handle_rtcp_event_def Let_def)
qed

lemma last_member_bye:
  assumes "timer_wf (sess_tmr s)" "members (rtcp_var s) = 1" "pmembers (rtcp_var s) = 1"
  shows "\<exists>s1. bye_member s m n0 = Inr s1"
proof -
  let ?fs = "rtp_member_is_rtp_heard (mem s m)"
  obtain t where t: "rtcp_interval_handle_rtcp_event s RxBye ?fs True n0 = Inr t"
    using last_member_event [OF assms] by blast
  have "timer_wf (sess_tmr t)" using calm_wf [OF calm_rtcp_event [OF assms(1) t]] .
  then have "timer_wf (sess_tmr (rtp_timers_member_stop (rtp_timers_sender_stop (upd_mem m rtp_member_set_bye_received t) m) m))"
    by (simp add: rtp_timers_member_stop_def rtp_timers_sender_stop_def stop_te_def soft_timer_del_wf)
  from timer_steps_total(5) [OF this, of m] obtain u where "rtp_timers_leave_start (rtp_timers_member_stop (rtp_timers_sender_stop
      (upd_mem m rtp_member_set_bye_received t) m) m) m = Inr u" by (metis sum.exhaust)
  with t show ?thesis by (cases ?fs) (simp_all add: bye_member_def Let_def)
qed

theorem bye_member_leaves_witness:
  "\<exists>s s1. rtp_session_init demo_raw demo_cfg = Inr s \<and> bye_member s 0 8 = Inr s1 \<and> 0 \<in> set (used s1) \<and>
     (session_ticks (leave_ticks s1) s1 = Inl FpRange \<or>
      (\<exists>s'. session_ticks (leave_ticks s1) s1 = Inr s' \<and> sess_idle s' \<and> 0 \<notin> set (used s')))"
proof (rule demo_session)
  fix s assume s: "rtp_session_init demo_raw demo_cfg = Inr s" "sess_inv s" "sess_idle s" "used s = [0]"
    "flags (mem s 0) = RTP_FLAG_SELF"
  obtain n d t where "rtp_session_init demo_raw demo_cfg = Inr ((fresh_session demo_raw demo_cfg)
      \<lparr>env := (env (fresh_session demo_raw demo_cfg))\<lparr>n_drand48 := n\<rparr>,
       rtcp_var := (rtcp_var (fresh_session demo_raw demo_cfg))\<lparr>tn := d\<rparr>, sess_tmr := t\<rparr>)"
    using session_init_value [OF demo_ok] by (auto simp: demo_cfg_def)
  then have "rtcp_var s = (rtcp_var (fresh_session demo_raw demo_cfg))\<lparr>tn := d\<rparr>" unfolding s(1) by simp
  then have v: "members (rtcp_var s) = 1" "pmembers (rtcp_var s) = 1" by (simp_all add: fresh_session_var)
  have act: "0 \<in> set (active s)"
    using s(4,5) by (simp add: active_def bye_of_def flag_simps has_flag_def)
  obtain s1 where s1: "bye_member s 0 8 = Inr s1" using last_member_bye [OF sess_inv_wf [OF s(2)] v] by blast
  from bye_member_leaves [OF s(3) act s1, of "leave_ticks s1"] s(1) s1 show ?thesis by blast
qed

end
