(* ===== verification/End_To_End.thy ===== *)
theory End_To_End
  imports Session_Demo
begin

text \<open>
  Two sessions and the network between them: what one session transmits is what the user of the other
  one is given, through a network that loses, duplicates and reorders packets.
\<close>

section \<open>Reception from a known source\<close>

text \<open>The session \<open>b\<close> knows the source \<open>ssrc\<close> at the address \<open>from\<close> as its member \<open>m\<close>.\<close>

definition hears :: "rtp_session \<Rightarrow> nat \<Rightarrow> u32 \<Rightarrow> sockaddr_in \<Rightarrow> bool" where
  "hears b m ssrc from \<longleftrightarrow> sess_inv b \<and> rtp_session_lookup_member b ssrc = Some m \<and>
     \<not> rtp_member_is_bye_received (mem b m) \<and> \<not> rtp_member_is_self (mem b m) \<and>
     rtp_member_is_rtp_heard (mem b m) \<and> m_rtp_addr (mem b m) = from"

lemma hears_slot: "hears b m ssrc from \<Longrightarrow> m < length (member_array (member_table b))"
proof -
  assume h: "hears b m ssrc from"
  then have "m \<in> set (used b)" by (auto simp: hears_def rtp_session_lookup_member_def dest: lookup_Some)
  moreover have "mt_wf (member_table b)" using h by (simp add: hears_def sess_inv_def sess_inv_at_def)
  ultimately show ?thesis using mt_slotsD(4) by (auto simp: mt_wf_def)
qed

text \<open>What a reception from a known source leaves as it was, apart from the member itself.\<close>

definition same_session :: "rtp_session \<Rightarrow> rtp_session \<Rightarrow> bool" where
  "same_session b b' \<longleftrightarrow> used b' = used b \<and>
     length (member_array (member_table b')) = length (member_array (member_table b)) \<and>
     (\<forall>i. m_ssrc (mem b' i) = m_ssrc (mem b i)) \<and> config b' = config b"

lemma same_session_refl [simp]: "same_session b b"
  by (simp add: same_session_def)

lemma same_session_trans: "same_session b c \<Longrightarrow> same_session c d \<Longrightarrow> same_session b d"
  by (simp add: same_session_def)

lemma same_session_upd_mem: "(\<And>x. m_ssrc (f x) = m_ssrc x) \<Longrightarrow> same_session b (upd_mem m f b)"
  by (simp add: same_session_def mem_upd_mem)

lemma same_session_var:
  "same_session b (b\<lparr>last_rtp_error := x\<rparr>)" "same_session b (emit e b)"
  by (simp_all add: same_session_def mem_def emit_def)

lemma same_session_lookup:
  assumes "same_session b b'"
  shows "rtp_session_lookup_member b' ssrc = rtp_session_lookup_member b ssrc"
proof -
  have "m_ssrc (member_array (member_table b') ! i) = m_ssrc (member_array (member_table b) ! i)" for i
    using assms by (auto simp: same_session_def mem_def)
  then show ?thesis
    using assms by (simp add: rtp_session_lookup_member_def rtp_member_table_lookup_def same_session_def)
qed

lemma restart_member_frame:
  "rtp_timers_member_restart s m = Inr s' \<Longrightarrow> \<exists>t. s' = s\<lparr>sess_tmr := t\<rparr>"
  by (auto simp: rtp_timers_member_restart_def start_te_def stop_te_def res_iff)

lemma handle_heard:
  assumes "hears b m ssrc from"
  shows "\<exists>t. rtp_handle_ssrc b ssrc seq from False =
    Inr ((upd_mem m rtp_member_set_rtp_heard b)\<lparr>sess_tmr := t\<rparr>, Some m)"
proof -
  let ?b1 = "upd_mem m rtp_member_set_rtp_heard b"
  have wf: "timer_wf (sess_tmr ?b1)" using assms sess_inv_wf by (simp add: hears_def)
  obtain b2 where b2: "rtp_timers_sender_restart ?b1 m = Inr b2"
    using timer_steps_total(2) [OF wf, of m] by (cases "rtp_timers_sender_restart ?b1 m") auto
  obtain b3 where b3: "rtp_timers_member_restart b2 m = Inr b3"
    using timer_steps_total(4) [OF calm_wf [OF calm_restart_sender [OF wf b2]], of m]
    by (cases "rtp_timers_member_restart b2 m") auto
  obtain t u where "b2 = ?b1\<lparr>sess_tmr := t\<rparr>" "b3 = b2\<lparr>sess_tmr := u\<rparr>"
    using restart_sender_frame [OF b2] restart_member_frame [OF b3] by blast
  then have "b3 = ?b1\<lparr>sess_tmr := u\<rparr>" by simp
  then show ?thesis
    using assms b2 b3 by (intro exI [of _ u]) (simp add: hears_def rtp_handle_ssrc_def)
qed

text \<open>
  The datagram \<open>msg\<close> is a packet without CSRCs, of the payload type \<open>pt\<close>, as a receiver reads it.
\<close>

definition carries :: "u8 list \<Rightarrow> u8 \<Rightarrow> u16 \<Rightarrow> u32 \<Rightarrow> u32 \<Rightarrow> u8 list \<Rightarrow> bool" where
  "carries msg pt seq ts ssrc payload \<longleftrightarrow> length msg < 2 ^ 32 \<and> 0 < length msg \<and> hdr_cc (msg ! 0) = 0 \<and>
     rd16 msg 2 = Inr seq \<and> rd32 msg 4 = Inr ts \<and> rd32 msg 8 = Inr ssrc \<and>
     (\<exists>plen. (\<forall>r. rtp_header_validity_check r msg (of_nat (length msg)) pt = Inr (r, Some (12, plen))) \<and>
        unat plen = length payload \<and> seg msg 12 (unat plen) = payload)"

definition media_report :: "u16 \<Rightarrow> u32 \<Rightarrow> u8 list \<Rightarrow> rtp_rx_report" where
  "media_report seq ts payload =
     \<lparr>rpt_payload = payload, rpt_payload_len = of_nat (length payload), rpt_rtp_ts = ts, rpt_seq = seq,
      rpt_csrc = [], rpt_ncsrc = 0\<rparr>"

text \<open>The session after a reception from its member \<open>m\<close>, whose source is in the state \<open>src\<close> then.\<close>

definition received_from :: "rtp_session \<Rightarrow> nat \<Rightarrow> rtp_source \<Rightarrow> event list \<Rightarrow> rtp_session \<Rightarrow> bool" where
  "received_from b m src evs b' \<longleftrightarrow> same_session b b' \<and> rtp_src (mem b' m) = src \<and>
     trace (env b') = trace (env b) @ evs \<and>
     w_rtp_timestamp (env b') = w_rtp_timestamp (env b) \<and>
     n_rtp_timestamp (env b') = Suc (n_rtp_timestamp (env b)) \<and>
     (rtp_member_is_bye_received (mem b' m) \<longleftrightarrow> rtp_member_is_bye_received (mem b m)) \<and>
     (rtp_member_is_self (mem b' m) \<longleftrightarrow> rtp_member_is_self (mem b m)) \<and>
     rtp_member_is_rtp_heard (mem b' m) \<and> m_rtp_addr (mem b' m) = m_rtp_addr (mem b m)"

lemma rtp_src_flags [simp]: "has_flag k (x\<lparr>rtp_src := y\<rparr>) = has_flag k x"
  by (simp add: has_flag_def)

lemma heard_flags:
  fixes x src
  defines "y \<equiv> (rtp_member_set_rtp_heard x)\<lparr>rtp_src := src\<rparr>"
  shows "rtp_member_is_bye_received y = rtp_member_is_bye_received x"
    "rtp_member_is_self y = rtp_member_is_self x" "rtp_member_is_rtp_heard y"
    "rtp_member_is_bye_received (rtp_member_set_validated y) = rtp_member_is_bye_received x"
    "rtp_member_is_self (rtp_member_set_validated y) = rtp_member_is_self x"
    "rtp_member_is_rtp_heard (rtp_member_set_validated y)"
    "m_rtp_addr y = m_rtp_addr x" "rtp_src y = src"
    "m_rtp_addr (rtp_member_set_validated y) = m_rtp_addr x" "rtp_src (rtp_member_set_validated y) = src"
  by (simp_all add: y_def flag_simps)

lemma rx_heard:
  assumes "hears b m ssrc from" "carries msg (c_pt (config b)) seq ts ssrc payload"
    and "rtp_update_seq (rtp_src (mem b m)) seq = (src, ok)"
    and "arrival = w_rtp_timestamp (env b) (n_rtp_timestamp (env b))"
  shows "\<not> ok \<Longrightarrow> \<exists>b'. rtp_rx b msg (of_nat (length msg)) from = Inr b' \<and> received_from b m src [] b'"
    "\<lbrakk>ok; rtcp_compute_jitter src ts arrival = Inl f\<rbrakk> \<Longrightarrow> rtp_rx b msg (of_nat (length msg)) from = Inl f"
    "\<lbrakk>ok; rtcp_compute_jitter src ts arrival = Inr src'\<rbrakk> \<Longrightarrow>
       \<exists>b'. rtp_rx b msg (of_nat (length msg)) from = Inr b' \<and>
         received_from b m src' [RxRtp (media_report seq ts payload)] b'"
proof -
  define b0 where "b0 = fst (rtp_session_timestamp b)"
  have m0: "mem b0 = mem b" "used b0 = used b" "member_table b0 = member_table b" "sess_tmr b0 = sess_tmr b"
    by (simp_all add: b0_def rtp_session_timestamp_def mem_def fun_eq_iff)
  have h0: "hears b0 m ssrc from"
    using assms(1) keeps_inv [OF calm_keeps [OF _ calm_var(8) [OF sess_inv_wf]], of b]
    by (simp add: hears_def m0 rtp_session_lookup_member_def b0_def [symmetric])
  note slot = hears_slot [OF assms(1)]
  obtain t where h: "rtp_handle_ssrc b0 ssrc seq from False =
      Inr ((upd_mem m rtp_member_set_rtp_heard b0)\<lparr>sess_tmr := t\<rparr>, Some m)" (is "_ = Inr (?b1, _)")
    using handle_heard [OF h0] by blast
  obtain plen where chk: "\<And>r. rtp_header_validity_check r msg (of_nat (length msg)) (c_pt (config b)) = Inr (r, Some (12, plen))"
    and pl: "unat plen = length payload" "seg msg 12 (unat plen) = payload"
    using assms(2) by (auto simp: carries_def)
  have rd: "rd16 msg 2 = Inr seq" "rd32 msg 4 = Inr ts" "rd32 msg 8 = Inr ssrc" "hdr_cc (msg ! 0) = 0"
    "rd8 msg 0 = Inr (msg ! 0)"
    using assms(2) by (auto simp: carries_def)
  have plen: "plen = of_nat (length payload)" by (simp add: pl(1) [symmetric])
  let ?b2 = "upd_mem m (\<lambda>x. x\<lparr>rtp_src := src\<rparr>) ?b1"
  have ts: "rtp_session_timestamp b = (b0, arrival)"
    by (simp add: b0_def rtp_session_timestamp_def assms(4))
  have c0: "config b0 = config b" by (simp add: b0_def rtp_session_timestamp_def)
  have e0: "env b0 = (env b)\<lparr>n_rtp_timestamp := Suc (n_rtp_timestamp (env b))\<rparr>"
    by (simp add: b0_def rtp_session_timestamp_def)
  have mt: "mem (b\<lparr>sess_tmr := u\<rparr>) = mem b" "mem (b\<lparr>last_rtp_error := x\<rparr>) = mem b"
    "mem (emit e b) = mem b" for b u x e by (simp_all add: mem_def fun_eq_iff emit_def)
  have src1: "rtp_src (mem ?b1 m) = rtp_src (mem b m)"
    by (simp add: mt mem_upd_mem m0 set_flag_defs set_flag_def)
  have rx: "rtp_rx b msg (of_nat (length msg)) from =
      (if \<not> ok then Inr (?b2\<lparr>last_rtp_error := rtp_rx_error_seq_error\<rparr>)
       else rtp_rx_deliver ?b2 msg m 12 plen seq ts arrival from)"
    by (simp add: rtp_rx_def ts c0 chk rd h src1 assms(3))
  have m2: "mem ?b2 m = (rtp_member_set_rtp_heard (mem b m))\<lparr>rtp_src := src\<rparr>"
    using slot by (simp add: mt mem_upd_mem m0)
  have s2: "same_session b ?b2"
    using slot
    by (auto simp: same_session_def mt mem_upd_mem m0 c0 set_flag_defs set_flag_def)
  show "\<exists>b'. rtp_rx b msg (of_nat (length msg)) from = Inr b' \<and> received_from b m src [] b'" if "\<not> ok"
  proof -
    let ?b3 = "?b2\<lparr>last_rtp_error := rtp_rx_error_seq_error\<rparr>"
    have b3: "mem ?b3 = mem ?b2" by (simp add: mt)
    then have "same_session b ?b3" using s2 by (simp add: same_session_def)
    moreover have "mem ?b3 m = (rtp_member_set_rtp_heard (mem b m))\<lparr>rtp_src := src\<rparr>"
      by (simp only: b3 m2)
    ultimately have "received_from b m src [] ?b3"
      unfolding received_from_def by (simp only: heard_flags) (simp add: e0)
    with that show ?thesis by (simp add: rx)
  qed
  show "rtp_rx b msg (of_nat (length msg)) from = Inl f" if "ok" "rtcp_compute_jitter src ts arrival = Inl f"
    using that m2 by (simp add: rx rtp_rx_deliver_def sess_compute_jitter_def)
  show "\<exists>b'. rtp_rx b msg (of_nat (length msg)) from = Inr b' \<and>
         received_from b m src' [RxRtp (media_report seq ts payload)] b'"
     if "ok" "rtcp_compute_jitter src ts arrival = Inr src'"
  proof -
    let ?b3 = "upd_mem m (\<lambda>x. x\<lparr>rtp_src := src'\<rparr>) ?b2"
    let ?b4 = "upd_mem m rtp_member_set_validated ?b3"
    let ?b5 = "emit (RxRtp (media_report seq ts payload)) (?b4\<lparr>last_rtp_error := rtp_rx_error_no_error\<rparr>)"
    have rx5: "rtp_rx b msg (of_nat (length msg)) from = Inr ?b5"
      using that pl
      by (simp add: rx rtp_rx_deliver_def sess_compute_jitter_def m2 rd media_report_def plen Let_def)
    have "mem ?b5 m = rtp_member_set_validated ((rtp_member_set_rtp_heard (mem b m))\<lparr>rtp_src := src'\<rparr>)"
      using slot by (simp add: mt mem_upd_mem m0)
    moreover have "same_session b ?b5"
      by (intro same_session_trans [OF _ same_session_var(2)] same_session_trans [OF _ same_session_var(1)]
          same_session_trans [OF _ same_session_upd_mem] s2) (simp_all add: set_flag_defs)
    ultimately have "received_from b m src' [RxRtp (media_report seq ts payload)] ?b5"
      unfolding received_from_def by (simp only: heard_flags) (simp add: emit_def e0)
    with rx5 show ?thesis by blast
  qed
qed

lemma received_hears:
  "\<lbrakk>hears b m ssrc from; received_from b m src evs b'; sess_inv b'\<rbrakk> \<Longrightarrow> hears b' m ssrc from"
  using same_session_lookup [of b b' ssrc] by (simp add: hears_def received_from_def)

lemma tx_carries:
  fixes payload
  assumes "12 + length payload \<le> RTP_CONFIG_AVERAGE_RTCP_SIZE"
  shows "carries (tx_packet s payload ts ssrc []) (take_bit 7 (c_pt (config s))) (sess_seq s) ts ssrc payload"
proof -
  let ?msg = "tx_packet s payload ts ssrc []" and ?pad = "tx_pad s (12 + length payload)"
  have p: "length payload < 2 ^ 16" using assms by (simp add: config_defs)
  note rt = tx_packet_round_trip [of "[]" payload _ s ts ssrc, simplified, OF p [simplified]]
  have len: "length ?msg = 12 + length payload + ?pad"
    using tx_pad_bound [of s "12 + length payload"]
    by (simp add: tx_packet_def Let_def length_rtp_bytes length_pad_bytes)
  have cc: "hdr_cc (?msg ! 0) = 0"
    by (simp add: tx_packet_def Let_def rtp_bytes_def hdr_first_byte)
  have "rtp_header_validity_check r ?msg (of_nat (length ?msg)) (take_bit 7 (c_pt (config s))) =
      Inr (r, Some (12, of_nat (length payload)))" for r
  proof -
    obtain plen :: u32 where p: "rtp_header_validity_check r ?msg (of_nat (length ?msg)) (take_bit 7 (c_pt (config s))) =
        Inr (r, Some (12, plen))" "unat plen = length payload"
      using rt [of r] by blast
    then have "plen = of_nat (length payload)" by (metis of_nat_unat ucast_id)
    with p(1) show ?thesis by simp
  qed
  moreover have "unat (of_nat (length payload) :: u32) = length payload"
    using assms by (intro unat_of_nat_small) (simp add: config_defs)
  ultimately show ?thesis
    using rt len cc tx_pad_bound [of s "12 + length payload"] assms by (auto simp: carries_def config_defs)
qed

section \<open>The network\<close>

text \<open>
  The user of \<open>a\<close> sends a payload with a timestamp; the \<open>k\<close>-th of the datagrams that \<open>a\<close> has sent arrives at
  \<open>b\<close>. A datagram may arrive never, once or several times, at any time after it was sent. What arrives before it
  is sent does not exist.
\<close>

datatype net_act = Send "u8 list" u32 | Arrive nat

type_synonym net = "rtp_session \<times> rtp_session \<times> u8 list list"

definition sent_since :: "rtp_session \<Rightarrow> rtp_session \<Rightarrow> u8 list list" where
  "sent_since a a' = [p. TxRtp p \<leftarrow> drop (length (trace (env a))) (trace (env a'))]"

fun net_step :: "sockaddr_in \<Rightarrow> net_act \<Rightarrow> net \<Rightarrow> net res" where
  "net_step from (Send payload ts) (a, b, sent) =
     bindE (rtp_session_tx a payload (of_nat (length payload)) ts [] 0) (\<lambda>(a', _).
     Inr (a', b, sent @ sent_since a a'))"
| "net_step from (Arrive k) (a, b, sent) =
     (if k < length sent
      then bindE (rtp_session_rx_rtp b (sent ! k) (of_nat (length (sent ! k))) from) (\<lambda>b'. Inr (a, b', sent))
      else Inr (a, b, sent))"

fun net_run :: "sockaddr_in \<Rightarrow> net_act list \<Rightarrow> net \<Rightarrow> net res" where
  "net_run from [] s = Inr s"
| "net_run from (x # xs) s = bindE (net_step from x s) (net_run from xs)"

lemma net_run_append: "net_run from (xs @ ys) s = bindE (net_run from xs s) (net_run from ys)"
proof (induction xs arbitrary: s)
  case (Cons x xs)
  have "(\<lambda>s. net_run from (xs @ ys) s) = (\<lambda>s. bindE (net_run from xs s) (net_run from ys))"
    by (simp add: fun_eq_iff Cons.IH)
  then show ?case by (simp add: bindE_assoc)
qed simp

text \<open>What is sent in a run, what arrives of it when \<open>n\<close> packets were sent before, and that every packet fits
  the buffer of the sender.\<close>

fun sends :: "net_act list \<Rightarrow> (u8 list \<times> u32) list" where
  "sends [] = []"
| "sends (Send payload ts # xs) = (payload, ts) # sends xs"
| "sends (Arrive k # xs) = sends xs"

fun arrivals :: "nat \<Rightarrow> net_act list \<Rightarrow> nat list" where
  "arrivals n [] = []"
| "arrivals n (Send payload ts # xs) = arrivals (Suc n) xs"
| "arrivals n (Arrive k # xs) = (if k < n then k # arrivals n xs else arrivals n xs)"

fun fits :: "net_act list \<Rightarrow> bool" where
  "fits [] \<longleftrightarrow> True"
| "fits (Send payload ts # xs) \<longleftrightarrow> 12 + length payload \<le> RTP_CONFIG_AVERAGE_RTCP_SIZE \<and> fits xs"
| "fits (Arrive k # xs) \<longleftrightarrow> fits xs"

text \<open>
  The specification of the receiver: the reception state of one source alone takes the packets in the order of
  their arrival; the result is its last state and the packets that it has accepted.
\<close>

fun source_run ::
  "(nat \<Rightarrow> u32) \<Rightarrow> nat \<Rightarrow> u16 \<Rightarrow> (u8 list \<times> u32) list \<Rightarrow> nat list \<Rightarrow> rtp_source \<Rightarrow> (rtp_source \<times> nat list) res"
  where
  "source_run clock i seq0 ps [] src = Inr (src, [])"
| "source_run clock i seq0 ps (k # ks) src =
     (let (src, ok) = rtp_update_seq src (seq0 + of_nat k) in
      if \<not> ok then source_run clock (Suc i) seq0 ps ks src
      else bindE (rtcp_compute_jitter src (snd (ps ! k)) (clock i)) (\<lambda>src.
           bindE (source_run clock (Suc i) seq0 ps ks src) (\<lambda>(src, acc). Inr (src, k # acc))))"

text \<open>The network when the packets \<open>ps\<close> have been sent, the first with the number \<open>seq0\<close>.\<close>

definition sender_ok ::
  "nat \<Rightarrow> u32 \<Rightarrow> u16 \<Rightarrow> (u8 list \<times> u32) list \<Rightarrow> u8 \<Rightarrow> rtp_session \<Rightarrow> u8 list list \<Rightarrow> bool" where
  "sender_ok me ssrc seq0 ps pt a sent \<longleftrightarrow> sess_inv a \<and> self a = Some me \<and> m_ssrc (mem a me) = ssrc \<and>
     sess_seq a = seq0 + of_nat (length ps) \<and> pt = take_bit 7 (c_pt (config a)) \<and> length sent = length ps \<and>
     (\<forall>k < length ps. carries (sent ! k) pt (seq0 + of_nat k) (snd (ps ! k)) ssrc (fst (ps ! k)))"

definition net_ok ::
  "nat \<Rightarrow> nat \<Rightarrow> u32 \<Rightarrow> u16 \<Rightarrow> (u8 list \<times> u32) list \<Rightarrow> sockaddr_in \<Rightarrow> net \<Rightarrow> bool" where
  "net_ok me m ssrc seq0 ps from = (\<lambda>(a, b, sent).
     sender_ok me ssrc seq0 ps (c_pt (config b)) a sent \<and> hears b m ssrc from)"

definition packet_report :: "u16 \<Rightarrow> (u8 list \<times> u32) list \<Rightarrow> nat \<Rightarrow> event" where
  "packet_report seq0 ps k = RxRtp (media_report (seq0 + of_nat k) (snd (ps ! k)) (fst (ps ! k)))"

lemma net_send:
  assumes "sender_ok me ssrc seq0 ps pt a sent" "12 + length payload \<le> RTP_CONFIG_AVERAGE_RTCP_SIZE"
  shows "\<exists>a' p. net_step from (Send payload ts) (a, b, sent) = Inr (a', b, sent @ [p]) \<and>
    sender_ok me ssrc seq0 (ps @ [(payload, ts)]) pt a' (sent @ [p])"
proof -
  note N = assms(1) [unfolded sender_ok_def]
  let ?p = "tx_packet a payload ts ssrc []"
  have u: "length payload = unat (of_nat (length payload) :: u32)"
    using assms(2) by (subst unat_of_nat_small) (simp_all add: config_defs)
  obtain a' where a': "rtp_tx a payload (of_nat (length payload)) ts [] 0 = Inr a'" "sess_inv a'"
    "trace (env a') = trace (env a) @ [TxRtp ?p]" "sess_seq a' = sess_seq a + 1"
    "config a' = config a" "self a' = self a" "m_ssrc (mem a' me) = m_ssrc (mem a me)"
    using tx_sends_packet [of a me "[]" 0 payload "of_nat (length payload)" ts] N u assms(2)
    by (auto simp: config_defs)
  have "net_step from (Send payload ts) (a, b, sent) = Inr (a', b, sent @ [?p])"
    using a' by (simp add: rtp_session_tx_def sent_since_def)
  moreover have "sender_ok me ssrc seq0 (ps @ [(payload, ts)]) pt a' (sent @ [?p])"
    using N a' tx_carries [OF assms(2), of a ts ssrc]
    by (auto simp: sender_ok_def nth_append less_Suc_eq)
  ultimately show ?thesis by blast
qed

text \<open>As long as nothing arrives the receiver is not touched.\<close>

lemma net_sends:
  assumes "sender_ok me ssrc seq0 ps pt a sent" "arrivals (length ps) xs = []"
    and "fits xs"
  shows "\<exists>a' sent'. net_run from xs (a, b, sent) = Inr (a', b, sent') \<and>
    sender_ok me ssrc seq0 (ps @ sends xs) pt a' sent'"
  using assms
proof (induction xs arbitrary: a sent ps)
  case (Cons x xs)
  show ?case
  proof (cases x)
    case (Send payload ts)
    obtain a' p where a': "net_step from (Send payload ts) (a, b, sent) = Inr (a', b, sent @ [p])"
      "sender_ok me ssrc seq0 (ps @ [(payload, ts)]) pt a' (sent @ [p])"
      using net_send [OF Cons.prems(1), of payload "from" ts b] Cons.prems(3) by (auto simp: Send)
    from Cons.IH [OF a'(2)] Cons.prems(2,3) a'(1) show ?thesis
      by (simp add: Send del: net_step.simps)
  next
    case (Arrive k)
    then show ?thesis
      using Cons.IH [OF Cons.prems(1)] Cons.prems by (simp add: sender_ok_def split: if_splits)
  qed
qed simp

lemma net_arrive:
  assumes "net_ok me m ssrc seq0 ps from (a, b, sent)" "k < length ps"
    and "rtp_update_seq (rtp_src (mem b m)) (seq0 + of_nat k) = (src, ok)"
    and "r = rtcp_compute_jitter src (snd (ps ! k)) (w_rtp_timestamp (env b) (n_rtp_timestamp (env b)))"
  shows "ok \<Longrightarrow> r = Inl f \<Longrightarrow> net_step from (Arrive k) (a, b, sent) = Inl f"
    "\<not> ok \<or> r = Inr src' \<Longrightarrow> \<exists>b'. net_step from (Arrive k) (a, b, sent) = Inr (a, b', sent) \<and>
      net_ok me m ssrc seq0 ps from (a, b', sent) \<and>
      received_from b m (if ok then src' else src) (if ok then [packet_report seq0 ps k] else []) b'"
proof -
  note N = assms(1) [unfolded net_ok_def sender_ok_def prod.case]
  have h: "hears b m ssrc from" and k: "k < length sent" using N assms(2) by simp_all
  have c: "carries (sent ! k) (c_pt (config b)) (seq0 + of_nat k) (snd (ps ! k)) ssrc (fst (ps ! k))"
    using N assms(2) by blast
  note rx = rx_heard [OF h c assms(3) refl, folded assms(4)]
  show "net_step from (Arrive k) (a, b, sent) = Inl f" if "ok" "r = Inl f"
    using rx(2) [OF that] k by (simp add: rtp_session_rx_rtp_def)
  assume "\<not> ok \<or> r = Inr src'"
  then obtain b' where b': "rtp_rx b (sent ! k) (of_nat (length (sent ! k))) from = Inr b'"
    "received_from b m (if ok then src' else src) (if ok then [packet_report seq0 ps k] else []) b'"
    using rx(1) rx(3) [of src'] by (cases ok) (auto simp: packet_report_def)
  have "unat (of_nat (length (sent ! k)) :: u32) = length (sent ! k)"
    using c by (intro unat_of_nat_small) (simp add: carries_def)
  from rtp_rx_keeps [OF _ this, of b "from"] have "sess_inv b'"
    using h b'(1) by (simp add: hears_def keeps_def)
  from received_hears [OF h b'(2) this] have h': "hears b' m ssrc from" .
  have e: "config b' = config b" using b'(2) by (simp add: received_from_def same_session_def)
  have "net_ok me m ssrc seq0 ps from (a, b', sent)"
    unfolding net_ok_def sender_ok_def prod.case e using N h' by blast
  with b' k show "\<exists>b'. net_step from (Arrive k) (a, b, sent) = Inr (a, b', sent) \<and>
      net_ok me m ssrc seq0 ps from (a, b', sent) \<and>
      received_from b m (if ok then src' else src) (if ok then [packet_report seq0 ps k] else []) b'"
    by (auto simp: rtp_session_rx_rtp_def)
qed

text \<open>The network does what the reception state of the source does alone.\<close>

lemma net_refines:
  assumes "net_ok me m ssrc seq0 ps from (a, b, sent)"
    and "fits xs"
  shows "case source_run (w_rtp_timestamp (env b)) (n_rtp_timestamp (env b)) seq0 (ps @ sends xs)
        (arrivals (length ps) xs) (rtp_src (mem b m)) of
      Inl f \<Rightarrow> net_run from xs (a, b, sent) = Inl f
    | Inr (src, acc) \<Rightarrow> (\<exists>a' b' sent'. net_run from xs (a, b, sent) = Inr (a', b', sent') \<and>
        net_ok me m ssrc seq0 (ps @ sends xs) from (a', b', sent') \<and> rtp_src (mem b' m) = src \<and>
        trace (env b') = trace (env b) @ map (packet_report seq0 (ps @ sends xs)) acc \<and>
        w_rtp_timestamp (env b') = w_rtp_timestamp (env b) \<and>
        n_rtp_timestamp (env b') = n_rtp_timestamp (env b) + length (arrivals (length ps) xs))"
  using assms
proof (induction xs arbitrary: a b sent ps)
  case (Cons x xs)
  show ?case
  proof (cases x)
    case (Send payload ts)
    obtain a' p where a': "net_step from (Send payload ts) (a, b, sent) = Inr (a', b, sent @ [p])"
      "net_ok me m ssrc seq0 (ps @ [(payload, ts)]) from (a', b, sent @ [p])"
      using net_send [of me ssrc seq0 ps "c_pt (config b)" a sent payload "from" ts b] Cons.prems
      by (auto simp: Send net_ok_def simp del: net_step.simps)
    have e: "net_run from (x # xs) (a, b, sent) = net_run from xs (a', b, sent @ [p])"
      "sends (x # xs) = (payload, ts) # sends xs"
      "arrivals (length ps) (x # xs) = arrivals (length (ps @ [(payload, ts)])) xs"
      using a'(1) by (simp_all add: Send del: net_step.simps)
    have "fits xs" using Cons.prems(2) by (simp add: Send)
    from Cons.IH [OF a'(2) this] show ?thesis
      by (simp only: e append.assoc append.simps)
  next
    case (Arrive k)
    have len: "length sent = length ps" using Cons.prems(1) by (simp add: net_ok_def sender_ok_def)
    show ?thesis
    proof (cases "k < length ps")
      case False
      with Arrive len have e: "net_run from (x # xs) (a, b, sent) = net_run from xs (a, b, sent)"
        "sends (x # xs) = sends xs" "arrivals (length ps) (x # xs) = arrivals (length ps) xs" by simp_all
      from Cons.IH [OF Cons.prems(1)] Cons.prems(2) show ?thesis unfolding e by (simp add: Arrive)
    next
      case True
      obtain src ok where u: "rtp_update_seq (rtp_src (mem b m)) (seq0 + of_nat k) = (src, ok)" by fastforce
      let ?r = "rtcp_compute_jitter src (snd (ps ! k)) (w_rtp_timestamp (env b) (n_rtp_timestamp (env b)))"
      note step = net_arrive [OF Cons.prems(1) True u refl]
      have nth: "(ps @ ys) ! k = ps ! k" for ys using True by (simp add: nth_append)
      show ?thesis
      proof (cases "ok \<and> (\<exists>f. ?r = Inl f)")
        case bad: True
        then obtain f where "?r = Inl f" by blast
        with bad step(1) Arrive True u show ?thesis by (simp add: nth)
      next
        case False
        then obtain src' where src': "\<not> ok \<or> ?r = Inr src'" by (cases ?r) auto
        obtain b' where b': "net_step from (Arrive k) (a, b, sent) = Inr (a, b', sent)"
          "net_ok me m ssrc seq0 ps from (a, b', sent)"
          "received_from b m (if ok then src' else src) (if ok then [packet_report seq0 ps k] else []) b'"
          using step(2) [OF src'] by blast
        have r: "packet_report seq0 (ps @ ys) k = packet_report seq0 ps k" for ys
          by (simp add: packet_report_def nth)
        note ih = Cons.IH [OF b'(2)]
        show ?thesis
          using ih Cons.prems(2) b'(1,3) src' Arrive True u
          by (cases ok) (auto simp: received_from_def nth r split: sum.splits)
      qed
    qed
  qed
qed simp

section \<open>What a source accepts\<close>

text \<open>
  The packet that arrives is fewer than 3000 ahead of the highest one that has arrived before, or at most 99 behind
  it; \<open>hi\<close> is the position of the latter, which may lie before the first of the run.
\<close>

fun in_window :: "int \<Rightarrow> nat list \<Rightarrow> bool" where
  "in_window hi [] \<longleftrightarrow> True"
| "in_window hi (k # ks) \<longleftrightarrow> - 100 < int k - hi \<and> int k - hi < 3000 \<and> in_window (max hi (int k)) ks"

fun highest :: "int \<Rightarrow> nat list \<Rightarrow> int" where
  "highest hi [] = hi"
| "highest hi (k # ks) = highest (max hi (int k)) ks"

text \<open>No transit time differs from the one before by exactly half the range of the clock.\<close>

fun in_time :: "(nat \<Rightarrow> u32) \<Rightarrow> nat \<Rightarrow> u32 \<Rightarrow> (u8 list \<times> u32) list \<Rightarrow> nat list \<Rightarrow> bool" where
  "in_time clock i tr ps [] \<longleftrightarrow> True"
| "in_time clock i tr ps (k # ks) \<longleftrightarrow> sint (clock i - snd (ps ! k) - tr) \<noteq> - (2 ^ 31) \<and>
     in_time clock (Suc i) (clock i - snd (ps ! k)) ps ks"

text \<open>The transit time of the last packet.\<close>

fun last_transit :: "(nat \<Rightarrow> u32) \<Rightarrow> nat \<Rightarrow> u32 \<Rightarrow> (u8 list \<times> u32) list \<Rightarrow> nat list \<Rightarrow> u32" where
  "last_transit clock i tr ps [] = tr"
| "last_transit clock i tr ps (k # ks) = last_transit clock (Suc i) (clock i - snd (ps ! k)) ps ks"

lemma unat_word_of_int: "unat (word_of_int d :: u16) = nat (d mod 65536)"
  by (simp add: unat_eq_nat_uint uint_word_of_int)

text \<open>One packet in the window.\<close>

lemma update_seq_window:
  assumes "probation src = 0" "max_seq src = seq0 + word_of_int hi"
    and "- 100 < int k - hi" "int k - hi < 3000" "rtp_update_seq src (seq0 + of_nat k) = (src', ok)"
  shows "ok" "probation src' = 0" "max_seq src' = seq0 + word_of_int (max hi (int k))"
    "received src' = received src + 1" "base_seq src' = base_seq src" "transit src' = transit src"
    "jitter src' = jitter src" "extended_max src' = extended_max src + word_of_int (max hi (int k) - hi)"
proof -
  let ?seq = "seq0 + of_nat k"
  have d: "?seq - max_seq src = word_of_int (int k - hi)"
    using assms(2) by (simp add: of_int_diff)
  consider "hi \<le> int k" | "int k < hi" by linarith
  then have "ok \<and> probation src' = 0 \<and> max_seq src' = seq0 + word_of_int (max hi (int k)) \<and>
      received src' = received src + 1 \<and> base_seq src' = base_seq src \<and> transit src' = transit src \<and>
      jitter src' = jitter src \<and> extended_max src' = extended_max src + word_of_int (max hi (int k) - hi)"
  proof cases
    case 1
    have n: "unat (?seq - max_seq src) = nat (int k - hi)"
      using 1 assms(4) unfolding d unat_word_of_int by simp
    then have "unat (?seq - max_seq src) < 3000" using assms(4) by simp
    from update_seq_near [OF assms(1) this] assms(5)
    have s': "ok" "src' = src\<lparr>cycles := (if ?seq < max_seq src then cycles src + 65536 else cycles src),
        max_seq := ?seq, received := received src + 1\<rparr>" by simp_all
    have "extended_max src' = extended_max src + ucast (?seq - max_seq src)"
      using extended_max_accept [of ?seq src "cycles src'"] s' by (simp add: extended_max_def)
    moreover have "(ucast (?seq - max_seq src) :: u32) = word_of_int (int k - hi)"
    proof -
      have "(of_nat (nat (int k - hi)) :: u32) = of_int (int k - hi)" using 1 by (simp only: of_nat_nat)
      then show ?thesis by (simp add: ucast_u16_eq n)
    qed
    ultimately show ?thesis using s' assms(1) 1 by (simp add: max_def)
  next
    case 2
    have "unat (?seq - max_seq src) = nat (65536 + (int k - hi))"
    proof -
      have "(int k - hi) mod 65536 = 65536 + (int k - hi)"
        using mod_pos_pos_trivial [of "65536 + (int k - hi)" 65536] 2 assms(3) by simp
      then show ?thesis unfolding d unat_word_of_int by simp
    qed
    then have "65436 < unat (?seq - max_seq src)" using assms(3) by simp
    from update_seq_behind [OF assms(1) this] assms(1,2,5) 2
    show ?thesis by (auto simp: max_def extended_max_def)
  qed
  then show "ok" "probation src' = 0" "max_seq src' = seq0 + word_of_int (max hi (int k))"
    "received src' = received src + 1" "base_seq src' = base_seq src" "transit src' = transit src"
    "jitter src' = jitter src" "extended_max src' = extended_max src + word_of_int (max hi (int k) - hi)"
    by blast+
qed

lemma compute_jitter_cases:
  "rtcp_compute_jitter src ts arrival =
     (if sint (arrival - ts - transit src) = - (2 ^ 31) then Inl IntOverflow
      else Inr (src\<lparr>transit := arrival - ts,
        jitter := word_of_int ((15 * uint (jitter src) + \<bar>sint (arrival - ts - transit src)\<bar>) div 16)\<rparr>))"
  by (simp add: rtcp_compute_jitter_def Let_def)

lemma source_run_window:
  assumes "probation src = 0" "max_seq src = seq0 + word_of_int hi" "in_window hi ks"
  shows "if in_time clock i (transit src) ps ks
    then \<exists>src'. source_run clock i seq0 ps ks src = Inr (src', ks) \<and> probation src' = 0 \<and>
      max_seq src' = seq0 + word_of_int (highest hi ks) \<and> transit src' = last_transit clock i (transit src) ps ks \<and>
      received src' = received src + of_nat (length ks) \<and> base_seq src' = base_seq src \<and>
      extended_max src' = extended_max src + word_of_int (highest hi ks - hi)
    else source_run clock i seq0 ps ks src = Inl IntOverflow"
  using assms
proof (induction ks arbitrary: i hi src)
  case (Cons k ks)
  obtain src1 ok where u: "rtp_update_seq src (seq0 + of_nat k) = (src1, ok)" by fastforce
  have w: "- 100 < int k - hi" "int k - hi < 3000" "in_window (max hi (int k)) ks"
    using Cons.prems(3) by simp_all
  note s = update_seq_window [OF Cons.prems(1,2) w(1,2) u]
  show ?case
  proof (cases "sint (clock i - snd (ps ! k) - transit src) = - (2 ^ 31)")
    case True
    then show ?thesis using u s by (simp add: compute_jitter_cases)
  next
    case False
    then obtain src2 where j: "rtcp_compute_jitter src1 (snd (ps ! k)) (clock i) = Inr src2"
      and t: "transit src2 = clock i - snd (ps ! k)" "probation src2 = 0"
        "max_seq src2 = seq0 + word_of_int (max hi (int k))" "received src2 = received src + 1"
        "base_seq src2 = base_seq src" "extended_max src2 = extended_max src + word_of_int (max hi (int k) - hi)"
      using s by (auto simp: compute_jitter_cases extended_max_def)
    have e: "in_time clock i (transit src) ps (k # ks) = in_time clock (Suc i) (transit src2) ps ks"
      "source_run clock i seq0 ps (k # ks) src =
        bindE (source_run clock (Suc i) seq0 ps ks src2) (\<lambda>(src, acc). Inr (src, k # acc))"
      using False u s(1) j t(1) by simp_all
    have h: "word_of_int (max hi (int k) - hi) + word_of_int (highest (max hi (int k)) ks - max hi (int k)) =
        (word_of_int (highest hi (k # ks) - hi) :: u32)"
      by (simp flip: of_int_add)
    show ?thesis
      using Cons.IH [OF t(2,3) w(3), of "Suc i"] t(4-6) h
      unfolding e by (auto simp: add.assoc t(1) split: if_splits)
  qed
qed (simp add: extended_max_def)

section \<open>Delivery\<close>

lemma delivery:
  assumes "net_ok me m ssrc seq0 ps from (a, b, sent)" "fits xs"
    and "probation (rtp_src (mem b m)) = 0" "max_seq (rtp_src (mem b m)) = seq0 + word_of_int hi"
    and "ks = arrivals (length ps) xs" "in_window hi ks" "qs = ps @ sends xs"
  shows "if in_time (w_rtp_timestamp (env b)) (n_rtp_timestamp (env b)) (transit (rtp_src (mem b m))) qs ks
    then \<exists>a' b' sent'. net_run from xs (a, b, sent) = Inr (a', b', sent') \<and> sess_inv a' \<and> sess_inv b' \<and>
      trace (env b') = trace (env b) @ map (packet_report seq0 qs) ks \<and>
      received (rtp_src (mem b' m)) = received (rtp_src (mem b m)) + of_nat (length ks) \<and>
      extended_max (rtp_src (mem b' m)) =
        extended_max (rtp_src (mem b m)) + word_of_int (highest hi ks - hi)
    else net_run from xs (a, b, sent) = Inl IntOverflow"
  using net_refines [OF assms(1,2)] source_run_window [OF assms(3,4,6), of "w_rtp_timestamp (env b)"
      "n_rtp_timestamp (env b)" qs]
  by (auto simp: assms(5,7) net_ok_def sender_ok_def hears_def split: if_splits)

text \<open>
  C4: what the user of one session sends, the user of another one is given, whatever the network does: it may lose,
  repeat and reorder the packets in any way that leaves each arrival fewer than 3000 packets ahead of the highest
  one before it and at most 99 behind. Exactly the packets that arrive are reported, in the order of their arrival,
  each with its own payload, timestamp and sequence number (wrap-around included); the receiver counts them and its
  extended highest sequence number follows the highest packet. The only way to fail is a transit time that
  differs from the one before by exactly half the range of the clock.
\<close>

theorem media_delivered:
  assumes "sess_inv a" "self a = Some me" "hears b m (m_ssrc (mem a me)) from"
    and "c_pt (config b) = take_bit 7 (c_pt (config a))"
    and "probation (rtp_src (mem b m)) = 0" "max_seq (rtp_src (mem b m)) = sess_seq a + word_of_int hi"
    and "fits xs" "ks = arrivals 0 xs" "in_window hi ks"
  shows "if in_time (w_rtp_timestamp (env b)) (n_rtp_timestamp (env b)) (transit (rtp_src (mem b m))) (sends xs) ks
    then \<exists>a' b' sent'. net_run from xs (a, b, []) = Inr (a', b', sent') \<and> sess_inv a' \<and> sess_inv b' \<and>
      trace (env b') = trace (env b) @ map (packet_report (sess_seq a) (sends xs)) ks \<and>
      received (rtp_src (mem b' m)) = received (rtp_src (mem b m)) + of_nat (length ks) \<and>
      extended_max (rtp_src (mem b' m)) =
        extended_max (rtp_src (mem b m)) + word_of_int (highest hi ks - hi)
    else net_run from xs (a, b, []) = Inl IntOverflow"
proof -
  have "net_ok me m (m_ssrc (mem a me)) (sess_seq a) [] from (a, b, [])"
    using assms(1-4) by (simp add: net_ok_def sender_ok_def)
  from delivery [OF this assms(7,5,6) _ assms(9)] assms(8) show ?thesis by simp
qed

section \<open>The first packets of a source\<close>

lemma start_member_frame: "rtp_timers_member_start s m = Inr s' \<Longrightarrow> \<exists>t. s' = s\<lparr>sess_tmr := t\<rparr>"
  by (auto simp: rtp_timers_member_start_def start_te_def res_iff)

lemma start_sender_frame: "rtp_timers_sender_start s m = Inr s' \<Longrightarrow> \<exists>t. s' = s\<lparr>sess_tmr := t\<rparr>"
  by (auto simp: rtp_timers_sender_start_def start_te_def res_iff)

text \<open>The slot that the next new member gets, with its timers at rest.\<close>

definition free_slot :: "rtp_session \<Rightarrow> nat \<Rightarrow> bool" where
  "free_slot b m \<longleftrightarrow> (\<exists>ms. free_list (member_table b) = m # ms) \<and>
     \<not> te_running b (MemberTe m) \<and> \<not> te_running b (SenderTe m) \<and> \<not> te_running b (LeaveTe m)"

text \<open>The member is set up, the packet is not passed on.\<close>

lemma handle_first:
  assumes "sess_inv b" "rtp_session_lookup_member b ssrc = None" "free_slot b m"
  shows "\<exists>b'. rtp_handle_ssrc b ssrc seq from False = Inr (b', None) \<and> hears b' m ssrc from \<and>
    rtp_src (mem b' m) = rtp_init_seq (rtp_src (mem b m)) seq True \<and> env b' = env b \<and> config b' = config b"
proof -
  have inv: "sess_inv_at 0 {} b" using assms(1) by (simp add: sess_inv_def)
  note D = sess_inv_atD [OF inv]
  obtain mt where mt: "rtp_member_table_alloc_member (member_table b) ssrc = Some (mt, m)"
    using assms(3) by (auto simp: free_slot_def rtp_member_table_alloc_member_def)
  let ?b1 = "b\<lparr>member_table := mt\<rparr>"
  have a: "rtp_session_alloc_member b ssrc = Inr (?b1, Some m)"
    using assms(3) mt
    by (simp add: rtp_session_alloc_member_def rtp_timers_init_member_def soft_timer_init_elem_def free_slot_def)
  have slot: "m < length (member_array mt)"
    using alloc_inv(1,2) [OF inv assms(2) a] sess_inv_atD(7) [of _ _ ?b1 m] by (auto simp: active_def)
  have m1: "mem ?b1 m = rtp_member_init (mem b m) ssrc"
    using slot alloc_member_Some(4) [OF mt] by (simp add: mem_def)
  let ?b2 = "first_heard ?b1 m seq from True"
  have m2: "mem ?b2 m = rtp_member_set_rtp_heard ((rtp_member_init (mem b m) ssrc)
      \<lparr>rtp_src := rtp_init_seq (rtp_src (mem b m)) seq True, m_rtp_addr := from\<rparr>)"
    and f2: "used ?b2 = used_list mt" "env ?b2 = env b" "config ?b2 = config b"
  proof -
    have e: "mem (rtcp_interval_handle_rtp_event c True True) = mem c"
      "used (rtcp_interval_handle_rtp_event c True True) = used c"
      "env (rtcp_interval_handle_rtp_event c True True) = env c"
      "config (rtcp_interval_handle_rtp_event c True True) = config c" for c
      by (simp_all add: rtcp_interval_handle_rtp_event_def Let_def mem_def fun_eq_iff)
    show "mem ?b2 m = rtp_member_set_rtp_heard ((rtp_member_init (mem b m) ssrc)
        \<lparr>rtp_src := rtp_init_seq (rtp_src (mem b m)) seq True, m_rtp_addr := from\<rparr>)"
      using slot by (simp add: first_heard_def e mem_upd_mem m1 rtp_member_init_def)
    show "used ?b2 = used_list mt" "env ?b2 = env b" "config ?b2 = config b"
      by (simp_all add: first_heard_def e)
  qed
  have wf: "timer_wf (sess_tmr ?b2)" using D(1) by simp
  obtain b3 where b3: "rtp_timers_sender_start ?b2 m = Inr b3"
    using timer_steps_total(1) [OF wf, of m] by (cases "rtp_timers_sender_start ?b2 m") auto
  obtain b4 where b4: "rtp_timers_member_start b3 m = Inr b4"
    using timer_steps_total(3) [OF calm_wf [OF calm_start_sender [OF wf b3]], of m]
    by (cases "rtp_timers_member_start b3 m") auto
  obtain t u where "b3 = ?b2\<lparr>sess_tmr := t\<rparr>" "b4 = b3\<lparr>sess_tmr := u\<rparr>"
    using start_sender_frame [OF b3] start_member_frame [OF b4] by blast
  then have e4: "b4 = ?b2\<lparr>sess_tmr := u\<rparr>" by simp
  let ?b5 = "b4\<lparr>last_rtp_error := rtp_rx_error_member_first_heard\<rparr>"
  have h: "rtp_handle_ssrc b ssrc seq from False = Inr (?b5, None)"
    using assms(2) a b3 b4 by (simp add: rtp_handle_ssrc_def Let_def first_heard_def)
  note inv5 = keeps_inv [OF rtp_handle_ssrc_inv(1) [OF assms(1) h]]
  have wf5: "mt_wf (member_table ?b5)" using inv5 by (simp add: sess_inv_def sess_inv_at_def)
  have m5: "mem ?b5 m = mem ?b2 m" by (simp add: e4 mem_def)
  have "m \<in> set (used ?b5)" using alloc_member_Some(2) [OF mt] f2(1) by (simp add: e4)
  moreover have "m_ssrc (mem ?b5 m) = ssrc"
    unfolding m5 m2 by (simp add: flag_simps rtp_member_init_def)
  ultimately have "rtp_session_lookup_member ?b5 ssrc = Some m"
    using lookup_iff [OF wf5, of ssrc m] by (simp add: rtp_session_lookup_member_def mem_def)
  then have "hears ?b5 m ssrc from"
    using inv5 unfolding hears_def m5 m2 by (simp add: flag_simps; simp add: has_flag_def rtp_member_init_def)
  moreover have "rtp_src (mem ?b5 m) = rtp_init_seq (rtp_src (mem b m)) seq True"
    unfolding m5 m2 by (simp add: flag_simps)
  ultimately show ?thesis using h f2 by (intro exI [of _ ?b5]) (simp add: e4)
qed

lemma rx_first:
  assumes "sess_inv b" "rtp_session_lookup_member b ssrc = None" "free_slot b m"
    and "carries msg (c_pt (config b)) seq ts ssrc payload"
  shows "\<exists>b'. rtp_rx b msg (of_nat (length msg)) from = Inr b' \<and> hears b' m ssrc from \<and>
    rtp_src (mem b' m) = rtp_init_seq (rtp_src (mem b m)) seq True \<and> config b' = config b \<and>
    env b' = (env b)\<lparr>n_rtp_timestamp := Suc (n_rtp_timestamp (env b))\<rparr>"
proof -
  obtain b0 arrival where ts: "rtp_session_timestamp b = (b0, arrival)" by fastforce
  then have b0: "b0 = b\<lparr>env := (env b)\<lparr>n_rtp_timestamp := Suc (n_rtp_timestamp (env b))\<rparr>\<rparr>"
    by (simp add: rtp_session_timestamp_def)
  have "sess_inv b0"
    using keeps_inv [OF calm_keeps [OF assms(1) calm_var(8) [OF sess_inv_wf [OF assms(1)]]]] ts by simp
  moreover have "rtp_session_lookup_member b0 ssrc = None" "free_slot b0 m" "mem b0 = mem b"
    using assms(2,3) by (simp_all add: b0 rtp_session_lookup_member_def free_slot_def mem_def fun_eq_iff)
  ultimately obtain b' where b': "rtp_handle_ssrc b0 ssrc seq from False = Inr (b', None)" "hears b' m ssrc from"
    "rtp_src (mem b' m) = rtp_init_seq (rtp_src (mem b m)) seq True" "env b' = env b0" "config b' = config b0"
    using handle_first [of b0 ssrc m seq "from"] by auto
  have "rtp_rx b msg (of_nat (length msg)) from = Inr b'"
    using assms(4) b'(1) ts by (auto simp: rtp_rx_def carries_def b0)
  with b' show ?thesis by (auto simp: b0)
qed

lemma arrivals_append: "arrivals n (xs @ ys) = arrivals n xs @ arrivals (n + length (sends xs)) ys"
  by (induction n xs rule: arrivals.induct) simp_all

lemma fits_append [simp]: "fits (xs @ ys) \<longleftrightarrow> fits xs \<and> fits ys"
  by (induction xs rule: fits.induct) auto

lemma sends_append [simp]: "sends (xs @ ys) = sends xs @ sends ys"
  by (induction xs rule: sends.induct) auto

text \<open>The second and the third packet of a source that was heard for the first time with the packet \<open>k\<close>.\<close>

lemma source_run_first:
  fixes seq0 :: u16
  assumes "seq0 + of_nat (Suc k) \<noteq> - 1"
  shows "\<exists>src'. probation src' = 0 \<and> max_seq src' = seq0 + of_nat (Suc (Suc k)) \<and> transit src' = transit x \<and>
    source_run clock i seq0 ps (Suc k # Suc (Suc k) # ks) (rtp_init_seq x (seq0 + of_nat k) True) =
      (bindE (rtcp_compute_jitter src' (snd (ps ! Suc (Suc k))) (clock (Suc i))) (\<lambda>src.
       bindE (source_run clock (Suc (Suc i)) seq0 ps ks src) (\<lambda>(src, acc). Inr (src, Suc (Suc k) # acc))))"
proof -
  let ?s = "rtp_init_seq x (seq0 + of_nat k) True" and ?q = "seq0 + of_nat (Suc k)"
  have q: "seq0 + of_nat (Suc (Suc k)) = ?q + 1" by simp
  have n: "unat (?q + 1) = unat ?q + 1"
    using assms unatSuc [of ?q] by (simp add: eq_neg_iff_add_eq_0 add.commute)
  have "unat ?q \<noteq> unat (seq0 + of_nat k - 1) + 1"
  proof
    assume "unat ?q = unat (seq0 + of_nat k - 1) + 1"
    then have "(of_nat (unat ?q) :: u16) = of_nat (unat (seq0 + of_nat k - 1) + 1)" by (rule arg_cong)
    then show False by simp
  qed
  then have 1: "rtp_update_seq ?s ?q = (?s\<lparr>probation := 1, max_seq := ?q\<rparr>, False)" (is "_ = (?s1, _)")
    by (simp add: rtp_update_seq_def rtp_init_seq_def Let_def config_defs)
  obtain s2 where 2: "rtp_update_seq ?s1 (?q + 1) = (s2, True)" "probation s2 = 0" "max_seq s2 = ?q + 1"
    "transit s2 = transit x"
    using n by (simp add: rtp_update_seq_def rtp_init_seq_def Let_def config_defs)
  show ?thesis
    using 1 2 unfolding source_run.simps q by (intro exI [of _ s2]) simp
qed

lemma source_run_new:
  fixes seq0 :: u16
  assumes "seq0 + of_nat (Suc k) \<noteq> - 1" "in_window (int (Suc (Suc k))) ks"
  shows "if in_time clock (Suc i) (transit x) ps (Suc (Suc k) # ks)
    then \<exists>src'. source_run clock i seq0 ps (Suc k # Suc (Suc k) # ks) (rtp_init_seq x (seq0 + of_nat k) True) =
      Inr (src', Suc (Suc k) # ks) \<and> probation src' = 0 \<and>
      max_seq src' = seq0 + word_of_int (highest (int (Suc (Suc k))) ks) \<and>
      transit src' = last_transit clock (Suc i) (transit x) ps (Suc (Suc k) # ks)
    else source_run clock i seq0 ps (Suc k # Suc (Suc k) # ks) (rtp_init_seq x (seq0 + of_nat k) True) =
      Inl IntOverflow"
proof -
  let ?k = "Suc (Suc k)"
  obtain s1 where s1: "probation s1 = 0" "max_seq s1 = seq0 + of_nat ?k" "transit s1 = transit x"
    "source_run clock i seq0 ps (Suc k # ?k # ks) (rtp_init_seq x (seq0 + of_nat k) True) =
      (bindE (rtcp_compute_jitter s1 (snd (ps ! ?k)) (clock (Suc i))) (\<lambda>src.
       bindE (source_run clock (Suc (Suc i)) seq0 ps ks src) (\<lambda>(src, acc). Inr (src, ?k # acc))))"
    using source_run_first [OF assms(1), of x clock i ps ks] by blast
  show ?thesis
  proof (cases "sint (clock (Suc i) - snd (ps ! ?k) - transit x) = - (2 ^ 31)")
    case True
    then show ?thesis unfolding s1(4) by (simp add: compute_jitter_cases s1(3))
  next
    case False
    then obtain s2 where s2: "rtcp_compute_jitter s1 (snd (ps ! ?k)) (clock (Suc i)) = Inr s2"
      "transit s2 = clock (Suc i) - snd (ps ! ?k)" "probation s2 = 0" "max_seq s2 = seq0 + word_of_int (int ?k)"
      using s1(1-3) by (simp add: compute_jitter_cases)
    have "in_time clock (Suc i) (transit x) ps (?k # ks) = in_time clock (Suc (Suc i)) (transit s2) ps ks"
      using False s2(2) by simp
    with source_run_window [OF s2(3,4) assms(2), of clock "Suc (Suc i)" ps] show ?thesis
      unfolding s1(4) by (auto simp: s2(1,2))
  qed
qed

lemma new_source:
  assumes "sess_inv a" "self a = Some me" "sess_inv b"
    and "rtp_session_lookup_member b (m_ssrc (mem a me)) = None" "free_slot b m"
    and "c_pt (config b) = take_bit 7 (c_pt (config a))" "fits (xs @ Arrive k # ys)"
    and "arrivals 0 xs = []" "k < length (sends xs)"
    and "arrivals (length (sends xs)) ys = Suc k # Suc (Suc k) # ks"
    and "sess_seq a + of_nat (Suc k) \<noteq> - 1" "in_window (int (Suc (Suc k))) ks"
  shows "if in_time (w_rtp_timestamp (env b)) (Suc (Suc (n_rtp_timestamp (env b))))
      (transit (rtp_src (mem b m))) (sends xs @ sends ys) (Suc (Suc k) # ks)
    then \<exists>a' b' sent'. net_run from (xs @ Arrive k # ys) (a, b, []) = Inr (a', b', sent') \<and>
      net_ok me m (m_ssrc (mem a me)) (sess_seq a) (sends xs @ sends ys) from (a', b', sent') \<and>
      probation (rtp_src (mem b' m)) = 0 \<and>
      max_seq (rtp_src (mem b' m)) = sess_seq a + word_of_int (highest (int (Suc (Suc k))) ks) \<and>
      transit (rtp_src (mem b' m)) = last_transit (w_rtp_timestamp (env b)) (Suc (Suc (n_rtp_timestamp (env b))))
        (transit (rtp_src (mem b m))) (sends xs @ sends ys) (Suc (Suc k) # ks) \<and>
      w_rtp_timestamp (env b') = w_rtp_timestamp (env b) \<and>
      n_rtp_timestamp (env b') = n_rtp_timestamp (env b) + 3 + length ks \<and>
      trace (env b') = trace (env b) @ map (packet_report (sess_seq a) (sends xs @ sends ys)) (Suc (Suc k) # ks)
    else net_run from (xs @ Arrive k # ys) (a, b, []) = Inl IntOverflow"
proof -
  let ?ssrc = "m_ssrc (mem a me)" and ?seq0 = "sess_seq a"
  have f: "fits xs" "fits ys" using assms(7) by simp_all
  have "sender_ok me ?ssrc ?seq0 [] (c_pt (config b)) a []" using assms(1,2,6) by (simp add: sender_ok_def)
  from net_sends [OF this _ f(1), of "from" b] assms(8)
  obtain a1 sent1 where r1: "net_run from xs (a, b, []) = Inr (a1, b, sent1)"
    and s1: "sender_ok me ?ssrc ?seq0 (sends xs) (c_pt (config b)) a1 sent1" by auto
  have k: "k < length sent1"
    and c: "carries (sent1 ! k) (c_pt (config b)) (?seq0 + of_nat k) (snd (sends xs ! k)) ?ssrc (fst (sends xs ! k))"
    using s1 assms(9) unfolding sender_ok_def by auto
  obtain b1 where b1: "rtp_rx b (sent1 ! k) (of_nat (length (sent1 ! k))) from = Inr b1" "hears b1 m ?ssrc from"
    "rtp_src (mem b1 m) = rtp_init_seq (rtp_src (mem b m)) (?seq0 + of_nat k) True" "config b1 = config b"
    "env b1 = (env b)\<lparr>n_rtp_timestamp := Suc (n_rtp_timestamp (env b))\<rparr>"
    using rx_first [OF assms(3-5) c] by blast
  have run: "net_run from (xs @ Arrive k # ys) (a, b, []) = net_run from ys (a1, b1, sent1)"
    using r1 b1(1) k by (simp add: net_run_append rtp_session_rx_rtp_def)
  have n: "net_ok me m ?ssrc ?seq0 (sends xs) from (a1, b1, sent1)"
    using s1 b1(2,4) by (simp add: net_ok_def)
  have e: "w_rtp_timestamp (env b1) = w_rtp_timestamp (env b)" "trace (env b1) = trace (env b)"
    "n_rtp_timestamp (env b1) = Suc (n_rtp_timestamp (env b))" using b1(5) by simp_all
  show ?thesis
    unfolding run
    using net_refines [OF n f(2)] source_run_new [OF assms(11,12), of "w_rtp_timestamp (env b)"
        "Suc (n_rtp_timestamp (env b))" "rtp_src (mem b m)" "sends xs @ sends ys"]
    unfolding e b1(3) assms(10)
    by (auto simp del: source_run.simps in_time.simps last_transit.simps split: if_splits)
qed

text \<open>
  C11: a source that the receiver has never heard of: with its first packet it becomes a member; its second packet is
  counted towards its probation, and with the third one, when the three arrive in order, it is validated. Of what
  arrives everything from the third packet on is reported to the user, as before; the first two are lost. (The
  step from the sequence number 65535 to 0 would not count as one in order.)
\<close>

theorem new_source_delivered:
  assumes "sess_inv a" "self a = Some me" "sess_inv b"
    and "rtp_session_lookup_member b (m_ssrc (mem a me)) = None" "free_slot b m"
    and "c_pt (config b) = take_bit 7 (c_pt (config a))" "fits (xs @ Arrive k # ys)"
    and "arrivals 0 xs = []" "k < length (sends xs)"
    and "arrivals (length (sends xs)) ys = Suc k # Suc (Suc k) # ks"
    and "sess_seq a + of_nat (Suc k) \<noteq> - 1" "in_window (int (Suc (Suc k))) ks"
  shows "if in_time (w_rtp_timestamp (env b)) (Suc (Suc (n_rtp_timestamp (env b))))
      (transit (rtp_src (mem b m))) (sends xs @ sends ys) (Suc (Suc k) # ks)
    then \<exists>a' b' sent'. net_run from (xs @ Arrive k # ys) (a, b, []) = Inr (a', b', sent') \<and> sess_inv a' \<and>
      hears b' m (m_ssrc (mem a me)) from \<and> probation (rtp_src (mem b' m)) = 0 \<and>
      trace (env b') = trace (env b) @ map (packet_report (sess_seq a) (sends xs @ sends ys)) (Suc (Suc k) # ks)
    else net_run from (xs @ Arrive k # ys) (a, b, []) = Inl IntOverflow"
  using new_source [OF assms, of "from"]
  by (simp only: net_ok_def sender_ok_def prod.case split: if_splits) (blast, simp)

section \<open>Two sessions\<close>

text \<open>The sender is the session of before, the receiver one with other random numbers.\<close>

definition peer_raw :: rtp_session where
  "peer_raw = demo_raw\<lparr>env := demo_world\<lparr>w_random32 := (\<lambda>n. of_nat (n + 10))\<rparr>\<rparr>"

lemma peer_ok: "raw_ok peer_raw"
  using demo_ok(1) by (simp add: raw_ok_def peer_raw_def world_ok_def demo_raw_def)

lemma peer_session:
  obtains b where "rtp_session_init peer_raw demo_cfg = Inr b" "sess_inv b"
    "rtp_session_lookup_member b 1 = None" "free_slot b 1" "config b = demo_cfg"
    "w_rtp_timestamp (env b) = (\<lambda>n. of_nat (160 * n))" "n_rtp_timestamp (env b) = 0"
    "transit (rtp_src (mem b 1)) = 0" "trace (env b) = []" "w_gettimeofday (env b) = (\<lambda>_. \<lparr>tv_sec = 0, tv_usec = 0\<rparr>)"
proof -
  obtain n d t where i: "rtp_session_init peer_raw demo_cfg = Inr ((fresh_session peer_raw demo_cfg)
      \<lparr>env := (env (fresh_session peer_raw demo_cfg))\<lparr>n_drand48 := n\<rparr>,
       rtcp_var := (rtcp_var (fresh_session peer_raw demo_cfg))\<lparr>tn := d\<rparr>, sess_tmr := t\<rparr>)" (is "_ = Inr ?b")
    using session_init_value [OF peer_ok demo_ok(2)] by (auto simp: demo_cfg_def)
  note f = session_init_ok [OF peer_ok demo_ok(2) i]
  have l: "length (member_array (member_table peer_raw)) = 32"
    using peer_ok by (simp add: raw_ok_def config_defs)
  show thesis
  proof (rule that [OF i])
    show "sess_inv ?b" "config ?b = demo_cfg" by (rule f)+
    have "m_ssrc (mem ?b 0) = 11"
      unfolding f(7) using l
      by (simp add: mem_def fresh_session_members self_member_facts) (simp add: peer_raw_def demo_raw_def demo_world_def)
    then show "rtp_session_lookup_member ?b 1 = None"
      using f(3) by (simp add: rtp_session_lookup_member_def rtp_member_table_lookup_def mem_def)
    show "free_slot ?b 1"
      unfolding free_slot_def f(5)
      by (simp add: fresh_session_facts upt_conv_Cons config_defs)
    show "w_rtp_timestamp (env ?b) = (\<lambda>n. of_nat (160 * n))" "n_rtp_timestamp (env ?b) = 0" "trace (env ?b) = []"
      "w_gettimeofday (env ?b) = (\<lambda>_. \<lparr>tv_sec = 0, tv_usec = 0\<rparr>)"
      by (simp_all add: fresh_defs peer_raw_def demo_raw_def demo_world_def)
    show "transit (rtp_src (mem ?b 1)) = 0"
      using l by (simp add: mem_def fresh_session_members)
        (simp add: peer_raw_def demo_raw_def empty_table_def rtp_member_table_init_def zero_member_def zero_source_def)
  qed
qed

text \<open>Four packets are sent; the receiver hears of the sender with the first one.\<close>

definition first_run :: "net_act list" where
  "first_run = [Send [1] 0] @ Arrive 0 # [Send [2] 160, Arrive 1, Send [3] 320, Send [4] 480, Arrive 2, Arrive 3]"

definition first_packets :: "(u8 list \<times> u32) list" where
  "first_packets = [([1], 0), ([2], 160), ([3], 320), ([4], 480)]"

lemma first_run_facts:
  "fits first_run" "arrivals 0 [Send [1] 0] = []" "0 < length (sends [Send [1] 0])"
  "arrivals (length (sends [Send [1] 0])) [Send [2] 160, Arrive 1, Send [3] 320, Send [4] 480, Arrive 2, Arrive 3] =
    Suc 0 # Suc (Suc 0) # [3]"
  "in_window (int (Suc (Suc 0))) [3]"
  "sends [Send [1] 0] @ sends [Send [2] 160, Arrive 1, Send [3] 320, Send [4] 480, Arrive 2, Arrive 3] = first_packets"
  "in_time (\<lambda>n. of_nat (160 * n)) (Suc (Suc 0)) 0 first_packets (Suc (Suc 0) # [3])"
  by (simp_all add: first_run_def config_defs first_packets_def)

theorem new_source_delivered_witness:
  "\<exists>a b a' b' sent. rtp_session_init demo_raw demo_cfg = Inr a \<and> rtp_session_init peer_raw demo_cfg = Inr b \<and>
     net_run zero_addr first_run (a, b, []) = Inr (a', b', sent) \<and>
     trace (env b') = map (packet_report 0 first_packets) [2, 3]"
proof (rule demo_session)
  fix a assume a: "rtp_session_init demo_raw demo_cfg = Inr a" "sess_inv a" "self a = Some 0"
    "m_ssrc (mem a 0) = 1" "sess_seq a = 0" "config a = demo_cfg"
  obtain b where b: "rtp_session_init peer_raw demo_cfg = Inr b" "sess_inv b"
    "rtp_session_lookup_member b 1 = None" "free_slot b 1" "config b = demo_cfg"
    "w_rtp_timestamp (env b) = (\<lambda>n. of_nat (160 * n))" "n_rtp_timestamp (env b) = 0"
    "transit (rtp_src (mem b 1)) = 0" "trace (env b) = []" by (rule peer_session)
  note f = first_run_facts
  have c: "c_pt (config b) = take_bit 7 (c_pt (config a))" by (simp add: a b demo_cfg_def)
  have l: "rtp_session_lookup_member b (m_ssrc (mem a 0)) = None" using a b by simp
  have q: "sess_seq a + of_nat (Suc 0) \<noteq> - 1" by (simp add: a(5))
  note d = new_source_delivered [OF a(2,3) b(2) l b(4) c f(1) [unfolded first_run_def] f(2,3,4) q f(5), of zero_addr,
      folded first_run_def]
  from d [unfolded b(6-9) f(6) a(5), unfolded if_P [OF f(7)]] a(1) b(1)
  show ?thesis by (auto simp: numeral_eq_Suc)
qed

text \<open>Three more packets, of which the first is lost and the last one overtakes and is repeated.\<close>

definition next_run :: "net_act list" where
  "next_run = [Send [5] 640, Send [6] 800, Send [7] 960, Arrive 2, Arrive 1, Arrive 2]"

definition next_packets :: "(u8 list \<times> u32) list" where
  "next_packets = [([5], 640), ([6], 800), ([7], 960)]"

lemma next_run_facts:
  "fits next_run" "[2, 1, 2] = arrivals 0 next_run" "in_window (- 1) [2, 1, 2]" "sends next_run = next_packets"
  "in_time (\<lambda>n. of_nat (160 * n)) 4 0 next_packets [2, 1, 2]"
  "highest (int (Suc (Suc 0))) [3] = 3"
  "last_transit (\<lambda>n. of_nat (160 * n)) (Suc (Suc 0)) 0 first_packets (Suc (Suc 0) # [3]) = 0"
  by (simp_all add: next_run_def next_packets_def first_packets_def config_defs)

text \<open>The two sessions after the first run.\<close>

lemma after_first_run:
  obtains a b where "sess_inv a" "self a = Some 0" "hears b 1 (m_ssrc (mem a 0)) zero_addr"
    "c_pt (config b) = take_bit 7 (c_pt (config a))" "probation (rtp_src (mem b 1)) = 0"
    "max_seq (rtp_src (mem b 1)) = sess_seq a + word_of_int (- 1)" "transit (rtp_src (mem b 1)) = 0"
    "w_rtp_timestamp (env b) = (\<lambda>n. of_nat (160 * n))" "n_rtp_timestamp (env b) = 4"
proof (rule demo_session)
  fix a assume a: "rtp_session_init demo_raw demo_cfg = Inr a" "sess_inv a" "self a = Some 0"
    "m_ssrc (mem a 0) = 1" "sess_seq a = 0" "config a = demo_cfg"
  obtain b where b: "rtp_session_init peer_raw demo_cfg = Inr b" "sess_inv b"
    "rtp_session_lookup_member b 1 = None" "free_slot b 1" "config b = demo_cfg"
    "w_rtp_timestamp (env b) = (\<lambda>n. of_nat (160 * n))" "n_rtp_timestamp (env b) = 0"
    "transit (rtp_src (mem b 1)) = 0" "trace (env b) = []" by (rule peer_session)
  note f = first_run_facts
  have c: "c_pt (config b) = take_bit 7 (c_pt (config a))" by (simp add: a b demo_cfg_def)
  have l: "rtp_session_lookup_member b (m_ssrc (mem a 0)) = None" using a b by simp
  have q: "sess_seq a + of_nat (Suc 0) \<noteq> - 1" by (simp add: a(5))
  note d = new_source [OF a(2,3) b(2) l b(4) c f(1) [unfolded first_run_def] f(2,3,4) q f(5), of zero_addr,
      folded first_run_def]
  obtain a' b' sent where n: "net_ok 0 1 (m_ssrc (mem a 0)) (sess_seq a) first_packets zero_addr (a', b', sent)"
    "probation (rtp_src (mem b' 1)) = 0" "max_seq (rtp_src (mem b' 1)) = 3" "transit (rtp_src (mem b' 1)) = 0"
    "w_rtp_timestamp (env b') = (\<lambda>n. of_nat (160 * n))" "n_rtp_timestamp (env b') = 4"
    using d [unfolded b(6-9) f(6) a(5) next_run_facts(6,7), unfolded if_P [OF f(7)]] a(5) by auto
  have "sess_seq a' = 4" using n(1) a(5) by (simp add: net_ok_def sender_ok_def first_packets_def)
  with n show thesis by (intro that [of a' b']) (simp_all add: net_ok_def sender_ok_def)
qed

theorem media_delivered_witness:
  "\<exists>a b a' b' sent'. hears b 1 (m_ssrc (mem a 0)) zero_addr \<and>
     net_run zero_addr next_run (a, b, []) = Inr (a', b', sent') \<and>
     trace (env b') = trace (env b) @ map (packet_report (sess_seq a) next_packets) [2, 1, 2] \<and>
     received (rtp_src (mem b' 1)) = received (rtp_src (mem b 1)) + 3"
proof (rule after_first_run)
  fix a b assume s: "sess_inv a" "self a = Some 0" "hears b 1 (m_ssrc (mem a 0)) zero_addr"
    "c_pt (config b) = take_bit 7 (c_pt (config a))" "probation (rtp_src (mem b 1)) = 0"
    "max_seq (rtp_src (mem b 1)) = sess_seq a + word_of_int (- 1)" "transit (rtp_src (mem b 1)) = 0"
    "w_rtp_timestamp (env b) = (\<lambda>n. of_nat (160 * n))" "n_rtp_timestamp (env b) = 4"
  note f = next_run_facts
  obtain a' b' sent' where "net_run zero_addr next_run (a, b, []) = Inr (a', b', sent')"
    "trace (env b') = trace (env b) @ map (packet_report (sess_seq a) next_packets) [2, 1, 2]"
    "received (rtp_src (mem b' 1)) = received (rtp_src (mem b 1)) + 3"
    using media_delivered [OF s(1-6) f(1-3), unfolded s(7-9) f(4), unfolded if_P [OF f(5)]] by auto
  with s(3) show ?thesis by blast
qed

end
