(* ===== verification/Report_End.thy ===== *)
theory Report_End
  imports End_To_End
begin

text \<open>
  A report from one session to another: what \<open>rtcp_send_report\<close> of the one sends is what \<open>rtp_session_rx_rtcp\<close> of
  the other stores and passes on.
\<close>

section \<open>Reading a report\<close>

lemma rd32_words:
  assumes "pkt = pre @ concat (map bytes32 ws) @ rest" "i < length ws" "j = length pre + 4 * i"
  shows "rd32 pkt j = Inr (ws ! i)"
proof (rule rd32_seg)
  have "drop j pkt = drop (4 * i) (concat (map bytes32 ws) @ rest)" by (simp add: assms(1,3))
  then show "seg pkt j 4 = bytes32 (ws ! i)"
    using seg_concat_bytes32 [OF assms(2), of rest] by (simp add: seg_def)
qed

lemma rtcp_count_packet:
  assumes "pkt = pre @ rtcp_packet n pt body @ rest" "n < 32" "r = length pre"
  shows "rtcp_count pkt r = Inr n"
proof -
  have "rd8 pkt r = Inr (0x80 OR of_nat n)"
    by (simp add: assms(1,3) rd8_def rtcp_packet_def nth_append)
  then show ?thesis
    using count_octet(1) [OF assms(2)] assms(2) by (simp add: rtcp_count_def unat_of_nat_small del: take_bit_or)
qed

section \<open>A known source\<close>

definition hears_rtcp :: "rtp_session \<Rightarrow> nat \<Rightarrow> u32 \<Rightarrow> sockaddr_in \<Rightarrow> bool" where
  "hears_rtcp b m ssrc from \<longleftrightarrow> sess_inv b \<and> rtp_session_lookup_member b ssrc = Some m \<and>
     \<not> rtp_member_is_bye_received (mem b m) \<and> \<not> rtp_member_is_self (mem b m) \<and>
     rtp_member_is_rtcp_heard (mem b m) \<and> m_rtcp_addr (mem b m) = from"

text \<open>The member \<open>m\<close> of \<open>b\<close> has become \<open>x\<close>, the trace has grown by \<open>evs\<close>.\<close>

definition became :: "rtp_session \<Rightarrow> nat \<Rightarrow> rtp_member \<Rightarrow> event list \<Rightarrow> rtp_session \<Rightarrow> bool" where
  "became b m x evs b' \<longleftrightarrow> same_session b b' \<and> mem b' m = x \<and> trace (env b') = trace (env b) @ evs \<and>
     w_gettimeofday (env b') = w_gettimeofday (env b)"

lemma became_trans: "became b m x e c \<Longrightarrow> became c m y f d \<Longrightarrow> became b m y (e @ f) d"
  by (auto simp: became_def intro: same_session_trans)

lemma became_emit: "became b m x es c \<Longrightarrow> became b m x (es @ [e]) (emit e c)"
  using same_session_var(2) [of c e] by (auto simp: became_def mem_def emit_def intro: same_session_trans)

lemma became_set_mem:
  "became b m x es c \<Longrightarrow> m < length (member_array (member_table b)) \<Longrightarrow> m_ssrc (f x) = m_ssrc x \<Longrightarrow>
   became b m (f x) es (upd_mem m f c)"
  by (auto simp: became_def mem_upd_mem same_session_def)

lemma hears_rtcp_slot: "hears_rtcp b m ssrc from \<Longrightarrow> m < length (member_array (member_table b))"
  using sess_inv_slot_used [of b ssrc m] sess_inv_atD(7) [of 0 "{}" b m] by (simp add: hears_rtcp_def sess_inv_def)

lemma became_hears:
  assumes "hears_rtcp b m ssrc from" "became b m x es c" "sess_inv c"
    and "rtp_member_is_bye_received x = rtp_member_is_bye_received (mem b m)"
    "rtp_member_is_self x = rtp_member_is_self (mem b m)" "rtp_member_is_rtcp_heard x"
    "m_rtcp_addr x = m_rtcp_addr (mem b m)"
  shows "hears_rtcp c m ssrc from"
  using assms same_session_lookup [of b c ssrc] by (simp add: hears_rtcp_def became_def)

lemma rtcp_handle_heard:
  assumes "hears_rtcp b m ssrc from"
  shows "\<exists>c. rtcp_handle_ssrc b ssrc from n = Inr (c, Some m) \<and> sess_inv c \<and>
    became b m (rtp_member_set_rtcp_heard (mem b m)) [] c \<and> env c = env b"
proof -
  let ?b1 = "upd_mem m rtp_member_set_rtcp_heard b"
  have wf: "timer_wf (sess_tmr ?b1)" using assms sess_inv_wf by (simp add: hears_rtcp_def)
  obtain b2 where b2: "rtp_timers_member_restart ?b1 m = Inr b2"
    using timer_steps_total(4) [OF wf, of m] by (cases "rtp_timers_member_restart ?b1 m") auto
  then obtain t where t: "b2 = ?b1\<lparr>sess_tmr := t\<rparr>" using restart_member_frame by blast
  obtain v where v: "rtcp_interval_handle_rtcp_event b2 RxNonBye False False n = Inr (b2\<lparr>rtcp_var := v\<rparr>)"
    by (simp add: rtcp_interval_handle_rtcp_event_def Let_def)
  let ?c = "b2\<lparr>rtcp_var := v, last_rtcp_error := rtcp_rx_error_no_error\<rparr>"
  have c: "rtcp_handle_ssrc b ssrc from n = Inr (?c, Some m)"
    using assms b2 v by (simp add: hears_rtcp_def rtcp_handle_ssrc_def rtp_session_lookup_member_def)
  have i: "sess_inv b" using assms by (simp add: hears_rtcp_def)
  have "sess_inv ?c"
    using outcome_Inr [OF rtcp_handle_ssrc_ok [OF i, of ssrc "from" n] c] by (simp add: keeps_def)
  moreover have f: "mem ?c = mem ?b1" by (simp add: t mem_def fun_eq_iff)
  have "same_session ?b1 ?c" using f by (simp add: same_session_def) (simp add: t)
  moreover have "same_session b ?b1" by (rule same_session_upd_mem) (simp add: set_flag_defs)
  moreover have "mem ?c m = rtp_member_set_rtcp_heard (mem b m)"
    unfolding f using hears_rtcp_slot [OF assms] by (simp add: mem_upd_mem)
  ultimately show ?thesis
    using c by (intro exI [of _ ?c]) (auto simp: became_def t intro: same_session_trans)
qed

section \<open>The handlers\<close>

definition block_events :: "u32 \<Rightarrow> nat \<Rightarrow> nat \<Rightarrow> event list" where
  "block_events ssrc first n = map (\<lambda>i. RrRpt ssrc (first + 24 * i)) [0..<n]"

lemma became_items:
  "became b m x es c \<Longrightarrow> became b m x (es @ block_events ssrc first n) (handle_rr_items c ssrc first n)"
proof (induction n)
  case (Suc n)
  from became_emit [OF Suc.IH [OF Suc.prems], of "RrRpt ssrc (first + 24 * n)"] show ?case
    by (simp add: handle_rr_items_def rtcp_handle_rr_item_def block_events_def)
qed (simp add: handle_rr_items_def block_events_def)

lemma handle_rr_heard:
  assumes "hears_rtcp b m ssrc from" "rd32 pkt (r + 4) = Inr ssrc" "rtcp_count pkt r = Inr n"
  shows "\<exists>c. rtcp_handle_rr b pkt r from len = Inr c \<and>
    became b m (rtp_member_set_rtcp_heard (mem b m)) (block_events ssrc (r + 8) n) c"
proof -
  obtain c where c: "rtcp_handle_ssrc b ssrc from len = Inr (c, Some m)"
    "became b m (rtp_member_set_rtcp_heard (mem b m)) [] c"
    using rtcp_handle_heard [OF assms(1)] by blast
  from became_items [OF c(2)] c(1) assms(2,3) show ?thesis by (simp add: rtcp_handle_rr_def)
qed

lemma became_time: "became b m x es c \<Longrightarrow> became b m x es (fst (draw_time c))"
  by (simp add: became_def draw_time_def same_session_def mem_def)

lemma handle_sr_heard:
  assumes "hears_rtcp b m ssrc from" "rtcp_count pkt r = Inr n"
    and "rd32 pkt (r + 4) = Inr ssrc" "rd32 pkt (r + 8) = Inr sec" "rd32 pkt (r + 12) = Inr fr"
    "rd32 pkt (r + 16) = Inr ts" "rd32 pkt (r + 20) = Inr psent" "rd32 pkt (r + 24) = Inr osent"
    and "ntp_ts_now (w_gettimeofday (env b) (n_gettimeofday (env b))) = Inr now"
  shows "\<exists>c. rtcp_handle_sr b pkt r from len = Inr c \<and>
    became b m ((rtp_member_set_rtcp_heard (mem b m))\<lparr>last_sr := \<lparr>second = sec, fraction = fr\<rparr>, m_rtp_ts := ts,
        m_pkt_count := psent, m_octet_count := osent, last_sr_local_time := now\<rparr>)
      (block_events ssrc (r + 28) n @ [SrRpt ssrc r]) c"
proof -
  note slot = hears_rtcp_slot [OF assms(1)]
  obtain c where c: "rtcp_handle_ssrc b ssrc from len = Inr (c, Some m)"
    "became b m (rtp_member_set_rtcp_heard (mem b m)) [] c" "env c = env b"
    using rtcp_handle_heard [OF assms(1)] by blast
  let ?c1 = "upd_mem m (\<lambda>x. x\<lparr>last_sr := \<lparr>second = sec, fraction = fr\<rparr>, m_rtp_ts := ts,
      m_pkt_count := psent, m_octet_count := osent\<rparr>) c"
  let ?c2 = "fst (draw_time ?c1)"
  let ?c3 = "upd_mem m (\<lambda>x. x\<lparr>last_sr_local_time := now\<rparr>) ?c2"
  have t: "sess_ntp_ts_now ?c1 = Inr (?c2, now)"
    using assms(9) c(3) by (simp add: sess_ntp_ts_now_def draw_time_def)
  have "rtcp_handle_sr b pkt r from len = Inr (emit (SrRpt ssrc r) (handle_rr_items ?c3 ssrc (r + 28) n))"
    using assms(2-8) c(1) t by (simp add: rtcp_handle_sr_def Let_def)
  moreover have a3: "became b m ((rtp_member_set_rtcp_heard (mem b m))\<lparr>last_sr := \<lparr>second = sec, fraction = fr\<rparr>,
      m_rtp_ts := ts, m_pkt_count := psent, m_octet_count := osent, last_sr_local_time := now\<rparr>) [] ?c3"
    by (rule became_set_mem [OF became_time [OF became_set_mem [OF c(2) slot]] slot, simplified]) simp_all
  ultimately show ?thesis
    using became_emit [OF became_items [OF a3, of ssrc "r + 28" n], of "SrRpt ssrc r"] by simp
qed

text \<open>The length field of a source description is read without conversion, so that its end is far away.\<close>

lemma be16_high:
  assumes "a \<noteq> 0"
  shows "256 \<le> unat (be16 a b)"
proof (rule ccontr)
  assume "\<not> ?thesis"
  then have "unat (drop_bit 8 (be16 a b)) = 0" by (simp add: unat_drop_bit_eq drop_bit_nat_def)
  then have z: "drop_bit 8 (be16 a b) = 0" by (simp add: unsigned_eq_0_iff)
  have "drop_bit 8 (be16 a b) = ucast a"
    by (rule bit_word_eqI) (auto simp: be16_def bit_simps dest: bit_imp_le_length)
  with z have "unat (ucast a :: u16) = 0" by simp
  moreover have "unat (ucast a :: u16) = unat a" by (rule unsigned_ucast_eq [THEN trans]) (simp add: take_bit_nat_eq_self order.strict_trans [OF unsigned_less])
  ultimately show False using assms by (simp add: unsigned_eq_0_iff)
qed

lemma length_raw_packet:
  assumes "pkt = pre @ rtcp_packet n pt body @ rest" "r = length pre" "0 < length body div 4" "length body div 4 < 256"
  shows "\<exists>l. rtcp_length_raw pkt r = Inr l \<and> 256 \<le> l"
proof -
  let ?k = "length body div 4"
  let ?lo = "ucast (of_nat ?k :: u16) :: u8"
  have "unat ?lo = ?k" using assms(4) by (simp add: unsigned_ucast_eq unat_of_nat take_bit_nat_eq_self)
  then have "?lo \<noteq> 0" using assms(3) by (metis less_irrefl unat_0)
  from be16_high [OF this, of "ucast (drop_bit 8 (of_nat ?k :: u16))"] show ?thesis
    by (simp add: rtcp_length_raw_def assms(1,2) rtcp_packet_def bytes16_def rd8_def nth_append)
qed

text \<open>A source description with one chunk, of the canonical name alone.\<close>

lemma sdes_one_item:
  assumes "rd8 pkt p = Inr 1" "rd8 pkt (p + 1) = Inr len" "p + unat len + 2 < stop"
    and "rd8 pkt (p + unat len + 2) = Inr 0" "rtp_member_set_cname (mem c m) (drop (p + 2) pkt) len = Inr y"
  shows "sdes_items c pkt (Some m) stop p =
    Inr (upd_mem m (\<lambda>_. rtp_member_set_validated y) c, p + unat len + 2)"
proof -
  let ?c = "upd_mem m (\<lambda>_. rtp_member_set_validated y) c"
  have "sdes_items ?c pkt (Some m) stop (p + unat len + 2) = Inr (?c, p + unat len + 2)"
    using assms(4) by (subst sdes_items.simps) simp
  moreover have "sdes_cname c pkt (Some m) p 1 len = Inr ?c"
    using assms(5) by (simp add: sdes_cname_def rtcp_types)
  ultimately show ?thesis
    using assms(1-3) by (subst sdes_items.simps) (simp add: Let_def)
qed

lemma handle_sdes_heard:
  assumes "hears_rtcp b m ssrc from" "pkt = pre @ rtcp_packet 1 RTCP_SDES (sdes_body x)" "r = length pre"
    and "m_ssrc x = ssrc" "unat (cname_len x) \<le> length (cname x)"
  shows "\<exists>c. rtcp_handle_sdes b pkt r from len = Inr c \<and>
    became b m (rtp_member_set_validated ((rtp_member_set_rtcp_heard (mem b m))\<lparr>cname_len := cname_len x,
      cname := take (unat (cname_len x)) (cname x) @ drop (unat (cname_len x)) (cname (mem b m))\<rparr>)) [] c"
proof -
  let ?n = "unat (cname_len x)" and ?z = "chunk_zeros (6 + unat (cname_len x))"
  let ?hdr = "[0x80 OR of_nat 1, RTCP_SDES] @ bytes16 (of_nat (length (sdes_body x) div 4))"
  have z: "0 < ?z" "?z \<le> 4" by (simp_all add: chunk_zeros_def)
  have lb: "length (sdes_body x) = 6 + ?n + ?z" using assms(5) by (simp add: sdes_body_def)
  have n: "?n < 256" using unsigned_less [of "cname_len x", where 'a = nat] by simp
  have pk: "pkt = pre @ ?hdr @ bytes32 ssrc @ [1, cname_len x] @ take ?n (cname x) @ replicate ?z 0"
    by (simp add: assms(2) rtcp_packet_def sdes_body_def assms(4))
  obtain l where l: "rtcp_length_raw pkt r = Inr l" "256 \<le> l"
  proof -
    have "0 < length (sdes_body x) div 4" "length (sdes_body x) div 4 < 256" using lb n z by auto
    with length_raw_packet [of pkt pre 1 RTCP_SDES "sdes_body x" "[]" r] assms(2,3) that show thesis by auto
  qed
  have cnt: "rtcp_count pkt r = Inr 1" by (rule rtcp_count_packet [where pre = pre and rest = "[]" and pt = RTCP_SDES]) (use assms(2,3) in simp_all)
  have src: "rd32 pkt (r + 4) = Inr ssrc"
    by (rule rd32_words [where pre = "pre @ ?hdr" and ws = "[ssrc]" and i = 0, simplified]) (simp_all add: pk assms(3))
  have d: "drop (r + 8) pkt = [1, cname_len x] @ take ?n (cname x) @ replicate ?z 0"
    by (simp add: pk assms(3))
  have at: "rd8 pkt (r + 8 + i) = Inr (([1, cname_len x] @ take ?n (cname x) @ replicate ?z 0) ! i)" if "i < 2 + ?n + ?z" for i
  proof -
    have "length (drop (r + 8) pkt) = 2 + ?n + ?z" unfolding d using assms(5) by simp
    then have "r + 8 + i < length pkt" using that by simp
    moreover from this have "pkt ! (r + 8 + i) = drop (r + 8) pkt ! i" by simp
    ultimately show ?thesis by (simp add: d)
  qed
  have r8: "rd8 pkt (r + 8) = Inr 1" "rd8 pkt (r + 9) = Inr (cname_len x)" "rd8 pkt (r + 10 + ?n) = Inr 0"
    using at [of 0] at [of 1] at [of "2 + ?n"] z assms(5) by (simp_all add: nth_append add.commute add.left_commute)
  have "drop (r + 10) pkt = drop 2 (drop (r + 8) pkt)" by (simp add: add.commute)
  then have name: "drop (r + 10) pkt = take ?n (cname x) @ replicate ?z 0" unfolding d by simp
  obtain c where c: "rtcp_handle_ssrc b ssrc from len = Inr (c, Some m)" "sess_inv c"
    "became b m (rtp_member_set_rtcp_heard (mem b m)) [] c"
    using rtcp_handle_heard [OF assms(1)] by blast
  have mc: "mem c m = rtp_member_set_rtcp_heard (mem b m)" using c(3) by (simp add: became_def)
  have "length (cname (mem c m)) = RTP_CONFIG_SDES_CNAME_MAX + 1"
  proof -
    have "sess_shape b" using assms(1) sess_inv_atD(3) by (auto simp: hears_rtcp_def sess_inv_def)
    then have "length (cname (mem b m)) = RTP_CONFIG_SDES_CNAME_MAX + 1"
      using hears_rtcp_slot [OF assms(1)] by (simp add: sess_shape_def mem_def)
    then show ?thesis by (simp add: mc set_flag_defs)
  qed
  from set_cname_ok [OF this, of "cname_len x" "drop (r + 10) pkt"]
  have sc: "rtp_member_set_cname (mem c m) (drop (r + 10) pkt) (cname_len x) = Inr ((mem c m)\<lparr>cname_len := cname_len x,
      cname := take ?n (cname x) @ drop ?n (cname (mem c m))\<rparr>)"
    using assms(5) by (simp add: name)
  let ?y = "(mem c m)\<lparr>cname_len := cname_len x, cname := take ?n (cname x) @ drop ?n (cname (mem c m))\<rparr>"
  let ?c = "upd_mem m (\<lambda>_. rtp_member_set_validated ?y) c"
  have "sdes_items c pkt (Some m) (r + 4 * (l + 1)) (r + 8) = Inr (?c, r + 8 + ?n + 2)"
    by (rule sdes_one_item) (use r8 l(2) n sc in \<open>simp_all add: ac_simps\<close>)
  then have "rtcp_handle_sdes b pkt r from len = Inr ?c"
    using cnt l src c(1) by (simp add: rtcp_handle_sdes_def Let_def ac_simps)
  moreover have "became b m (rtp_member_set_validated ?y) [] ?c"
    by (rule became_set_mem [OF c(3) hears_rtcp_slot [OF assms(1)]]) (simp add: mc set_flag_defs)
  ultimately show ?thesis by (auto simp: mc set_flag_defs)
qed

section \<open>The report as a whole\<close>

text \<open>What a receiver knows of a member \<open>y\<close> after the report of the participant \<open>x\<close> of the session \<open>a\<close>.\<close>

definition told_by_sr :: "rtp_session \<Rightarrow> rtp_member \<Rightarrow> ntp_ts \<Rightarrow> u32 \<Rightarrow> ntp_ts \<Rightarrow> rtp_member \<Rightarrow> rtp_member" where
  "told_by_sr a x ts rtp_ts now y =
     (if rtp_member_is_sender x
      then (rtp_member_set_rtcp_heard y)\<lparr>last_sr := ts, m_rtp_ts := rtp_ts, m_pkt_count := tx_pkt_count a,
             m_octet_count := tx_octet_count a, last_sr_local_time := now\<rparr>
      else rtp_member_set_rtcp_heard y)"

definition told_by :: "rtp_session \<Rightarrow> rtp_member \<Rightarrow> ntp_ts \<Rightarrow> u32 \<Rightarrow> ntp_ts \<Rightarrow> rtp_member \<Rightarrow> rtp_member" where
  "told_by a x ts rtp_ts now y =
     rtp_member_set_validated ((rtp_member_set_rtcp_heard (told_by_sr a x ts rtp_ts now y))\<lparr>cname_len := cname_len x,
       cname := take (unat (cname_len x)) (cname x) @ drop (unat (cname_len x)) (cname y)\<rparr>)"

definition blocks_at :: "rtp_member \<Rightarrow> nat" where
  "blocks_at x = (if rtp_member_is_sender x then 28 else 8)"

definition report_events :: "rtp_member \<Rightarrow> nat \<Rightarrow> event list" where
  "report_events x n = block_events (m_ssrc x) (blocks_at x) n @
     (if rtp_member_is_sender x then [SrRpt (m_ssrc x) 0] else [])"

lemma told_by_sr_facts:
  "rtp_member_is_bye_received (told_by_sr a x ts rtp_ts now y) = rtp_member_is_bye_received y"
  "rtp_member_is_self (told_by_sr a x ts rtp_ts now y) = rtp_member_is_self y"
  "rtp_member_is_rtcp_heard (told_by_sr a x ts rtp_ts now y)"
  "m_rtcp_addr (told_by_sr a x ts rtp_ts now y) = m_rtcp_addr y" "cname (told_by_sr a x ts rtp_ts now y) = cname y"
proof -
  have "has_flag k (y\<lparr>last_sr := ts, m_rtp_ts := rtp_ts, m_pkt_count := p, m_octet_count := q, last_sr_local_time := now\<rparr>) =
      has_flag k y" for k y p q by (simp add: has_flag_def)
  then show "rtp_member_is_bye_received (told_by_sr a x ts rtp_ts now y) = rtp_member_is_bye_received y"
    "rtp_member_is_self (told_by_sr a x ts rtp_ts now y) = rtp_member_is_self y"
    "rtp_member_is_rtcp_heard (told_by_sr a x ts rtp_ts now y)"
    by (simp_all add: told_by_sr_def flag_simps)
  show "m_rtcp_addr (told_by_sr a x ts rtp_ts now y) = m_rtcp_addr y" "cname (told_by_sr a x ts rtp_ts now y) = cname y"
    by (simp_all add: told_by_sr_def set_flag_defs)
qed

lemma told_by_facts:
  "rtp_member_is_bye_received (told_by a x ts rtp_ts now y) = rtp_member_is_bye_received y"
  "rtp_member_is_self (told_by a x ts rtp_ts now y) = rtp_member_is_self y"
  "rtp_member_is_rtcp_heard (told_by a x ts rtp_ts now y)" "rtp_member_is_validated (told_by a x ts rtp_ts now y)"
  "m_rtcp_addr (told_by a x ts rtp_ts now y) = m_rtcp_addr y"
proof -
  have f: "has_flag k (y\<lparr>cname_len := l, cname := c\<rparr>) = has_flag k y" for k y l c by (simp add: has_flag_def)
  note t = told_by_sr_facts [of a x ts rtp_ts now y]
  show "rtp_member_is_bye_received (told_by a x ts rtp_ts now y) = rtp_member_is_bye_received y"
    using t(1) by (simp add: told_by_def f flag_simps)
  show "rtp_member_is_self (told_by a x ts rtp_ts now y) = rtp_member_is_self y"
    using t(2) by (simp add: told_by_def f flag_simps)
  show "rtp_member_is_rtcp_heard (told_by a x ts rtp_ts now y)" "rtp_member_is_validated (told_by a x ts rtp_ts now y)"
    by (simp_all add: told_by_def f flag_simps)
  show "m_rtcp_addr (told_by a x ts rtp_ts now y) = m_rtcp_addr y"
    using t(4) by (simp add: told_by_def set_flag_defs)
qed

lemma handle_report:
  assumes "hears_rtcp b m (m_ssrc x) from" "n < 32"
    and "pkt = rtcp_packet n (if rtp_member_is_sender x then RTCP_SR else RTCP_RR)
      (concat (map bytes32 (report_words a x ts rtp_ts)) @ bs) @ rest"
    and "ntp_ts_now (w_gettimeofday (env b) (n_gettimeofday (env b))) = Inr now"
  shows "\<exists>c. rtcp_handle_packet b pkt 0 from len = Inr c \<and>
    became b m (told_by_sr a x ts rtp_ts now (mem b m)) (report_events x n) c"
proof -
  let ?pt = "if rtp_member_is_sender x then RTCP_SR else RTCP_RR"
  have cnt: "rtcp_count pkt 0 = Inr n"
    by (rule rtcp_count_packet [where pre = "[]"]) (use assms(2,3) in simp_all)
  obtain hdr where hdr: "pkt = hdr @ concat (map bytes32 (report_words a x ts rtp_ts)) @ bs @ rest" "length hdr = 4"
    "hdr ! 1 = ?pt"
    using assms(3) by (simp add: rtcp_packet_def)
  have pt: "rd8 pkt 1 = Inr ?pt" using hdr(2,3) by (simp add: hdr(1) rd8_def nth_append)
  have w: "rd32 pkt (4 + 4 * i) = Inr (report_words a x ts rtp_ts ! i)" if "i < length (report_words a x ts rtp_ts)" for i
    by (rule rd32_words [OF hdr(1) that]) (simp add: hdr(2))
  show ?thesis
  proof (cases "rtp_member_is_sender x")
    case True
    then have "rd32 pkt (0 + 4) = Inr (m_ssrc x)" "rd32 pkt (0 + 8) = Inr (second ts)"
      "rd32 pkt (0 + 12) = Inr (fraction ts)" "rd32 pkt (0 + 16) = Inr rtp_ts"
      "rd32 pkt (0 + 20) = Inr (tx_pkt_count a)" "rd32 pkt (0 + 24) = Inr (tx_octet_count a)"
      using w [of 0] w [of 1] w [of 2] w [of 3] w [of 4] w [of 5] by (simp_all add: report_words_def numeral_eq_Suc)
    from handle_sr_heard [OF assms(1) cnt this assms(4), of len] True pt show ?thesis
      by (cases ts) (auto simp: rtcp_handle_packet_def told_by_sr_def report_events_def blocks_at_def)
  next
    case False
    then have "rd32 pkt (0 + 4) = Inr (m_ssrc x)" using w [of 0] by (simp add: report_words_def)
    from handle_rr_heard [OF assms(1) this cnt, of len] False pt show ?thesis
      by (auto simp: rtcp_handle_packet_def told_by_sr_def report_events_def blocks_at_def rtcp_types)
  qed
qed

lemma report_handled:
  assumes "list_all2 (describes a) (reported a) blocks" "unat (cname_len x) \<le> length (cname x)"
    and "report_size a x \<le> RTP_CONFIG_RTCP_ENCODER_BUFFER_LEN" "pkt = report_packet a x ts rtp_ts blocks"
    and "hears_rtcp b m (m_ssrc x) from" "ntp_ts_now (w_gettimeofday (env b) (n_gettimeofday (env b))) = Inr now"
  shows "\<exists>b'. rtcp_rx b pkt (of_nat (length pkt)) from = Inr b' \<and> hears_rtcp b' m (m_ssrc x) from \<and>
    mem b' m = told_by a x ts rtp_ts now (mem b m) \<and>
    trace (env b') = trace (env b) @ report_events x (length (reported a))"
proof -
  let ?b = "concat (map bytes32 (report_words a x ts rtp_ts)) @ concat blocks"
  let ?pt = "if rtp_member_is_sender x then RTCP_SR else RTCP_RR"
  let ?p = "rtcp_packet (length blocks) ?pt ?b" and ?q = "rtcp_packet 1 RTCP_SDES (sdes_body x)"
  let ?k = "length (reported a)" and ?len = "of_nat (length pkt) :: u32"
  have "length (concat blocks) = 24 * ?k"
    using assms(1) by (induction rule: list_all2_induct) (simp_all add: length_described)
  then have l: "length ?b = (if rtp_member_is_sender x then 24 else 4) + 24 * ?k"
    by (simp add: report_words_def)
  have k: "length blocks = ?k" using assms(1) by (simp add: list_all2_lengthD)
  have sz: "length ?b + length (sdes_body x) \<le> 248" "?k < 32"
    using assms(3) l by (auto simp: report_size_def config_defs split: if_splits)
  have db: "4 dvd length ?b" unfolding l by simp
  have sized: "\<forall>u \<in> set [?p, ?q]. rtcp_sized u"
    using sized_packet(1) [OF db, of "length blocks" ?pt] sized_packet(1) [OF sdes_body_dvd [OF assms(2)], of 1 RTCP_SDES]
      sz k by simp
  have pkt: "pkt = concat [?p, ?q]" "pkt = ?p @ ?q" by (simp_all add: assms(4) report_packet_def)
  have lp: "length pkt = 8 + (length ?b + length (sdes_body x))" by (simp add: pkt(2))
  have "4 dvd length pkt" using sized_dvd [OF sized] pkt(1) by simp
  then obtain l4 where l4: "length pkt = 4 * l4" by (auto elim: dvdE)
  have u: "unat ?len = length pkt" using sz(1) by (intro unat_of_nat_small) (simp only: lp, simp)
  define b0 where "b0 = b\<lparr>last_rtcp_error := rtcp_rx_error_no_error\<rparr>"
  have chk: "rtcp_check_pkt b pkt ?len = Inr (b0, True)"
    using report_accepted [OF assms(1-3), of b ts rtp_ts] by (simp add: assms(4) b0_def)
  have rx: "rtcp_rx b pkt ?len from = handle_units b0 pkt 0 [?p, ?q] from ?len"
  proof -
    have "drop (4 * 0) pkt = concat [?p, ?q]" "unat ?len div 4 = l4"
      using pkt(1) by simp (simp only: u, simp add: l4)
    with rx_loop_units [OF l4 this(1) sized, of b0 "from" ?len] show ?thesis
      unfolding rtcp_rx_def chk by simp
  qed
  have m0: "mem b0 = mem b" "env b0 = env b" by (simp_all add: b0_def mem_def fun_eq_iff)
  have "sess_inv b0"
    using assms(5) keeps_inv [OF calm_keeps [OF _ calm_var(2) [OF sess_inv_wf]], of b] by (simp add: hears_rtcp_def b0_def)
  then have h0: "hears_rtcp b0 m (m_ssrc x) from"
    using assms(5) by (simp add: hears_rtcp_def m0) (simp add: b0_def rtp_session_lookup_member_def)
  obtain c where c: "rtcp_handle_packet b0 pkt 0 from ?len = Inr c"
    "became b0 m (told_by_sr a x ts rtp_ts now (mem b m)) (report_events x ?k) c"
    using handle_report [OF h0, of "length blocks" pkt a ts rtp_ts "concat blocks" ?q now ?len] sz(2) k pkt(2) assms(6)
    by (auto simp: m0)
  have ic: "sess_inv c"
    using outcome_Inr [OF handle_packet_keeps c(1)] \<open>sess_inv b0\<close> by (auto simp: keeps_def)
  have hc: "hears_rtcp c m (m_ssrc x) from"
    by (rule became_hears [OF h0 c(2) ic]) (simp_all add: told_by_sr_facts m0)
  have mc: "mem c m = told_by_sr a x ts rtp_ts now (mem b m)" using c(2) by (simp add: became_def)
  obtain d where d: "rtcp_handle_sdes c pkt (length ?p) from ?len = Inr d"
    "became c m (told_by a x ts rtp_ts now (mem b m)) [] d"
    using handle_sdes_heard [OF hc pkt(2) refl refl assms(2), of ?len] by (auto simp: mc told_by_def told_by_sr_facts)
  have "rd8 pkt (length ?p + 1) = Inr RTCP_SDES"
    by (simp add: pkt(2) rd8_def nth_append) (simp add: rtcp_packet_def)
  then have hp: "rtcp_handle_packet c pkt (length ?p) from ?len = Inr d"
    using d(1) by (simp add: rtcp_handle_packet_def rtcp_types)
  have "sess_inv d" using outcome_Inr [OF handle_packet_keeps [OF ic] hp] by (simp add: keeps_def)
  then have "hears_rtcp d m (m_ssrc x) from"
    by (rule became_hears [OF hc d(2)]) (simp_all add: mc told_by_facts told_by_sr_facts)
  moreover have "became b0 m (told_by a x ts rtp_ts now (mem b m)) (report_events x ?k @ []) d"
    by (rule became_trans [OF c(2) d(2)])
  ultimately show ?thesis using rx c(1) hp m0 by (simp add: became_def)
qed

lemma blocks_in_report:
  assumes "pkt = report_packet a x ts rtp_ts blocks" "list_all2 (describes a) (reported a) blocks" "i < length blocks"
  shows "seg pkt (blocks_at x + 24 * i) 24 = blocks ! i"
proof -
  have "\<forall>u \<in> set blocks. length u = 24"
    using assms(2) by (induction rule: list_all2_induct) (simp_all add: length_described)
  then have c: "take 24 (drop (24 * i) (concat blocks @ rest)) = blocks ! i" for rest
    using assms(3)
  proof (induction blocks arbitrary: i)
    case (Cons u us)
    then show ?case by (cases i) simp_all
  qed simp
  obtain hdr rest where pkt: "pkt = hdr @ concat (map bytes32 (report_words a x ts rtp_ts)) @ concat blocks @ rest"
    "length hdr = 4"
  proof
    let ?b = "concat (map bytes32 (report_words a x ts rtp_ts)) @ concat blocks"
    let ?h = "[0x80 OR of_nat (length blocks), if rtp_member_is_sender x then RTCP_SR else RTCP_RR] @
      bytes16 (of_nat (length ?b div 4))"
    show "pkt = ?h @ concat (map bytes32 (report_words a x ts rtp_ts)) @ concat blocks @
        rtcp_packet 1 RTCP_SDES (sdes_body x)"
      unfolding assms(1) report_packet_def rtcp_packet_def by (simp only: append_assoc)
    show "length ?h = 4" by simp
  qed
  have "length (hdr @ concat (map bytes32 (report_words a x ts rtp_ts))) = blocks_at x"
    by (simp add: pkt(2) report_words_def blocks_at_def)
  then have "drop (blocks_at x) pkt = concat blocks @ rest" by (simp add: pkt(1))
  then have "drop (blocks_at x + 24 * i) pkt = drop (24 * i) (concat blocks @ rest)"
    by (simp only: drop_drop [symmetric] add.commute [of "blocks_at x"])
  then show ?thesis using c [of rest] by (simp add: seg_def)
qed

text \<open>
  C5: the report that one session sends is what the other one knows and passes on: a receiver that has heard of the
  participant stores its canonical name and, from a sender report, the time stamps and the counts of packets and
  octets at the sender, with the time of arrival; the user is told of every report block, at the position where the
  sender has described that member, and of the sender report. When the report does not fit the buffer nothing is sent.
\<close>

theorem report_delivered:
  assumes "sess_inv a" "self a = Some me" "hears_rtcp b m (m_ssrc (mem a me)) from"
    and "ntp_ts_now (w_gettimeofday (env b) (n_gettimeofday (env b))) = Inr now"
  shows "case rtcp_send_report a of
      Inl f \<Rightarrow> f = FpRange
    | Inr (a', n) \<Rightarrow>
        if report_size a (mem a me) \<le> RTP_CONFIG_RTCP_ENCODER_BUFFER_LEN
        then \<exists>ts pkt b'. ntp_ts_now (w_gettimeofday (env a) (n_gettimeofday (env a))) = Inr ts \<and>
          trace (env a') = trace (env a) @ [TxRtcp pkt] \<and> n = of_nat (length pkt) \<and>
          rtp_session_rx_rtcp b pkt n from = Inr b' \<and> hears_rtcp b' m (m_ssrc (mem a me)) from \<and>
          mem b' m = told_by a (mem a me) ts (w_rtp_timestamp (env a) (n_rtp_timestamp (env a))) now (mem b m) \<and>
          trace (env b') = trace (env b) @ report_events (mem a me) (length (reported a)) \<and>
          (\<forall>i < length (reported a). describes a (reported a ! i) (seg pkt (blocks_at (mem a me) + 24 * i) 24))
        else n = 0 \<and> trace (env a') = trace (env a)"
proof (cases "rtcp_send_report a")
  case (Inl f)
  with send_report_outcome [OF assms(1,2)] show ?thesis by simp
next
  case (Inr r)
  let ?x = "mem a me" and ?rts = "w_rtp_timestamp (env a) (n_rtp_timestamp (env a))"
  obtain a' n where r: "r = (a', n)" by fastforce
  obtain ts where ts: "ntp_ts_now (w_gettimeofday (env a) (n_gettimeofday (env a))) = Inr ts"
    and sent: "report_sent a ?x ts ?rts (a', n)"
    using send_report_outcome [OF assms(1,2)] Inr r by auto
  show ?thesis
  proof (cases "report_size a ?x \<le> RTP_CONFIG_RTCP_ENCODER_BUFFER_LEN")
    case False
    with sent show ?thesis by (simp add: Inr r report_sent_def)
  next
    case True
    then obtain blocks where bl: "list_all2 (describes a) (reported a) blocks"
      "trace (env a') = trace (env a) @ [TxRtcp (report_packet a ?x ts ?rts blocks)]" "unat n = report_size a ?x"
      using sent by (auto simp: report_sent_def)
    let ?p = "report_packet a ?x ts ?rts blocks"
    have "length (concat blocks) = 24 * length (reported a)"
      using bl(1) by (induction rule: list_all2_induct) (simp_all add: length_described)
    then have "length ?p = report_size a ?x"
      by (simp add: report_packet_def report_size_def report_words_def rtcp_packet_def)
    then have n: "n = of_nat (length ?p)" using bl(3) by (metis of_nat_unat ucast_id)
    have bi: "describes a (reported a ! i) (seg ?p (blocks_at ?x + 24 * i) 24)" if "i < length (reported a)" for i
      using blocks_in_report [OF refl bl(1)] list_all2_nthD [OF bl(1) that] list_all2_lengthD [OF bl(1)] that by simp
    from report_handled [OF bl(1) self_cname(1) [OF assms(1,2)] True refl assms(3,4), of ts ?rts]
    show ?thesis using True ts bl(2) n bi by (auto simp: Inr r rtp_session_rx_rtcp_def)
  qed
qed

text \<open>A receiver that has heard of the sender of before.\<close>

lemma peer_hears_rtcp:
  obtains b where "hears_rtcp b 1 1 (m_rtcp_addr (mem b 1))"
    "ntp_ts_now (w_gettimeofday (env b) (n_gettimeofday (env b))) = Inr \<lparr>second = 0x83AA7E80, fraction = 4294\<rparr>"
proof (rule peer_session)
  fix b assume b: "sess_inv b" "rtp_session_lookup_member b 1 = None" "free_slot b 1" "config b = demo_cfg"
    "w_gettimeofday (env b) = (\<lambda>_. \<lparr>tv_sec = 0, tv_usec = 0\<rparr>)"
  let ?p = "tx_packet demo_raw [1] 0 1 []"
  have "carries ?p (c_pt (config b)) (sess_seq demo_raw) 0 1 [1]"
    using tx_carries [of "[1]" demo_raw 0 1] b(4) by (simp add: config_defs demo_raw_def demo_cfg_def)
  from rx_first [OF b(1-3) this, of zero_addr] obtain c where c: "hears c 1 1 zero_addr"
    "env c = (env b)\<lparr>n_rtp_timestamp := Suc (n_rtp_timestamp (env b))\<rparr>" by blast
  let ?d = "upd_mem 1 rtp_member_set_rtcp_heard c"
  have ic: "sess_inv c" using c(1) by (simp add: hears_def)
  have "sess_inv ?d" by (rule keeps_inv [OF calm_keeps [OF ic calm_flag(3) [OF sess_inv_wf [OF ic]]]])
  moreover have "rtp_session_lookup_member ?d 1 = Some 1"
  proof -
    have "same_session c ?d" by (rule same_session_upd_mem) (simp add: set_flag_defs)
    from same_session_lookup [OF this] c(1) show ?thesis by (simp add: hears_def)
  qed
  moreover have "mem ?d 1 = rtp_member_set_rtcp_heard (mem c 1)"
    using hears_slot [OF c(1)] by (simp add: mem_upd_mem)
  ultimately have "hears_rtcp ?d 1 1 (m_rtcp_addr (mem ?d 1))"
    using c(1) by (simp add: hears_rtcp_def hears_def flag_simps)
  moreover have "ntp_ts_now (w_gettimeofday (env ?d) (n_gettimeofday (env ?d))) =
      Inr \<lparr>second = 0x83AA7E80, fraction = 4294\<rparr>"
    by (simp add: c(2) b(5) ntp_ts_now_def from_unix_time_eq)
  ultimately show thesis by (rule that)
qed

theorem report_delivered_witness:
  "\<exists>a b. rtp_session_init demo_raw demo_cfg = Inr a \<and> hears_rtcp b 1 (m_ssrc (mem a 0)) (m_rtcp_addr (mem b 1)) \<and>
     (case rtcp_send_report a of
        Inl f \<Rightarrow> f = FpRange
      | Inr (a', n) \<Rightarrow> \<exists>pkt b'. trace (env a') = trace (env a) @ [TxRtcp pkt] \<and>
          rtp_session_rx_rtcp b pkt n (m_rtcp_addr (mem b 1)) = Inr b' \<and> trace (env b') = trace (env b) \<and>
          rtp_member_is_validated (mem b' 1) \<and> cname_len (mem b' 1) = 2)"
proof (rule demo_session, rule peer_hears_rtcp)
  fix a b assume a: "rtp_session_init demo_raw demo_cfg = Inr a" "sess_inv a" "self a = Some 0" "used a = [0]"
    "flags (mem a 0) = RTP_FLAG_SELF" "cname_len (mem a 0) = 2" "m_ssrc (mem a 0) = 1"
    and b: "hears_rtcp b 1 1 (m_rtcp_addr (mem b 1))"
    "ntp_ts_now (w_gettimeofday (env b) (n_gettimeofday (env b))) = Inr \<lparr>second = 0x83AA7E80, fraction = 4294\<rparr>"
  have h: "hears_rtcp b 1 (m_ssrc (mem a 0)) (m_rtcp_addr (mem b 1))" using a(7) b(1) by simp
  have r: "reported a = []"
    using a(4,5) by (simp add: reported_def reports_def rtp_member_is_self_def has_flag_def RTP_FLAG_SELF_def)
  have ns: "\<not> rtp_member_is_sender (mem a 0)" using a(5) by (simp add: is_flag_defs has_flag_def flag_defs)
  have sz: "report_size a (mem a 0) \<le> RTP_CONFIG_RTCP_ENCODER_BUFFER_LEN"
    using a(6) self_cname(1) [OF a(2,3)] r ns by (simp add: report_size_def sdes_body_def config_defs chunk_zeros_def)
  have t: "cname_len (told_by s x ts u now y) = cname_len x" for s x ts u now y
    by (simp add: told_by_def set_flag_defs set_flag_def)
  have ev: "report_events (mem a 0) (length (reported a)) = []"
    using r ns by (simp add: report_events_def block_events_def)
  note d = report_delivered [OF a(2,3) h b(2), unfolded if_P [OF sz] ev append_Nil2]
  show ?thesis
  proof (rule exI [of _ a], rule exI [of _ b], intro conjI a(1) h)
    show "case rtcp_send_report a of
        Inl f \<Rightarrow> f = FpRange
      | Inr (a', n) \<Rightarrow> \<exists>pkt b'. trace (env a') = trace (env a) @ [TxRtcp pkt] \<and>
          rtp_session_rx_rtcp b pkt n (m_rtcp_addr (mem b 1)) = Inr b' \<and> trace (env b') = trace (env b) \<and>
          rtp_member_is_validated (mem b' 1) \<and> cname_len (mem b' 1) = 2"
    proof (cases "rtcp_send_report a")
      case (Inl f)
      with d show ?thesis by simp
    next
      case (Inr y)
      then obtain a' n where y: "rtcp_send_report a = Inr (a', n)" by (cases y) auto
      then obtain ts pkt b' where "trace (env a') = trace (env a) @ [TxRtcp pkt]"
        "rtp_session_rx_rtcp b pkt n (m_rtcp_addr (mem b 1)) = Inr b'" "trace (env b') = trace (env b)"
        "mem b' 1 = told_by a (mem a 0) ts (w_rtp_timestamp (env a) (n_rtp_timestamp (env a)))
          \<lparr>second = 0x83AA7E80, fraction = 4294\<rparr> (mem b 1)"
        using d by auto
      then show ?thesis
        unfolding y by (simp add: told_by_facts t a(6))
    qed
  qed
qed

end
