(* ===== verification/Generic_List.thy ===== *)
theory Generic_List
  imports Prelude
begin

text \<open>
  The intrusive doubly linked lists of \<^verbatim>\<open>src/generic_list.h\<close>, on a heap of list heads: two maps from
  addresses to addresses, with 0 for the null pointer. The other theories take a list as the
  sequence of the elements linked into it; here the pointer operations are proved to do on the
  heap what they do there on sequences.
\<close>

section \<open>The heap\<close>

record list_heap =
  lnext :: "nat \<Rightarrow> nat"
  lprev :: "nat \<Rightarrow> nat"

definition get_next :: "list_heap \<Rightarrow> nat \<Rightarrow> nat res" where
  "get_next h p = (if p = 0 then Inl NullDeref else Inr (lnext h p))"

definition get_prev :: "list_heap \<Rightarrow> nat \<Rightarrow> nat res" where
  "get_prev h p = (if p = 0 then Inl NullDeref else Inr (lprev h p))"

definition set_next :: "nat \<Rightarrow> nat \<Rightarrow> list_heap \<Rightarrow> list_heap res" where
  "set_next p q h = (if p = 0 then Inl NullDeref else Inr (h\<lparr>lnext := (lnext h)(p := q)\<rparr>))"

definition set_prev :: "nat \<Rightarrow> nat \<Rightarrow> list_heap \<Rightarrow> list_heap res" where
  "set_prev p q h = (if p = 0 then Inl NullDeref else Inr (h\<lparr>lprev := (lprev h)(p := q)\<rparr>))"

lemmas heap_access = get_next_def get_prev_def set_next_def set_prev_def

section \<open>Operations\<close>

definition INIT_LIST_HEAD :: "list_heap \<Rightarrow> nat \<Rightarrow> list_heap res" where
  "INIT_LIST_HEAD h l = bindE (set_next l l h) (set_prev l l)"

text \<open>\<open>__list_add\<close>\<close>

definition list_add_between :: "list_heap \<Rightarrow> nat \<Rightarrow> nat \<Rightarrow> nat \<Rightarrow> list_heap res" where
  "list_add_between h new prev next =
     bindE (set_prev next new h) (\<lambda>h.
     bindE (set_next new next h) (\<lambda>h.
     bindE (set_prev new prev h) (\<lambda>h.
     set_next prev new h)))"

definition list_add :: "list_heap \<Rightarrow> nat \<Rightarrow> nat \<Rightarrow> list_heap res" where
  "list_add h new head = bindE (get_next h head) (\<lambda>next. list_add_between h new head next)"

definition list_add_tail :: "list_heap \<Rightarrow> nat \<Rightarrow> nat \<Rightarrow> list_heap res" where
  "list_add_tail h new head = bindE (get_prev h head) (\<lambda>prev. list_add_between h new prev head)"

text \<open>\<open>__list_del\<close> and \<open>__list_del_entry\<close>\<close>

definition list_del_between :: "list_heap \<Rightarrow> nat \<Rightarrow> nat \<Rightarrow> list_heap res" where
  "list_del_between h prev next = bindE (set_prev next prev h) (\<lambda>h. set_next prev next h)"

definition list_del_entry :: "list_heap \<Rightarrow> nat \<Rightarrow> list_heap res" where
  "list_del_entry h entry =
     bindE (get_prev h entry) (\<lambda>p. bindE (get_next h entry) (\<lambda>n. list_del_between h p n))"

definition list_del :: "list_heap \<Rightarrow> nat \<Rightarrow> list_heap res" where
  "list_del h entry =
     bindE (list_del_entry h entry) (\<lambda>h. bindE (set_next entry 0 h) (\<lambda>h. set_prev entry 0 h))"

definition list_del_init :: "list_heap \<Rightarrow> nat \<Rightarrow> list_heap res" where
  "list_del_init h entry = bindE (list_del_entry h entry) (\<lambda>h. INIT_LIST_HEAD h entry)"

definition list_replace :: "list_heap \<Rightarrow> nat \<Rightarrow> nat \<Rightarrow> list_heap res" where
  "list_replace h old new =
     bindE (get_next h old) (\<lambda>n.
     bindE (set_next new n h) (\<lambda>h.
     bindE (get_next h new) (\<lambda>n.
     bindE (set_prev n new h) (\<lambda>h.
     bindE (get_prev h old) (\<lambda>p.
     bindE (set_prev new p h) (\<lambda>h.
     bindE (get_prev h new) (\<lambda>p.
     set_next p new h)))))))"

definition list_replace_init :: "list_heap \<Rightarrow> nat \<Rightarrow> nat \<Rightarrow> list_heap res" where
  "list_replace_init h old new = bindE (list_replace h old new) (\<lambda>h. INIT_LIST_HEAD h old)"

definition list_move :: "list_heap \<Rightarrow> nat \<Rightarrow> nat \<Rightarrow> list_heap res" where
  "list_move h l head = bindE (list_del_entry h l) (\<lambda>h. list_add h l head)"

definition list_move_tail :: "list_heap \<Rightarrow> nat \<Rightarrow> nat \<Rightarrow> list_heap res" where
  "list_move_tail h l head = bindE (list_del_entry h l) (\<lambda>h. list_add_tail h l head)"

definition list_is_last :: "list_heap \<Rightarrow> nat \<Rightarrow> nat \<Rightarrow> bool res" where
  "list_is_last h l head = bindE (get_next h l) (\<lambda>n. Inr (n = head))"

definition list_empty :: "list_heap \<Rightarrow> nat \<Rightarrow> bool res" where
  "list_empty h head = bindE (get_next h head) (\<lambda>n. Inr (n = head))"

definition list_empty_careful :: "list_heap \<Rightarrow> nat \<Rightarrow> bool res" where
  "list_empty_careful h head =
     bindE (get_next h head) (\<lambda>next.
     if next = head then bindE (get_prev h head) (\<lambda>p. Inr (next = p)) else Inr False)"

definition list_rotate_left :: "list_heap \<Rightarrow> nat \<Rightarrow> list_heap res" where
  "list_rotate_left h head =
     bindE (list_empty h head) (\<lambda>e.
     if \<not> e then bindE (get_next h head) (\<lambda>first. list_move_tail h first head) else Inr h)"

definition list_is_singular :: "list_heap \<Rightarrow> nat \<Rightarrow> bool res" where
  "list_is_singular h head =
     bindE (list_empty h head) (\<lambda>e.
     if e then Inr False
     else bindE (get_next h head) (\<lambda>n. bindE (get_prev h head) (\<lambda>p. Inr (n = p))))"

text \<open>\<open>__list_cut_position\<close>\<close>

definition list_cut_between :: "list_heap \<Rightarrow> nat \<Rightarrow> nat \<Rightarrow> nat \<Rightarrow> list_heap res" where
  "list_cut_between h l head entry =
     bindE (get_next h entry) (\<lambda>new_first.
     bindE (get_next h head) (\<lambda>n.
     bindE (set_next l n h) (\<lambda>h.
     bindE (get_next h l) (\<lambda>n.
     bindE (set_prev n l h) (\<lambda>h.
     bindE (set_prev l entry h) (\<lambda>h.
     bindE (set_next entry l h) (\<lambda>h.
     bindE (set_next head new_first h) (\<lambda>h.
     set_prev new_first head h))))))))"

definition list_cut_position :: "list_heap \<Rightarrow> nat \<Rightarrow> nat \<Rightarrow> nat \<Rightarrow> list_heap res" where
  "list_cut_position h l head entry =
     bindE (list_empty h head) (\<lambda>e.
     if e then Inr h
     else bindE (list_is_singular h head) (\<lambda>sing.
       bindE (if sing then bindE (get_next h head) (\<lambda>n. Inr (n \<noteq> entry \<and> head \<noteq> entry)) else Inr False) (\<lambda>b.
       if b then Inr h
       else if entry = head then INIT_LIST_HEAD h l
       else list_cut_between h l head entry)))"

text \<open>\<open>__list_splice\<close>\<close>

definition list_splice_between :: "list_heap \<Rightarrow> nat \<Rightarrow> nat \<Rightarrow> nat \<Rightarrow> list_heap res" where
  "list_splice_between h l prev next =
     bindE (get_next h l) (\<lambda>first.
     bindE (get_prev h l) (\<lambda>last.
     bindE (set_prev first prev h) (\<lambda>h.
     bindE (set_next prev first h) (\<lambda>h.
     bindE (set_next last next h) (\<lambda>h.
     set_prev next last h)))))"

definition list_splice :: "list_heap \<Rightarrow> nat \<Rightarrow> nat \<Rightarrow> list_heap res" where
  "list_splice h l head =
     bindE (list_empty h l) (\<lambda>e.
     if \<not> e then bindE (get_next h head) (\<lambda>n. list_splice_between h l head n) else Inr h)"

definition list_splice_tail :: "list_heap \<Rightarrow> nat \<Rightarrow> nat \<Rightarrow> list_heap res" where
  "list_splice_tail h l head =
     bindE (list_empty h l) (\<lambda>e.
     if \<not> e then bindE (get_prev h head) (\<lambda>p. list_splice_between h l p head) else Inr h)"

definition list_splice_init :: "list_heap \<Rightarrow> nat \<Rightarrow> nat \<Rightarrow> list_heap res" where
  "list_splice_init h l head =
     bindE (list_empty h l) (\<lambda>e.
     if \<not> e then
       bindE (get_next h head) (\<lambda>n.
       bindE (list_splice_between h l head n) (\<lambda>h. INIT_LIST_HEAD h l))
     else Inr h)"

definition list_splice_tail_init :: "list_heap \<Rightarrow> nat \<Rightarrow> nat \<Rightarrow> list_heap res" where
  "list_splice_tail_init h l head =
     bindE (list_empty h l) (\<lambda>e.
     if \<not> e then
       bindE (get_prev h head) (\<lambda>p.
       bindE (list_splice_between h l p head) (\<lambda>h. INIT_LIST_HEAD h l))
     else Inr h)"

text \<open>\<open>list_first_entry\<close>: an element stands for the structure it is embedded in.\<close>

definition list_first_entry :: "list_heap \<Rightarrow> nat \<Rightarrow> nat res" where
  "list_first_entry h head = get_next h head"

section \<open>Iteration\<close>

text \<open>
  The loops of \<open>list_for_each\<close> and \<open>list_for_each_entry\<close>, and those that are safe against the
  removal of the current element, with a state that the body changes together with the heap.
  The prefetch of the first kind is a read of the next pointer. They need not end: \<open>None\<close> is a loop that does not.
\<close>

definition lift_res :: "'a res \<Rightarrow> ('a \<Rightarrow> 'b res option) \<Rightarrow> 'b res option" where
  "lift_res r k = (case r of Inl f \<Rightarrow> Some (Inl f) | Inr x \<Rightarrow> k x)"

lemma lift_res_simps [simp]: "lift_res (Inl f) k = Some (Inl f)" "lift_res (Inr x) k = k x"
  by (simp_all add: lift_res_def)

lemma lift_res_mono [partial_function_mono]:
  "(\<And>x. mono_option (\<lambda>f. k x f)) \<Longrightarrow> mono_option (\<lambda>f. lift_res r (\<lambda>x. k x f))"
  by (cases r) (simp_all add: monotone_def flat_ord_def fun_ord_def)

partial_function (option) for_each_from ::
  "(nat \<Rightarrow> list_heap \<times> 's \<Rightarrow> (list_heap \<times> 's) res) \<Rightarrow> nat \<Rightarrow> nat \<Rightarrow> list_heap \<times> 's \<Rightarrow>
   (list_heap \<times> 's) res option" where
  "for_each_from body head pos hs =
     lift_res (get_next (fst hs) pos) (\<lambda>_.
     if pos = head then Some (Inr hs)
     else lift_res (body pos hs) (\<lambda>hs.
          lift_res (get_next (fst hs) pos) (\<lambda>n. for_each_from body head n hs)))"

definition list_for_each ::
  "(nat \<Rightarrow> list_heap \<times> 's \<Rightarrow> (list_heap \<times> 's) res) \<Rightarrow> nat \<Rightarrow> list_heap \<times> 's \<Rightarrow>
   (list_heap \<times> 's) res option" where
  "list_for_each body head hs =
     lift_res (get_next (fst hs) head) (\<lambda>pos. for_each_from body head pos hs)"

partial_function (option) for_each_safe_from ::
  "(nat \<Rightarrow> list_heap \<times> 's \<Rightarrow> (list_heap \<times> 's) res) \<Rightarrow> nat \<Rightarrow> nat \<Rightarrow> nat \<Rightarrow> list_heap \<times> 's \<Rightarrow>
   (list_heap \<times> 's) res option" where
  "for_each_safe_from body head pos n hs =
     (if pos = head then Some (Inr hs)
      else lift_res (body pos hs) (\<lambda>hs.
           lift_res (get_next (fst hs) n) (\<lambda>n'. for_each_safe_from body head n n' hs)))"

definition list_for_each_safe ::
  "(nat \<Rightarrow> list_heap \<times> 's \<Rightarrow> (list_heap \<times> 's) res) \<Rightarrow> nat \<Rightarrow> list_heap \<times> 's \<Rightarrow>
   (list_heap \<times> 's) res option" where
  "list_for_each_safe body head hs =
     lift_res (get_next (fst hs) head) (\<lambda>pos.
     lift_res (get_next (fst hs) pos) (\<lambda>n. for_each_safe_from body head pos n hs))"

section \<open>Lists on the heap\<close>

text \<open>The addresses \<open>ps\<close> are linked one to the next, in both directions.\<close>

fun chain :: "list_heap \<Rightarrow> nat list \<Rightarrow> bool" where
  "chain h (x # y # zs) \<longleftrightarrow> lnext h x = y \<and> lprev h y = x \<and> chain h (y # zs)"
| "chain h _ \<longleftrightarrow> True"

definition is_list :: "list_heap \<Rightarrow> nat \<Rightarrow> nat list \<Rightarrow> bool" where
  "is_list h head xs \<longleftrightarrow> chain h (head # xs @ [head]) \<and> distinct (head # xs) \<and> 0 \<notin> set (head # xs)"

text \<open>Outside of \<open>A\<close> nothing has changed.\<close>

definition same_outside :: "nat set \<Rightarrow> list_heap \<Rightarrow> list_heap \<Rightarrow> bool" where
  "same_outside A h h' \<longleftrightarrow> (\<forall>q. q \<notin> A \<longrightarrow> lnext h' q = lnext h q \<and> lprev h' q = lprev h q)"

lemma same_outside_refl: "same_outside A h h"
  by (simp add: same_outside_def)

lemma same_outside_mono: "same_outside A h h' \<Longrightarrow> A \<subseteq> B \<Longrightarrow> same_outside B h h'"
  by (auto simp: same_outside_def)

lemma same_outside_trans: "same_outside A h h' \<Longrightarrow> same_outside B h' h'' \<Longrightarrow> A \<subseteq> C \<Longrightarrow> B \<subseteq> C \<Longrightarrow> same_outside C h h''"
  unfolding same_outside_def by (metis subsetD)

lemma set_tl_subset: "x \<in> set (tl xs) \<Longrightarrow> x \<in> set xs"
  by (cases xs) auto

lemma chain_append: "chain h (us @ p # vs) \<longleftrightarrow> chain h (us @ [p]) \<and> chain h (p # vs)"
proof (induction us rule: induct_list012)
  case (2 x)
  then show ?case by simp
qed simp_all

lemma chain_cong:
  "(\<And>p. p \<in> set (butlast ps) \<Longrightarrow> lnext h' p = lnext h p) \<Longrightarrow>
   (\<And>p. p \<in> set (tl ps) \<Longrightarrow> lprev h' p = lprev h p) \<Longrightarrow> chain h' ps \<longleftrightarrow> chain h ps"
  by (induction ps rule: induct_list012) auto

lemma is_list_frame:
  assumes "is_list h head xs" "same_outside A h h'" "A \<inter> set (head # xs) = {}"
  shows "is_list h' head xs"
proof -
  have "chain h' (head # xs @ [head]) \<longleftrightarrow> chain h (head # xs @ [head])"
    using assms(2,3) by (intro chain_cong) (auto simp: same_outside_def butlast_append split: if_splits)
  with assms(1) show ?thesis by (simp add: is_list_def)
qed

lemma INIT_LIST_HEAD_ok:
  "l \<noteq> 0 \<Longrightarrow> \<exists>h'. INIT_LIST_HEAD h l = Inr h' \<and> is_list h' l [] \<and> same_outside {l} h h'"
  by (simp add: INIT_LIST_HEAD_def heap_access is_list_def same_outside_def)

text \<open>The two steps everything is made of: linking an element between two neighbours, and
  making the neighbours of an element point to each other.\<close>

lemma link_chain:
  assumes "chain h (us @ p # n # vs)" "distinct (butlast (us @ p # n # vs))"
    "distinct (tl (us @ p # n # vs))" "new \<notin> set (us @ p # n # vs)" "0 \<notin> set (new # p # n # [])"
  shows "\<exists>h'. list_add_between h new p n = Inr h' \<and> chain h' (us @ p # new # n # vs) \<and>
    same_outside {new, p, n} h h'"
proof -
  let ?h = "h\<lparr>lnext := (lnext h)(new := n, p := new), lprev := (lprev h)(n := new, new := p)\<rparr>"
  have "list_add_between h new p n = Inr ?h"
    using assms(4,5) by (simp add: list_add_between_def heap_access fun_upd_twist)
  moreover have c: "chain h (us @ [p])" "chain h (n # vs)"
    using assms(1) chain_append [of h us p "n # vs"] by auto
  have pu: "p \<notin> set us" "p \<notin> set (butlast (n # vs))" "n \<notin> set vs" "n \<notin> set (tl (us @ [p]))"
    using assms(2,3) by (cases us; auto simp: butlast_append split: if_splits)+
  have "chain ?h (us @ [p])"
    by (subst chain_cong [of _ _ h]) (use c(1) pu(1,4) assms(4) in \<open>auto simp: butlast_append dest: in_set_butlastD set_tl_subset\<close>)
  moreover have "chain ?h (n # vs)"
    by (subst chain_cong [of _ _ h]) (use c(2) pu(2,3) assms(4) in \<open>auto simp del: butlast.simps dest: in_set_butlastD\<close>)
  ultimately show ?thesis
    using assms(4) chain_append [of ?h us p "new # n # vs"] by (simp add: same_outside_def)
qed

lemma unlink_chain:
  assumes "chain h (us @ p # e # n # vs)" "distinct (butlast (us @ p # e # n # vs))"
    "distinct (tl (us @ p # e # n # vs))" "0 \<notin> set (p # n # [])"
  shows "\<exists>h'. list_del_between h p n = Inr h' \<and> chain h' (us @ p # n # vs) \<and> same_outside {p, n} h h'"
proof -
  let ?h = "h\<lparr>lnext := (lnext h)(p := n), lprev := (lprev h)(n := p)\<rparr>"
  have "list_del_between h p n = Inr ?h"
    using assms(4) by (simp add: list_del_between_def heap_access)
  moreover have c: "chain h (us @ [p])" "chain h (n # vs)"
    using assms(1) chain_append [of h us p "e # n # vs"] by auto
  have pu: "p \<notin> set us" "p \<notin> set (butlast (n # vs))" "n \<notin> set vs" "n \<notin> set (tl (us @ [p]))"
    using assms(2,3) by (cases us; auto simp: butlast_append split: if_splits)+
  have "chain ?h (us @ [p])"
    by (subst chain_cong [of _ _ h]) (use c(1) pu(1,4) in \<open>auto simp: butlast_append\<close>)
  moreover have "chain ?h (n # vs)"
    by (subst chain_cong [of _ _ h]) (use c(2) pu(2,3) in auto)
  ultimately show ?thesis
    using chain_append [of ?h us p "n # vs"] by (simp add: same_outside_def)
qed

section \<open>The operations on sequences\<close>

text \<open>The cycle through the head, and what is known of it.\<close>

abbreviation cycle :: "nat \<Rightarrow> nat list \<Rightarrow> nat list" where
  "cycle head xs \<equiv> head # xs @ [head]"

lemma is_listD:
  assumes "is_list h head xs"
  shows "chain h (cycle head xs)" "distinct (butlast (cycle head xs))" "distinct (tl (cycle head xs))"
    "head \<noteq> 0" "0 \<notin> set xs" "head \<notin> set xs" "distinct xs"
  using assms by (simp_all add: is_list_def butlast_append)

lemma is_list_first: "is_list h head xs \<Longrightarrow> lnext h head = hd (xs @ [head])"
  by (cases xs) (auto simp: is_list_def)

lemma is_list_last:
  assumes "is_list h head xs"
  shows "lprev h head = last (head # xs)"
proof (cases xs rule: rev_cases)
  case Nil
  with assms show ?thesis by (simp add: is_list_def)
next
  case (snoc ys y)
  with assms chain_append [of h "head # ys" y "[head]"] show ?thesis by (simp add: is_list_def)
qed

lemma list_empty_ok: "is_list h head xs \<Longrightarrow> list_empty h head = Inr (xs = [])"
  using is_list_first [of h head xs] by (cases xs) (auto simp: list_empty_def heap_access is_list_def)

lemma list_first_entry_ok: "is_list h head (x # xs) \<Longrightarrow> list_first_entry h head = Inr x"
  by (simp add: list_first_entry_def heap_access is_list_def)

lemma is_list_split:
  assumes "is_list h head (xs @ ys)"
  obtains us vs where "cycle head (xs @ ys) = us @ last (head # xs) # hd (ys @ [head]) # vs"
    "head # xs = us @ [last (head # xs)]" "ys @ [head] = hd (ys @ [head]) # vs"
    "lnext h (last (head # xs)) = hd (ys @ [head])" "lprev h (hd (ys @ [head])) = last (head # xs)"
proof -
  obtain us where us: "head # xs = us @ [last (head # xs)]" by (metis append_butlast_last_id list.distinct(1))
  obtain vs where vs: "ys @ [head] = hd (ys @ [head]) # vs" by (metis append_is_Nil_conv list.collapse list.distinct(1))
  have c: "cycle head (xs @ ys) = us @ last (head # xs) # hd (ys @ [head]) # vs"
    using us vs by (metis append.assoc append_Cons append_Nil)
  have "chain h (us @ last (head # xs) # hd (ys @ [head]) # vs)"
    using is_listD(1) [OF assms] unfolding c .
  then have "chain h (last (head # xs) # hd (ys @ [head]) # vs)" using chain_append by blast
  then have "lnext h (last (head # xs)) = hd (ys @ [head])" "lprev h (hd (ys @ [head])) = last (head # xs)"
    by (simp_all only: chain.simps)
  then show thesis by (rule that [OF c us vs])
qed

lemma link_list:
  assumes "is_list h head (xs @ ys)" "new \<noteq> 0" "new \<notin> set (head # xs @ ys)"
  shows "\<exists>h'. list_add_between h new (last (head # xs)) (hd (ys @ [head])) = Inr h' \<and>
    is_list h' head (xs @ new # ys) \<and> same_outside (set (head # new # xs @ ys)) h h'"
proof -
  note D = is_listD [OF assms(1)]
  obtain us vs where c: "cycle head (xs @ ys) = us @ last (head # xs) # hd (ys @ [head]) # vs"
    and us: "head # xs = us @ [last (head # xs)]" and vs: "ys @ [head] = hd (ys @ [head]) # vs"
    using is_list_split [OF assms(1)] by blast
  let ?p = "last (head # xs)" and ?n = "hd (ys @ [head])"
  have p: "?p \<in> set (head # xs)" by (rule last_in_set) simp
  have "?n \<in> set (ys @ [head])" by (rule hd_in_set) simp
  then have n: "?n \<in> set (head # ys)" by auto
  have new: "new \<notin> set (us @ ?p # ?n # vs)" unfolding c [symmetric] using assms(3) by auto
  have "0 \<notin> set (head # xs)" "0 \<notin> set (head # ys)" using D(4,5) by auto
  then have "0 \<noteq> ?p" "0 \<noteq> ?n" using p n by metis+
  then have z: "0 \<notin> set (new # ?p # ?n # [])" using assms(2) [symmetric] by (simp only: set_simps) blast
  obtain h' where h': "list_add_between h new ?p ?n = Inr h'" "chain h' (us @ ?p # new # ?n # vs)"
    "same_outside {new, ?p, ?n} h h'"
    using link_chain [OF D(1-3) [unfolded c] new z] by blast
  have "us @ ?p # new # ?n # vs = (us @ [?p]) @ new # (?n # vs)" by simp
  also have "\<dots> = cycle head (xs @ new # ys)" unfolding us [symmetric] vs [symmetric] by simp
  finally have "is_list h' head (xs @ new # ys)"
    using h'(2) D(4-7) assms(2,3) by (auto simp: is_list_def)
  moreover have "same_outside (set (head # new # xs @ ys)) h h'"
    by (rule same_outside_mono [OF h'(3)]) (use p n in \<open>simp only: set_simps set_append, blast\<close>)
  ultimately show ?thesis using h'(1) by blast
qed

lemma unlink_list:
  assumes "is_list h head (xs @ e # ys)"
  shows "\<exists>h'. list_del_entry h e = Inr h' \<and> is_list h' head (xs @ ys) \<and>
    same_outside (set (head # xs @ ys)) h h'"
proof -
  note D = is_listD [OF assms]
  obtain us where us: "head # xs = us @ [last (head # xs)]" and e1: "lprev h e = last (head # xs)"
    by (rule is_list_split [OF assms]) (simp add: that)
  obtain vs where vs: "ys @ [head] = hd (ys @ [head]) # vs" and e2: "lnext h e = hd (ys @ [head])"
    using is_list_split [of h head "xs @ [e]" ys] assms by auto
  let ?p = "last (head # xs)" and ?n = "hd (ys @ [head])"
  have c: "cycle head (xs @ e # ys) = us @ ?p # e # ?n # vs"
    using us vs by (metis append.assoc append_Cons append_Nil)
  have p: "?p \<in> set (head # xs)" by (rule last_in_set) simp
  have "?n \<in> set (ys @ [head])" by (rule hd_in_set) simp
  then have n: "?n \<in> set (head # ys)" by auto
  have "0 \<notin> set (head # xs)" "0 \<notin> set (head # ys)" using D(4,5) by auto
  then have "0 \<noteq> ?p" "0 \<noteq> ?n" using p n by metis+
  then have z: "0 \<notin> set (?p # ?n # [])" by (simp only: set_simps) blast
  obtain h' where h': "list_del_between h ?p ?n = Inr h'" "chain h' (us @ ?p # ?n # vs)"
    "same_outside {?p, ?n} h h'"
    using unlink_chain [OF D(1-3) [unfolded c] z] by blast
  have "us @ ?p # ?n # vs = (us @ [?p]) @ (?n # vs)" by simp
  also have "\<dots> = cycle head (xs @ ys)" unfolding us [symmetric] vs [symmetric] by simp
  finally have "is_list h' head (xs @ ys)" using h'(2) D(4-7) by (auto simp: is_list_def)
  moreover have "same_outside (set (head # xs @ ys)) h h'"
    by (rule same_outside_mono [OF h'(3)]) (use p n in \<open>simp only: set_simps set_append, blast\<close>)
  moreover have "e \<noteq> 0" using D(5) by auto
  then have "list_del_entry h e = Inr h'" using h'(1) by (simp add: list_del_entry_def heap_access e1 e2)
  ultimately show ?thesis by blast
qed

text \<open>The operations of the code, by these two.\<close>

lemma list_add_ok:
  assumes "is_list h head xs" "new \<noteq> 0" "new \<notin> set (head # xs)"
  shows "\<exists>h'. list_add h new head = Inr h' \<and> is_list h' head (new # xs) \<and>
    same_outside (set (head # new # xs)) h h'"
  using link_list [of h head "[]" xs new] is_list_first [OF assms(1)] is_listD(4) [OF assms(1)] assms
  by (simp add: list_add_def heap_access)

lemma list_add_tail_ok:
  assumes "is_list h head xs" "new \<noteq> 0" "new \<notin> set (head # xs)"
  shows "\<exists>h'. list_add_tail h new head = Inr h' \<and> is_list h' head (xs @ [new]) \<and>
    same_outside (set (head # new # xs)) h h'"
  using link_list [of h head xs "[]" new] is_list_last [OF assms(1)] is_listD(4) [OF assms(1)] assms
  by (simp add: list_add_tail_def heap_access)

lemma list_del_entry_ok:
  assumes "is_list h head xs" "e \<in> set xs"
  shows "\<exists>h'. list_del_entry h e = Inr h' \<and> is_list h' head (remove1 e xs) \<and>
    same_outside (set (head # remove1 e xs)) h h'"
proof -
  from assms(2) obtain us vs where xs: "xs = us @ e # vs" "e \<notin> set us" by (metis split_list_first)
  with unlink_list [of h head us e vs] assms(1) show ?thesis by (simp add: remove1_append)
qed

lemma list_del_init_ok:
  assumes "is_list h head xs" "e \<in> set xs"
  shows "\<exists>h'. list_del_init h e = Inr h' \<and> is_list h' head (remove1 e xs) \<and> is_list h' e [] \<and>
    same_outside (set (head # xs)) h h'"
proof -
  note D = is_listD [OF assms(1)]
  obtain h1 where h1: "list_del_entry h e = Inr h1" "is_list h1 head (remove1 e xs)"
    "same_outside (set (head # remove1 e xs)) h h1"
    using list_del_entry_ok [OF assms] by blast
  obtain h2 where h2: "INIT_LIST_HEAD h1 e = Inr h2" "is_list h2 e []" "same_outside {e} h1 h2"
    using INIT_LIST_HEAD_ok [of e h1] D(5) assms(2) by metis
  have "e \<notin> set (head # remove1 e xs)" using D(6,7) assms(2) by auto
  with is_list_frame [OF h1(2) h2(3)] have "is_list h2 head (remove1 e xs)" by auto
  moreover have "same_outside (set (head # xs)) h h2"
    by (rule same_outside_trans [OF h1(3) h2(3)]) (use assms(2) set_remove1_subset [of e xs] in auto)
  ultimately show ?thesis using h1(1) h2 by (simp add: list_del_init_def)
qed

lemma list_del_ok:
  assumes "is_list h head xs" "e \<in> set xs"
  shows "\<exists>h'. list_del h e = Inr h' \<and> is_list h' head (remove1 e xs) \<and> lnext h' e = 0 \<and> lprev h' e = 0 \<and>
    same_outside (set (head # xs)) h h'"
proof -
  note D = is_listD [OF assms(1)]
  obtain h1 where h1: "list_del_entry h e = Inr h1" "is_list h1 head (remove1 e xs)"
    "same_outside (set (head # remove1 e xs)) h h1"
    using list_del_entry_ok [OF assms] by blast
  let ?h = "h1\<lparr>lnext := (lnext h1)(e := 0), lprev := (lprev h1)(e := 0)\<rparr>"
  have s: "same_outside {e} h1 ?h" by (simp add: same_outside_def)
  have "e \<notin> set (head # remove1 e xs)" using D(6,7) assms(2) by auto
  with is_list_frame [OF h1(2) s] have "is_list ?h head (remove1 e xs)" by auto
  moreover have "same_outside (set (head # xs)) h ?h"
    by (rule same_outside_trans [OF h1(3) s]) (use assms(2) set_remove1_subset [of e xs] in auto)
  moreover have "e \<noteq> 0" using D(5) assms(2) by metis
  ultimately show ?thesis using h1(1) by (simp add: list_del_def heap_access)
qed

text \<open>Splicing puts a whole list between two neighbours.\<close>

lemma chain_join:
  assumes "us \<noteq> []" "vs \<noteq> []"
  shows "chain h (us @ vs) \<longleftrightarrow>
    chain h us \<and> chain h vs \<and> lnext h (last us) = hd vs \<and> lprev h (hd vs) = last us"
proof -
  obtain as p where us: "us = as @ [p]" using assms(1) by (metis append_butlast_last_id)
  obtain q bs where vs: "vs = q # bs" using assms(2) by (cases vs) auto
  show ?thesis using chain_append [of h as p "q # bs"] by (auto simp: us vs)
qed

lemma not_in_butlast: "distinct xs \<Longrightarrow> last xs \<notin> set (butlast xs)"
  by (cases xs rule: rev_cases) auto

lemma not_in_tl: "distinct xs \<Longrightarrow> hd xs \<notin> set (tl xs)"
  by (cases xs) auto

lemma splice_list:
  assumes "is_list h head (as @ bs)" "is_list h l xs" "xs \<noteq> []" "set (l # xs) \<inter> set (head # as @ bs) = {}"
  shows "\<exists>h'. list_splice_between h l (last (head # as)) (hd (bs @ [head])) = Inr h' \<and>
    is_list h' head (as @ xs @ bs) \<and> same_outside (set (head # as @ xs @ bs)) h h'"
proof -
  note D = is_listD [OF assms(1)] and L = is_listD [OF assms(2)]
  let ?us = "head # as" and ?vs = "bs @ [head]"
  let ?p = "last ?us" and ?n = "hd ?vs" and ?f = "hd xs" and ?e = "last xs"
  let ?h = "h\<lparr>lnext := (lnext h)(?p := ?f, ?e := ?n), lprev := (lprev h)(?f := ?p, ?n := ?e)\<rparr>"
  have p: "?p \<in> set ?us" and n: "?n \<in> set ?vs" and f: "?f \<in> set xs" and e: "?e \<in> set xs"
    by (rule last_in_set hd_in_set; simp add: assms(3))+
  have z: "0 \<notin> set ?us" "0 \<notin> set ?vs" "0 \<notin> set xs" using D(4,5) L(5) by auto
  have "?p \<noteq> 0" "?n \<noteq> 0" "?f \<noteq> 0" "?e \<noteq> 0" using z p n f e by metis+
  moreover have "lnext h l = ?f" "lprev h l = ?e"
    using is_list_first [OF assms(2)] is_list_last [OF assms(2)] assms(3) by auto
  ultimately have r: "list_splice_between h l ?p ?n = Inr ?h"
    using L(4) by (simp add: list_splice_between_def heap_access)
  have dis: "x \<in> set xs \<Longrightarrow> x \<notin> set ?us \<and> x \<notin> set ?vs" for x using assms(4) by auto
  have d: "distinct ?us" "distinct ?vs" "distinct xs" using D(6,7) L(7) by auto
  have c: "chain h ?us" "chain h ?vs" "chain h xs"
    using chain_join [of ?us ?vs h] D(1) chain_join [of "[l]" "xs @ [l]" h] chain_join [of xs "[l]" h] L(1) assms(3)
    by simp_all
  have c': "chain ?h ?us" "chain ?h ?vs" "chain ?h xs"
  proof -
    have "?p \<notin> set (butlast ?us)" "?e \<notin> set (butlast ?us)" "?f \<notin> set (tl ?us)" "?n \<notin> set (tl ?us)"
      using not_in_butlast [OF d(1)] dis [OF e] dis [OF f] n D(6,7) by (auto dest: in_set_butlastD)
    then show "chain ?h ?us" using c(1) by (subst chain_cong [of _ _ h]) auto
    have "?p \<notin> set (butlast ?vs)" "?e \<notin> set (butlast ?vs)" "?f \<notin> set (tl ?vs)" "?n \<notin> set (tl ?vs)"
      using not_in_tl [OF d(2)] dis [OF e] dis [OF f] p D(6,7) by (auto dest: in_set_butlastD set_tl_subset)
    then show "chain ?h ?vs" using c(2) by (subst chain_cong [of _ _ h]) auto
    have "?p \<notin> set (butlast xs)" "?e \<notin> set (butlast xs)" "?f \<notin> set (tl xs)" "?n \<notin> set (tl xs)"
      using not_in_tl [OF d(3)] not_in_butlast [OF d(3)] dis p n by (auto dest: in_set_butlastD set_tl_subset)
    then show "chain ?h xs" using c(3) by (subst chain_cong [of _ _ h]) auto
  qed
  have "?p \<noteq> ?e" "?n \<noteq> ?f" using dis e f p n by metis+
  then have "chain ?h (?us @ xs @ ?vs)"
    using c' assms(3) chain_join [of ?us "xs @ ?vs" ?h] chain_join [of xs ?vs ?h]
      hd_append2 [OF assms(3), of ?vs]
    by (simp del: last.simps)
  then have "is_list ?h head (as @ xs @ bs)"
    using d dis D(4-7) L(5) by (auto simp: is_list_def)
  moreover have "same_outside {?p, ?n, ?f, ?e} h ?h" by (simp add: same_outside_def)
  then have "same_outside (set (head # as @ xs @ bs)) h ?h"
    by (rule same_outside_mono) (use p n f e in \<open>simp only: set_simps set_append, blast\<close>)
  ultimately show ?thesis using r by blast
qed

lemma splice_all:
  assumes "is_list h head ys" "is_list h l xs" "set (l # xs) \<inter> set (head # ys) = {}"
  shows "\<exists>h'. list_splice h l head = Inr h' \<and> is_list h' head (xs @ ys) \<and>
      same_outside (set (head # xs @ ys)) h h'"
    "\<exists>h'. list_splice_tail h l head = Inr h' \<and> is_list h' head (ys @ xs) \<and>
      same_outside (set (head # xs @ ys)) h h'"
proof -
  note e = list_empty_ok [OF assms(2)]
  note D = is_listD [OF assms(1)]
  have n: "get_next h head = Inr (hd (ys @ [head]))" "get_prev h head = Inr (last (head # ys))"
    using is_list_first [OF assms(1)] is_list_last [OF assms(1)] D(4) by (simp_all add: heap_access)
  show "\<exists>h'. list_splice h l head = Inr h' \<and> is_list h' head (xs @ ys) \<and>
      same_outside (set (head # xs @ ys)) h h'"
    using splice_list [of h head "[]" ys l xs] assms same_outside_refl e n(1)
    by (cases "xs = []") (auto simp: list_splice_def)
  show "\<exists>h'. list_splice_tail h l head = Inr h' \<and> is_list h' head (ys @ xs) \<and>
      same_outside (set (head # xs @ ys)) h h'"
    using splice_list [of h head ys "[]" l xs] assms same_outside_refl e n(2)
    by (cases "xs = []") (auto simp: list_splice_tail_def Un_commute)
qed

lemma splice_init_by: 
  "list_splice_init h l head = bindE (list_empty h l) (\<lambda>e. if \<not> e
     then bindE (list_splice h l head) (\<lambda>h'. INIT_LIST_HEAD h' l) else Inr h)"
  "list_splice_tail_init h l head = bindE (list_empty h l) (\<lambda>e. if \<not> e
     then bindE (list_splice_tail h l head) (\<lambda>h'. INIT_LIST_HEAD h' l) else Inr h)"
  by (cases "list_empty h l"; simp add: list_splice_init_def list_splice_tail_init_def list_splice_def
      list_splice_tail_def bindE_assoc)+

lemma splice_init_all:
  assumes "is_list h head ys" "is_list h l xs" "set (l # xs) \<inter> set (head # ys) = {}"
  shows "\<exists>h'. list_splice_init h l head = Inr h' \<and> is_list h' head (xs @ ys) \<and> is_list h' l [] \<and>
      same_outside (set (l # head # xs @ ys)) h h'"
    "\<exists>h'. list_splice_tail_init h l head = Inr h' \<and> is_list h' head (ys @ xs) \<and> is_list h' l [] \<and>
      same_outside (set (l # head # xs @ ys)) h h'"
proof -
  have l: "l \<noteq> 0" using is_listD(4) [OF assms(2)] .
  have init: "\<exists>h''. INIT_LIST_HEAD h' l = Inr h'' \<and> is_list h'' head zs \<and> is_list h'' l [] \<and>
      same_outside (set (l # head # xs @ ys)) h h''"
    if "is_list h' head zs" "same_outside (set (head # xs @ ys)) h h'" "set zs = set xs \<union> set ys" for h' zs
  proof -
    obtain h'' where h: "INIT_LIST_HEAD h' l = Inr h''" "is_list h'' l []" "same_outside {l} h' h''"
      using INIT_LIST_HEAD_ok [OF l] by blast
    have "l \<notin> set (head # zs)" using assms(3) that(3) is_listD(6) [OF assms(2)] by auto
    then have "is_list h'' head zs" using is_list_frame [OF that(1) h(3)] by blast
    with h same_outside_trans [OF that(2) h(3), of "set (l # head # xs @ ys)"] show ?thesis by auto
  qed
  note e = list_empty_ok [OF assms(2)]
  show "\<exists>h'. list_splice_init h l head = Inr h' \<and> is_list h' head (xs @ ys) \<and> is_list h' l [] \<and>
      same_outside (set (l # head # xs @ ys)) h h'"
  proof (cases "xs = []")
    case True
    then show ?thesis using assms e same_outside_refl by (simp add: splice_init_by)
  next
    case False
    obtain h' where "list_splice h l head = Inr h'" "is_list h' head (xs @ ys)"
      "same_outside (set (head # xs @ ys)) h h'" using splice_all(1) [OF assms] by blast
    with init [of h' "xs @ ys"] False e show ?thesis by (simp add: splice_init_by)
  qed
  show "\<exists>h'. list_splice_tail_init h l head = Inr h' \<and> is_list h' head (ys @ xs) \<and> is_list h' l [] \<and>
      same_outside (set (l # head # xs @ ys)) h h'"
  proof (cases "xs = []")
    case True
    then show ?thesis using assms e same_outside_refl by (simp add: splice_init_by)
  next
    case False
    obtain h' where "list_splice_tail h l head = Inr h'" "is_list h' head (ys @ xs)"
      "same_outside (set (head # xs @ ys)) h h'" using splice_all(2) [OF assms] by blast
    with init [of h' "ys @ xs"] False e show ?thesis by (auto simp: splice_init_by)
  qed
qed

text \<open>Moving an element inside of its list.\<close>

lemma move_ok:
  assumes "is_list h head xs" "e \<in> set xs"
  shows "\<exists>h'. list_move h e head = Inr h' \<and> is_list h' head (e # remove1 e xs) \<and> same_outside (set (head # xs)) h h'"
    "\<exists>h'. list_move_tail h e head = Inr h' \<and> is_list h' head (remove1 e xs @ [e]) \<and> same_outside (set (head # xs)) h h'"
proof -
  note D = is_listD [OF assms(1)]
  obtain h1 where h1: "list_del_entry h e = Inr h1" "is_list h1 head (remove1 e xs)"
    "same_outside (set (head # remove1 e xs)) h h1"
    using list_del_entry_ok [OF assms] by blast
  have new: "e \<noteq> 0" "e \<notin> set (head # remove1 e xs)" using D(5,6,7) assms(2) by (metis, auto)
  have sub: "set (head # remove1 e xs) \<subseteq> set (head # xs)" "set (head # e # remove1 e xs) \<subseteq> set (head # xs)"
    using assms(2) set_remove1_subset [of e xs] by auto
  show "\<exists>h'. list_move h e head = Inr h' \<and> is_list h' head (e # remove1 e xs) \<and> same_outside (set (head # xs)) h h'"
    using list_add_ok [OF h1(2) new] h1(1) same_outside_trans [OF h1(3) _ sub] by (auto simp: list_move_def)
  show "\<exists>h'. list_move_tail h e head = Inr h' \<and> is_list h' head (remove1 e xs @ [e]) \<and> same_outside (set (head # xs)) h h'"
    using list_add_tail_ok [OF h1(2) new] h1(1) same_outside_trans [OF h1(3) _ sub] by (auto simp: list_move_tail_def)
qed

lemma rotate_left_ok:
  assumes "is_list h head xs"
  shows "\<exists>h'. list_rotate_left h head = Inr h' \<and> is_list h' head (rotate1 xs) \<and> same_outside (set (head # xs)) h h'"
proof (cases xs)
  case Nil
  then show ?thesis
    using list_empty_ok [OF assms] assms same_outside_refl by (simp add: list_rotate_left_def)
next
  case (Cons x ys)
  have "get_next h head = Inr x" using list_first_entry_ok [of h head x ys] assms Cons by (simp add: list_first_entry_def)
  moreover have "remove1 x (x # ys) = ys" by simp
  ultimately show ?thesis
    using move_ok(2) [OF assms, of x] list_empty_ok [OF assms] Cons by (simp add: list_rotate_left_def)
qed

section \<open>The loops on sequences\<close>

fun foldE :: "('a \<Rightarrow> 's \<Rightarrow> 's res) \<Rightarrow> 'a list \<Rightarrow> 's \<Rightarrow> 's res" where
  "foldE f [] s = Inr s"
| "foldE f (x # xs) s = bindE (f x s) (foldE f xs)"

lemma for_each_from_ok:
  assumes "is_list h head (as @ bs)"
  shows "for_each_from (\<lambda>p (h, s). bindE (f p s) (\<lambda>s. Inr (h, s))) head (hd (bs @ [head])) (h, s) =
    Some (bindE (foldE f bs s) (\<lambda>s. Inr (h, s)))"
  using assms
proof (induction bs arbitrary: as s)
  case Nil
  then show ?case by (subst for_each_from.simps) (use is_listD(4) in \<open>auto simp: heap_access\<close>)
next
  case (Cons b bs)
  note D = is_listD [OF Cons.prems]
  have b: "b \<noteq> 0" "b \<noteq> head" using D(5,6) by auto
  have l: "is_list h head ((as @ [b]) @ bs)" using Cons.prems by simp
  have n: "lnext h b = hd (bs @ [head])"
    by (rule is_list_split [OF l]) simp
  show ?case
  proof (cases "f b s")
    case (Inl e)
    then show ?thesis using b by (subst for_each_from.simps) (simp add: heap_access)
  next
    case (Inr s')
    then show ?thesis
      using b n Cons.IH [OF l, of s'] by (subst for_each_from.simps) (simp add: heap_access)
  qed
qed

text \<open>The loop that is safe against removal: what the body keeps of the elements before, of the
  current one and of those after it is an invariant \<open>I\<close>.\<close>

lemma for_each_safe_from_ok:
  assumes step: "\<And>done p rest hs. I done (p # rest) hs \<Longrightarrow> \<exists>hs'. body p hs = Inr hs' \<and> I (done @ [p]) rest hs'"
    and next_: "\<And>done p rest hs. I done (p # rest) hs \<Longrightarrow> p \<noteq> 0 \<and> p \<noteq> head \<and> lnext (fst hs) p = hd (rest @ [head])"
    and "head \<noteq> 0" "I done rest hs"
    and "rest \<noteq> [] \<Longrightarrow> n = hd (tl rest @ [head])"
  shows "\<exists>hs'. for_each_safe_from body head (hd (rest @ [head])) n hs = Some (Inr hs') \<and> I (done @ rest) [] hs'"
  using assms(4,5)
proof (induction rest arbitrary: "done" hs n)
  case Nil
  then show ?case by (subst for_each_safe_from.simps) simp
next
  case (Cons p ps)
  obtain hs' where b: "body p hs = Inr hs'" "I (done @ [p]) ps hs'" using step [OF Cons.prems(1)] by blast
  have n: "n = hd (ps @ [head])" using Cons.prems(2) by simp
  have "n \<noteq> 0" using n next_ [of "done @ [p]"] b(2) assms(3) by (cases ps) auto
  moreover have "\<exists>hs''. for_each_safe_from body head (hd (ps @ [head])) (lnext (fst hs') n) hs' =
      Some (Inr hs'') \<and> I ((done @ [p]) @ ps) [] hs''"
    by (rule Cons.IH) (use b(2) n next_ in \<open>auto simp: neq_Nil_conv\<close>)
  ultimately show ?case
    using b(1) n next_ [OF Cons.prems(1)] by (subst for_each_safe_from.simps) (auto simp: heap_access)
qed

lemma list_for_each_safe_ok:
  assumes "\<And>done p rest hs. I done (p # rest) hs \<Longrightarrow> \<exists>hs'. body p hs = Inr hs' \<and> I (done @ [p]) rest hs'"
    and "\<And>done p rest hs. I done (p # rest) hs \<Longrightarrow> p \<noteq> 0 \<and> p \<noteq> head \<and> lnext (fst hs) p = hd (rest @ [head])"
    and "is_list (fst hs) head xs" "I [] xs hs"
  shows "\<exists>hs'. list_for_each_safe body head hs = Some (Inr hs') \<and> I xs [] hs'"
proof -
  have head: "head \<noteq> 0" by (rule is_listD(4) [OF assms(3)])
  have first: "get_next (fst hs) head = Inr (hd (xs @ [head]))"
    using is_list_first [OF assms(3)] head by (simp add: heap_access)
  have "hd (xs @ [head]) \<noteq> 0" using assms(2,4) head by (cases xs) auto
  moreover have "xs \<noteq> [] \<Longrightarrow> lnext (fst hs) (hd (xs @ [head])) = hd (tl xs @ [head])"
    using assms(2,4) by (cases xs) auto
  moreover from this have "\<exists>hs'. for_each_safe_from body head (hd (xs @ [head]))
      (lnext (fst hs) (hd (xs @ [head]))) hs = Some (Inr hs') \<and> I ([] @ xs) [] hs'"
    by (intro for_each_safe_from_ok [where I = I]) (use assms(1,2,4) head in auto)
  ultimately show ?thesis using first by (simp add: list_for_each_safe_def heap_access)
qed

section \<open>Lists behave as sequences\<close>

text \<open>Every list of the heap that is apart from the addresses \<open>A\<close> is as before.\<close>

definition others_kept :: "nat set \<Rightarrow> list_heap \<Rightarrow> list_heap \<Rightarrow> bool" where
  "others_kept A h h' \<longleftrightarrow> (\<forall>l ys. is_list h l ys \<longrightarrow> set (l # ys) \<inter> A = {} \<longrightarrow> is_list h' l ys)"

lemma others_keptI: "same_outside A h h' \<Longrightarrow> A \<subseteq> B \<Longrightarrow> others_kept B h h'"
  unfolding others_kept_def using is_list_frame by blast


text \<open>
  Splicing a list into another one puts its elements, in their order, before or behind the
  elements of the other and leaves it empty; rotating moves the first element to the end.
\<close>

lemma list_splice_on_sequences:
  assumes "is_list h head ys" "is_list h l xs" "set (l # xs) \<inter> set (head # ys) = {}"
  shows "(\<exists>h'. list_splice_init h l head = Inr h' \<and> is_list h' head (xs @ ys) \<and> is_list h' l [] \<and>
       others_kept (set (l # head # xs @ ys)) h h') \<and>
    (\<exists>h'. list_splice_tail_init h l head = Inr h' \<and> is_list h' head (ys @ xs) \<and> is_list h' l [] \<and>
       others_kept (set (l # head # xs @ ys)) h h') \<and>
    (\<exists>h'. list_rotate_left h head = Inr h' \<and> is_list h' head (rotate1 ys) \<and> is_list h' l xs)"
proof (intro conjI)
  show "\<exists>h'. list_splice_init h l head = Inr h' \<and> is_list h' head (xs @ ys) \<and> is_list h' l [] \<and>
      others_kept (set (l # head # xs @ ys)) h h'"
    using splice_init_all(1) [OF assms] others_keptI by blast
  show "\<exists>h'. list_splice_tail_init h l head = Inr h' \<and> is_list h' head (ys @ xs) \<and> is_list h' l [] \<and>
      others_kept (set (l # head # xs @ ys)) h h'"
    using splice_init_all(2) [OF assms] others_keptI by blast
  obtain h' where "list_rotate_left h head = Inr h'" "is_list h' head (rotate1 ys)" "same_outside (set (head # ys)) h h'"
    using rotate_left_ok [OF assms(1)] by blast
  moreover from this(3) assms(2,3) have "is_list h' l xs" using is_list_frame by blast
  ultimately show "\<exists>h'. list_rotate_left h head = Inr h' \<and> is_list h' head (rotate1 ys) \<and> is_list h' l xs"
    by blast
qed

text \<open>
  A loop over a well linked list, with a body that works on something else and may fail,
  ends, and runs the body on the elements one by one in their order.
\<close>

lemma list_for_each_visits:
  assumes "is_list h head xs"
  shows "list_for_each (\<lambda>p (h, s). bindE (f p s) (\<lambda>s. Inr (h, s))) head (h, s) =
    Some (bindE (foldE f xs s) (\<lambda>s. Inr (h, s)))"
  using for_each_from_ok [of h head "[]" xs f s] assms is_list_first [OF assms] is_listD(4) [OF assms]
  by (simp add: list_for_each_def heap_access)

section \<open>A concrete heap\<close>

definition heap_23_5 :: list_heap where
  "heap_23_5 = \<lparr>lnext = (\<lambda>_. 0)(1 := 2, 2 := 3, 3 := 1, 4 := 5, 5 := 4),
     lprev = (\<lambda>_. 0)(2 := 1, 3 := 2, 1 := 3, 5 := 4, 4 := 5)\<rparr>"

lemma heap_23_5_lists: "is_list heap_23_5 1 [2, 3]" "is_list heap_23_5 4 [5]"
  by (simp_all add: is_list_def heap_23_5_def)


theorem list_splice_on_sequences_witness:
  "\<exists>h'. list_splice_init heap_23_5 4 1 = Inr h' \<and> is_list h' 1 [5, 2, 3] \<and> is_list h' 4 []"
  using list_splice_on_sequences [OF heap_23_5_lists] by auto

end
