(* ===== verification/Linked_Table.thy ===== *)
theory Linked_Table
  imports Generic_List Member_Table Soft_Timer
begin

text \<open>
  The member table and the scan of the timer wheel once more, now with their lists linked
  through the heap as \<^verbatim>\<open>src/rtp_member_table.c\<close> and \<^verbatim>\<open>src/soft_timer.c\<close> do it. Both refine the
  definitions on sequences that everything else is proved about.
\<close>

section \<open>The member table on the heap\<close>

text \<open>The list heads of the table, and those inside of the members: the address of slot \<open>i\<close>, and
  \<open>container_of\<close>.\<close>

definition FREE_HEAD :: nat where "FREE_HEAD = 1"
definition USED_HEAD :: nat where "USED_HEAD = 2"

definition le_of :: "nat \<Rightarrow> nat" where "le_of i = i + 3"
definition slot_of :: "nat \<Rightarrow> nat" where "slot_of a = a - 3"

record linked_table =
  lt_heap :: list_heap
  lt_array :: "rtp_member list"
  lt_num :: u32

definition linked_init :: "linked_table \<Rightarrow> linked_table res" where
  "linked_init lt =
     bindE (INIT_LIST_HEAD (lt_heap lt) FREE_HEAD) (\<lambda>h.
     bindE (INIT_LIST_HEAD h USED_HEAD) (\<lambda>h.
     bindE (foldE (\<lambda>i h. list_add_tail h (le_of i) FREE_HEAD) [0..<RTP_CONFIG_MAX_MEMBERS_PER_SESSION] h) (\<lambda>h.
     Inr (lt\<lparr>lt_heap := h, lt_num := 0\<rparr>))))"

partial_function (option) linked_lookup_from :: "linked_table \<Rightarrow> u32 \<Rightarrow> nat \<Rightarrow> nat option res option" where
  "linked_lookup_from lt ssrc pos =
     lift_res (get_next (lt_heap lt) pos) (\<lambda>_.
     if pos = USED_HEAD then Some (Inr None)
     else if m_ssrc (lt_array lt ! slot_of pos) = ssrc then Some (Inr (Some (slot_of pos)))
     else lift_res (get_next (lt_heap lt) pos) (\<lambda>n. linked_lookup_from lt ssrc n))"

definition linked_lookup :: "linked_table \<Rightarrow> u32 \<Rightarrow> nat option res option" where
  "linked_lookup lt ssrc =
     lift_res (get_next (lt_heap lt) USED_HEAD) (\<lambda>pos. linked_lookup_from lt ssrc pos)"

definition linked_alloc :: "linked_table \<Rightarrow> u32 \<Rightarrow> (linked_table \<times> nat option) res" where
  "linked_alloc lt ssrc =
     bindE (list_empty (lt_heap lt) FREE_HEAD) (\<lambda>e.
     if e then Inr (lt, None)
     else bindE (list_first_entry (lt_heap lt) FREE_HEAD) (\<lambda>m.
          bindE (list_del_init (lt_heap lt) m) (\<lambda>h.
          let i = slot_of m; a = (lt_array lt)[i := rtp_member_init (lt_array lt ! i) ssrc] in
          bindE (list_add_tail h m USED_HEAD) (\<lambda>h.
          Inr (lt\<lparr>lt_heap := h, lt_array := a, lt_num := lt_num lt + 1\<rparr>, Some i)))))"

definition linked_free :: "linked_table \<Rightarrow> nat \<Rightarrow> linked_table res" where
  "linked_free lt i =
     bindE (list_del_init (lt_heap lt) (le_of i)) (\<lambda>h.
     bindE (list_add_tail h (le_of i) FREE_HEAD) (\<lambda>h.
     Inr (lt\<lparr>lt_heap := h, lt_num := lt_num lt - 1\<rparr>)))"

definition linked_get_first :: "linked_table \<Rightarrow> nat option res" where
  "linked_get_first lt =
     bindE (list_empty (lt_heap lt) USED_HEAD) (\<lambda>e.
     if e then Inr None
     else bindE (list_first_entry (lt_heap lt) USED_HEAD) (\<lambda>m. Inr (Some (slot_of m))))"

definition linked_get_next :: "linked_table \<Rightarrow> nat option \<Rightarrow> nat option res" where
  "linked_get_next lt m =
     (case m of
        None \<Rightarrow> linked_get_first lt
      | Some i \<Rightarrow>
          bindE (list_is_last (lt_heap lt) (le_of i) USED_HEAD) (\<lambda>b.
          if b then Inr None
          else bindE (get_next (lt_heap lt) (le_of i)) (\<lambda>n. Inr (Some (slot_of n)))))"

text \<open>When a table on the heap holds a table of sequences.\<close>

definition linked :: "linked_table \<Rightarrow> rtp_member_table \<Rightarrow> bool" where
  "linked lt mt \<longleftrightarrow>
     is_list (lt_heap lt) FREE_HEAD (map le_of (free_list mt)) \<and>
     is_list (lt_heap lt) USED_HEAD (map le_of (used_list mt)) \<and>
     lt_array lt = member_array mt \<and> lt_num lt = num_members mt"

lemma le_of_facts [simp]:
  "slot_of (le_of i) = i" "le_of i = le_of j \<longleftrightarrow> i = j" "le_of i \<noteq> FREE_HEAD" "le_of i \<noteq> USED_HEAD"
  "FREE_HEAD \<noteq> le_of i" "USED_HEAD \<noteq> le_of i" "le_of i \<noteq> 0" "0 < le_of i"
  "FREE_HEAD \<noteq> USED_HEAD" "USED_HEAD \<noteq> FREE_HEAD" "FREE_HEAD \<noteq> 0" "USED_HEAD \<noteq> 0" "0 < FREE_HEAD" "0 < USED_HEAD"
  by (simp_all add: le_of_def slot_of_def FREE_HEAD_def USED_HEAD_def)

lemma inj_le_of: "inj_on le_of A"
  by (simp add: inj_on_def)

lemma map_le_of_remove1: "map le_of (remove1 i xs) = remove1 (le_of i) (map le_of xs)"
  by (induction xs) auto

text \<open>Moving an element from one list to the end of another, which \<open>alloc\<close> and \<open>free\<close> both do.\<close>

lemma move_between:
  assumes "is_list h l1 xs" "is_list h l2 ys" "e \<in> set xs" "set (l1 # xs) \<inter> set (l2 # ys) = {}"
  shows "\<exists>h1 h2. list_del_init h e = Inr h1 \<and> list_add_tail h1 e l2 = Inr h2 \<and>
    is_list h2 l1 (remove1 e xs) \<and> is_list h2 l2 (ys @ [e])"
proof -
  note D = is_listD [OF assms(1)]
  obtain h1 where h1: "list_del_init h e = Inr h1" "is_list h1 l1 (remove1 e xs)"
    "same_outside (set (l1 # xs)) h h1"
    using list_del_init_ok [OF assms(1,3)] by blast
  have l2: "is_list h1 l2 ys" by (rule is_list_frame [OF assms(2) h1(3) assms(4)])
  have e: "e \<noteq> 0" "e \<notin> set (l2 # ys)" using D(5) assms(3,4) by (metis, auto)
  obtain h2 where h2: "list_add_tail h1 e l2 = Inr h2" "is_list h2 l2 (ys @ [e])"
    "same_outside (set (l2 # e # ys)) h1 h2"
    using list_add_tail_ok [OF l2 e] by blast
  have "set (l2 # e # ys) \<inter> set (l1 # remove1 e xs) = {}"
    using assms(3,4) D(6,7) set_remove1_subset [of e xs] by auto
  from is_list_frame [OF h1(2) h2(3) this] h1(1) h2(1,2) show ?thesis by blast
qed

lemma linked_apart:
  assumes "mt_slots mt"
  shows "set (FREE_HEAD # map le_of (free_list mt)) \<inter> set (USED_HEAD # map le_of (used_list mt)) = {}"
  using mt_slotsD(3) [OF assms] by auto

lemma linked_alloc_ok:
  assumes "mt_slots mt" "linked lt mt"
  shows "case rtp_member_table_alloc_member mt ssrc of
      None \<Rightarrow> linked_alloc lt ssrc = Inr (lt, None)
    | Some (mt', i) \<Rightarrow> \<exists>lt'. linked_alloc lt ssrc = Inr (lt', Some i) \<and> linked lt' mt'"
proof (cases "free_list mt")
  case Nil
  then show ?thesis
    using assms(2) list_empty_ok [of "lt_heap lt" FREE_HEAD "[]"]
    by (simp add: rtp_member_table_alloc_member_def linked_alloc_def linked_def)
next
  case (Cons i js)
  have f: "is_list (lt_heap lt) FREE_HEAD (le_of i # map le_of js)"
    and u: "is_list (lt_heap lt) USED_HEAD (map le_of (used_list mt))"
    using assms(2) Cons by (simp_all add: linked_def)
  have "set (FREE_HEAD # le_of i # map le_of js) \<inter> set (USED_HEAD # map le_of (used_list mt)) = {}"
    using linked_apart [OF assms(1)] Cons by simp
  from move_between [OF f u _ this, of "le_of i"] obtain h1 h2 where
    "list_del_init (lt_heap lt) (le_of i) = Inr h1" "list_add_tail h1 (le_of i) USED_HEAD = Inr h2"
    "is_list h2 FREE_HEAD (map le_of js)" "is_list h2 USED_HEAD (map le_of (used_list mt) @ [le_of i])"
    by auto
  with assms(2) Cons list_empty_ok [OF f] list_first_entry_ok [OF f] show ?thesis
    by (simp add: rtp_member_table_alloc_member_def linked_alloc_def linked_def)
qed

lemma linked_free_ok:
  assumes "mt_slots mt" "linked lt mt" "i \<in> set (used_list mt)"
  shows "\<exists>lt'. linked_free lt i = Inr lt' \<and> linked lt' (rtp_member_table_free mt i)"
proof -
  have l: "is_list (lt_heap lt) USED_HEAD (map le_of (used_list mt))"
    "is_list (lt_heap lt) FREE_HEAD (map le_of (free_list mt))" "le_of i \<in> set (map le_of (used_list mt))"
    using assms(2,3) by (simp_all add: linked_def)
  have "i \<notin> set (free_list mt)" using mt_slotsD(3) [OF assms(1)] assms(3) by auto
  moreover obtain h1 h2 where "list_del_init (lt_heap lt) (le_of i) = Inr h1"
    "list_add_tail h1 (le_of i) FREE_HEAD = Inr h2"
    "is_list h2 USED_HEAD (remove1 (le_of i) (map le_of (used_list mt)))"
    "is_list h2 FREE_HEAD (map le_of (free_list mt) @ [le_of i])"
    using move_between [OF l] linked_apart [OF assms(1)] by (auto simp: Int_commute)
  ultimately show ?thesis
    using assms(2) by (simp add: linked_free_def linked_def rtp_member_table_free_def map_le_of_remove1 remove1_idem)
qed

lemma linked_lookup_from_ok:
  assumes "is_list (lt_heap lt) USED_HEAD (map le_of (as @ bs))"
  shows "linked_lookup_from lt ssrc (hd (map le_of bs @ [USED_HEAD])) =
    Some (Inr (find (\<lambda>i. m_ssrc (lt_array lt ! i) = ssrc) bs))"
  using assms
proof (induction bs arbitrary: as)
  case Nil
  then show ?case by (subst linked_lookup_from.simps) (simp add: heap_access)
next
  case (Cons b bs)
  have l: "is_list (lt_heap lt) USED_HEAD (map le_of ((as @ [b]) @ bs))" using Cons.prems by simp
  have l': "is_list (lt_heap lt) USED_HEAD (map le_of (as @ [b]) @ map le_of bs)" using Cons.prems by simp
  have "lnext (lt_heap lt) (le_of b) = hd (map le_of bs @ [USED_HEAD])"
    by (rule is_list_split [OF l']) simp
  with Cons.IH [OF l] show ?case by (subst linked_lookup_from.simps) (simp add: heap_access)
qed

lemma linked_lookup_ok:
  "linked lt mt \<Longrightarrow> linked_lookup lt ssrc = Some (Inr (rtp_member_table_lookup mt ssrc))"
  using linked_lookup_from_ok [of lt "[]" "used_list mt" ssrc] is_list_first [of "lt_heap lt" USED_HEAD "map le_of (used_list mt)"]
  by (simp add: linked_lookup_def linked_def heap_access rtp_member_table_lookup_def)

lemma linked_first_ok: "linked lt mt \<Longrightarrow> linked_get_first lt = Inr (rtp_member_table_get_first mt)"
  using list_empty_ok [of "lt_heap lt" USED_HEAD] list_first_entry_ok [of "lt_heap lt" USED_HEAD]
  by (cases "used_list mt") (auto simp: linked_get_first_def linked_def rtp_member_table_get_first_def)

lemma next_in_split: "distinct (as @ m # bs) \<Longrightarrow> next_in (as @ m # bs) m = (case bs of [] \<Rightarrow> None | b # _ \<Rightarrow> Some b)"
  by (induction as rule: induct_list012) (auto split: list.splits)

lemma linked_next_ok:
  assumes "mt_slots mt" "linked lt mt" "i \<in> set (used_list mt)"
  shows "linked_get_next lt (Some i) = Inr (rtp_member_table_get_next mt (Some i))"
proof -
  from assms(3) obtain as bs where u: "used_list mt = as @ i # bs" by (metis split_list)
  have l: "is_list (lt_heap lt) USED_HEAD (map le_of (as @ [i]) @ map le_of bs)"
    using assms(2) u by (simp add: linked_def)
  have "lnext (lt_heap lt) (le_of i) = hd (map le_of bs @ [USED_HEAD])"
    by (rule is_list_split [OF l]) simp
  moreover have "distinct (as @ i # bs)" using mt_slotsD(1) [OF assms(1)] u by simp
  ultimately show ?thesis
    using next_in_split [of as i bs] u
    by (cases bs) (simp_all add: linked_get_next_def list_is_last_def heap_access rtp_member_table_get_next_def)
qed

lemma add_all_tail:
  assumes "is_list h FREE_HEAD (map le_of done)" "distinct (done @ js)"
  shows "\<exists>h'. foldE (\<lambda>i h. list_add_tail h (le_of i) FREE_HEAD) js h = Inr h' \<and>
    is_list h' FREE_HEAD (map le_of (done @ js)) \<and> same_outside (insert FREE_HEAD (le_of ` set (done @ js))) h h'"
  using assms
proof (induction js arbitrary: h "done")
  case Nil
  then show ?case using same_outside_refl by simp
next
  case (Cons i js)
  have "le_of i \<notin> set (FREE_HEAD # map le_of done)" using Cons.prems(2) by auto
  from list_add_tail_ok [OF Cons.prems(1) _ this] obtain h1 where
    h1: "list_add_tail h (le_of i) FREE_HEAD = Inr h1" "is_list h1 FREE_HEAD (map le_of (done @ [i]))"
      "same_outside (set (FREE_HEAD # le_of i # map le_of done)) h h1" by auto
  from Cons.IH [OF h1(2)] Cons.prems(2) obtain h2 where
    h2: "foldE (\<lambda>i h. list_add_tail h (le_of i) FREE_HEAD) js h1 = Inr h2"
      "is_list h2 FREE_HEAD (map le_of ((done @ [i]) @ js))"
      "same_outside (insert FREE_HEAD (le_of ` set ((done @ [i]) @ js))) h1 h2" by auto
  have "same_outside (insert FREE_HEAD (le_of ` set (done @ i # js))) h h2"
    by (rule same_outside_trans [OF h1(3) h2(3)]) auto
  with h1(1) h2(1,2) show ?case by simp
qed

lemma linked_init_ok:
  "\<exists>lt'. linked_init lt = Inr lt' \<and> linked lt' (rtp_member_table_init
     \<lparr>member_array = lt_array lt, free_list = f, used_list = u, num_members = n\<rparr>)"
proof -
  let ?is = "[0..<RTP_CONFIG_MAX_MEMBERS_PER_SESSION]"
  obtain h1 where h1: "INIT_LIST_HEAD (lt_heap lt) FREE_HEAD = Inr h1" "is_list h1 FREE_HEAD []"
    using INIT_LIST_HEAD_ok [of FREE_HEAD] by auto
  obtain h2 where h2: "INIT_LIST_HEAD h1 USED_HEAD = Inr h2" "is_list h2 USED_HEAD []" "same_outside {USED_HEAD} h1 h2"
    using INIT_LIST_HEAD_ok [of USED_HEAD] by auto
  have "is_list h2 FREE_HEAD []" by (rule is_list_frame [OF h1(2) h2(3)]) simp
  then obtain h3 where h3: "foldE (\<lambda>i h. list_add_tail h (le_of i) FREE_HEAD) ?is h2 = Inr h3"
    "is_list h3 FREE_HEAD (map le_of ?is)" "same_outside (insert FREE_HEAD (le_of ` set ?is)) h2 h3"
    using add_all_tail [of h2 "[]" ?is] by auto
  have "is_list h3 USED_HEAD []" by (rule is_list_frame [OF h2(2) h3(3)]) auto
  with h1(1) h2(1) h3(1,2) show ?thesis by (simp add: linked_init_def linked_def rtp_member_table_init_def)
qed

text \<open>
  C27: the member table as the code builds it, with its two lists linked through the members,
  refines the table on sequences: from any memory initialisation gives the initial table, and
  allocation, release, lookup and iteration end, meet no null pointer, return the same member
  and leave a heap that holds the table that the abstract operation gives.
\<close>

theorem member_table_on_heap:
  assumes "mt_slots mt" "linked lt mt"
  shows "(\<exists>lt'. linked_init lt = Inr lt' \<and> linked lt' (rtp_member_table_init mt)) \<and>
    (case rtp_member_table_alloc_member mt ssrc of
       None \<Rightarrow> linked_alloc lt ssrc = Inr (lt, None)
     | Some (mt', i) \<Rightarrow> \<exists>lt'. linked_alloc lt ssrc = Inr (lt', Some i) \<and> linked lt' mt') \<and>
    linked_lookup lt ssrc = Some (Inr (rtp_member_table_lookup mt ssrc)) \<and>
    linked_get_first lt = Inr (rtp_member_table_get_first mt) \<and>
    (\<forall>i \<in> set (used_list mt).
       (\<exists>lt'. linked_free lt i = Inr lt' \<and> linked lt' (rtp_member_table_free mt i)) \<and>
       linked_get_next lt (Some i) = Inr (rtp_member_table_get_next mt (Some i)))"
proof -
  have "mt = \<lparr>member_array = lt_array lt, free_list = free_list mt, used_list = used_list mt,
      num_members = num_members mt\<rparr>" using assms(2) by (simp add: linked_def)
  then have "\<exists>lt'. linked_init lt = Inr lt' \<and> linked lt' (rtp_member_table_init mt)"
    using linked_init_ok [of lt "free_list mt" "used_list mt" "num_members mt"] by simp
  then show ?thesis
    using linked_alloc_ok [OF assms] linked_lookup_ok [OF assms(2)] linked_first_ok [OF assms(2)]
      linked_free_ok [OF assms] linked_next_ok [OF assms] by blast
qed

theorem member_table_on_heap_witness:
  "\<exists>lt lt'. linked lt empty_table \<and> linked_alloc lt 5 = Inr (lt', Some 0) \<and>
     linked_lookup lt 5 = Some (Inr None)"
proof -
  obtain lt where lt: "linked lt empty_table"
    using linked_init_ok [of "\<lparr>lt_heap = heap_23_5, lt_array = member_array empty_table, lt_num = 0\<rparr>" "[]" "[]" 0]
    by (auto simp: empty_table_def rtp_member_table_init_def)
  have "mt_slots empty_table" using empty_table_wf by (simp add: mt_wf_def)
  moreover have "free_list empty_table = 0 # [1..<RTP_CONFIG_MAX_MEMBERS_PER_SESSION]" "used_list empty_table = []"
    by (simp_all add: empty_table_def rtp_member_table_init_def upt_conv_Cons config_defs)
  ultimately show ?thesis
    using member_table_on_heap [OF _ lt, of 5] lt
    by (auto simp: rtp_member_table_alloc_member_def rtp_member_table_lookup_def)
qed

section \<open>The scan of the timer wheel on the heap\<close>

text \<open>The body of the loop of \<open>timer_tick\<close>; \<open>et p\<close> is the tick stored in the element at \<open>p\<close>.\<close>

definition scan_body :: "(nat \<Rightarrow> u32) \<Rightarrow> u32 \<Rightarrow> nat \<Rightarrow> nat \<Rightarrow> list_heap \<times> unit \<Rightarrow> (list_heap \<times> unit) res" where
  "scan_body et now timeouts p hs =
     (if et p = now
      then bindE (list_del (fst hs) p) (\<lambda>h. bindE (list_add_tail h p timeouts) (\<lambda>h. Inr (h, snd hs)))
      else Inr hs)"

definition linked_scan :: "(nat \<Rightarrow> u32) \<Rightarrow> u32 \<Rightarrow> list_heap \<Rightarrow> nat \<Rightarrow> nat \<Rightarrow> (list_heap \<times> unit) res option" where
  "linked_scan et now h bucket timeouts = list_for_each_safe (scan_body et now timeouts) bucket (h, ())"

text \<open>What holds when the elements \<open>xs\<close> have been looked at and \<open>ys\<close> have not.\<close>

definition scanning :: "(nat \<Rightarrow> u32) \<Rightarrow> u32 \<Rightarrow> nat \<Rightarrow> nat \<Rightarrow> nat list \<Rightarrow> nat list \<Rightarrow> list_heap \<times> unit \<Rightarrow> bool" where
  "scanning et now b t xs ys hs \<longleftrightarrow>
     is_list (fst hs) b (filter (\<lambda>p. et p \<noteq> now) xs @ ys) \<and>
     is_list (fst hs) t (filter (\<lambda>p. et p = now) xs) \<and>
     t \<notin> set (b # xs @ ys) \<and> b \<notin> set (xs @ ys) \<and> distinct (xs @ ys)"

lemma scan_step:
  assumes "scanning et now b t xs (p # ys) hs"
  shows "\<exists>hs'. scan_body et now t p hs = Inr hs' \<and> scanning et now b t (xs @ [p]) ys hs'"
proof (cases "et p = now")
  case False
  then show ?thesis using assms by (simp add: scan_body_def scanning_def)
next
  case True
  let ?k = "filter (\<lambda>p. et p \<noteq> now) xs" and ?d = "filter (\<lambda>p. et p = now) xs"
  have b: "is_list (fst hs) b (?k @ p # ys)" and t: "is_list (fst hs) t ?d"
    and fresh: "t \<notin> set (b # xs @ p # ys)" "b \<notin> set (xs @ p # ys)" "distinct (xs @ p # ys)"
    using assms by (simp_all add: scanning_def)
  have rm: "remove1 p (?k @ p # ys) = ?k @ ys" using fresh(3) by (simp add: remove1_append)
  obtain h1 where h1: "list_del (fst hs) p = Inr h1" "is_list h1 b (?k @ ys)"
    "same_outside (set (b # ?k @ p # ys)) (fst hs) h1"
    using list_del_ok [OF b, of p] unfolding rm by auto
  have t1: "is_list h1 t ?d" by (rule is_list_frame [OF t h1(3)]) (use fresh in auto)
  have p: "p \<noteq> 0" "p \<notin> set (t # ?d)" using is_listD(5) [OF b] fresh by auto
  obtain h2 where h2: "list_add_tail h1 p t = Inr h2" "is_list h2 t (?d @ [p])"
    "same_outside (set (t # p # ?d)) h1 h2"
    using list_add_tail_ok [OF t1 p] by blast
  have "is_list h2 b (?k @ ys)" by (rule is_list_frame [OF h1(2) h2(3)]) (use fresh in auto)
  with True h1(1) h2(1,2) fresh show ?thesis by (simp add: scan_body_def scanning_def)
qed

lemma scan_next:
  assumes "scanning et now b t xs (p # ys) hs"
  shows "p \<noteq> 0 \<and> p \<noteq> b \<and> lnext (fst hs) p = hd (ys @ [b])"
proof -
  have l: "is_list (fst hs) b ((filter (\<lambda>p. et p \<noteq> now) xs @ [p]) @ ys)" using assms by (simp add: scanning_def)
  have "lnext (fst hs) p = hd (ys @ [b])" by (rule is_list_split [OF l]) simp
  with is_listD(5,6) [OF l] show ?thesis by auto
qed

text \<open>
  The loop of the timer wheel over the current bucket, which unlinks elements of the list it
  runs over, ends, meets no null pointer, and leaves the bucket and the list of timed out
  elements as the scan of sequences computes them, due elements in the order of the bucket.
\<close>

lemma timer_scan_on_heap:
  assumes "is_list h b ps" "is_list h t []" "t \<notin> set (b # ps)"
  shows "\<exists>h'. linked_scan et now h b t = Some (Inr (h', ())) \<and>
    is_list h' b (fst (scan_bucket et now ps (ps, []))) \<and> is_list h' t (snd (scan_bucket et now ps (ps, [])))"
proof -
  note D = is_listD [OF assms(1)]
  have "scanning et now b t [] ps (h, ())" using assms D by (simp add: scanning_def)
  then obtain hs' where "list_for_each_safe (scan_body et now t) b (h, ()) = Some (Inr hs')"
    "scanning et now b t ps [] hs'"
    using list_for_each_safe_ok [of "scanning et now b t" "scan_body et now t" b "(h, ())" ps]
      scan_step scan_next assms(1) by fastforce
  moreover have "filter (\<lambda>p. p \<in> set ps \<longrightarrow> et p \<noteq> now) ps = filter (\<lambda>p. et p \<noteq> now) ps"
    by (rule filter_cong) auto
  ultimately show ?thesis
    using scan_bucket_filter [OF D(7,7), of et now "[]"]
    by (cases hs') (simp add: linked_scan_def scanning_def)
qed

theorem timer_scan_on_heap_witness:
  "\<exists>h'. linked_scan (\<lambda>p. if p = 2 then 9 else 8) 9 ((heap_23_5)\<lparr>lnext := (lnext heap_23_5)(7 := 7),
       lprev := (lprev heap_23_5)(7 := 7)\<rparr>) 1 7 = Some (Inr (h', ())) \<and> is_list h' 1 [3] \<and> is_list h' 7 [2]"
proof -
  let ?h = "(heap_23_5)\<lparr>lnext := (lnext heap_23_5)(7 := 7), lprev := (lprev heap_23_5)(7 := 7)\<rparr>"
  have "is_list ?h 1 [2, 3]" "is_list ?h 7 []" "7 \<notin> set (1 # [2, 3 :: nat])"
    by (simp_all add: is_list_def heap_23_5_def)
  from timer_scan_on_heap [OF this, of "\<lambda>p. if p = 2 then 9 else 8" 9] show ?thesis by simp
qed

end
