(* ===== verification/List_Loops.thy ===== *)
theory List_Loops
  imports Generic_List
begin

text \<open>
  The loops of \<^verbatim>\<open>src/generic_list.h\<close> over the structures that lists are embedded in: from the front and from the
  back, from the current position, and safe against removal. Each is one of two \<open>for\<close> statements, that differ in
  the pointer they follow. An address of a structure is an integer, since that of the structure "around" a list
  head, which the loops compute, need not be one.
\<close>

section \<open>Entries\<close>

text \<open>The structure whose field at offset \<open>off\<close> is the list element \<open>p\<close>, and \<open>&pos->member\<close>.\<close>

definition list_entry :: "nat \<Rightarrow> nat \<Rightarrow> int" where
  "list_entry p off = int p - int off"

definition member_of :: "int \<Rightarrow> nat \<Rightarrow> nat" where
  "member_of pos off = nat (pos + int off)"

lemma member_of_entry [simp]: "member_of (list_entry p off) off = p"
  by (simp add: member_of_def list_entry_def)

section \<open>The loops\<close>

text \<open>
  The \<open>for\<close> statement without and with the second cursor \<open>n\<close>; \<open>get\<close> is \<open>get_next\<close> or \<open>get_prev\<close>, and \<open>pre\<close> says
  whether the condition prefetches.
\<close>

type_synonym 's loop_state = "list_heap \<times> 's"

partial_function (option) entry_loop ::
  "(list_heap \<Rightarrow> nat \<Rightarrow> nat res) \<Rightarrow> bool \<Rightarrow> nat \<Rightarrow> (int \<Rightarrow> 's loop_state \<Rightarrow> 's loop_state res) \<Rightarrow>
   nat \<Rightarrow> int \<Rightarrow> 's loop_state \<Rightarrow> 's loop_state res option" where
  "entry_loop get pre off body head pos hs =
     lift_res (if pre then get (fst hs) (member_of pos off) else Inr 0) (\<lambda>_.
     if member_of pos off = head then Some (Inr hs)
     else lift_res (body pos hs) (\<lambda>hs.
          lift_res (get (fst hs) (member_of pos off)) (\<lambda>p.
          entry_loop get pre off body head (list_entry p off) hs)))"

partial_function (option) entry_safe_loop ::
  "(list_heap \<Rightarrow> nat \<Rightarrow> nat res) \<Rightarrow> bool \<Rightarrow> nat \<Rightarrow> (int \<Rightarrow> 's loop_state \<Rightarrow> 's loop_state res) \<Rightarrow>
   nat \<Rightarrow> int \<Rightarrow> int \<Rightarrow> 's loop_state \<Rightarrow> 's loop_state res option" where
  "entry_safe_loop get pre off body head pos n hs =
     lift_res (if pre then get (fst hs) (member_of pos off) else Inr 0) (\<lambda>_.
     if member_of pos off = head then Some (Inr hs)
     else lift_res (body pos hs) (\<lambda>hs.
          lift_res (get (fst hs) (member_of n off)) (\<lambda>p.
          entry_safe_loop get pre off body head n (list_entry p off) hs)))"

definition list_for_each_entry where
  "list_for_each_entry off body head hs =
     lift_res (get_next (fst hs) head) (\<lambda>p. entry_loop get_next True off body head (list_entry p off) hs)"

definition list_for_each_entry_reverse where
  "list_for_each_entry_reverse off body head hs =
     lift_res (get_prev (fst hs) head) (\<lambda>p. entry_loop get_prev True off body head (list_entry p off) hs)"

text \<open>\<open>pos\<close> of \<open>list_prepare_entry\<close> may be null.\<close>

definition list_prepare_entry :: "int \<Rightarrow> nat \<Rightarrow> nat \<Rightarrow> int" where
  "list_prepare_entry pos head off = (if pos \<noteq> 0 then pos else list_entry head off)"

definition list_for_each_entry_continue where
  "list_for_each_entry_continue off body head pos hs =
     lift_res (get_next (fst hs) (member_of pos off)) (\<lambda>p.
     entry_loop get_next True off body head (list_entry p off) hs)"

definition list_for_each_entry_continue_reverse where
  "list_for_each_entry_continue_reverse off body head pos hs =
     lift_res (get_prev (fst hs) (member_of pos off)) (\<lambda>p.
     entry_loop get_prev True off body head (list_entry p off) hs)"

definition list_for_each_entry_from where
  "list_for_each_entry_from off body head pos hs = entry_loop get_next True off body head pos hs"

definition list_for_each_entry_safe where
  "list_for_each_entry_safe off body head hs =
     lift_res (get_next (fst hs) head) (\<lambda>p. lift_res (get_next (fst hs) p) (\<lambda>n.
     entry_safe_loop get_next False off body head (list_entry p off) (list_entry n off) hs))"

definition list_for_each_entry_safe_continue where
  "list_for_each_entry_safe_continue off body head pos hs =
     lift_res (get_next (fst hs) (member_of pos off)) (\<lambda>p. lift_res (get_next (fst hs) p) (\<lambda>n.
     entry_safe_loop get_next False off body head (list_entry p off) (list_entry n off) hs))"

definition list_for_each_entry_safe_from where
  "list_for_each_entry_safe_from off body head pos hs =
     lift_res (get_next (fst hs) (member_of pos off)) (\<lambda>n.
     entry_safe_loop get_next False off body head pos (list_entry n off) hs)"

definition list_for_each_entry_safe_reverse where
  "list_for_each_entry_safe_reverse off body head hs =
     lift_res (get_prev (fst hs) head) (\<lambda>p. lift_res (get_prev (fst hs) p) (\<lambda>n.
     entry_safe_loop get_prev False off body head (list_entry p off) (list_entry n off) hs))"

definition list_safe_reset_next :: "nat \<Rightarrow> int \<Rightarrow> list_heap \<Rightarrow> int res" where
  "list_safe_reset_next off pos h = bindE (get_next h (member_of pos off)) (\<lambda>p. Inr (list_entry p off))"

text \<open>The loops over the list elements themselves, which are their own entries at offset zero.\<close>

definition plain_list_for_each where
  "plain_list_for_each body head hs =
     lift_res (get_next (fst hs) head) (\<lambda>p. entry_loop get_next False 0 body head (list_entry p 0) hs)"

definition list_for_each_prev where
  "list_for_each_prev body head hs =
     lift_res (get_prev (fst hs) head) (\<lambda>p. entry_loop get_prev True 0 body head (list_entry p 0) hs)"

definition list_for_each_prev_safe where
  "list_for_each_prev_safe body head hs =
     lift_res (get_prev (fst hs) head) (\<lambda>p. lift_res (get_prev (fst hs) p) (\<lambda>n.
     entry_safe_loop get_prev True 0 body head (list_entry p 0) (list_entry n 0) hs))"

section \<open>A walk along the elements\<close>

text \<open>From every one of \<open>zs\<close> the pointer leads to the one behind it, from the last to \<open>head\<close>.\<close>

fun walk :: "(list_heap \<Rightarrow> nat \<Rightarrow> nat res) \<Rightarrow> list_heap \<Rightarrow> nat \<Rightarrow> nat list \<Rightarrow> bool" where
  "walk get h head [] \<longleftrightarrow> (\<exists>q. get h head = Inr q)"
| "walk get h head (z # zs) \<longleftrightarrow> z \<noteq> head \<and> get h z = Inr (hd (zs @ [head])) \<and> walk get h head zs"

lemma split_links:
  assumes "is_list h head (us @ zs)"
  shows "get_next h (last (head # us)) = Inr (hd (zs @ [head]))"
    "get_prev h (hd (zs @ [head])) = Inr (last (head # us))"
proof -
  note D = is_listD [OF assms]
  have "lnext h (last (head # us)) = hd (zs @ [head])" "lprev h (hd (zs @ [head])) = last (head # us)"
    by (rule is_list_split [OF assms], simp)+
  moreover have "last (head # us) \<noteq> 0" using D(4,5) by (cases us rule: rev_cases) auto
  moreover have "hd (zs @ [head]) \<noteq> 0" using D(4,5) by (cases zs) auto
  ultimately show "get_next h (last (head # us)) = Inr (hd (zs @ [head]))"
    "get_prev h (hd (zs @ [head])) = Inr (last (head # us))" by (simp_all only: heap_access if_False)
qed

lemma walk_next: "is_list h head (us @ zs) \<Longrightarrow> walk get_next h head zs"
proof (induction zs arbitrary: us)
  case Nil
  then show ?case using split_links(1) [of h head "[]" us] by auto
next
  case (Cons z zs)
  have "is_list h head ((us @ [z]) @ zs)" using Cons.prems by simp
  from Cons.IH [OF this] split_links(1) [OF this] is_listD(6) [OF this] show ?case by simp
qed

lemma walk_prev: "is_list h head (zs @ us) \<Longrightarrow> walk get_prev h head (rev zs)"
proof (induction zs arbitrary: us rule: rev_induct)
  case Nil
  then show ?case using split_links(2) [of h head us "[]"] by auto
next
  case (snoc z zs)
  have "is_list h head (zs @ z # us)" using snoc.prems by simp
  moreover have "hd (rev zs @ [head]) = last (head # zs)" by (cases zs rule: rev_cases) auto
  ultimately show ?case using snoc.IH split_links(2) is_listD(6) by fastforce
qed

lemma walk_head: "walk get h head zs \<Longrightarrow> \<exists>q. get h (hd (zs @ [head])) = Inr q"
  by (cases zs) auto

text \<open>A loop whose body leaves the list alone is the fold over the entries.\<close>

lemma entry_loop_visits:
  assumes "walk get h head zs"
  shows "entry_loop get pre off (\<lambda>e (h, s). bindE (f e s) (\<lambda>s. Inr (h, s))) head
      (list_entry (hd (zs @ [head])) off) (h, s) =
    Some (bindE (foldE f (map (\<lambda>z. list_entry z off) zs) s) (\<lambda>s. Inr (h, s)))"
  using assms
proof (induction zs arbitrary: s)
  case Nil
  then show ?case by (subst entry_loop.simps) auto
next
  case (Cons z zs)
  then show ?case by (subst entry_loop.simps) (cases "f (list_entry z off) s"; auto)
qed

text \<open>
  A loop that is safe against removal: \<open>I done rest\<close> is what holds of the heap when \<open>rest\<close> is still to come.
\<close>

lemma entry_safe_loop_ok:
  assumes body: "\<And>done p rest hs. I done (p # rest) hs \<Longrightarrow>
      \<exists>hs'. body (list_entry p off) hs = Inr hs' \<and> I (done @ [p]) rest hs'"
    and walks: "\<And>done rest hs. I done rest hs \<Longrightarrow> walk get (fst hs) head rest"
    and "I done rest hs" "rest \<noteq> [] \<Longrightarrow> n = hd (tl rest @ [head])"
  shows "\<exists>hs'. entry_safe_loop get pre off body head (list_entry (hd (rest @ [head])) off) (list_entry n off) hs =
      Some (Inr hs') \<and> I (done @ rest) [] hs'"
  using assms(3,4)
proof (induction rest arbitrary: "done" hs n)
  case Nil
  with walks [OF Nil(1)] show ?case by (cases hs) (subst entry_safe_loop.simps, auto)
next
  case (Cons p ps)
  obtain hs' where b: "body (list_entry p off) hs = Inr hs'" "I (done @ [p]) ps hs'"
    using body [OF Cons.prems(1)] by blast
  have n: "n = hd (ps @ [head])" using Cons.prems(2) by simp
  obtain q where q: "get (fst hs') n = Inr q" using walk_head [OF walks [OF b(2)]] n by auto
  have "ps \<noteq> [] \<Longrightarrow> q = hd (tl ps @ [head])" using q n walks [OF b(2)] by (cases ps) auto
  from Cons.IH [OF b(2) this] show ?case
    using b(1) q n walks [OF Cons.prems(1)] by (subst entry_safe_loop.simps) auto
qed

section \<open>What the loops visit\<close>

text \<open>
  Over a list with the elements \<open>us @ x # vs\<close>: everything, everything from the back, what is behind or in front of
  the entry of \<open>x\<close>, and this one with what is behind it.
\<close>

lemma entry_loops_visit:
  fixes f :: "int \<Rightarrow> 's \<Rightarrow> 's res" and s :: 's and off :: nat
  defines "b \<equiv> \<lambda>e (h, s). bindE (f e s) (\<lambda>s. Inr (h :: list_heap, s))"
    and "es \<equiv> map (\<lambda>z. list_entry z off)"
    and "visits \<equiv> \<lambda>h zs. Some (bindE (foldE f zs s) (\<lambda>s. Inr (h, s)))"
  assumes "is_list h head xs"
  shows "list_for_each_entry off b head (h, s) = visits h (es xs)"
    "list_for_each_entry_reverse off b head (h, s) = visits h (rev (es xs))"
    "plain_list_for_each b head (h, s) = visits h (map int xs)"
    "list_for_each_prev b head (h, s) = visits h (rev (map int xs))"
    "xs = us @ x # vs \<Longrightarrow> list_for_each_entry_continue off b head (list_entry x off) (h, s) = visits h (es vs)"
    "xs = us @ x # vs \<Longrightarrow>
       list_for_each_entry_continue_reverse off b head (list_entry x off) (h, s) = visits h (rev (es us))"
    "xs = us @ x # vs \<Longrightarrow> list_for_each_entry_from off b head (list_entry x off) (h, s) = visits h (es (x # vs))"
    "list_for_each_entry_continue off b head (list_prepare_entry 0 head off) (h, s) = visits h (es xs)"
proof -
  have e0: "(\<lambda>z. list_entry z 0) = int" by (simp add: list_entry_def fun_eq_iff)
  have lr: "hd (rev zs @ [head]) = last (head # zs)" for zs by (cases zs rule: rev_cases) auto
  have n: "walk get_next h head xs" "get_next h head = Inr (hd (xs @ [head]))"
    using walk_next [of h head "[]" xs] split_links(1) [of h head "[]" xs] assms(4) by simp_all
  have p: "walk get_prev h head (rev xs)" "get_prev h head = Inr (hd (rev xs @ [head]))"
    using walk_prev [of h head xs "[]"] split_links(2) [of h head xs "[]"] assms(4) unfolding lr by simp_all
  note vn = entry_loop_visits [OF n(1), of _ _ f s] and vp = entry_loop_visits [OF p(1), of _ _ f s]
  note d = b_def es_def visits_def
  show "list_for_each_entry off b head (h, s) = visits h (es xs)"
    using vn n(2) by (simp add: list_for_each_entry_def d)
  then show "list_for_each_entry_continue off b head (list_prepare_entry 0 head off) (h, s) = visits h (es xs)"
    by (simp add: list_for_each_entry_def list_for_each_entry_continue_def list_prepare_entry_def)
  show "list_for_each_entry_reverse off b head (h, s) = visits h (rev (es xs))"
    using vp p(2) by (simp add: list_for_each_entry_reverse_def d rev_map)
  show "plain_list_for_each b head (h, s) = visits h (map int xs)"
    using vn [of _ 0] n(2) by (simp add: plain_list_for_each_def d e0)
  show "list_for_each_prev b head (h, s) = visits h (rev (map int xs))"
    using vp [of _ 0] p(2) by (simp add: list_for_each_prev_def d e0 rev_map)
  assume xs: "xs = us @ x # vs"
  have a: "walk get_next h head vs" "get_next h x = Inr (hd (vs @ [head]))"
    using walk_next [of h head "us @ [x]" vs] split_links(1) [of h head "us @ [x]" vs] assms(4) xs by simp_all
  show "list_for_each_entry_continue off b head (list_entry x off) (h, s) = visits h (es vs)"
    using entry_loop_visits [OF a(1), of _ _ f s] a(2) by (simp add: list_for_each_entry_continue_def d)
  have c: "walk get_prev h head (rev us)" "get_prev h x = Inr (hd (rev us @ [head]))"
    using walk_prev [of h head us "x # vs"] split_links(2) [of h head us "x # vs"] assms(4) xs unfolding lr by simp_all
  show "list_for_each_entry_continue_reverse off b head (list_entry x off) (h, s) = visits h (rev (es us))"
    using entry_loop_visits [OF c(1), of _ _ f s] c(2)
    by (simp add: list_for_each_entry_continue_reverse_def d rev_map)
  have "walk get_next h head (x # vs)" using walk_next [of h head us "x # vs"] assms(4) xs by simp
  from entry_loop_visits [OF this, of _ _ f s]
  show "list_for_each_entry_from off b head (list_entry x off) (h, s) = visits h (es (x # vs))"
    by (simp add: list_for_each_entry_from_def d)
qed

section \<open>Removing while walking\<close>

text \<open>A body that takes the current entry off the list if \<open>P\<close> holds of it, and notes that it has been seen.\<close>

definition purge :: "(int \<Rightarrow> bool) \<Rightarrow> nat \<Rightarrow> int \<Rightarrow> int list loop_state \<Rightarrow> int list loop_state res" where
  "purge P off e hs =
     bindE (if P e then list_del_init (fst hs) (member_of e off) else Inr (fst hs)) (\<lambda>h. Inr (h, snd hs @ [e]))"

definition stays :: "(int \<Rightarrow> bool) \<Rightarrow> nat \<Rightarrow> nat list \<Rightarrow> nat list" where
  "stays P off = filter (\<lambda>z. \<not> P (list_entry z off))"

lemma stays_simps [simp]:
  "stays P off [] = []" "stays P off (xs @ ys) = stays P off xs @ stays P off ys"
  "stays P off (x # xs) = (if P (list_entry x off) then stays P off xs else x # stays P off xs)"
  "stays P off (rev xs) = rev (stays P off xs)"
  by (simp_all add: stays_def rev_filter)

lemma purge_step:
  assumes "is_list (fst hs) head (as @ p # bs)"
  shows "\<exists>hs'. purge P off (list_entry p off) hs = Inr hs' \<and>
    is_list (fst hs') head (as @ stays P off [p] @ bs) \<and> snd hs' = snd hs @ [list_entry p off]"
proof (cases "P (list_entry p off)")
  case True
  have "remove1 p (as @ p # bs) = as @ bs" using is_listD(7) [OF assms] by (simp add: remove1_append)
  with list_del_init_ok [OF assms, of p] True show ?thesis by (auto simp: purge_def)
qed (use assms in \<open>simp add: purge_def\<close>)

lemma safe_loop_next:
  assumes "is_list h head (us @ zs)" "zs \<noteq> [] \<Longrightarrow> n = hd (tl zs @ [head])"
  shows "\<exists>h'. entry_safe_loop get_next pre off (purge P off) head (list_entry (hd (zs @ [head])) off)
      (list_entry n off) (h, seen) = Some (Inr (h', seen @ map (\<lambda>z. list_entry z off) zs)) \<and>
    is_list h' head (us @ stays P off zs)"
proof -
  let ?I = "\<lambda>done rest hs. is_list (fst hs) head (us @ stays P off done @ rest) \<and>
    snd hs = seen @ map (\<lambda>z. list_entry z off) done"
  have "\<exists>hs'. entry_safe_loop get_next pre off (purge P off) head (list_entry (hd (zs @ [head])) off)
      (list_entry n off) (h, seen) = Some (Inr hs') \<and> ?I ([] @ zs) [] hs'"
  proof (rule entry_safe_loop_ok [where I = ?I])
    fix "done" p rest hs assume "?I done (p # rest) hs"
    with purge_step [of hs head "us @ stays P off done" p rest P off]
    show "\<exists>hs'. purge P off (list_entry p off) hs = Inr hs' \<and> ?I (done @ [p]) rest hs'"
      by (auto split: if_splits)
  next
    fix "done" rest hs assume "?I done rest hs"
    with walk_next [of "fst hs" head "us @ stays P off done" rest] show "walk get_next (fst hs) head rest" by simp
  qed (use assms in auto)
  then show ?thesis by auto
qed

lemma safe_loop_prev:
  assumes "is_list h head (rev zs @ us)" "zs \<noteq> [] \<Longrightarrow> n = hd (tl zs @ [head])"
  shows "\<exists>h'. entry_safe_loop get_prev pre off (purge P off) head (list_entry (hd (zs @ [head])) off)
      (list_entry n off) (h, seen) = Some (Inr (h', seen @ map (\<lambda>z. list_entry z off) zs)) \<and>
    is_list h' head (rev (stays P off zs) @ us)"
proof -
  let ?I = "\<lambda>done rest hs. is_list (fst hs) head (rev rest @ rev (stays P off done) @ us) \<and>
    snd hs = seen @ map (\<lambda>z. list_entry z off) done"
  have "\<exists>hs'. entry_safe_loop get_prev pre off (purge P off) head (list_entry (hd (zs @ [head])) off)
      (list_entry n off) (h, seen) = Some (Inr hs') \<and> ?I ([] @ zs) [] hs'"
  proof (rule entry_safe_loop_ok [where I = ?I])
    fix "done" p rest hs assume "?I done (p # rest) hs"
    with purge_step [of hs head "rev rest" p "rev (stays P off done) @ us" P off]
    show "\<exists>hs'. purge P off (list_entry p off) hs = Inr hs' \<and> ?I (done @ [p]) rest hs'"
      by (auto split: if_splits)
  next
    fix "done" rest hs assume "?I done rest hs"
    with walk_prev [of "fst hs" head "rev rest" "rev (stays P off done) @ us"]
    show "walk get_prev (fst hs) head rest" by simp
  qed (use assms in auto)
  then show ?thesis by auto
qed

text \<open>
  Every entry is seen once, those to be removed included, and exactly they are gone; in front of the position where
  the loop starts nothing changes.
\<close>

lemma safe_loops_purge:
  fixes off :: nat and P :: "int \<Rightarrow> bool"
  defines "es \<equiv> map (\<lambda>z. list_entry z off)"
  assumes "is_list h head xs"
  shows "\<exists>h'. list_for_each_entry_safe off (purge P off) head (h, []) = Some (Inr (h', es xs)) \<and>
      is_list h' head (stays P off xs)"
    "\<exists>h'. list_for_each_entry_safe_reverse off (purge P off) head (h, []) = Some (Inr (h', rev (es xs))) \<and>
      is_list h' head (stays P off xs)"
    "off = 0 \<Longrightarrow> \<exists>h'. list_for_each_prev_safe (purge P 0) head (h, []) = Some (Inr (h', rev (es xs))) \<and>
      is_list h' head (stays P 0 xs)"
    "xs = us @ x # vs \<Longrightarrow> \<exists>h'. list_for_each_entry_safe_continue off (purge P off) head (list_entry x off) (h, []) =
      Some (Inr (h', es vs)) \<and> is_list h' head (us @ x # stays P off vs)"
    "xs = us @ x # vs \<Longrightarrow> \<exists>h'. list_for_each_entry_safe_from off (purge P off) head (list_entry x off) (h, []) =
      Some (Inr (h', es (x # vs))) \<and> is_list h' head (us @ stays P off (x # vs))"
proof -
  have fwd: "\<exists>q. get_next h (hd (zs @ [head])) = Inr q \<and> (zs \<noteq> [] \<longrightarrow> q = hd (tl zs @ [head]))"
    if "is_list h head (ys @ zs)" for ys zs
    using walk_next [OF that] by (cases zs) auto
  have bwd: "\<exists>q. get_prev h (hd (zs @ [head])) = Inr q \<and> (zs \<noteq> [] \<longrightarrow> q = hd (tl zs @ [head]))"
    if "is_list h head (rev zs)" for zs
    using walk_prev [of h head "rev zs" "[]"] that by (cases zs) auto
  have x0: "is_list h head ([] @ xs)" "is_list h head (rev (rev xs) @ [])" "is_list h head (rev (rev xs))"
    using assms(2) by simp_all
  note first = split_links(1) [OF x0(1)]
  have lst: "get_prev h head = Inr (hd (rev xs @ [head]))"
    using split_links(2) [of h head xs "[]"] assms(2) by (cases xs rule: rev_cases) auto
  obtain n where n: "get_next h (hd (xs @ [head])) = Inr n" "xs \<noteq> [] \<Longrightarrow> n = hd (tl xs @ [head])"
    using fwd [OF x0(1)] by blast
  obtain p where p: "get_prev h (hd (rev xs @ [head])) = Inr p" "rev xs \<noteq> [] \<Longrightarrow> p = hd (tl (rev xs) @ [head])"
    using bwd [OF x0(3)] by blast
  show "\<exists>h'. list_for_each_entry_safe off (purge P off) head (h, []) = Some (Inr (h', es xs)) \<and>
      is_list h' head (stays P off xs)"
    using safe_loop_next [OF x0(1) n(2), of False off P "[]"] first n(1)
    by (simp add: list_for_each_entry_safe_def es_def)
  show "\<exists>h'. list_for_each_entry_safe_reverse off (purge P off) head (h, []) = Some (Inr (h', rev (es xs))) \<and>
      is_list h' head (stays P off xs)"
    using safe_loop_prev [OF x0(2) p(2), of False off P "[]"] lst p(1)
    by (simp add: list_for_each_entry_safe_reverse_def es_def rev_map)
  show "\<exists>h'. list_for_each_prev_safe (purge P 0) head (h, []) = Some (Inr (h', rev (es xs))) \<and>
      is_list h' head (stays P 0 xs)" if "off = 0"
    using safe_loop_prev [OF x0(2) p(2), of True 0 P "[]"] lst p(1) that
    by (simp add: list_for_each_prev_safe_def es_def rev_map)
  assume xs: "xs = us @ x # vs"
  then have l: "is_list h head ((us @ [x]) @ vs)" "is_list h head (us @ x # vs)" using assms(2) by simp_all
  obtain m where m: "get_next h (hd (vs @ [head])) = Inr m" "vs \<noteq> [] \<Longrightarrow> m = hd (tl vs @ [head])"
    using fwd [OF l(1)] by blast
  show "\<exists>h'. list_for_each_entry_safe_continue off (purge P off) head (list_entry x off) (h, []) =
      Some (Inr (h', es vs)) \<and> is_list h' head (us @ x # stays P off vs)"
    using safe_loop_next [OF l(1) m(2), of False off P "[]"] split_links(1) [OF l(1)] m(1)
    by (simp add: list_for_each_entry_safe_continue_def es_def)
  show "\<exists>h'. list_for_each_entry_safe_from off (purge P off) head (list_entry x off) (h, []) =
      Some (Inr (h', es (x # vs))) \<and> is_list h' head (us @ stays P off (x # vs))"
    using safe_loop_next [OF l(2), of "hd (vs @ [head])" False off P "[]"] split_links(1) [OF l(1)]
    by (simp add: list_for_each_entry_safe_from_def es_def del: stays_simps)
qed

end
