(* ===== verification/Sock_Util.thy ===== *)
theory Sock_Util
  imports Prelude
begin

text \<open>
  Options of sockets, \<^verbatim>\<open>libutils/sock_util.c\<close>, and the macros of \<^verbatim>\<open>libutils/common_def.h\<close>. An option is a value at a
  descriptor; a call of \<open>ioctl\<close> or \<open>setsockopt\<close> that fails changes none. The results of the calls are a stream.
  The branch for systems without \<open>SOL_TCP\<close> is left out.
\<close>

section \<open>Options of sockets\<close>

datatype sock_option = FIONBIO | SO_KEEPALIVE | TCP_KEEPCNT | TCP_KEEPIDLE | TCP_KEEPINTVL

record sockets =
  so_value :: "int \<times> sock_option \<Rightarrow> int option"
  so_result :: "nat \<Rightarrow> int"
  so_calls :: nat

definition set_option :: "int \<Rightarrow> sock_option \<Rightarrow> int \<Rightarrow> sockets \<Rightarrow> sockets \<times> int" where
  "set_option sd opt v so =
     (let r = so_result so (so_calls so); so = so\<lparr>so_calls := Suc (so_calls so)\<rparr> in
      (if r < 0 then so else so\<lparr>so_value := (so_value so)((sd, opt) \<mapsto> v)\<rparr>, r))"

definition sock_util_put_nonblock :: "int \<Rightarrow> sockets \<Rightarrow> sockets" where
  "sock_util_put_nonblock sd so = fst (set_option sd FIONBIO 1 so)"

definition sock_set_keepalive :: "int \<Rightarrow> int \<Rightarrow> int \<Rightarrow> int \<Rightarrow> sockets \<Rightarrow> sockets" where
  "sock_set_keepalive sd cnt idle interval so =
     (let (so, r) = set_option sd SO_KEEPALIVE 1 so in
      if r < 0 then so
      else
        let so = fst (set_option sd TCP_KEEPCNT cnt so);
            so = fst (set_option sd TCP_KEEPIDLE idle so)
        in fst (set_option sd TCP_KEEPINTVL interval so))"

lemma set_option_facts:
  "so_calls (fst (set_option sd opt v so)) = Suc (so_calls so)"
  "so_result (fst (set_option sd opt v so)) = so_result so"
  "snd (set_option sd opt v so) = so_result so (so_calls so)"
  "so_value (fst (set_option sd opt v so)) =
     (if so_result so (so_calls so) < 0 then so_value so else (so_value so)((sd, opt) \<mapsto> v))"
  by (simp_all add: set_option_def Let_def)

text \<open>No other socket is touched, and of this one nothing unless keeping alive could be switched on.\<close>

lemma put_nonblock_frame: "d \<noteq> sd \<or> opt \<noteq> FIONBIO \<Longrightarrow>
    so_value (sock_util_put_nonblock sd so) (d, opt) = so_value so (d, opt)"
  by (auto simp: sock_util_put_nonblock_def set_option_facts)

lemma keepalive_frame:
  "d \<noteq> sd \<or> opt = FIONBIO \<or> so_result so (so_calls so) < 0 \<Longrightarrow>
    so_value (sock_set_keepalive sd cnt idle interval so) (d, opt) = so_value so (d, opt)"
  by (auto simp: sock_set_keepalive_def case_prod_unfold Let_def set_option_facts)

lemma keepalive_set:
  assumes "\<forall>i < 4. 0 \<le> so_result so (so_calls so + i)"
  shows "(\<lambda>opt. so_value (sock_set_keepalive sd cnt idle interval so) (sd, opt)) =
    (\<lambda>opt. case opt of FIONBIO \<Rightarrow> so_value so (sd, FIONBIO) | SO_KEEPALIVE \<Rightarrow> Some 1
       | TCP_KEEPCNT \<Rightarrow> Some cnt | TCP_KEEPIDLE \<Rightarrow> Some idle | TCP_KEEPINTVL \<Rightarrow> Some interval)"
proof -
  have "0 \<le> so_result so (so_calls so)" "0 \<le> so_result so (Suc (so_calls so))"
    "0 \<le> so_result so (Suc (Suc (so_calls so)))" "0 \<le> so_result so (Suc (Suc (Suc (so_calls so))))"
    using assms [rule_format, of 0] assms [rule_format, of 1] assms [rule_format, of 2] assms [rule_format, of 3]
    by (simp_all add: numeral_eq_Suc)
  then show ?thesis
    by (auto simp: fun_eq_iff sock_set_keepalive_def case_prod_unfold Let_def set_option_facts split: sock_option.splits)
qed

section \<open>Macros\<close>

text \<open>The operands are promoted to \<open>int\<close>, of which \<open>w\<close> is the argument of the macro.\<close>

definition HI_BYTE :: "u32 \<Rightarrow> u8" where "HI_BYTE w = ucast (drop_bit 8 w AND 0xFF)"
definition LO_BYTE :: "u32 \<Rightarrow> u8" where "LO_BYTE w = ucast (w AND 0xFF)"

definition BUFFER_TO_U16 :: "u8 list \<Rightarrow> u32 res" where
  "BUFFER_TO_U16 b = bindE (rd8 b 0) (\<lambda>hi. bindE (rd8 b 1) (\<lambda>lo. Inr (push_bit 8 (ucast hi) OR ucast lo)))"

definition U16_TO_BUFFER :: "u32 \<Rightarrow> u8 list \<Rightarrow> u8 list res" where
  "U16_TO_BUFFER w b = (if length b < 2 then Inl OobWrite else Inr (b[0 := HI_BYTE w, 1 := LO_BYTE w]))"

lemma u16_round_trip:
  "2 \<le> length b \<Longrightarrow> bindE (U16_TO_BUFFER w b) BUFFER_TO_U16 = Inr (take_bit 16 w)"
proof -
  assume b: "2 \<le> length b"
  have mask: "(0xFF :: u32) = mask 8" by (simp add: mask_eq_exp_minus_1)
  have "push_bit 8 (ucast (HI_BYTE w)) OR ucast (LO_BYTE w) = take_bit 16 w"
    by (rule bit_word_eqI)
      (auto simp: HI_BYTE_def LO_BYTE_def mask bit_simps)
  with b show ?thesis by (auto simp: Suc_le_eq U16_TO_BUFFER_def BUFFER_TO_U16_def rd8_def)
qed

end
