(* ===== verification/Io_Driver.thy ===== *)
theory Io_Driver
  imports Generic_List "HOL-Library.Sublist"
begin

text \<open>
  The event loop of \<^verbatim>\<open>libutils/io_driver.c\<close>: watchers of file descriptors, which are registered for
  events, and one pass of the loop, which asks \<open>select\<close> for the descriptors that are ready and calls
  the watchers back. The two lists of watchers are modelled by their sequences (what the pointer
  operations do to these is in \<open>Generic_List\<close>).
\<close>

section \<open>State and operations\<close>

datatype io_driver_event = IO_DRIVER_EVENT_RX | IO_DRIVER_EVENT_TX | IO_DRIVER_EVENT_EX

fun event_bit :: "io_driver_event \<Rightarrow> u8" where
  "event_bit IO_DRIVER_EVENT_RX = 0x01"
| "event_bit IO_DRIVER_EVENT_TX = 0x02"
| "event_bit IO_DRIVER_EVENT_EX = 0x04"

record io_driver_watcher =
  w_fd :: int
  event_listening :: u8

text \<open>
  The watchers live at addresses, \<open>None\<close> is memory that was freed. \<open>run_list\<close> is the list on the stack
  of \<open>io_driver_postselect\<close>: it belongs to the state because a callback unlinks watchers from it.
  \<open>calls\<close> is the trace of the callbacks made.
\<close>

record io_driver =
  watchers :: "nat list"
  run_list :: "nat list"
  watcher_mem :: "nat \<Rightarrow> io_driver_watcher option"
  calls :: "(nat \<times> io_driver_event) list"

definition get_watcher :: "io_driver \<Rightarrow> nat \<Rightarrow> io_driver_watcher res" where
  "get_watcher io p = (case watcher_mem io p of None \<Rightarrow> Inl UseAfterFree | Some w \<Rightarrow> Inr w)"

definition set_watcher :: "nat \<Rightarrow> io_driver_watcher \<Rightarrow> io_driver \<Rightarrow> io_driver" where
  "set_watcher p w io = io\<lparr>watcher_mem := (watcher_mem io)(p \<mapsto> w)\<rparr>"

definition listens :: "io_driver_watcher \<Rightarrow> io_driver_event \<Rightarrow> bool" where
  "listens w e \<longleftrightarrow> event_listening w AND event_bit e \<noteq> 0"

definition io_driver_init :: "io_driver \<Rightarrow> io_driver" where
  "io_driver_init io = io\<lparr>watchers := []\<rparr>"

definition io_driver_watcher_init :: "io_driver \<Rightarrow> nat \<Rightarrow> io_driver res" where
  "io_driver_watcher_init io p =
     bindE (get_watcher io p) (\<lambda>w.
     if p \<in> set (watchers io @ run_list io) then Inl ListCorrupt
     else Inr (set_watcher p (w\<lparr>w_fd := -1, event_listening := 0\<rparr>) io))"

definition io_driver_watch :: "io_driver \<Rightarrow> nat \<Rightarrow> io_driver_event \<Rightarrow> io_driver res" where
  "io_driver_watch io p e =
     bindE (get_watcher io p) (\<lambda>w.
     let old_set = event_listening w;
         w = w\<lparr>event_listening := event_listening w OR event_bit e\<rparr>;
         io = set_watcher p w io
     in if old_set = 0 \<and> event_listening w \<noteq> 0 then
          if p \<in> set (watchers io @ run_list io) then Inl ListCorrupt
          else Inr (io\<lparr>watchers := watchers io @ [p]\<rparr>)
        else Inr io)"

text \<open>\<open>list_del_init\<close> takes the watcher off the list that it is in.\<close>

definition unlink :: "nat \<Rightarrow> io_driver \<Rightarrow> io_driver" where
  "unlink p io = io\<lparr>watchers := remove1 p (watchers io), run_list := remove1 p (run_list io)\<rparr>"

definition io_driver_no_watch :: "io_driver \<Rightarrow> nat \<Rightarrow> io_driver_event \<Rightarrow> io_driver res" where
  "io_driver_no_watch io p e =
     bindE (get_watcher io p) (\<lambda>w.
     let old_set = event_listening w;
         w = w\<lparr>event_listening := event_listening w AND NOT (event_bit e)\<rparr>;
         io = set_watcher p w io
     in Inr (if old_set \<noteq> 0 \<and> event_listening w = 0 then unlink p io else io))"

text \<open>Sets of descriptors; a descriptor that does not fit makes the macros leave the array.\<close>

definition FD_SETSIZE :: int where "FD_SETSIZE = 1024"

definition FD_SET :: "int \<Rightarrow> int set \<Rightarrow> int set res" where
  "FD_SET fd s = (if 0 \<le> fd \<and> fd < FD_SETSIZE then Inr (insert fd s) else Inl OobWrite)"

definition FD_ISSET :: "int \<Rightarrow> int set \<Rightarrow> bool res" where
  "FD_ISSET fd s = (if 0 \<le> fd \<and> fd < FD_SETSIZE then Inr (fd \<in> s) else Inl OobRead)"

record select_call_arg =
  rset :: "int set"
  wset :: "int set"
  eset :: "int set"
  rset_empty :: bool
  wset_empty :: bool
  eset_empty :: bool
  maxfd :: int

definition preselect_watcher :: "io_driver \<Rightarrow> nat \<Rightarrow> select_call_arg \<Rightarrow> select_call_arg res" where
  "preselect_watcher io p s =
     bindE (get_watcher io p) (\<lambda>w.
     bindE (if listens w IO_DRIVER_EVENT_RX
            then bindE (FD_SET (w_fd w) (rset s)) (\<lambda>r.
                 Inr (s\<lparr>rset := r, maxfd := max (w_fd w) (maxfd s), rset_empty := False\<rparr>)) else Inr s) (\<lambda>s.
     bindE (if listens w IO_DRIVER_EVENT_TX
            then bindE (FD_SET (w_fd w) (wset s)) (\<lambda>r.
                 Inr (s\<lparr>wset := r, maxfd := max (w_fd w) (maxfd s), wset_empty := False\<rparr>)) else Inr s) (\<lambda>s.
     if listens w IO_DRIVER_EVENT_EX
     then bindE (FD_SET (w_fd w) (eset s)) (\<lambda>r.
          Inr (s\<lparr>eset := r, maxfd := max (w_fd w) (maxfd s), eset_empty := False\<rparr>)) else Inr s)))"

definition io_driver_preselect :: "io_driver \<Rightarrow> select_call_arg res" where
  "io_driver_preselect io =
     foldE (preselect_watcher io) (watchers io)
       \<lparr>rset = {}, wset = {}, eset = {}, rset_empty = True, wset_empty = True, eset_empty = True, maxfd = 0\<rparr>"

text \<open>
  The callbacks are an argument: they get the watcher and the event, and change the driver and the
  state \<open>'c\<close> of its clients.
\<close>

type_synonym 'c io_callback = "nat \<Rightarrow> io_driver_event \<Rightarrow> io_driver \<times> 'c \<Rightarrow> (io_driver \<times> 'c) res"

definition event_set :: "select_call_arg \<Rightarrow> io_driver_event \<Rightarrow> int set" where
  "event_set s e = (case e of IO_DRIVER_EVENT_RX \<Rightarrow> rset s | IO_DRIVER_EVENT_TX \<Rightarrow> wset s | IO_DRIVER_EVENT_EX \<Rightarrow> eset s)"

text \<open>One of the three tests of the loop; every one of them reads the watcher again.\<close>

definition dispatch :: "'c io_callback \<Rightarrow> select_call_arg \<Rightarrow> nat \<Rightarrow> io_driver_event \<Rightarrow> io_driver \<times> 'c \<Rightarrow> (io_driver \<times> 'c) res" where
  "dispatch cb s p e st =
     bindE (get_watcher (fst st) p) (\<lambda>w.
     if \<not> listens w e then Inr st
     else bindE (FD_ISSET (w_fd w) (event_set s e)) (\<lambda>b.
          if b then cb p e ((fst st)\<lparr>calls := calls (fst st) @ [(p, e)]\<rparr>, snd st) else Inr st))"

partial_function (option) io_driver_run_loop ::
  "'c io_callback \<Rightarrow> select_call_arg \<Rightarrow> io_driver \<times> 'c \<Rightarrow> (io_driver \<times> 'c) res option" where
  "io_driver_run_loop cb s st =
     (case run_list (fst st) of
        [] \<Rightarrow> Some (Inr st)
      | p # _ \<Rightarrow>
          let io = unlink p (fst st);
              io = io\<lparr>watchers := watchers io @ [p]\<rparr>
          in lift_res (bindE (dispatch cb s p IO_DRIVER_EVENT_RX (io, snd st)) (\<lambda>st.
                       bindE (dispatch cb s p IO_DRIVER_EVENT_TX st)
                             (dispatch cb s p IO_DRIVER_EVENT_EX)))
               (io_driver_run_loop cb s))"

definition io_driver_postselect ::
  "'c io_callback \<Rightarrow> select_call_arg \<Rightarrow> io_driver \<times> 'c \<Rightarrow> (io_driver \<times> 'c) res option" where
  "io_driver_postselect cb s st =
     io_driver_run_loop cb s ((fst st)\<lparr>run_list := watchers (fst st), watchers := []\<rparr>, snd st)"

text \<open>
  \<open>select\<close> is an argument: given the largest descriptor and the three sets, \<open>None\<close> for a null pointer,
  it gives its result and what it leaves in the sets.
\<close>

type_synonym select_fn = "int \<Rightarrow> int set option \<Rightarrow> int set option \<Rightarrow> int set option \<Rightarrow> int \<times> int set \<times> int set \<times> int set"

definition io_driver_run :: "'c io_callback \<Rightarrow> select_fn \<Rightarrow> io_driver \<times> 'c \<Rightarrow> (io_driver \<times> 'c) res option" where
  "io_driver_run cb sel st =
     lift_res (io_driver_preselect (fst st)) (\<lambda>s.
     let (ret, r, w, e) = sel (maxfd s + 1) (if rset_empty s then None else Some (rset s))
           (if wset_empty s then None else Some (wset s)) (if eset_empty s then None else Some (eset s));
         s = s\<lparr>rset := if rset_empty s then rset s else r, wset := if wset_empty s then wset s else w,
           eset := if eset_empty s then eset s else e\<rparr>
     in if ret < 0 then Some (Inr st)
        else if ret = 0 then Some (Inr st)
        else io_driver_postselect cb s st)"

section \<open>The invariant\<close>

text \<open>A watcher is in one of the lists, once, if and only if it listens to an event.\<close>

definition io_wf :: "io_driver \<Rightarrow> bool" where
  "io_wf io \<longleftrightarrow> distinct (watchers io @ run_list io) \<and>
     (\<forall>p. p \<in> set (watchers io @ run_list io) \<longleftrightarrow> (\<exists>w. watcher_mem io p = Some w \<and> event_listening w \<noteq> 0))"

text \<open>
  What the callback of the watcher \<open>p\<close> may do to the driver: unlink watchers of the run list, but add
  none, and leave the descriptors of the watchers on it, and its own, as they are.
\<close>

definition cb_step :: "nat \<Rightarrow> io_driver \<Rightarrow> io_driver \<Rightarrow> bool" where
  "cb_step p io io' \<longleftrightarrow> (\<exists>P. run_list io' = filter P (run_list io)) \<and> calls io' = calls io \<and>
     (\<forall>q \<in> set (p # run_list io'). map_option w_fd (watcher_mem io' q) \<in> {None, map_option w_fd (watcher_mem io q)})"

lemma cb_step_refl [simp]: "cb_step p io io"
  by (auto simp: cb_step_def intro: exI [of _ "\<lambda>_. True"])

lemma cb_step_trans: "cb_step p io io' \<Longrightarrow> cb_step p io' io'' \<Longrightarrow> cb_step p io io''"
  unfolding cb_step_def by (elim conjE exE) (auto, force+)

lemma or_bit_nonzero: "(x :: u8) OR event_bit e \<noteq> 0"
proof
  assume "x OR event_bit e = 0"
  then have "event_bit e = 0" by (metis or_eq_0_iff)
  then show False by (cases e) simp_all
qed

lemma io_wfD:
  assumes "io_wf io"
  shows "distinct (watchers io)" "distinct (run_list io)" "set (watchers io) \<inter> set (run_list io) = {}"
    "q \<in> set (watchers io) \<or> q \<in> set (run_list io) \<longleftrightarrow> (\<exists>w. watcher_mem io q = Some w \<and> event_listening w \<noteq> 0)"
  using assms by (auto simp: io_wf_def)

lemma watch_ok:
  assumes "io_wf io" "watcher_mem io p = Some w"
  shows "\<exists>io'. io_driver_watch io p e = Inr io' \<and> io_wf io' \<and> cb_step q io io' \<and>
    watcher_mem io' = (watcher_mem io)(p \<mapsto> w\<lparr>event_listening := event_listening w OR event_bit e\<rparr>) \<and>
    watchers io' = watchers io @ (if event_listening w = 0 then [p] else [])"
proof -
  note d = io_wfD [OF assms(1)]
  let ?w = "w\<lparr>event_listening := event_listening w OR event_bit e\<rparr>"
  let ?io = "(set_watcher p ?w io)\<lparr>watchers := watchers io @ (if event_listening w = 0 then [p] else [])\<rparr>"
  have nz: "event_listening ?w \<noteq> 0" using or_bit_nonzero by simp
  have mem: "p \<in> set (watchers io) \<or> p \<in> set (run_list io) \<longleftrightarrow> event_listening w \<noteq> 0" using d(4) [of p] assms(2) by simp
  have "io_driver_watch io p e = Inr ?io"
    using assms(2) mem nz by (auto simp: io_driver_watch_def get_watcher_def set_watcher_def Let_def)
  moreover have "io_wf ?io"
  proof (cases "event_listening w = 0")
    case True
    with mem have "p \<notin> set (watchers io)" "p \<notin> set (run_list io)" by auto
    with True nz show ?thesis using d(1-3) by (auto simp: io_wf_def set_watcher_def d(4))
  qed (use d(1-3) nz assms(2) in \<open>auto simp: io_wf_def set_watcher_def d(4)\<close>)
  moreover have "cb_step q io ?io"
    using assms(2) by (auto simp: cb_step_def set_watcher_def intro: exI [of _ "\<lambda>_. True"])
  ultimately show ?thesis by (intro exI [of _ ?io]) (simp add: set_watcher_def)
qed

lemma no_watch_ok:
  assumes "io_wf io" "watcher_mem io p = Some w"
  shows "\<exists>io'. io_driver_no_watch io p e = Inr io' \<and> io_wf io' \<and> cb_step q io io' \<and>
    watcher_mem io' = (watcher_mem io)(p \<mapsto> w\<lparr>event_listening := event_listening w AND NOT (event_bit e)\<rparr>)"
proof -
  note d = io_wfD [OF assms(1)]
  let ?w = "w\<lparr>event_listening := event_listening w AND NOT (event_bit e)\<rparr>"
  let ?io = "if event_listening w \<noteq> 0 \<and> event_listening ?w = 0 then unlink p (set_watcher p ?w io) else set_watcher p ?w io"
  have "io_driver_no_watch io p e = Inr ?io"
    using assms(2) by (simp add: io_driver_no_watch_def get_watcher_def Let_def)
  moreover have "watcher_mem ?io = (watcher_mem io)(p \<mapsto> ?w)" by (simp add: unlink_def set_watcher_def)
  moreover have "cb_step q io ?io"
    using d(2) assms(2) by (auto simp: cb_step_def unlink_def set_watcher_def distinct_remove1_removeAll removeAll_filter_not_eq
        intro: exI [of _ "\<lambda>_. True"])
  moreover have "io_wf ?io"
  proof (cases "event_listening w \<noteq> 0 \<and> event_listening ?w = 0")
    case True
    then show ?thesis using d(1-3) by (auto simp: io_wf_def unlink_def set_watcher_def d(4))
  next
    case False
    then have "event_listening w \<noteq> 0 \<longleftrightarrow> event_listening ?w \<noteq> 0" by auto
    with False show ?thesis using d(1-3) assms(2) by (auto simp: io_wf_def set_watcher_def d(4))
  qed
  ultimately show ?thesis by blast
qed

section \<open>What is asked of select\<close>

definition listening_fds :: "io_driver \<Rightarrow> nat list \<Rightarrow> io_driver_event \<Rightarrow> int set" where
  "listening_fds io ps e = {w_fd w | w. \<exists>p \<in> set ps. watcher_mem io p = Some w \<and> listens w e}"

definition fds_fit :: "io_driver \<Rightarrow> nat list \<Rightarrow> bool" where
  "fds_fit io ps \<longleftrightarrow> (\<forall>p \<in> set ps. \<forall>w. watcher_mem io p = Some w \<longrightarrow> 0 \<le> w_fd w \<and> w_fd w < FD_SETSIZE)"

lemma listening_fds_simps [simp]:
  "listening_fds io [] e = {}"
  "listening_fds io (p # ps) e = listening_fds io ps e \<union>
     (case watcher_mem io p of None \<Rightarrow> {} | Some w \<Rightarrow> if listens w e then {w_fd w} else {})"
  by (auto simp: listening_fds_def split: option.splits)

lemma preselect_watcher_ok:
  assumes "watcher_mem io p = Some w" "0 \<le> w_fd w" "w_fd w < FD_SETSIZE"
  shows "\<exists>s'. preselect_watcher io p s = Inr s' \<and>
    (\<forall>e. event_set s' e = event_set s e \<union> (if listens w e then {w_fd w} else {})) \<and>
    (rset_empty s' \<longleftrightarrow> rset_empty s \<and> \<not> listens w IO_DRIVER_EVENT_RX) \<and>
    (wset_empty s' \<longleftrightarrow> wset_empty s \<and> \<not> listens w IO_DRIVER_EVENT_TX) \<and>
    (eset_empty s' \<longleftrightarrow> eset_empty s \<and> \<not> listens w IO_DRIVER_EVENT_EX)"
  using assms
  by (auto simp: preselect_watcher_def get_watcher_def FD_SET_def event_set_def split: io_driver_event.split)

lemma preselect_fold:
  assumes "fds_fit io ps" "\<forall>p \<in> set ps. watcher_mem io p \<noteq> None"
  shows "\<exists>s'. foldE (preselect_watcher io) ps s = Inr s' \<and>
    (\<forall>e. event_set s' e = event_set s e \<union> listening_fds io ps e) \<and>
    (rset_empty s' \<longleftrightarrow> rset_empty s \<and> listening_fds io ps IO_DRIVER_EVENT_RX = {}) \<and>
    (wset_empty s' \<longleftrightarrow> wset_empty s \<and> listening_fds io ps IO_DRIVER_EVENT_TX = {}) \<and>
    (eset_empty s' \<longleftrightarrow> eset_empty s \<and> listening_fds io ps IO_DRIVER_EVENT_EX = {})"
  using assms
proof (induction ps arbitrary: s)
  case (Cons p ps)
  then obtain w where w: "watcher_mem io p = Some w" "0 \<le> w_fd w" "w_fd w < FD_SETSIZE" by (auto simp: fds_fit_def)
  obtain s1 where 1: "preselect_watcher io p s = Inr s1"
    "\<And>e. event_set s1 e = event_set s e \<union> (if listens w e then {w_fd w} else {})"
    "rset_empty s1 \<longleftrightarrow> rset_empty s \<and> \<not> listens w IO_DRIVER_EVENT_RX"
    "wset_empty s1 \<longleftrightarrow> wset_empty s \<and> \<not> listens w IO_DRIVER_EVENT_TX"
    "eset_empty s1 \<longleftrightarrow> eset_empty s \<and> \<not> listens w IO_DRIVER_EVENT_EX"
    using preselect_watcher_ok [OF w, of s] by blast
  have "fds_fit io ps" "\<forall>p \<in> set ps. watcher_mem io p \<noteq> None" using Cons.prems by (simp_all add: fds_fit_def)
  from Cons.IH [OF this, of s1] 1 w(1) show ?case by (elim exE conjE) (simp add: Un_ac)
qed simp

lemma preselect_ok:
  assumes "io_wf io" "fds_fit io (watchers io)"
  shows "\<exists>s. io_driver_preselect io = Inr s \<and> (\<forall>e. event_set s e = listening_fds io (watchers io) e) \<and>
    (rset_empty s \<longleftrightarrow> rset s = {}) \<and> (wset_empty s \<longleftrightarrow> wset s = {}) \<and> (eset_empty s \<longleftrightarrow> eset s = {})"
proof -
  have "\<forall>p \<in> set (watchers io). watcher_mem io p \<noteq> None" using io_wfD(4) [OF assms(1)] by blast
  let ?s = "\<lparr>rset = {}, wset = {}, eset = {}, rset_empty = True, wset_empty = True, eset_empty = True, maxfd = 0\<rparr>"
  obtain s where s: "io_driver_preselect io = Inr s"
    "\<And>e. event_set s e = event_set ?s e \<union> listening_fds io (watchers io) e"
    "rset_empty s \<longleftrightarrow> listening_fds io (watchers io) IO_DRIVER_EVENT_RX = {}"
    "wset_empty s \<longleftrightarrow> listening_fds io (watchers io) IO_DRIVER_EVENT_TX = {}"
    "eset_empty s \<longleftrightarrow> listening_fds io (watchers io) IO_DRIVER_EVENT_EX = {}"
    using preselect_fold [OF assms(2) \<open>\<forall>p \<in> set (watchers io). watcher_mem io p \<noteq> None\<close>, of ?s]
    unfolding io_driver_preselect_def by auto
  have "event_set s e = listening_fds io (watchers io) e" for e
    using s(2) [of e] by (simp add: event_set_def split: io_driver_event.split)
  with this [of IO_DRIVER_EVENT_RX] this [of IO_DRIVER_EVENT_TX] this [of IO_DRIVER_EVENT_EX] s(1,3-5)
  show ?thesis by (auto simp: event_set_def)
qed

text \<open>The documented behaviour of \<open>select\<close>: it only takes descriptors out of the sets that it is given.\<close>

definition select_sane :: "select_fn \<Rightarrow> bool" where
  "select_sane sel \<longleftrightarrow> (\<forall>n r w e. case sel n r w e of (_, r', w', e') \<Rightarrow>
     (\<forall>s. r = Some s \<longrightarrow> r' \<subseteq> s) \<and> (\<forall>s. w = Some s \<longrightarrow> w' \<subseteq> s) \<and> (\<forall>s. e = Some s \<longrightarrow> e' \<subseteq> s))"

lemma select_saneD:
  assumes "select_sane sel" "sel n r w e = (ret, r', w', e')"
  shows "r = Some s \<Longrightarrow> r' \<subseteq> s" "w = Some s \<Longrightarrow> w' \<subseteq> s" "e = Some s \<Longrightarrow> e' \<subseteq> s"
proof -
  have "case sel n r w e of (_, r', w', e') \<Rightarrow>
     (\<forall>s. r = Some s \<longrightarrow> r' \<subseteq> s) \<and> (\<forall>s. w = Some s \<longrightarrow> w' \<subseteq> s) \<and> (\<forall>s. e = Some s \<longrightarrow> e' \<subseteq> s)"
    using assms(1) unfolding select_sane_def by (elim allE)
  then show "r = Some s \<Longrightarrow> r' \<subseteq> s" "w = Some s \<Longrightarrow> w' \<subseteq> s" "e = Some s \<Longrightarrow> e' \<subseteq> s"
    unfolding assms(2) by simp_all
qed

section \<open>The contract between the loop and its clients\<close>

text \<open>All that a pass can call for the watchers \<open>ps\<close>, in order.\<close>

definition turns :: "nat list \<Rightarrow> (nat \<times> io_driver_event) list" where
  "turns ps = concat (map (\<lambda>p. [(p, IO_DRIVER_EVENT_RX), (p, IO_DRIVER_EVENT_TX), (p, IO_DRIVER_EVENT_EX)]) ps)"

definition is_ready :: "io_driver \<Rightarrow> select_call_arg \<Rightarrow> nat \<times> io_driver_event \<Rightarrow> bool" where
  "is_ready io s pe \<longleftrightarrow> (\<exists>w. watcher_mem io (fst pe) = Some w \<and> w_fd w \<in> event_set s (snd pe))"

text \<open>
  \<open>ok\<close> is the invariant of the clients, which does not depend on the lists; \<open>F\<close> has the faults that a
  callback may end in, and \<open>UseAfterFree\<close> if it may free the watcher that it is called for.
\<close>

locale io_client =
  fixes cb :: "'c io_callback" and ok :: "(nat \<Rightarrow> io_driver_watcher option) \<Rightarrow> 'c \<Rightarrow> bool" and F :: "fault set"
  assumes cb_ok: "io_wf io \<Longrightarrow> ok (watcher_mem io) c \<Longrightarrow> p \<in> set (watchers io) \<Longrightarrow>
      outcome F (\<lambda>(io', c'). io_wf io' \<and> ok (watcher_mem io') c' \<and> cb_step p io io' \<and>
        (watcher_mem io' p = None \<longrightarrow> UseAfterFree \<in> F)) (cb p e (io, c))"
begin

definition good :: "nat \<Rightarrow> io_driver \<Rightarrow> io_driver \<times> 'c \<Rightarrow> bool" where
  "good p io0 st \<longleftrightarrow> io_wf (fst st) \<and> ok (watcher_mem (fst st)) (snd st) \<and>
     p \<notin> set (run_list (fst st)) \<and> fds_fit (fst st) [p] \<and>
     (\<exists>P. run_list (fst st) = filter P (run_list io0)) \<and>
     (\<forall>q \<in> set (p # run_list (fst st)). map_option w_fd (watcher_mem (fst st) q) \<in> {None, map_option w_fd (watcher_mem io0 q)}) \<and>
     (watcher_mem (fst st) p = None \<longrightarrow> UseAfterFree \<in> F)"

lemma dispatch_ok:
  assumes "good p io0 st"
  shows "outcome F (\<lambda>st'. good p io0 st' \<and> (\<exists>new. calls (fst st') = calls (fst st) @ new \<and>
    new \<in> {[], [(p, e)]} \<and> (\<forall>pe \<in> set new. is_ready io0 s pe))) (dispatch cb s p e st)"
proof (cases "watcher_mem (fst st) p")
  case None
  then show ?thesis using assms by (simp add: dispatch_def get_watcher_def good_def)
next
  case (Some w)
  show ?thesis
  proof (cases "listens w e \<and> w_fd w \<in> event_set s e")
    case False
    then show ?thesis using assms Some by (auto simp: dispatch_def get_watcher_def good_def fds_fit_def FD_ISSET_def)
  next
    case True
    have "event_listening w \<noteq> 0" using True by (auto simp: listens_def)
    let ?io = "(fst st)\<lparr>calls := calls (fst st) @ [(p, e)]\<rparr>"
    have wf: "io_wf ?io" "ok (watcher_mem ?io) (snd st)" using assms by (simp_all add: good_def io_wf_def)
    have "p \<in> set (watchers ?io)"
      using io_wfD(4) [of "fst st" p] Some \<open>event_listening w \<noteq> 0\<close> assms by (auto simp: good_def)
    note cb = cb_ok [OF wf this, of e]
    have "map_option w_fd (watcher_mem io0 p) = Some (w_fd w)" using Some assms by (auto simp: good_def)
    then have rdy: "is_ready io0 s (p, e)" using True by (auto simp: is_ready_def)
    have d: "dispatch cb s p e st = cb p e (?io, snd st)"
      using True Some assms by (auto simp: dispatch_def get_watcher_def FD_ISSET_def good_def fds_fit_def)
    have "good p io0 (io', c') \<and> (\<exists>new. calls io' = calls (fst st) @ new \<and> new \<in> {[], [(p, e)]} \<and>
        (\<forall>pe \<in> set new. is_ready io0 s pe))"
      if h: "io_wf io'" "ok (watcher_mem io') c'" "cb_step p ?io io'" "watcher_mem io' p = None \<longrightarrow> UseAfterFree \<in> F"
      for io' c'
    proof -
      obtain P where P: "run_list io' = filter P (run_list (fst st))" using h(3) by (auto simp: cb_step_def)
      obtain Q where Q: "run_list (fst st) = filter Q (run_list io0)" using assms by (auto simp: good_def)
      have step: "map_option w_fd (watcher_mem io' q) \<in> {None, map_option w_fd (watcher_mem (fst st) q)}"
        if "q \<in> set (p # run_list io')" for q using h(3) that by (auto simp: cb_step_def)
      have g0: "map_option w_fd (watcher_mem (fst st) q) \<in> {None, map_option w_fd (watcher_mem io0 q)}"
        if "q \<in> set (p # run_list io')" for q using assms that P by (auto simp: good_def)
      have "map_option w_fd (watcher_mem io' q) \<in> {None, map_option w_fd (watcher_mem io0 q)}"
        if "q \<in> set (p # run_list io')" for q using step [OF that] g0 [OF that] by auto
      moreover have "fds_fit io' [p]"
        using step [of p] Some assms by (auto simp: fds_fit_def good_def)
      moreover have "\<exists>P. run_list io' = filter P (run_list io0)" using P Q by (auto intro: exI [of _ "\<lambda>x. Q x \<and> P x"])
      moreover have "p \<notin> set (run_list io')" using P assms by (auto simp: good_def)
      moreover have "calls io' = calls (fst st) @ [(p, e)]" using h(3) by (simp add: cb_step_def)
      ultimately show ?thesis using h(1,2,4) rdy by (auto simp: good_def)
    qed
    then show ?thesis unfolding d by (intro outcome_mono [OF cb]) auto
  qed
qed

text \<open>The three tests for one watcher.\<close>

lemma dispatch_all_ok:
  assumes "good p io0 st"
  shows "outcome F (\<lambda>st'. good p io0 st' \<and> (\<exists>new. calls (fst st') = calls (fst st) @ new \<and>
    subseq new (turns [p]) \<and> (\<forall>pe \<in> set new. is_ready io0 s pe)))
    (bindE (dispatch cb s p IO_DRIVER_EVENT_RX st) (\<lambda>st.
     bindE (dispatch cb s p IO_DRIVER_EVENT_TX st) (dispatch cb s p IO_DRIVER_EVENT_EX)))"
proof (rule outcome_bind [OF dispatch_ok [OF assms]], elim conjE exE)
  fix st1 new1
  assume 1: "good p io0 st1" "calls (fst st1) = calls (fst st) @ new1" "new1 \<in> {[], [(p, IO_DRIVER_EVENT_RX)]}"
    "\<forall>pe \<in> set new1. is_ready io0 s pe"
  show "outcome F (\<lambda>st'. good p io0 st' \<and> (\<exists>new. calls (fst st') = calls (fst st) @ new \<and>
    subseq new (turns [p]) \<and> (\<forall>pe \<in> set new. is_ready io0 s pe)))
    (bindE (dispatch cb s p IO_DRIVER_EVENT_TX st1) (dispatch cb s p IO_DRIVER_EVENT_EX))"
  proof (rule outcome_bind [OF dispatch_ok [OF 1(1)]], elim conjE exE)
    fix st2 new2
    assume 2: "good p io0 st2" "calls (fst st2) = calls (fst st1) @ new2" "new2 \<in> {[], [(p, IO_DRIVER_EVENT_TX)]}"
      "\<forall>pe \<in> set new2. is_ready io0 s pe"
    have sub: "subseq (new1 @ new2 @ new3) (turns [p])" if "new3 \<in> {[], [(p, IO_DRIVER_EVENT_EX)]}" for new3
      using 1(3) 2(3) that by (auto simp: turns_def)
    show "outcome F (\<lambda>st'. good p io0 st' \<and> (\<exists>new. calls (fst st') = calls (fst st) @ new \<and>
      subseq new (turns [p]) \<and> (\<forall>pe \<in> set new. is_ready io0 s pe))) (dispatch cb s p IO_DRIVER_EVENT_EX st2)"
    proof (rule outcome_mono [OF dispatch_ok [OF 2(1)]], simp, elim conjE exE)
      fix st3 new3
      assume 3: "good p io0 st3" "calls (fst st3) = calls (fst st2) @ new3" "new3 \<in> {[], [(p, IO_DRIVER_EVENT_EX)]}"
        "\<forall>pe \<in> set new3. is_ready io0 s pe"
      show "good p io0 st3 \<and> (\<exists>new. calls (fst st3) = calls (fst st) @ new \<and>
        subseq new (turns [p]) \<and> (\<forall>pe \<in> set new. is_ready io0 s pe))"
        using 1(2,4) 2(2,4) 3(1,2,4) sub [OF 3(3)] by (intro conjI exI [of _ "new1 @ new2 @ new3"]) auto
    qed
  qed
qed

text \<open>The loop ends, since every turn takes a watcher off the run list and none puts one on it.\<close>

lemma run_loop_ok:
  assumes "io_wf io" "ok (watcher_mem io) c" "fds_fit io (run_list io)"
  shows "\<exists>r. io_driver_run_loop cb s (io, c) = Some r \<and>
    outcome F (\<lambda>(io', c'). io_wf io' \<and> ok (watcher_mem io') c' \<and> run_list io' = [] \<and>
      (\<exists>new. calls io' = calls io @ new \<and> subseq new (turns (run_list io)) \<and> (\<forall>pe \<in> set new. is_ready io s pe))) r"
  using assms
proof (induction "length (run_list io)" arbitrary: io c rule: less_induct)
  case less
  show ?case
  proof (cases "run_list io")
    case Nil
    with less.prems show ?thesis by (subst io_driver_run_loop.simps) (auto intro: exI [of _ "[]"])
  next
    case (Cons p ps)
    note d = io_wfD [OF less.prems(1)]
    let ?io = "(unlink p io)\<lparr>watchers := watchers (unlink p io) @ [p]\<rparr>"
    have p: "p \<notin> set (watchers io)" "p \<notin> set ps" "run_list ?io = ps" "watchers ?io = watchers io @ [p]"
      "watcher_mem ?io = watcher_mem io" "calls ?io = calls io"
      using d(1-3) Cons by (auto simp: unlink_def remove1_idem)
    have wf: "io_wf ?io" using less.prems(1) Cons p by (auto simp: io_wf_def)
    have g: "good p ?io (?io, c)"
      using wf less.prems(2,3) Cons p by (auto simp: good_def fds_fit_def intro: exI [of _ "\<lambda>_. True"])
        (use d(4) [of p] in auto)
    have step: "\<exists>r. io_driver_run_loop cb s st' = Some r \<and>
        outcome F (\<lambda>(io', c'). io_wf io' \<and> ok (watcher_mem io') c' \<and> run_list io' = [] \<and>
          (\<exists>new. calls io' = calls io @ new \<and> subseq new (turns (run_list io)) \<and> (\<forall>pe \<in> set new. is_ready io s pe))) r"
      if h: "good p ?io st'" "calls (fst st') = calls ?io @ new" "subseq new (turns [p])" "\<forall>pe \<in> set new. is_ready ?io s pe"
      for st' new
    proof -
      obtain io1 c1 where st': "st' = (io1, c1)" by (cases st')
      obtain P where P: "run_list io1 = filter P ps" using h(1) p(3) st' by (auto simp: good_def)
      then have short: "length (run_list io1) < length (run_list io)" using Cons by (simp add: le_imp_less_Suc)
      have fd: "map_option w_fd (watcher_mem io1 q) \<in> {None, map_option w_fd (watcher_mem io q)}" if "q \<in> set (run_list io1)" for q
        using h(1) that p(5) st' by (simp add: good_def)
      have fit: "fds_fit io1 (run_list io1)"
        unfolding fds_fit_def
      proof (intro ballI allI impI)
        fix q w
        assume q: "q \<in> set (run_list io1)" "watcher_mem io1 q = Some w"
        from fd [OF q(1)] q(2) obtain w0 where "watcher_mem io q = Some w0" "w_fd w = w_fd w0"
          by (cases "watcher_mem io q") auto
        moreover have "q \<in> set (run_list io)" using q(1) P Cons by simp
        ultimately show "0 \<le> w_fd w \<and> w_fd w < FD_SETSIZE" using less.prems(3) by (simp add: fds_fit_def)
      qed
      have g1: "io_wf io1" "ok (watcher_mem io1) c1" using h(1) st' by (simp_all add: good_def)
      obtain r where r: "io_driver_run_loop cb s (io1, c1) = Some r"
        "outcome F (\<lambda>(io', c'). io_wf io' \<and> ok (watcher_mem io') c' \<and> run_list io' = [] \<and>
          (\<exists>new. calls io' = calls io1 @ new \<and> subseq new (turns (run_list io1)) \<and> (\<forall>pe \<in> set new. is_ready io1 s pe))) r"
        using less.hyps [OF short g1 fit] by blast
      have rdy: "is_ready io s pe" if "is_ready io1 s pe" "fst pe \<in> set (run_list io1)" for pe
        using that fd [OF that(2)] by (cases "watcher_mem io (fst pe)") (auto simp: is_ready_def)
      have sub: "subseq (new @ new') (turns (run_list io))" "\<forall>pe \<in> set new'. fst pe \<in> set (run_list io1)"
        if "subseq new' (turns (run_list io1))" for new'
      proof -
        have "turns (filter P ps) = filter (P \<circ> fst) (turns ps)" by (induction ps) (auto simp: turns_def)
        then have "subseq new' (turns ps)" using that P by (metis subseq_filter_left subseq_order.order_trans)
        moreover have "turns (p # ps) = turns [p] @ turns ps" by (simp add: turns_def)
        ultimately show "subseq (new @ new') (turns (run_list io))"
          using h(3) Cons by (simp add: list_emb_append_mono)
        have "set new' \<subseteq> set (turns (run_list io1))" using that by (auto elim: list_emb_set)
        then show "\<forall>pe \<in> set new'. fst pe \<in> set (run_list io1)" by (auto simp: turns_def)
      qed
      have "outcome F (\<lambda>(io', c'). io_wf io' \<and> ok (watcher_mem io') c' \<and> run_list io' = [] \<and>
          (\<exists>new. calls io' = calls io @ new \<and> subseq new (turns (run_list io)) \<and> (\<forall>pe \<in> set new. is_ready io s pe))) r"
      proof (intro outcome_mono [OF r(2) subset_refl], unfold case_prod_unfold, elim conjE exE)
        fix x new'
        assume 2: "io_wf (fst x)" "ok (watcher_mem (fst x)) (snd x)" "run_list (fst x) = []" "calls (fst x) = calls io1 @ new'"
          "subseq new' (turns (run_list io1))" "\<forall>pe \<in> set new'. is_ready io1 s pe"
        have "\<forall>pe \<in> set (new @ new'). is_ready io s pe"
        proof -
          have "\<forall>pe \<in> set new. is_ready io s pe" using h(4) p(5) by (simp add: is_ready_def)
          moreover have "\<forall>pe \<in> set new'. is_ready io s pe" using 2(6) rdy sub(2) [OF 2(5)] by blast
          ultimately show ?thesis by auto
        qed
        then have "\<exists>new. calls (fst x) = calls io @ new \<and> subseq new (turns (run_list io)) \<and> (\<forall>pe \<in> set new. is_ready io s pe)"
          using 2(4) h(2) st' p(6) sub(1) [OF 2(5)] by (intro exI [of _ "new @ new'"] conjI) simp_all
        with 2(1-3) show "io_wf (fst x) \<and> ok (watcher_mem (fst x)) (snd x) \<and> run_list (fst x) = [] \<and>
          (\<exists>new. calls (fst x) = calls io @ new \<and> subseq new (turns (run_list io)) \<and> (\<forall>pe \<in> set new. is_ready io s pe))"
          by (intro conjI)
      qed
      with r(1) st' show ?thesis by blast
    qed
    have "io_driver_run_loop cb s (io, c) = lift_res (bindE (dispatch cb s p IO_DRIVER_EVENT_RX (?io, c)) (\<lambda>st.
        bindE (dispatch cb s p IO_DRIVER_EVENT_TX st) (dispatch cb s p IO_DRIVER_EVENT_EX))) (io_driver_run_loop cb s)"
      using Cons by (subst io_driver_run_loop.simps) (simp add: Let_def)
    moreover have "\<exists>r. lift_res m (io_driver_run_loop cb s) = Some r \<and>
        outcome F (\<lambda>(io', c'). io_wf io' \<and> ok (watcher_mem io') c' \<and> run_list io' = [] \<and>
          (\<exists>new. calls io' = calls io @ new \<and> subseq new (turns (run_list io)) \<and> (\<forall>pe \<in> set new. is_ready io s pe))) r"
      if m: "outcome F (\<lambda>st'. good p ?io st' \<and> (\<exists>new. calls (fst st') = calls (fst (?io, c)) @ new \<and>
        subseq new (turns [p]) \<and> (\<forall>pe \<in> set new. is_ready ?io s pe))) m" for m
    proof (cases m)
      case (Inl f)
      with m show ?thesis by simp
    next
      case (Inr st')
      from outcome_Inr [OF m Inr] obtain new where "good p ?io st'" "calls (fst st') = calls ?io @ new" "subseq new (turns [p])"
        "\<forall>pe \<in> set new. is_ready ?io s pe" unfolding fst_conv by blast
      from step [OF this] Inr show ?thesis by simp
    qed
    ultimately show ?thesis using dispatch_all_ok [OF g, of s] by (simp only: )
  qed
qed

text \<open>A pass of the loop.\<close>

lemma run_ok:
  assumes "io_wf io" "ok (watcher_mem io) c" "run_list io = []" "fds_fit io (watchers io)" "select_sane sel"
  shows "\<exists>r. io_driver_run cb sel (io, c) = Some r \<and>
    outcome F (\<lambda>(io', c'). io_wf io' \<and> ok (watcher_mem io') c' \<and> run_list io' = [] \<and>
      (\<exists>new. calls io' = calls io @ new \<and> subseq new (turns (watchers io)) \<and>
        (\<forall>(p, e) \<in> set new. \<exists>w. watcher_mem io p = Some w \<and> w_fd w \<in> listening_fds io (watchers io) e))) r"
proof -
  obtain s where s: "io_driver_preselect io = Inr s" "\<And>e. event_set s e = listening_fds io (watchers io) e"
    "rset_empty s \<longleftrightarrow> rset s = {}" "wset_empty s \<longleftrightarrow> wset s = {}" "eset_empty s \<longleftrightarrow> eset s = {}"
    using preselect_ok [OF assms(1,4)] by blast
  obtain ret r w e where sel: "sel (maxfd s + 1) (if rset_empty s then None else Some (rset s))
      (if wset_empty s then None else Some (wset s)) (if eset_empty s then None else Some (eset s)) = (ret, r, w, e)"
    by (cases rule: prod_cases4)
  have sub: "\<not> rset_empty s \<longrightarrow> r \<subseteq> rset s" "\<not> wset_empty s \<longrightarrow> w \<subseteq> wset s" "\<not> eset_empty s \<longrightarrow> e \<subseteq> eset s"
    using select_saneD [OF assms(5) sel] by simp_all
  let ?s = "s\<lparr>rset := if rset_empty s then rset s else r, wset := if wset_empty s then wset s else w,
      eset := if eset_empty s then eset s else e\<rparr>"
  have run: "io_driver_run cb sel (io, c) = (if ret \<le> 0 then Some (Inr (io, c)) else io_driver_postselect cb ?s (io, c))"
    using s(1) sel by (simp add: io_driver_run_def)
  have ev: "event_set ?s e' \<subseteq> listening_fds io (watchers io) e'" for e'
    using sub s(2) [of e'] by (cases e') (auto simp: event_set_def)
  let ?io = "io\<lparr>run_list := watchers io, watchers := []\<rparr>"
  show ?thesis
  proof (cases "ret \<le> 0")
    case True
    then show ?thesis using run assms(1-3) by simp
  next
    case False
    have "io_wf ?io" using assms(1,3) by (simp add: io_wf_def)
    moreover have "fds_fit ?io (run_list ?io)" using assms(4) by (simp add: fds_fit_def)
    ultimately obtain r' where r': "io_driver_run_loop cb ?s (?io, c) = Some r'"
      "outcome F (\<lambda>(io', c'). io_wf io' \<and> ok (watcher_mem io') c' \<and> run_list io' = [] \<and>
        (\<exists>new. calls io' = calls io @ new \<and> subseq new (turns (watchers io)) \<and> (\<forall>pe \<in> set new. is_ready ?io ?s pe))) r'"
      using run_loop_ok [of ?io c ?s] assms(2) by auto
    have rdy: "\<forall>(p, e) \<in> set new. \<exists>w. watcher_mem io p = Some w \<and> w_fd w \<in> listening_fds io (watchers io) e"
      if "\<forall>pe \<in> set new. is_ready ?io ?s pe" for new
      using that ev unfolding is_ready_def by fastforce
    have "outcome F (\<lambda>(io', c'). io_wf io' \<and> ok (watcher_mem io') c' \<and> run_list io' = [] \<and>
      (\<exists>new. calls io' = calls io @ new \<and> subseq new (turns (watchers io)) \<and>
        (\<forall>(p, e) \<in> set new. \<exists>w. watcher_mem io p = Some w \<and> w_fd w \<in> listening_fds io (watchers io) e))) r'"
      by (intro outcome_mono [OF r'(2) subset_refl]) (use rdy in blast)
    moreover have "io_driver_run cb sel (io, c) = Some r'" using r'(1) run False by (simp add: io_driver_postselect_def)
    ultimately show ?thesis by blast
  qed
qed

end

section \<open>Callbacks that watch and unwatch\<close>

text \<open>Callbacks of any behaviour towards the driver: each does a list of registrations.\<close>

datatype io_action = Watch nat io_driver_event | No_Watch nat io_driver_event

fun do_action :: "io_action \<Rightarrow> io_driver \<Rightarrow> io_driver res" where
  "do_action (Watch q e) io = io_driver_watch io q e"
| "do_action (No_Watch q e) io = io_driver_no_watch io q e"

definition script_cb :: "(nat \<Rightarrow> io_driver_event \<Rightarrow> io_action list) \<Rightarrow> unit io_callback" where
  "script_cb acts p e st = bindE (foldE do_action (acts p e) (fst st)) (\<lambda>io. Inr (io, ()))"

definition script_ok :: "(nat \<Rightarrow> io_driver_event \<Rightarrow> io_action list) \<Rightarrow> (nat \<Rightarrow> io_driver_watcher option) \<Rightarrow> bool" where
  "script_ok acts mem \<longleftrightarrow> (\<forall>p e q e'. Watch q e' \<in> set (acts p e) \<or> No_Watch q e' \<in> set (acts p e) \<longrightarrow> mem q \<noteq> None)"

lemma actions_ok:
  assumes "io_wf io" "\<forall>q e'. Watch q e' \<in> set as \<or> No_Watch q e' \<in> set as \<longrightarrow> watcher_mem io q \<noteq> None"
  shows "\<exists>io'. foldE do_action as io = Inr io' \<and> io_wf io' \<and> cb_step p io io' \<and> dom (watcher_mem io) \<subseteq> dom (watcher_mem io')"
  using assms
proof (induction as arbitrary: io)
  case (Cons a as)
  have "\<exists>io1. do_action a io = Inr io1 \<and> io_wf io1 \<and> cb_step p io io1 \<and> dom (watcher_mem io) \<subseteq> dom (watcher_mem io1)"
  proof (cases a)
    case (Watch q e')
    then obtain w where "watcher_mem io q = Some w" using Cons.prems(2) by auto
    from watch_ok [OF Cons.prems(1) this] Watch show ?thesis by fastforce
  next
    case (No_Watch q e')
    then obtain w where "watcher_mem io q = Some w" using Cons.prems(2) by auto
    from no_watch_ok [OF Cons.prems(1) this] No_Watch show ?thesis by fastforce
  qed
  then obtain io1 where 1: "do_action a io = Inr io1" "io_wf io1" "cb_step p io io1"
    "dom (watcher_mem io) \<subseteq> dom (watcher_mem io1)" by blast
  have "\<forall>q e'. Watch q e' \<in> set as \<or> No_Watch q e' \<in> set as \<longrightarrow> watcher_mem io1 q \<noteq> None"
    using Cons.prems(2) 1(4) by (meson domIff list.set_intros(2) subset_iff)
  then obtain io' where 2: "foldE do_action as io1 = Inr io'" "io_wf io'" "cb_step p io1 io'"
    "dom (watcher_mem io1) \<subseteq> dom (watcher_mem io')" using Cons.IH [OF 1(2)] by blast
  with 1 cb_step_trans show ?case by fastforce
qed auto

interpretation script: io_client "script_cb acts" "\<lambda>mem _. script_ok acts mem" "{}"
  for acts :: "nat \<Rightarrow> io_driver_event \<Rightarrow> io_action list"
proof
  fix io c p e
  assume a: "io_wf io" "script_ok acts (watcher_mem io)" "p \<in> set (watchers io)"
  have "\<forall>q e'. Watch q e' \<in> set (acts p e) \<or> No_Watch q e' \<in> set (acts p e) \<longrightarrow> watcher_mem io q \<noteq> None"
    using a(2) by (auto simp: script_ok_def)
  from actions_ok [OF a(1) this, of p] obtain io' where 1: "foldE do_action (acts p e) io = Inr io'" "io_wf io'"
    "cb_step p io io'" "dom (watcher_mem io) \<subseteq> dom (watcher_mem io')" by blast
  have "watcher_mem io p \<noteq> None" using io_wfD(4) [OF a(1)] a(3) by blast
  then have "watcher_mem io' p \<noteq> None" using 1(4) by blast
  moreover have "script_ok acts (watcher_mem io')" using a(2) 1(4) unfolding script_ok_def by (meson domIff subset_iff)
  ultimately show "outcome {} (\<lambda>(io', c'). io_wf io' \<and> script_ok acts (watcher_mem io') \<and> cb_step p io io' \<and>
      (watcher_mem io' p = None \<longrightarrow> UseAfterFree \<in> {})) (script_cb acts p e (io, c))"
    using 1(1-3) by (simp add: script_cb_def)
qed

text \<open>
  C29: one pass of the event loop, whatever the callbacks register and unregister on the way, other
  watchers and themselves included: it returns, no list is corrupted, a watcher is in the list if
  and only if it listens to something, and the callbacks made are for watchers that were registered
  at the start, in that order, each at most once for an event, reading before writing before
  exceptions, and only for descriptors that \<open>select\<close> was asked about.
\<close>

theorem io_driver_run_schedules:
  assumes "io_wf io" "run_list io = []" "fds_fit io (watchers io)" "select_sane sel" "script_ok acts (watcher_mem io)"
  shows "\<exists>io' new. io_driver_run (script_cb acts) sel (io, ()) = Some (Inr (io', ())) \<and> io_wf io' \<and> run_list io' = [] \<and>
    calls io' = calls io @ new \<and> subseq new (turns (watchers io)) \<and>
    (\<forall>(p, e) \<in> set new. \<exists>w. watcher_mem io p = Some w \<and> w_fd w \<in> listening_fds io (watchers io) e)"
proof -
  obtain r where "io_driver_run (script_cb acts) sel (io, ()) = Some r"
    "outcome {} (\<lambda>(io', c'). io_wf io' \<and> script_ok acts (watcher_mem io') \<and> run_list io' = [] \<and>
      (\<exists>new. calls io' = calls io @ new \<and> subseq new (turns (watchers io)) \<and>
        (\<forall>(p, e) \<in> set new. \<exists>w. watcher_mem io p = Some w \<and> w_fd w \<in> listening_fds io (watchers io) e))) r"
    using script.run_ok [OF assms(1,5,2-4)] by blast
  then show ?thesis by (cases r) auto
qed

text \<open>Two watchers, the callback of the first takes the second one off.\<close>

definition two_watchers :: io_driver where
  "two_watchers = \<lparr>watchers = [1, 2], run_list = [],
     watcher_mem = [1 \<mapsto> \<lparr>w_fd = 3, event_listening = 3\<rparr>, 2 \<mapsto> \<lparr>w_fd = 4, event_listening = 1\<rparr>], calls = []\<rparr>"

definition all_ready :: select_fn where
  "all_ready n r w e = (1, case r of None \<Rightarrow> {} | Some s \<Rightarrow> s, case w of None \<Rightarrow> {} | Some s \<Rightarrow> s,
     case e of None \<Rightarrow> {} | Some s \<Rightarrow> s)"

definition first_removes_second :: "nat \<Rightarrow> io_driver_event \<Rightarrow> io_action list" where
  "first_removes_second p e = (if p = 1 then [No_Watch 2 IO_DRIVER_EVENT_RX] else [])"

theorem io_driver_run_schedules_witness:
  "\<exists>io' new. io_driver_run (script_cb first_removes_second) all_ready (two_watchers, ()) = Some (Inr (io', ())) \<and>
     io_wf io' \<and> calls io' = new \<and> subseq new (turns [1, 2])"
proof -
  have "io_wf two_watchers" "run_list two_watchers = []" "fds_fit two_watchers (watchers two_watchers)"
    by (auto simp: io_wf_def two_watchers_def fds_fit_def FD_SETSIZE_def)
  moreover have "select_sane all_ready" by (simp add: select_sane_def all_ready_def)
  moreover have "script_ok first_removes_second (watcher_mem two_watchers)"
    by (simp add: script_ok_def first_removes_second_def two_watchers_def)
  ultimately have "\<exists>io' new. io_driver_run (script_cb first_removes_second) all_ready (two_watchers, ()) = Some (Inr (io', ())) \<and>
      io_wf io' \<and> run_list io' = [] \<and> calls io' = calls two_watchers @ new \<and> subseq new (turns (watchers two_watchers)) \<and>
      (\<forall>(p, e) \<in> set new. \<exists>w. watcher_mem two_watchers p = Some w \<and>
         w_fd w \<in> listening_fds two_watchers (watchers two_watchers) e)"
    by (rule io_driver_run_schedules)
  then show ?thesis by (auto simp: two_watchers_def)
qed

end
