(* ===== verification/Circ_Buffer.thy ===== *)
theory Circ_Buffer
  imports Prelude
begin

text \<open>
  The circular buffer of \<^verbatim>\<open>libutils/circ_buffer.c\<close>: an array with the index of its first octet and of
  the first free place, in which the contents wrap around. It refines a bounded queue of octets,
  whose contract is the locale \<open>byte_queue\<close>.
\<close>

section \<open>State and operations\<close>

text \<open>\<open>buffer\<close> is the null pointer or the memory that \<open>malloc\<close> returned; the other fields are \<open>int\<close>.\<close>

record circ_buffer =
  cb_buffer :: "u8 list option"
  cb_size :: int
  cb_data_size :: int
  cb_begin :: int
  cb_end :: int

text \<open>A sum of two \<open>int\<close>, and \<open>memcpy\<close> with a length that is converted to \<open>size_t\<close>.\<close>

definition c_add :: "int \<Rightarrow> int \<Rightarrow> int res" where
  "c_add a b = (if - (2 ^ 31) \<le> a + b \<and> a + b < 2 ^ 31 then Inr (a + b) else Inl IntOverflow)"

definition copy_from :: "u8 list \<Rightarrow> int \<Rightarrow> int \<Rightarrow> u8 list res" where
  "copy_from buf i n =
     (if i < 0 \<or> n < 0 \<or> int (length buf) < i + n then Inl OobRead
      else Inr (take (nat n) (drop (nat i) buf)))"

definition copy_to :: "u8 list \<Rightarrow> int \<Rightarrow> u8 list \<Rightarrow> u8 list res" where
  "copy_to buf i bs = (if i < 0 then Inl OobWrite else wr buf (nat i) bs)"

definition circ_buffer_init :: "circ_buffer \<Rightarrow> u8 list option \<Rightarrow> int \<Rightarrow> circ_buffer \<times> int" where
  "circ_buffer_init cb memory sz =
     (let cb = cb\<lparr>cb_buffer := None, cb_size := 0, cb_begin := 0, cb_end := 0, cb_data_size := 0\<rparr>;
          cb = cb\<lparr>cb_buffer := memory\<rparr>
      in if memory = None then (cb, -1) else (cb\<lparr>cb_size := sz\<rparr>, 0))"

definition circ_buffer_deinit :: "circ_buffer \<Rightarrow> circ_buffer" where
  "circ_buffer_deinit cb = (if cb_buffer cb \<noteq> None then cb\<lparr>cb_buffer := None\<rparr> else cb)"

definition circ_buffer_reset :: "circ_buffer \<Rightarrow> circ_buffer" where
  "circ_buffer_reset cb = cb\<lparr>cb_begin := 0, cb_end := 0, cb_data_size := 0\<rparr>"

definition circ_buffer_get_data_size :: "circ_buffer \<Rightarrow> int" where
  "circ_buffer_get_data_size cb = cb_data_size cb"

definition circ_buffer_get_size :: "circ_buffer \<Rightarrow> int" where
  "circ_buffer_get_size cb = cb_size cb"

definition circ_buffer_is_full :: "circ_buffer \<Rightarrow> bool" where
  "circ_buffer_is_full cb \<longleftrightarrow> cb_data_size cb = cb_size cb"

definition circ_buffer_is_empty :: "circ_buffer \<Rightarrow> bool" where
  "circ_buffer_is_empty cb \<longleftrightarrow> cb_data_size cb = 0"

text \<open>The pairs are the new state and the returned status, 0 or -1.\<close>

definition circ_buffer_put :: "circ_buffer \<Rightarrow> u8 list \<Rightarrow> int \<Rightarrow> (circ_buffer \<times> int) res" where
  "circ_buffer_put cb buf sz =
     bindE (c_add (cb_data_size cb) sz) (\<lambda>total.
     if total > cb_size cb then Inr (cb, -1)
     else
       bindE (c_add (cb_end cb) sz) (\<lambda>stop.
       bindE (deref (cb_buffer cb)) (\<lambda>b.
       bindE (if stop > cb_size cb then
                let begin_len = cb_size cb - cb_end cb in
                bindE (copy_from buf 0 begin_len) (\<lambda>p.
                bindE (copy_to b (cb_end cb) p) (\<lambda>b.
                bindE (copy_from buf begin_len (sz - begin_len)) (\<lambda>p.
                copy_to b 0 p)))
              else bindE (copy_from buf 0 sz) (\<lambda>p. copy_to b (cb_end cb) p)) (\<lambda>b.
       bindE (c_div_mod stop (cb_size cb)) (\<lambda>(_, e).
       Inr (cb\<lparr>cb_buffer := Some b, cb_end := e, cb_data_size := total\<rparr>, 0))))))"

text \<open>What \<open>get\<close> and \<open>peek\<close> copy.\<close>

definition circ_buffer_copy :: "circ_buffer \<Rightarrow> int \<Rightarrow> u8 list res" where
  "circ_buffer_copy cb sz =
     bindE (c_add (cb_begin cb) sz) (\<lambda>stop.
     bindE (deref (cb_buffer cb)) (\<lambda>b.
     if stop \<le> cb_size cb then copy_from b (cb_begin cb) sz
     else
       let begin_len = cb_size cb - cb_begin cb in
       bindE (copy_from b (cb_begin cb) begin_len) (\<lambda>p.
       bindE (copy_from b 0 (sz - begin_len)) (\<lambda>q. Inr (p @ q)))))"

definition circ_buffer_advance :: "circ_buffer \<Rightarrow> int \<Rightarrow> (circ_buffer \<times> int) res" where
  "circ_buffer_advance cb sz =
     bindE (c_add (cb_data_size cb) (- sz)) (\<lambda>rest.
     if rest < 0 then Inr (cb, -1)
     else
       bindE (c_add (cb_begin cb) sz) (\<lambda>stop.
       bindE (c_div_mod stop (cb_size cb)) (\<lambda>(_, b).
       Inr (cb\<lparr>cb_begin := b, cb_data_size := rest\<rparr>, 0))))"

definition circ_buffer_peek :: "circ_buffer \<Rightarrow> int \<Rightarrow> (u8 list \<times> int) res" where
  "circ_buffer_peek cb sz =
     bindE (c_add (cb_data_size cb) (- sz)) (\<lambda>rest.
     if rest < 0 then Inr ([], -1)
     else bindE (circ_buffer_copy cb sz) (\<lambda>p. Inr (p, 0)))"

definition circ_buffer_get :: "circ_buffer \<Rightarrow> int \<Rightarrow> (circ_buffer \<times> u8 list \<times> int) res" where
  "circ_buffer_get cb sz =
     bindE (c_add (cb_data_size cb) (- sz)) (\<lambda>rest.
     if rest < 0 then Inr (cb, [], -1)
     else
       bindE (circ_buffer_copy cb sz) (\<lambda>p.
       bindE (c_add (cb_begin cb) sz) (\<lambda>stop.
       bindE (c_div_mod stop (cb_size cb)) (\<lambda>(_, b).
       Inr (cb\<lparr>cb_begin := b, cb_data_size := rest\<rparr>, p, 0)))))"

section \<open>The contract of a bounded queue of octets\<close>

locale byte_queue =
  fixes ok :: "'q \<Rightarrow> bool"
    and items :: "'q \<Rightarrow> u8 list"
    and capacity :: "'q \<Rightarrow> nat"
    and put :: "'q \<Rightarrow> u8 list \<Rightarrow> ('q \<times> bool) res"
    and get :: "'q \<Rightarrow> nat \<Rightarrow> ('q \<times> u8 list option) res"
  assumes bound: "ok q \<Longrightarrow> length (items q) \<le> capacity q"
    and put_ok: "ok q \<Longrightarrow> length bs < 2 ^ 30 \<Longrightarrow>
      \<exists>q' b. put q bs = Inr (q', b) \<and> ok q' \<and> capacity q' = capacity q \<and>
        (b \<longleftrightarrow> length (items q) + length bs \<le> capacity q) \<and> items q' = (if b then items q @ bs else items q)"
    and get_ok: "ok q \<Longrightarrow> n < 2 ^ 30 \<Longrightarrow>
      \<exists>q' r. get q n = Inr (q', r) \<and> ok q' \<and> capacity q' = capacity q \<and>
        (if n \<le> length (items q) then r = Some (take n (items q)) \<and> items q' = drop n (items q)
         else r = None \<and> q' = q)"
begin

text \<open>Puts and gets in any order: what went in is what came out, followed by what is left.\<close>

fun run :: "(u8 list + nat) list \<Rightarrow> 'q \<Rightarrow> u8 list \<Rightarrow> u8 list \<Rightarrow> ('q \<times> u8 list \<times> u8 list) res" where
  "run [] q ins outs = Inr (q, ins, outs)"
| "run (Inl bs # ops) q ins outs =
     bindE (put q bs) (\<lambda>(q, b). run ops q (if b then ins @ bs else ins) outs)"
| "run (Inr n # ops) q ins outs =
     bindE (get q n) (\<lambda>(q, r). run ops q ins (case r of None \<Rightarrow> outs | Some bs \<Rightarrow> outs @ bs))"

lemma run_fifo:
  assumes "ok q" "\<forall>bs. Inl bs \<in> set ops \<longrightarrow> length bs < 2 ^ 30" "\<forall>n. Inr n \<in> set ops \<longrightarrow> n < 2 ^ 30"
    "ins = outs @ items q"
  shows "\<exists>q' ins' outs'. run ops q ins outs = Inr (q', ins', outs') \<and> ok q' \<and>
    ins' = outs' @ items q' \<and> length (items q') \<le> capacity q"
  using assms
proof (induction ops arbitrary: q ins outs)
  case Nil
  then show ?case using bound by simp
next
  case (Cons op ops)
  show ?case
  proof (cases op)
    case (Inl bs)
    have "length bs < 2 ^ 30" using Cons.prems(2) Inl by simp
    from put_ok [OF Cons.prems(1) this] obtain q' b where p: "put q bs = Inr (q', b)" "ok q'" "capacity q' = capacity q"
      "items q' = (if b then items q @ bs else items q)" by blast
    have "\<exists>q'' ins' outs'. run ops q' (if b then ins @ bs else ins) outs = Inr (q'', ins', outs') \<and>
        ok q'' \<and> ins' = outs' @ items q'' \<and> length (items q'') \<le> capacity q'"
      by (rule Cons.IH) (use p Cons.prems in auto)
    then show ?thesis using Inl p(1,3) by simp
  next
    case (Inr n)
    have "n < 2 ^ 30" using Cons.prems(3) Inr by simp
    from get_ok [OF Cons.prems(1) this] obtain q' r where g: "get q n = Inr (q', r)" "ok q'" "capacity q' = capacity q"
      "if n \<le> length (items q) then r = Some (take n (items q)) \<and> items q' = drop n (items q)
       else r = None \<and> q' = q" by blast
    have "\<exists>q'' ins' outs'. run ops q' ins (case r of None \<Rightarrow> outs | Some bs \<Rightarrow> outs @ bs) =
        Inr (q'', ins', outs') \<and> ok q'' \<and> ins' = outs' @ items q'' \<and> length (items q'') \<le> capacity q'"
      by (rule Cons.IH) (use g Cons.prems in \<open>auto split: if_splits\<close>)
    then show ?thesis using Inr g(1,3) by simp
  qed
qed

end

section \<open>The buffer as a queue\<close>

text \<open>The octets in the buffer, in order.\<close>

definition cb_items :: "circ_buffer \<Rightarrow> u8 list" where
  "cb_items cb = (case cb_buffer cb of None \<Rightarrow> []
     | Some b \<Rightarrow> take (nat (cb_data_size cb)) (drop (nat (cb_begin cb)) b @ b))"

definition cb_wf :: "circ_buffer \<Rightarrow> bool" where
  "cb_wf cb \<longleftrightarrow>
     (\<exists>b. cb_buffer cb = Some b \<and> int (length b) = cb_size cb) \<and>
     0 < cb_size cb \<and> cb_size cb < 2 ^ 30 \<and> 0 \<le> cb_begin cb \<and> cb_begin cb < cb_size cb \<and>
     0 \<le> cb_data_size cb \<and> cb_data_size cb \<le> cb_size cb \<and>
     cb_end cb = (cb_begin cb + cb_data_size cb) mod cb_size cb"

lemma cb_wfE:
  assumes "cb_wf cb"
  obtains b i n where "cb_buffer cb = Some b" "cb_size cb = int (length b)" "cb_begin cb = int i"
    "cb_data_size cb = int n" "i < length b" "n \<le> length b" "length b < 2 ^ 30"
    "cb_end cb = int ((i + n) mod length b)" "cb_items cb = take n (drop i b @ b)"
proof -
  obtain b where b: "cb_buffer cb = Some b" "cb_size cb = int (length b)" using assms by (auto simp: cb_wf_def)
  have "cb_end cb = int ((nat (cb_begin cb) + nat (cb_data_size cb)) mod length b)"
    using assms b by (simp add: cb_wf_def zmod_int)
  moreover have "int (length b) < 2 ^ 30" using assms b by (simp add: cb_wf_def)
  then have "length b < 2 ^ 30" by simp
  ultimately show thesis
    using that [of b "nat (cb_begin cb)" "nat (cb_data_size cb)"] assms b
    by (auto simp: cb_wf_def cb_items_def)
qed

lemma length_items: "cb_wf cb \<Longrightarrow> length (cb_items cb) = nat (cb_data_size cb)"
  by (erule cb_wfE) simp

text \<open>Writing behind the contents, in one piece or in two.\<close>

lemma put_one:
  assumes "i + n + length bs \<le> length b"
  shows "take (n + length bs) (drop i (take (i + n) b @ bs @ drop (i + n + length bs) b) @ xs) =
    take n (drop i b) @ bs"
proof -
  have "drop i (take (i + n) b) = take n (drop i b)" by (simp add: drop_take)
  moreover have "length (take n (drop i b)) = n" using assms by simp
  ultimately show ?thesis using assms by simp
qed

lemma put_two:
  assumes "i + n < length b" "length b < i + n + length bs" "n + length bs \<le> length b"
    and "k = length b - (i + n)" "b1 = take (i + n) b @ take k bs"
    and "c = drop k bs @ drop (length bs - k) b1"
  shows "take (n + length bs) (drop i c @ c) = take n (drop i b) @ bs" "length c = length b"
proof -
  have l1: "length b1 = length b" using assms(1,2,4,5) by simp
  then show l: "length c = length b" using assms(1-4,6) by simp
  have "length bs - k \<le> i" using assms(3,4) by simp
  then have "drop i c = drop i b1" using assms(6) by (simp add: drop_drop)
  also have "\<dots> = take n (drop i b) @ take k bs" using assms(1,5) by (simp add: drop_take)
  finally have d: "drop i c = take n (drop i b) @ take k bs" .
  have "length (take n (drop i b) @ take k bs) = n + k" using assms(1,2,4) by simp
  moreover have "k \<le> length bs" using assms(1,2,4) by simp
  moreover have "take (length bs - k) c = drop k bs" using assms(6) by simp
  ultimately show "take (n + length bs) (drop i c @ c) = take n (drop i b) @ bs"
    by (simp only: d take_append) simp
qed

lemma put_wrapped:
  assumes "i < length b" "length b \<le> i + n" "n + length bs \<le> length b" "e = i + n - length b"
    and "c = take e b @ bs @ drop (e + length bs) b"
  shows "take (n + length bs) (drop i c @ c) = take n (drop i b @ b) @ bs"
proof -
  have l: "length c = length b" using assms by simp
  have le: "e + length bs \<le> i" using assms(2-4) by simp
  have k: "length (take e b @ bs) = e + length bs" using assms(1,3,4) by simp
  have "drop i c = drop i (take e b @ bs) @ drop (i - (e + length bs)) (drop (e + length bs) b)"
    unfolding assms(5) append_assoc [symmetric] drop_append [of i "take e b @ bs"] k ..
  then have d: "drop i c = drop i b" using le k by (simp only: drop_drop) (simp del: drop_append length_append)
  have "n + length bs - (length b - i) = e + length bs" "n - (length b - i) = e"
    using assms by simp_all
  moreover have "take (e + length bs) c = take e b @ bs" using assms by simp
  ultimately show ?thesis using assms(1,2) by (simp add: d)
qed

lemma c_div_mod_nat: "0 < n \<Longrightarrow> c_div_mod (int m) (int n) = Inr (int m div int n, int (m mod n))"
  by (simp add: c_div_mod_nonneg zmod_int)

lemma put_ok:
  assumes "cb_wf cb" "length bs < 2 ^ 30"
  shows "\<exists>cb' r. circ_buffer_put cb bs (int (length bs)) = Inr (cb', r) \<and> cb_wf cb' \<and>
    cb_size cb' = cb_size cb \<and>
    (if length (cb_items cb) + length bs \<le> nat (cb_size cb)
     then r = 0 \<and> cb_items cb' = cb_items cb @ bs else r = -1 \<and> cb' = cb)"
proof -
  obtain b i n where b: "cb_buffer cb = Some b" "cb_size cb = int (length b)" "cb_begin cb = int i"
    "cb_data_size cb = int n" "i < length b" "n \<le> length b" "length b < 2 ^ 30"
    "cb_end cb = int ((i + n) mod length b)" "cb_items cb = take n (drop i b @ b)"
    using cb_wfE [OF assms(1)] by blast
  let ?m = "length bs" and ?e = "(i + n) mod length b"
  have len: "length (cb_items cb) = n" using b by simp
  have add1: "c_add (int n) (int ?m) = Inr (int (n + ?m))" using b(6,7) assms(2) by (simp add: c_add_def)
  show ?thesis
  proof (cases "n + ?m \<le> length b")
    case False
    then show ?thesis
      using add1 b assms(1) len by (simp add: circ_buffer_put_def)
  next
    case True
    have e: "?e < length b" by (rule mod_less_divisor) (use b(5) in linarith)
    have add2: "c_add (int ?e) (int ?m) = Inr (int (?e + ?m))" using e b(7) assms(2) by (simp add: c_add_def)
    have md: "c_div_mod (int (?e + ?m)) (int (length b)) = Inr (int (?e + ?m) div int (length b), int ((?e + ?m) mod length b))"
      by (rule c_div_mod_nat) (use b(5) in linarith)
    have final: "\<exists>cb' r. circ_buffer_put cb bs (int ?m) = Inr (cb', r) \<and> cb_wf cb' \<and> cb_size cb' = cb_size cb \<and>
        (if length (cb_items cb) + ?m \<le> nat (cb_size cb)
         then r = 0 \<and> cb_items cb' = cb_items cb @ bs else r = -1 \<and> cb' = cb)"
      if "circ_buffer_put cb bs (int ?m) = Inr (cb\<lparr>cb_buffer := Some c,
            cb_end := int ((?e + ?m) mod length b), cb_data_size := int (n + ?m)\<rparr>, 0)"
        "length c = length b" "take (n + ?m) (drop i c @ c) = take n (drop i b @ b) @ bs" for c
    proof -
      have "(?e + ?m) mod length b = (i + (n + ?m)) mod length b" by (simp add: mod_simps add.assoc)
      moreover have "b \<noteq> []" using b(5) by auto
      ultimately show ?thesis
        using that b True len by (simp add: cb_wf_def cb_items_def zmod_int [symmetric] flip: of_nat_add)
    qed
    consider "i + n < length b" "i + n + ?m \<le> length b" | "i + n < length b" "length b < i + n + ?m" |
      "length b \<le> i + n" by linarith
    then show ?thesis
    proof cases
      case 1
      let ?c = "take (i + n) b @ bs @ drop (i + n + ?m) b"
      show ?thesis
        by (rule final [of ?c]) (use 1 True add1 add2 md b put_one [OF 1(2), of ?c] in
          \<open>simp_all add: circ_buffer_put_def copy_from_def copy_to_def wr_def nat_int_add nat_diff_distrib Let_def\<close>)
    next
      case 2
      let ?k = "length b - (i + n)"
      let ?b = "take (i + n) b @ take ?k bs"
      let ?c = "drop ?k bs @ drop (?m - ?k) ?b"
      show ?thesis
        by (rule final [of ?c]) (use 2 True add1 add2 md b put_two [OF 2 True refl refl refl] in
          \<open>simp_all add: circ_buffer_put_def copy_from_def copy_to_def wr_def nat_int_add nat_diff_distrib Let_def\<close>)
    next
      case 3
      have "i + n < 2 * length b" using b(5,6) by simp
      then have w: "?e = i + n - length b" using 3 by (simp add: mod_if)
      let ?c = "take ?e b @ bs @ drop (?e + ?m) b"
      show ?thesis
        by (rule final [of ?c]) (use 3 True add1 add2 md b w put_wrapped [OF b(5) 3 True w refl] in
          \<open>simp_all add: circ_buffer_put_def copy_from_def copy_to_def wr_def nat_int_add nat_diff_distrib Let_def\<close>)
    qed
  qed
qed

lemma copy_items:
  assumes "cb_wf cb" "k \<le> length (cb_items cb)"
  shows "circ_buffer_copy cb (int k) = Inr (take k (cb_items cb))"
proof -
  obtain b i n where b: "cb_buffer cb = Some b" "cb_size cb = int (length b)" "cb_begin cb = int i"
    "i < length b" "n \<le> length b" "length b < 2 ^ 30" "cb_items cb = take n (drop i b @ b)"
    using cb_wfE [OF assms(1)] by blast
  have k: "k \<le> n" using assms(2) b(7) by simp
  have add: "c_add (int i) (int k) = Inr (int (i + k))" using k b(4-6) by (simp add: c_add_def)
  show ?thesis
  proof (cases "i + k \<le> length b")
    case True
    then have "k \<le> length b - i" by simp
    with True show ?thesis using k add b by (simp add: circ_buffer_copy_def copy_from_def min_def)
  next
    case False
    then have "length b - i + (k - (length b - i)) = k" "k - (length b - i) \<le> length b" "length b - i \<le> k"
      using k b(4,5) by simp_all
    with False k add b show ?thesis
      by (simp add: circ_buffer_copy_def copy_from_def nat_diff_distrib Let_def min_def)
  qed
qed

lemma advance_items:
  assumes "cb_wf cb" "k \<le> length (cb_items cb)"
  shows "\<exists>cb'. circ_buffer_advance cb (int k) = Inr (cb', 0) \<and> cb_wf cb' \<and> cb_size cb' = cb_size cb \<and>
    cb_items cb' = drop k (cb_items cb) \<and>
    circ_buffer_get cb (int k) = Inr (cb', take k (cb_items cb), 0)"
proof -
  obtain b i n where b: "cb_buffer cb = Some b" "cb_size cb = int (length b)" "cb_begin cb = int i"
    "cb_data_size cb = int n" "i < length b" "n \<le> length b" "length b < 2 ^ 30"
    "cb_end cb = int ((i + n) mod length b)" "cb_items cb = take n (drop i b @ b)"
    using cb_wfE [OF assms(1)] by blast
  have k: "k \<le> n" using assms(2) b(9) by simp
  have ne: "b \<noteq> []" using b(5) by auto
  have add: "c_add (int i) (int k) = Inr (int (i + k))" "c_add (int n) (- int k) = Inr (int (n - k))"
    using k b(5-7) by (simp_all add: c_add_def of_nat_diff)
  have md: "c_div_mod (int (i + k)) (int (length b)) = Inr (int (i + k) div int (length b), int ((i + k) mod length b))"
    by (rule c_div_mod_nat) (use ne in simp)
  let ?cb = "cb\<lparr>cb_begin := int ((i + k) mod length b), cb_data_size := int (n - k)\<rparr>"
  have "((i + k) mod length b + (n - k)) mod length b = (i + k + (n - k)) mod length b"
    by (rule mod_add_left_eq)
  also have "i + k + (n - k) = i + n" using k by simp
  finally have "((i + k) mod length b + (n - k)) mod length b = (i + n) mod length b" .
  then have wf: "cb_wf ?cb"
    using b k ne by (simp add: cb_wf_def zmod_int [symmetric] flip: of_nat_add of_nat_diff)
  have items: "cb_items ?cb = drop k (cb_items cb)"
  proof (cases "i + k < length b")
    case True
    moreover have "n - k + (i + k) = n + i" using k by simp
    ultimately show ?thesis
      using b k by (simp add: cb_items_def drop_take nat_int_add nat_diff_distrib add.commute)
  next
    case False
    have "i + k < 2 * length b" using k b(5,6) by simp
    with False have m: "(i + k) mod length b = i + k - length b" by (simp add: mod_if)
    have "n - k - (length b - (i + k - length b)) = 0" using False k b(5,6) by simp
    then show ?thesis
      using False b k m by (simp add: cb_items_def drop_take nat_int_add nat_diff_distrib add.commute)
  qed
  have "circ_buffer_copy cb (int k) = Inr (take k (cb_items cb))" by (rule copy_items [OF assms])
  then show ?thesis
    using add md wf items b k
    by (intro exI [of _ ?cb]) (simp add: circ_buffer_advance_def circ_buffer_get_def)
qed

lemma get_too_much:
  assumes "cb_wf cb" "length (cb_items cb) < k" "k < 2 ^ 30"
  shows "circ_buffer_advance cb (int k) = Inr (cb, -1)" "circ_buffer_get cb (int k) = Inr (cb, [], -1)"
    "circ_buffer_peek cb (int k) = Inr ([], -1)"
proof -
  obtain n where n: "cb_data_size cb = int n" "length (cb_items cb) = n"
    using cb_wfE [OF assms(1)] by (auto simp: length_items [OF assms(1)])
  then have "c_add (int n) (- int k) = Inr (int n - int k)" using assms(2,3) by (simp add: c_add_def)
  with n assms(2) show "circ_buffer_advance cb (int k) = Inr (cb, -1)" "circ_buffer_get cb (int k) = Inr (cb, [], -1)"
    "circ_buffer_peek cb (int k) = Inr ([], -1)"
    by (simp_all add: circ_buffer_advance_def circ_buffer_get_def circ_buffer_peek_def)
qed

lemma peek_items:
  assumes "cb_wf cb" "k \<le> length (cb_items cb)"
  shows "circ_buffer_peek cb (int k) = Inr (take k (cb_items cb), 0)"
proof -
  have "0 \<le> cb_data_size cb" "cb_data_size cb \<le> cb_size cb" "cb_size cb < 2 ^ 30"
    using assms(1) by (auto simp: cb_wf_def)
  then obtain n where n: "cb_data_size cb = int n" "n < 2 ^ 30" by (metis nonneg_int_cases of_nat_less_numeral_power_cancel_iff order_le_less_trans)
  then have "k \<le> n" using assms by (simp add: length_items)
  then have "c_add (int n) (- int k) = Inr (int (n - k))" using n by (simp add: c_add_def of_nat_diff)
  then show ?thesis using copy_items [OF assms] n(1) by (simp add: circ_buffer_peek_def)
qed

lemma empty_items: "cb_wf cb \<Longrightarrow> circ_buffer_is_empty cb \<longleftrightarrow> cb_items cb = []"
  by (auto simp: circ_buffer_is_empty_def elim!: cb_wfE)

text \<open>The buffer meets the contract.\<close>

interpretation cb: byte_queue cb_wf cb_items "\<lambda>cb. nat (cb_size cb)"
  "\<lambda>cb bs. bindE (circ_buffer_put cb bs (int (length bs))) (\<lambda>(cb, r). Inr (cb, r = 0))"
  "\<lambda>cb n. bindE (circ_buffer_get cb (int n)) (\<lambda>(cb, bs, r). Inr (cb, if r = 0 then Some bs else None))"
proof unfold_locales
  fix q :: circ_buffer and bs :: "u8 list" and n :: nat
  assume q: "cb_wf q"
  show "length (cb_items q) \<le> nat (cb_size q)" using q by (simp add: length_items) (simp add: cb_wf_def nat_mono)
  show "\<exists>q' b. bindE (circ_buffer_put q bs (int (length bs))) (\<lambda>(cb, r). Inr (cb, r = 0)) = Inr (q', b) \<and>
      cb_wf q' \<and> nat (cb_size q') = nat (cb_size q) \<and> b = (length (cb_items q) + length bs \<le> nat (cb_size q)) \<and>
      cb_items q' = (if b then cb_items q @ bs else cb_items q)" if short: "length bs < 2 ^ 30"
  proof -
    obtain cb' r where "circ_buffer_put q bs (int (length bs)) = Inr (cb', r)" "cb_wf cb'" "cb_size cb' = cb_size q"
      "if length (cb_items q) + length bs \<le> nat (cb_size q)
       then r = 0 \<and> cb_items cb' = cb_items q @ bs else r = -1 \<and> cb' = q"
      using put_ok [OF q short] by blast
    then show ?thesis by (auto split: if_splits)
  qed
  show "\<exists>q' r. bindE (circ_buffer_get q (int n)) (\<lambda>(cb, bs, r). Inr (cb, if r = 0 then Some bs else None)) = Inr (q', r) \<and>
      cb_wf q' \<and> nat (cb_size q') = nat (cb_size q) \<and>
      (if n \<le> length (cb_items q) then r = Some (take n (cb_items q)) \<and> cb_items q' = drop n (cb_items q)
       else r = None \<and> q' = q)" if "n < 2 ^ 30"
    using advance_items [OF q, of n] get_too_much(2) [OF q _ that] q by (cases "n \<le> length (cb_items q)") auto
qed

text \<open>
  C25: the circular buffer is a bounded queue of octets: in every sequence of puts and gets, from
  an empty buffer, each put that fits is taken whole and each other one refused whole, a get
  succeeds exactly if there is enough, and what comes out, followed by what is left in the
  buffer, is what went in; nothing is read or written outside of the buffer. \<open>peek\<close> shows what
  \<open>get\<close> would take, \<open>advance\<close> takes it.
\<close>

theorem circ_buffer_fifo:
  assumes "cb_wf cb" "cb_items cb = []" "\<forall>bs. Inl bs \<in> set ops \<longrightarrow> length bs < 2 ^ 30"
    "\<forall>n. Inr n \<in> set ops \<longrightarrow> n < 2 ^ 30"
  shows "\<exists>cb' ins outs. cb.run ops cb [] [] = Inr (cb', ins, outs) \<and> cb_wf cb' \<and>
    ins = outs @ cb_items cb' \<and> length (cb_items cb') \<le> nat (cb_size cb) \<and>
    (\<forall>k \<le> length (cb_items cb').
       circ_buffer_peek cb' (int k) = Inr (take k (cb_items cb'), 0) \<and>
       (\<exists>cb''. circ_buffer_advance cb' (int k) = Inr (cb'', 0) \<and> cb_items cb'' = drop k (cb_items cb') \<and>
          circ_buffer_get cb' (int k) = Inr (cb'', take k (cb_items cb'), 0)))"
proof -
  obtain cb' ins outs where r: "cb.run ops cb [] [] = Inr (cb', ins, outs)" "cb_wf cb'"
    "ins = outs @ cb_items cb'" "length (cb_items cb') \<le> nat (cb_size cb)"
    using cb.run_fifo [OF assms(1,3,4), of "[]" "[]"] assms(2) by auto
  with peek_items [OF r(2)] advance_items [OF r(2)] show ?thesis by blast
qed

text \<open>A buffer of four octets just initialised.\<close>

definition small_buffer :: circ_buffer where
  "small_buffer = fst (circ_buffer_init
     \<lparr>cb_buffer = None, cb_size = 7, cb_data_size = 7, cb_begin = 7, cb_end = 7\<rparr> (Some [9, 9, 9, 9]) 4)"

lemma small_buffer_ok: "cb_wf small_buffer" "cb_items small_buffer = []"
  by (simp_all add: small_buffer_def circ_buffer_init_def cb_wf_def cb_items_def)

theorem circ_buffer_fifo_witness:
  "\<exists>cb' ins outs. cb.run [Inl [1, 2, 3], Inr 2, Inl [4, 5]] small_buffer [] [] = Inr (cb', ins, outs) \<and>
     ins = outs @ cb_items cb'"
  using circ_buffer_fifo [OF small_buffer_ok, of "[Inl [1, 2, 3], Inr 2, Inl [4, 5]]"] by auto

end
