(* ===== verification/Net_Text.thy ===== *)
theory Net_Text
  imports Rtp_Types
begin

text \<open>
  What the programs use of the C library to print numbers and to convert and print internet addresses:
  conversions of \<^verbatim>\<open>printf\<close>, \<open>htons\<close>, \<open>ntohs\<close>, \<open>inet_addr\<close> and \<open>inet_ntoa\<close>.
\<close>

definition ascii :: "string \<Rightarrow> u8 list" where
  "ascii s = map of_char s"

section \<open>Printing numbers\<close>

text \<open>The conversions \<open>%u\<close>, \<open>%d\<close>, \<open>%02x\<close> and \<open>%08x\<close> of \<^verbatim>\<open>printf\<close>.\<close>

fun digits :: "nat \<Rightarrow> nat \<Rightarrow> nat \<Rightarrow> u8 list" where
  "digits base 0 n = []"
| "digits base (Suc k) n = digits base k (n div base) @
     [let d = n mod base in if d < 10 then of_nat (48 + d) else of_nat (87 + d)]"

definition num_digits :: "nat \<Rightarrow> nat \<Rightarrow> nat" where
  "num_digits base n = length (takeWhile (\<lambda>k. base ^ k \<le> n) [1..<65]) + 1"

definition dec :: "nat \<Rightarrow> u8 list" where
  "dec n = digits 10 (num_digits 10 n) n"

definition fmt_u :: "u32 \<Rightarrow> u8 list" where
  "fmt_u w = dec (unat w)"

definition fmt_d :: "int \<Rightarrow> u8 list" where
  "fmt_d i = (if i < 0 then 45 # dec (nat (- i)) else dec (nat i))"

definition fmt_02x :: "u8 \<Rightarrow> u8 list" where
  "fmt_02x w = digits 16 2 (unat w)"

definition fmt_08x :: "u32 \<Rightarrow> u8 list" where
  "fmt_08x w = digits 16 8 (unat w)"

section \<open>Addresses\<close>

text \<open>Addresses and ports in network order, as a little-endian machine has them in its words; the argument of
  \<open>inet_addr\<close> is not the text but its four numbers.\<close>

definition AF_INET :: u16 where "AF_INET = 2"

definition htons :: "u16 \<Rightarrow> u16" where
  "htons w = push_bit 8 w OR drop_bit 8 w"

definition inet_addr :: "u8 \<Rightarrow> u8 \<Rightarrow> u8 \<Rightarrow> u8 \<Rightarrow> u32" where
  "inet_addr a b c d =
     ucast a OR push_bit 8 (ucast b) OR push_bit 16 (ucast c) OR push_bit 24 (ucast d)"

definition inet_ntoa :: "u32 \<Rightarrow> u8 list" where
  "inet_ntoa a =
     dec (unat (ucast a :: u8)) @ [46] @ dec (unat (ucast (drop_bit 8 a) :: u8)) @ [46] @
     dec (unat (ucast (drop_bit 16 a) :: u8)) @ [46] @ dec (unat (ucast (drop_bit 24 a) :: u8))"

definition ntohs :: "u16 \<Rightarrow> u16" where
  "ntohs w = push_bit 8 w OR drop_bit 8 w"

lemma ntohs_htons: "ntohs (htons w) = w"
  by (rule bit_word_eqI) (auto simp: ntohs_def htons_def bit_simps)

definition fmt_addr :: "sockaddr_in \<Rightarrow> u8 list" where
  "fmt_addr a = inet_ntoa (sin_addr a) @ ascii '':'' @ fmt_d (uint (ntohs (sin_port a)))"

section \<open>Lengths\<close>

lemma length_digits [simp]: "length (digits b k n) = k"
  by (induction k arbitrary: n) simp_all

lemma length_dec: "length (dec n) \<le> 65"
  using length_takeWhile_le [of "\<lambda>k. 10 ^ k \<le> n" "[1..<65]"] by (simp add: dec_def num_digits_def)

lemma length_fmt:
  "length (fmt_u w) \<le> 65" "length (fmt_d i) \<le> 66" "length (fmt_02x b) = 2" "length (fmt_08x w) = 8"
  "length (inet_ntoa w) \<le> 263" "length (fmt_addr a) \<le> 330"
proof -
  show u: "length (fmt_u w) \<le> 65" "length (fmt_02x b) = 2" "length (fmt_08x w) = 8"
    using length_dec by (simp_all add: fmt_u_def fmt_02x_def fmt_08x_def)
  show d: "length (fmt_d i) \<le> 66" for i
    using length_dec [of "nat i"] length_dec [of "nat (- i)"] by (simp add: fmt_d_def)
  show n: "length (inet_ntoa w) \<le> 263" for w
    using length_dec [of "unat (ucast w :: u8)"] length_dec [of "unat (ucast (drop_bit 8 w) :: u8)"]
      length_dec [of "unat (ucast (drop_bit 16 w) :: u8)"] length_dec [of "unat (ucast (drop_bit 24 w) :: u8)"]
    by (simp add: inet_ntoa_def)
  show "length (fmt_addr a) \<le> 330"
    using n [of "sin_addr a"] d [of "uint (ntohs (sin_port a))"] by (simp add: fmt_addr_def ascii_def)
qed

end
