(* ===== verification/Rtp_Task.thy ===== *)
theory Rtp_Task
  imports Session_Machine Io_Driver Circ_Buffer Net_Text
begin

text \<open>
  The task of the demonstration, \<^verbatim>\<open>demo/rtp_task.c\<close>: it owns a session, two datagram sockets, a timer of
  100 milliseconds that drives the session, and a timer of 20 milliseconds at which it sends the
  next 160 octets of an audio file.

  The static variables of the file are the record \<open>rtp_task\<close>, its four watchers are known by
  their addresses. The system calls are streams of results (\<open>task_host\<close>); what is handed to \<open>sendto\<close> is
  a trace. The callbacks of the session are served after the call into it, from the events that it
  reports: none of them changes anything that the session reads.
\<close>

section \<open>State\<close>

text \<open>
  \<open>recvs k\<close> is the result of the \<open>k\<close>-th \<open>recvfrom\<close>, with the datagram and its sender; \<open>file_reads k n\<close> that of the
  \<open>k\<close>-th \<open>read\<close> of the file into \<open>n\<close> octets, with the octets. \<open>sample_stack\<close> is the memory of the local
  array of the sampler.
\<close>

record task_host =
  recvs :: "nat \<Rightarrow> int \<times> u8 list \<times> sockaddr_in"
  n_recvs :: nat
  file_reads :: "nat \<Rightarrow> int \<Rightarrow> int \<times> u8 list"
  n_file_reads :: nat
  sample_stack :: "u8 list"
  sent :: "(int \<times> sockaddr_in \<times> u8 list) list"

record rtp_task =
  rt_session :: rtp_session
  rt_rtp_addr :: sockaddr_in
  rt_rtcp_addr :: sockaddr_in
  rt_rtp_rem_addr :: sockaddr_in
  rt_rtcp_rem_addr :: sockaddr_in
  rt_rtp_sock :: int
  rt_rtcp_sock :: int
  rt_rtp_watcher :: nat
  rt_rtcp_watcher :: nat
  rt_timer_watcher :: nat
  rt_timerfd :: int
  rt_samplerfd :: int
  rt_sampler_watcher :: nat
  rt_cname :: "u8 list"
  rt_rtp_ts :: u32
  rtp_tx_enabled :: u8
  rtcp_tx_enabled :: u8
  rt_pcm_fd :: int
  rt_session_cfg :: rtp_session_config
  rt_host :: task_host

section \<open>From the session to the network\<close>

definition sendto :: "int \<Rightarrow> u8 list \<Rightarrow> sockaddr_in \<Rightarrow> rtp_task \<Rightarrow> rtp_task" where
  "sendto sock pkt addr t = t\<lparr>rt_host := (rt_host t)\<lparr>sent := sent (rt_host t) @ [(sock, addr, pkt)]\<rparr>\<rparr>"

definition rtp_task_tx_rtp :: "rtp_task \<Rightarrow> u8 list \<Rightarrow> rtp_task" where
  "rtp_task_tx_rtp t pkt = sendto (rt_rtp_sock t) pkt (rt_rtp_rem_addr t) t"

definition rtp_task_tx_rtcp :: "rtp_task \<Rightarrow> u8 list \<Rightarrow> rtp_task" where
  "rtp_task_tx_rtcp t pkt =
     (if rtcp_tx_enabled t = 0 then t else sendto (rt_rtp_sock t) pkt (rt_rtcp_rem_addr t) t)"

definition rtp_task_sr_report :: "rtp_task \<Rightarrow> rtp_task" where "rtp_task_sr_report t = t"
definition rtp_task_rr_report :: "rtp_task \<Rightarrow> rtp_task" where "rtp_task_rr_report t = t"
definition rtp_task_rx_rtp :: "rtp_task \<Rightarrow> rtp_rx_report \<Rightarrow> rtp_task" where "rtp_task_rx_rtp t rpt = t"
definition rtp_task_rtp_timestamp :: "rtp_task \<Rightarrow> u32" where "rtp_task_rtp_timestamp t = rt_rtp_ts t"

fun task_event :: "event \<Rightarrow> rtp_task \<Rightarrow> rtp_task" where
  "task_event (TxRtp pkt) t = rtp_task_tx_rtp t pkt"
| "task_event (TxRtcp pkt) t = rtp_task_tx_rtcp t pkt"
| "task_event (RxRtp rpt) t = rtp_task_rx_rtp t rpt"
| "task_event (SrRpt _ _) t = rtp_task_sr_report t"
| "task_event (RrRpt _ _) t = rtp_task_rr_report t"

text \<open>A call into the session: the session asks for \<open>rtp_task_rtp_timestamp\<close> while it runs, and then the
  events that it has added to its trace are served.\<close>

definition in_session :: "rtp_task \<Rightarrow> (rtp_session \<Rightarrow> rtp_session res) \<Rightarrow> rtp_task res" where
  "in_session t f =
     (let sess = (rt_session t)\<lparr>env := (env (rt_session t))\<lparr>w_rtp_timestamp := \<lambda>_. rtp_task_rtp_timestamp t\<rparr>\<rparr>
      in bindE (f sess) (\<lambda>sess'.
         Inr (fold task_event (drop (length (trace (env sess))) (trace (env sess'))) (t\<lparr>rt_session := sess'\<rparr>))))"

section \<open>From the event loop to the session\<close>

definition recvfrom :: "rtp_task \<Rightarrow> rtp_task \<times> int \<times> u8 list \<times> sockaddr_in" where
  "recvfrom t = (t\<lparr>rt_host := (rt_host t)\<lparr>n_recvs := Suc (n_recvs (rt_host t))\<rparr>\<rparr>,
     recvs (rt_host t) (n_recvs (rt_host t)))"

text \<open>What the session gets is the datagram: the rest of the buffer of 1024 octets was never written.\<close>

definition on_rx_rtp_from_sock :: "rtp_task \<Rightarrow> rtp_task res" where
  "on_rx_rtp_from_sock t =
     (let (t, len, buffer, from) = recvfrom t
      in if len \<le> 0 then Inr t
         else in_session t (\<lambda>sess. rtp_session_rx_rtp sess buffer (of_int len) from))"

definition on_rx_rtcp_from_sock :: "rtp_task \<Rightarrow> rtp_task res" where
  "on_rx_rtcp_from_sock t =
     (let (t, len, buffer, from) = recvfrom t
      in if len \<le> 0 then Inr t
         else in_session t (\<lambda>sess. rtp_session_rx_rtcp sess buffer (of_int len) from))"

definition rtp_task_timer_callback :: "rtp_task \<Rightarrow> rtp_task res" where
  "rtp_task_timer_callback t = in_session t rtp_session_timer_tick"

text \<open>
  The loop of the sampler: the result of \<open>read\<close> is added to \<open>nread\<close> whatever it is, and the next call is
  given the address of \<open>sample[nread]\<close>. It may not return (\<open>None\<close>).
\<close>

definition put_sample :: "u8 list \<Rightarrow> int \<Rightarrow> u8 list \<Rightarrow> u8 list res" where
  "put_sample sample nread bs = (if bs = [] then Inr sample else copy_to sample nread bs)"

partial_function (option) sampler_loop ::
  "task_host \<Rightarrow> u8 list \<Rightarrow> int \<Rightarrow> (task_host \<times> u8 list) res option" where
  "sampler_loop h sample nread =
     (if nread < 160 then
        if 2 ^ 31 \<le> 160 - nread then Some (Inl IntOverflow)
        else (case file_reads h (n_file_reads h) (160 - nread) of (ret, bs) \<Rightarrow>
          (case put_sample sample nread bs of
             Inl f \<Rightarrow> Some (Inl f)
           | Inr sample' \<Rightarrow> sampler_loop (h\<lparr>n_file_reads := Suc (n_file_reads h)\<rparr>) sample' (nread + ret)))
      else Some (Inr (h, sample)))"

definition rtp_task_sampler_callback :: "rtp_task \<Rightarrow> rtp_task res" where
  "rtp_task_sampler_callback t =
     (if rtp_tx_enabled t = 0 then Inr t
      else (case sampler_loop (rt_host t) (sample_stack (rt_host t)) 0 of
          None \<Rightarrow> Inl NoReturn
        | Some r \<Rightarrow> bindE r (\<lambda>(h, sample).
            let t = t\<lparr>rt_host := h, rt_rtp_ts := rt_rtp_ts t + 160\<rparr>
            in in_session t (\<lambda>sess. bindE (rtp_session_tx sess sample 160 (rt_rtp_ts t) [] 0) (\<lambda>(sess, _). Inr sess)))))"

definition rtp_task_rtp_control :: "u8 \<Rightarrow> rtp_task \<Rightarrow> rtp_task" where
  "rtp_task_rtp_control enable t = t\<lparr>rtp_tx_enabled := enable\<rparr>"

definition rtp_task_rtcp_control :: "u8 \<Rightarrow> rtp_task \<Rightarrow> rtp_task" where
  "rtp_task_rtcp_control enable t = t\<lparr>rtcp_tx_enabled := enable\<rparr>"

definition rtp_task_get_session :: "rtp_task \<Rightarrow> rtp_session" where
  "rtp_task_get_session t = rt_session t"

text \<open>What \<open>watcher->callback\<close> is for the watchers of the task, for every event.\<close>

definition rtp_task_callback :: "nat \<Rightarrow> rtp_task \<Rightarrow> rtp_task res" where
  "rtp_task_callback p t =
     (if p = rt_rtp_watcher t then on_rx_rtp_from_sock t
      else if p = rt_rtcp_watcher t then on_rx_rtcp_from_sock t
      else if p = rt_timer_watcher t then rtp_task_timer_callback t
      else if p = rt_sampler_watcher t then rtp_task_sampler_callback t
      else Inl UseAfterFree)"

section \<open>Initialisation\<close>

definition set_addr :: "u32 \<Rightarrow> u16 \<Rightarrow> sockaddr_in \<Rightarrow> sockaddr_in" where
  "set_addr a port addr = addr\<lparr>sin_family := AF_INET, sin_addr := a, sin_port := htons port\<rparr>"

text \<open>The results of \<open>socket\<close>, \<open>bind\<close>, \<open>timerfd_create\<close> and \<open>open\<close>; the calls that set the timers going are left out.\<close>

record init_calls =
  ic_rtp_sock :: int
  ic_rtp_bind :: int
  ic_rtcp_sock :: int
  ic_rtcp_bind :: int
  ic_timerfd :: int
  ic_samplerfd :: int
  ic_pcm_fd :: int

text \<open>\<open>io_driver_watcher_init\<close>, the descriptor and the callback, for a watcher of the task.\<close>

definition init_watcher :: "io_driver \<Rightarrow> nat \<Rightarrow> int \<Rightarrow> io_driver res" where
  "init_watcher io p fd =
     bindE (io_driver_watcher_init io p) (\<lambda>io.
     bindE (get_watcher io p) (\<lambda>w. Inr (set_watcher p (w\<lparr>w_fd := fd\<rparr>) io)))"

text \<open>\<open>None\<close> is \<open>exit(-1)\<close>.\<close>

definition rtp_task_init_timing_service :: "init_calls \<Rightarrow> io_driver \<times> rtp_task \<Rightarrow> (io_driver \<times> rtp_task) res" where
  "rtp_task_init_timing_service ic s =
     (let (io, t) = s; t = t\<lparr>rt_timerfd := ic_timerfd ic\<rparr> in
      bindE (init_watcher io (rt_timer_watcher t) (rt_timerfd t)) (\<lambda>io.
      bindE (io_driver_watch io (rt_timer_watcher t) IO_DRIVER_EVENT_RX) (\<lambda>io. Inr (io, t))))"

definition rtp_task_init_sampler :: "init_calls \<Rightarrow> io_driver \<times> rtp_task \<Rightarrow> (io_driver \<times> rtp_task) option res" where
  "rtp_task_init_sampler ic s =
     (let (io, t) = s; t = t\<lparr>rt_samplerfd := ic_samplerfd ic\<rparr> in
      bindE (init_watcher io (rt_sampler_watcher t) (rt_samplerfd t)) (\<lambda>io.
      let t = t\<lparr>rt_pcm_fd := ic_pcm_fd ic\<rparr>
      in if rt_pcm_fd t < 0 then Inr None
         else bindE (io_driver_watch io (rt_sampler_watcher t) IO_DRIVER_EVENT_RX) (\<lambda>io. Inr (Some (io, t)))))"

definition rtp_task_init_sock :: "init_calls \<Rightarrow> io_driver \<times> rtp_task \<Rightarrow> (io_driver \<times> rtp_task) option res" where
  "rtp_task_init_sock ic s =
     (let (io, t) = s; t = t\<lparr>rt_rtp_sock := ic_rtp_sock ic\<rparr> in
      if rt_rtp_sock t < 0 then Inr None
      else if ic_rtp_bind ic \<noteq> 0 then Inr None
      else
        let t = t\<lparr>rt_rtcp_sock := ic_rtcp_sock ic\<rparr> in
        if rt_rtcp_sock t < 0 then Inr None
        else if ic_rtcp_bind ic \<noteq> 0 then Inr None
        else
          bindE (init_watcher io (rt_rtp_watcher t) (rt_rtp_sock t)) (\<lambda>io.
          bindE (init_watcher io (rt_rtcp_watcher t) (rt_rtcp_sock t)) (\<lambda>io.
          bindE (io_driver_watch io (rt_rtp_watcher t) IO_DRIVER_EVENT_RX) (\<lambda>io.
          bindE (io_driver_watch io (rt_rtcp_watcher t) IO_DRIVER_EVENT_RX) (\<lambda>io. Inr (Some (io, t)))))))"

definition init_addresses :: "u8 \<Rightarrow> rtp_task \<Rightarrow> rtp_task" where
  "init_addresses blah t =
     (let t = t\<lparr>rt_rtp_addr := zero_addr, rt_rtcp_addr := zero_addr, rt_rtp_rem_addr := zero_addr,
               rt_rtcp_rem_addr := zero_addr\<rparr>
      in if blah = 1 then
           t\<lparr>rt_rtp_addr := set_addr (inet_addr 192 168 1 115) 16000 (rt_rtp_addr t),
             rt_rtcp_addr := set_addr (inet_addr 192 168 1 115) 16001 (rt_rtcp_addr t),
             rt_rtp_rem_addr := set_addr (inet_addr 192 168 1 111) 16000 (rt_rtp_rem_addr t),
             rt_rtcp_rem_addr := set_addr (inet_addr 192 168 1 111) 16001 (rt_rtcp_rem_addr t),
             rt_cname := map of_char ''Demo1''\<rparr>
         else
           t\<lparr>rt_rtp_addr := set_addr (inet_addr 192 168 1 111) 16000 (rt_rtp_addr t),
             rt_rtcp_addr := set_addr (inet_addr 192 168 1 111) 16001 (rt_rtcp_addr t),
             rt_rtp_rem_addr := set_addr (inet_addr 192 168 1 115) 16000 (rt_rtp_rem_addr t),
             rt_rtcp_rem_addr := set_addr (inet_addr 192 168 1 115) 16001 (rt_rtcp_rem_addr t),
             rt_cname := map of_char ''Demo2''\<rparr>)"

text \<open>The configuration of the session; nobody looks at what \<open>rtp_session_init\<close> returns.\<close>

definition init_config :: "rtp_task \<Rightarrow> rtp_task res" where
  "init_config t =
     bindE (wr (c_cname (rt_session_cfg t)) 0 (rt_cname t)) (\<lambda>name.
     Inr (t\<lparr>rt_session_cfg := (rt_session_cfg t)\<lparr>c_cname := name, c_cname_len := of_nat (length (rt_cname t)),
       c_rtp_addr := rt_rtp_addr t, c_rtcp_addr := rt_rtcp_addr t, session_bw := 64000, c_pt := 0,
       align_by_4 := 0\<rparr>\<rparr>))"

text \<open>Goes on unless the program has ended.\<close>

definition unless_exit :: "'a option res \<Rightarrow> ('a \<Rightarrow> 'b option res) \<Rightarrow> 'b option res" where
  "unless_exit r f = bindE r (\<lambda>x. case x of None \<Rightarrow> Inr None | Some s \<Rightarrow> f s)"

definition rtp_task_init :: "init_calls \<Rightarrow> u8 \<Rightarrow> io_driver \<times> rtp_task \<Rightarrow> (io_driver \<times> rtp_task) option res" where
  "rtp_task_init ic blah s =
     (let (io, t) = s in
      unless_exit (rtp_task_init_sock ic (io, init_addresses blah t)) (\<lambda>s.
      bindE (rtp_task_init_timing_service ic s) (\<lambda>(io, t).
      bindE (init_config t) (\<lambda>t.
      bindE (in_session t (\<lambda>sess. rtp_session_init sess (rt_session_cfg t))) (\<lambda>t.
      rtp_task_init_sampler ic (io, t))))))"

section \<open>The invariant\<close>

text \<open>What POSIX says of the calls: a datagram fits the buffer that it is received into, \<open>read\<close> fails or
  returns at most as many octets as it was asked for.\<close>

definition host_ok :: "task_host \<Rightarrow> bool" where
  "host_ok h \<longleftrightarrow>
     (\<forall>k. fst (recvs h k) \<le> 1024 \<and> (0 < fst (recvs h k) \<longrightarrow> int (length (fst (snd (recvs h k)))) = fst (recvs h k))) \<and>
     (\<forall>k n. 0 \<le> n \<longrightarrow> - 1 \<le> fst (file_reads h k n) \<and> fst (file_reads h k n) \<le> n \<and>
        int (length (snd (file_reads h k n))) = max 0 (fst (file_reads h k n))) \<and>
     length (sample_stack h) = 160"

text \<open>Between two callbacks: the session is as it has to be between two calls.\<close>

definition task_ok :: "rtp_task \<Rightarrow> bool" where
  "task_ok t \<longleftrightarrow> sess_idle (rt_session t) \<and> host_ok (rt_host t)"

text \<open>The datagrams that an event of the session makes the task send.\<close>

fun event_sends :: "rtp_task \<Rightarrow> event \<Rightarrow> (int \<times> sockaddr_in \<times> u8 list) list" where
  "event_sends t (TxRtp pkt) = [(rt_rtp_sock t, rt_rtp_rem_addr t, pkt)]"
| "event_sends t (TxRtcp pkt) = (if rtcp_tx_enabled t = 0 then [] else [(rt_rtp_sock t, rt_rtcp_rem_addr t, pkt)])"
| "event_sends t _ = []"

definition add_sent :: "(int \<times> sockaddr_in \<times> u8 list) list \<Rightarrow> rtp_task \<Rightarrow> rtp_task" where
  "add_sent xs t = t\<lparr>rt_host := (rt_host t)\<lparr>sent := sent (rt_host t) @ xs\<rparr>\<rparr>"

lemma add_sent_simps [simp]:
  "add_sent [] t = t" "add_sent ys (add_sent xs t) = add_sent (xs @ ys) t"
  "rt_session (add_sent xs t) = rt_session t" "host_ok (rt_host (add_sent xs t)) = host_ok (rt_host t)"
  "task_ok (add_sent xs t) = task_ok t"
  by (simp_all add: add_sent_def host_ok_def task_ok_def)

lemma event_sends_cong:
  "rt_rtp_sock t' = rt_rtp_sock t \<Longrightarrow> rt_rtp_rem_addr t' = rt_rtp_rem_addr t \<Longrightarrow>
   rt_rtcp_rem_addr t' = rt_rtcp_rem_addr t \<Longrightarrow> rtcp_tx_enabled t' = rtcp_tx_enabled t \<Longrightarrow>
   event_sends t' = event_sends t"
  by (rule ext, rename_tac e, case_tac e) simp_all

lemma event_sends_simps [simp]:
  "event_sends (add_sent xs t) = event_sends t" "event_sends (t\<lparr>rt_session := sess\<rparr>) = event_sends t"
  by (rule event_sends_cong; simp add: add_sent_def)+

lemma task_event_sends: "task_event e t = add_sent (event_sends t e) t"
  by (cases e) (simp_all add: rtp_task_tx_rtp_def rtp_task_tx_rtcp_def sendto_def add_sent_def
      rtp_task_rx_rtp_def rtp_task_sr_report_def rtp_task_rr_report_def)

lemma task_events_send: "fold task_event es t = add_sent (concat (map (event_sends t) es)) t"
  by (induction es arbitrary: t) (simp_all add: task_event_sends)

text \<open>The session as it is called: with the timestamp of the task.\<close>

definition called :: "rtp_task \<Rightarrow> rtp_session" where
  "called t = (rt_session t)\<lparr>env := (env (rt_session t))\<lparr>w_rtp_timestamp := \<lambda>_. rtp_task_rtp_timestamp t\<rparr>\<rparr>"

lemma in_session_sends:
  "in_session t f = bindE (f (called t)) (\<lambda>sess'. Inr (add_sent
     (concat (map (event_sends t) (drop (length (trace (env (called t)))) (trace (env sess')))))
     (t\<lparr>rt_session := sess'\<rparr>)))"
  by (simp add: in_session_def called_def task_events_send)

lemma called_idle: "sess_idle (called t) \<longleftrightarrow> sess_idle (rt_session t)"
  by (simp add: called_def sess_idle_def sess_inv_def sess_inv_at_def sess_shape_def world_ok_def
      active_def bye_of_def mem_def)

text \<open>A call into the session changes, of the task, the session and what was sent.\<close>

definition session_call :: "rtp_task \<Rightarrow> rtp_task \<Rightarrow> bool" where
  "session_call t t' \<longleftrightarrow> task_ok t' \<and>
     t'\<lparr>rt_session := rt_session t, rt_host := rt_host t, rt_rtp_ts := rt_rtp_ts t\<rparr> = t"

lemma in_session_ok:
  assumes "task_ok t" "\<And>s. sess_idle s \<Longrightarrow> outcome F sess_idle (f s)"
  shows "outcome F (session_call t) (in_session t f)"
proof -
  have "outcome F sess_idle (f (called t))"
    using assms by (simp add: called_idle task_ok_def)
  moreover have "host_ok (rt_host t)" using assms(1) by (simp add: task_ok_def)
  ultimately show ?thesis
    unfolding in_session_sends
    by (cases "f (called t)") (auto simp: session_call_def task_ok_def add_sent_def host_ok_def)
qed

section \<open>The callbacks keep it\<close>

definition task_faults :: "fault set" where
  "task_faults = {OobRead, OobWrite, NoReturn, ListCorrupt, FpRange, IntOverflow}"

lemma rx_rtp_idle:
  "sess_idle s \<Longrightarrow> unat len = length pkt \<Longrightarrow> outcome task_faults sess_idle (rtp_session_rx_rtp s pkt len from)"
  using rtp_rx_keeps [of s len pkt "from"] keeps_idle [of s]
  by (auto simp: rtp_session_rx_rtp_def outcome_def task_faults_def sess_idle_def split: sum.splits)

lemma rx_rtcp_idle:
  "sess_idle s \<Longrightarrow> unat len = length pkt \<Longrightarrow> outcome task_faults sess_idle (rtp_session_rx_rtcp s pkt len from)"
  unfolding rtp_session_rx_rtcp_def
  by (rule outcome_mono [OF rtcp_rx_keeps [of s len pkt "from"]])
    (auto simp: task_faults_def rtcp_faults_def sess_idle_def keeps_def)

lemma tick_idle: "sess_idle s \<Longrightarrow> outcome task_faults sess_idle (rtp_session_timer_tick s)"
  by (rule outcome_mono [OF tick_keeps]) (auto simp: task_faults_def sess_idle_def)

lemma recvfrom_ok:
  assumes "task_ok t" "recvfrom t = (t', len, buffer, from)"
  shows "task_ok t'" "len \<le> 1024" "0 < len \<Longrightarrow> unat (of_int len :: u32) = length buffer"
    "session_call t = session_call t'"
proof -
  have h: "recvs (rt_host t) (n_recvs (rt_host t)) = (len, buffer, from)"
    "t' = t\<lparr>rt_host := (rt_host t)\<lparr>n_recvs := Suc (n_recvs (rt_host t))\<rparr>\<rparr>"
    using assms(2) by (simp_all add: recvfrom_def)
  show "task_ok t'" using assms(1) h(2) by (simp add: task_ok_def host_ok_def)
  have "host_ok (rt_host t)" using assms(1) by (simp add: task_ok_def)
  then have b: "len \<le> 1024 \<and> (0 < len \<longrightarrow> int (length buffer) = len)"
    unfolding host_ok_def using h(1) by (metis fst_conv snd_conv)
  then show "len \<le> 1024" ..
  show "unat (of_int len :: u32) = length buffer" if "0 < len"
  proof -
    from b that have "len = int (length buffer)" "length buffer < 2 ^ 32" by auto
    then show ?thesis by (simp add: unat_of_nat_small)
  qed
  have "session_call t x = session_call t' x" for x
    by (cases t; cases x) (auto simp: session_call_def h(2))
  then show "session_call t = session_call t'" ..
qed

lemma datagram_ok:
  assumes "task_ok t" "recvfrom t = (t', len, buffer, from)"
    and "\<And>sess. sess_idle sess \<Longrightarrow> unat (of_int len :: u32) = length buffer \<Longrightarrow> outcome task_faults sess_idle (f sess)"
  shows "outcome task_faults (session_call t) (if len \<le> 0 then Inr t' else in_session t' f)"
proof -
  note R = recvfrom_ok [OF assms(1,2)]
  have "session_call t' t'" using R(1) by (cases t') (simp add: session_call_def)
  moreover have "outcome task_faults (session_call t') (in_session t' f)" if "0 < len"
    using R(3) [OF that] assms(3) by (intro in_session_ok [OF R(1)])
  ultimately show ?thesis
    by (cases "0 < len") (simp_all add: R(4))
qed

lemma on_rx_rtp_ok:
  assumes "task_ok t"
  shows "outcome task_faults (session_call t) (on_rx_rtp_from_sock t)"
proof -
  obtain t' len buffer "from" where r: "recvfrom t = (t', len, buffer, from)" by (cases "recvfrom t") auto
  show ?thesis
    unfolding on_rx_rtp_from_sock_def r Let_def prod.case by (intro datagram_ok [OF assms r] rx_rtp_idle)
qed

lemma on_rx_rtcp_ok:
  assumes "task_ok t"
  shows "outcome task_faults (session_call t) (on_rx_rtcp_from_sock t)"
proof -
  obtain t' len buffer "from" where r: "recvfrom t = (t', len, buffer, from)" by (cases "recvfrom t") auto
  show ?thesis
    unfolding on_rx_rtcp_from_sock_def r Let_def prod.case by (intro datagram_ok [OF assms r] rx_rtcp_idle)
qed

lemma timer_callback_ok: "task_ok t \<Longrightarrow> outcome task_faults (session_call t) (rtp_task_timer_callback t)"
  unfolding rtp_task_timer_callback_def by (intro in_session_ok tick_idle)

section \<open>The sampler\<close>

text \<open>Whatever the reads return, the loop writes into the array or fails.\<close>

lemma sampler_loop_result:
  assumes "sampler_loop h sample nread = Some r"
  shows "outcome {OobWrite, IntOverflow} (\<lambda>(h', sample'). length sample' = length sample \<and>
     h' = h\<lparr>n_file_reads := n_file_reads h'\<rparr>) r"
proof (rule sampler_loop.raw_induct [OF _ assms])
  fix f h sample nread r
  assume IH: "\<And>h sample nread r. f h sample nread = Some r \<Longrightarrow> outcome {OobWrite, IntOverflow}
      (\<lambda>(h', sample'). length sample' = length sample \<and> h' = h\<lparr>n_file_reads := n_file_reads h'\<rparr>) r"
    and eq: "(if nread < 160 then if 2 ^ 31 \<le> 160 - nread then Some (Inl IntOverflow)
        else (case file_reads h (n_file_reads h) (160 - nread) of (ret, bs) \<Rightarrow>
          (case put_sample sample nread bs of
             Inl f \<Rightarrow> Some (Inl f)
           | Inr sample' \<Rightarrow> f (h\<lparr>n_file_reads := Suc (n_file_reads h)\<rparr>) sample' (nread + ret)))
      else Some (Inr (h, sample))) = Some r"
  show "outcome {OobWrite, IntOverflow}
      (\<lambda>(h', sample'). length sample' = length sample \<and> h' = h\<lparr>n_file_reads := n_file_reads h'\<rparr>) r"
  proof (cases "nread < 160 \<and> 160 - nread < 2 ^ 31")
    case False
    then show ?thesis using eq by (auto split: if_splits)
  next
    case True
    obtain ret bs where rd: "file_reads h (n_file_reads h) (160 - nread) = (ret, bs)" by fastforce
    show ?thesis
    proof (cases "put_sample sample nread bs")
      case (Inl e)
      then have "e = OobWrite" by (auto simp: put_sample_def copy_to_def wr_def split: if_splits)
      then show ?thesis using eq True rd Inl by auto
    next
      case (Inr sample')
      then have "length sample' = length sample"
        by (auto simp: put_sample_def copy_to_def length_wr split: if_splits)
      then show ?thesis using IH [of "h\<lparr>n_file_reads := Suc (n_file_reads h)\<rparr>" sample' "nread + ret" r] eq True rd Inr
        by (auto simp: outcome_def split: sum.splits)
    qed
  qed
qed

lemma tx_idle:
  assumes "sess_idle s" "length sample = 160"
  shows "outcome task_faults sess_idle (bindE (rtp_session_tx s sample 160 ts [] 0) (\<lambda>(s, _). Inr s))"
proof -
  have "outcome {OobRead, OobWrite} (keeps s) (rtp_tx s sample 160 ts [] 0)"
    by (rule tx_keeps) (use assms(1) in \<open>simp add: sess_idle_def\<close>)
  then have "outcome task_faults sess_idle (rtp_tx s sample 160 ts [] 0)"
    by (rule outcome_mono) (auto simp: task_faults_def keeps_idle [OF _ assms(1)])
  then show ?thesis by (cases "rtp_tx s sample 160 ts [] 0") (simp_all add: rtp_session_tx_def)
qed

lemma sampler_callback_ok:
  assumes "task_ok t"
  shows "outcome task_faults (session_call t) (rtp_task_sampler_callback t)"
proof -
  have same: "session_call t t" using assms by (cases t) (simp add: session_call_def)
  have send: "outcome task_faults (session_call t) (in_session t' (\<lambda>sess.
      bindE (rtp_session_tx sess sample 160 (rt_rtp_ts t') [] 0) (\<lambda>(sess, _). Inr sess)))"
    if l: "sampler_loop (rt_host t) (sample_stack (rt_host t)) 0 = Some (Inr (h, sample))"
      and t': "t' = t\<lparr>rt_host := h, rt_rtp_ts := rt_rtp_ts t + 160\<rparr>" for h sample t'
  proof -
    have h: "h = (rt_host t)\<lparr>n_file_reads := n_file_reads h\<rparr>" "length sample = 160"
      using sampler_loop_result [OF l] assms by (auto simp: task_ok_def host_ok_def)
    have "host_ok (rt_host t)" using assms by (simp add: task_ok_def)
    then have "host_ok h" by (subst h(1)) (simp add: host_ok_def)
    then have "task_ok t'" using assms by (simp add: t' task_ok_def)
    then have "outcome task_faults (session_call t') (in_session t' (\<lambda>sess.
      bindE (rtp_session_tx sess sample 160 (rt_rtp_ts t') [] 0) (\<lambda>(sess, _). Inr sess)))"
      by (intro in_session_ok tx_idle h(2))
    moreover have "session_call t' x \<Longrightarrow> session_call t x" for x
      by (cases t; cases x) (auto simp: session_call_def t')
    ultimately show ?thesis by (auto elim: outcome_mono)
  qed
  show ?thesis
  proof (cases "sampler_loop (rt_host t) (sample_stack (rt_host t)) 0")
    case None
    then show ?thesis using same by (simp add: rtp_task_sampler_callback_def task_faults_def)
  next
    case (Some r)
    show ?thesis
    proof (cases r)
      case (Inl f)
      have "f \<in> {OobWrite, IntOverflow}" using sampler_loop_result [OF Some] Inl by simp
      then show ?thesis using same Some Inl by (auto simp: rtp_task_sampler_callback_def task_faults_def)
    next
      case (Inr hs)
      then show ?thesis using same send Some by (cases hs) (simp add: rtp_task_sampler_callback_def Let_def)
    qed
  qed
qed

text \<open>The watchers of the task are four.\<close>

definition task_watchers :: "rtp_task \<Rightarrow> nat list" where
  "task_watchers t = [rt_rtp_watcher t, rt_rtcp_watcher t, rt_timer_watcher t, rt_sampler_watcher t]"

lemma task_callback_ok:
  assumes "task_ok t" "p \<in> set (task_watchers t)"
  shows "outcome task_faults (session_call t) (rtp_task_callback p t)"
  using assms by (auto simp: rtp_task_callback_def task_watchers_def on_rx_rtp_ok on_rx_rtcp_ok
      timer_callback_ok sampler_callback_ok simp del: outcome_simps)

section \<open>What the sampler sends\<close>

text \<open>The reads from the \<open>k\<close>-th on return the pieces \<open>bss\<close>, the first after \<open>n\<close> octets, the last up to 160; an
  empty piece is the end of the file, from which the next read starts over.\<close>

fun reads_give :: "task_host \<Rightarrow> nat \<Rightarrow> nat \<Rightarrow> u8 list list \<Rightarrow> bool" where
  "reads_give h k n [] \<longleftrightarrow> n = 160"
| "reads_give h k n (bs # bss) \<longleftrightarrow> n < 160 \<and> n + length bs \<le> 160 \<and>
     file_reads h k (160 - int n) = (int (length bs), bs) \<and> reads_give h (Suc k) (n + length bs) bss"

lemma put_sample_ok:
  "n + length bs \<le> length sample \<Longrightarrow>
   put_sample sample (int n) bs = Inr (take n sample @ bs @ drop (n + length bs) sample)"
  by (simp add: put_sample_def copy_to_def wr_def)

lemma reads_give_cong: "file_reads h' = file_reads h \<Longrightarrow> reads_give h' k n bss \<longleftrightarrow> reads_give h k n bss"
  by (induction bss arbitrary: k n) simp_all

lemma sampler_loop_reads:
  assumes "reads_give h (n_file_reads h) n bss" "length sample = 160" "n \<le> 160"
  shows "sampler_loop h sample (int n) =
     Some (Inr (h\<lparr>n_file_reads := n_file_reads h + length bss\<rparr>, take n sample @ concat bss))"
  using assms
proof (induction bss arbitrary: h n sample)
  case Nil
  then show ?case by (subst sampler_loop.simps) simp
next
  case (Cons bs bss)
  let ?h = "h\<lparr>n_file_reads := Suc (n_file_reads h)\<rparr>" and ?s = "take n sample @ bs @ drop (n + length bs) sample"
  have "reads_give ?h (n_file_reads ?h) (n + length bs) bss"
    using Cons.prems(1) reads_give_cong [of ?h h] by simp
  then have "sampler_loop ?h ?s (int (n + length bs)) =
      Some (Inr (?h\<lparr>n_file_reads := n_file_reads ?h + length bss\<rparr>, take (n + length bs) ?s @ concat bss))"
    using Cons.prems by (intro Cons.IH) simp_all
  then show ?case
    using Cons.prems put_sample_ok [of n bs sample] by (subst sampler_loop.simps) simp
qed

lemma tx_packet_called:
  "tx_packet (called t) payload ts ssrc csrc = tx_packet (rt_session t) payload ts ssrc csrc"
  by (simp add: tx_packet_def tx_pad_def called_def)

lemma sampler_sends:
  assumes "task_ok t" "self (rt_session t) = Some me" "rtp_tx_enabled t \<noteq> 0"
    "reads_give (rt_host t) (n_file_reads (rt_host t)) 0 bss"
  shows "\<exists>t'. rtp_task_sampler_callback t = Inr t' \<and> task_ok t' \<and> rt_rtp_ts t' = rt_rtp_ts t + 160 \<and>
    sess_seq (rt_session t') = sess_seq (rt_session t) + 1 \<and>
    sent (rt_host t') = sent (rt_host t) @ [(rt_rtp_sock t, rt_rtp_rem_addr t,
      tx_packet (rt_session t) (concat bss) (rt_rtp_ts t + 160) (m_ssrc (mem (rt_session t) me)) [])]"
proof -
  let ?h = "(rt_host t)\<lparr>n_file_reads := n_file_reads (rt_host t) + length bss\<rparr>"
  define t1 where "t1 = t\<lparr>rt_host := ?h, rt_rtp_ts := rt_rtp_ts t + 160\<rparr>"
  let ?P = "tx_packet (rt_session t) (concat bss) (rt_rtp_ts t1) (m_ssrc (mem (rt_session t) me)) []"
  have l: "sampler_loop (rt_host t) (sample_stack (rt_host t)) 0 = Some (Inr (?h, concat bss))"
    using sampler_loop_reads [OF assms(4), of "sample_stack (rt_host t)"] assms(1)
    by (simp add: task_ok_def host_ok_def)
  have len: "length (concat bss) = 160"
    using sampler_loop_result [OF l] assms(1) by (simp add: task_ok_def host_ok_def)
  have same: "rt_session t1 = rt_session t" by (simp add: t1_def)
  have c: "sess_inv (called t1)" "self (called t1) = Some me" "m_ssrc (mem (called t1) me) = m_ssrc (mem (rt_session t) me)"
    using assms(1,2) called_idle [of t1] by (simp_all add: same task_ok_def sess_idle_def called_def mem_def)
  obtain sess where tx: "rtp_tx (called t1) (concat bss) 160 (rt_rtp_ts t1) [] 0 = Inr sess"
    "trace (env sess) = trace (env (called t1)) @ [TxRtp ?P]" "sess_seq sess = sess_seq (called t1) + 1"
    using tx_sends_packet [OF c(1,2), of "[]" 0 "concat bss" 160 "rt_rtp_ts t1"] len
    by (auto simp: config_defs c(3) tx_packet_called same)
  have out: "rtp_task_sampler_callback t = in_session t1 (\<lambda>sess.
      bindE (rtp_session_tx sess (concat bss) 160 (rt_rtp_ts t1) [] 0) (\<lambda>(sess, _). Inr sess))"
    using assms(3) l by (simp add: rtp_task_sampler_callback_def t1_def)
  define t' where "t' = add_sent (event_sends t1 (TxRtp ?P)) (t1\<lparr>rt_session := sess\<rparr>)"
  have t': "rtp_task_sampler_callback t = Inr t'"
    unfolding out t'_def in_session_sends rtp_session_tx_def tx(1) by (simp add: tx(2))
  have "task_ok t'" using outcome_Inr [OF sampler_callback_ok [OF assms(1)] t'] by (simp add: session_call_def)
  with t' tx(3) show ?thesis by (simp add: t'_def add_sent_def called_def t1_def)
qed


lemma sampler_loop_stuck:
  assumes "\<And>k n. file_reads h k n = (0, [])"
  shows "sampler_loop h sample 0 = None"
proof (rule ccontr)
  assume "sampler_loop h sample 0 \<noteq> None"
  then obtain r where r: "sampler_loop h sample 0 = Some r" by auto
  have "\<not> ((\<forall>k n. file_reads h k n = (0, [])) \<and> nread = 0)" if "sampler_loop h sample nread = Some r" for h sample nread r
    using that
  proof (rule sampler_loop.raw_induct [rotated])
    fix f h sample nread r
    assume IH: "\<And>h sample nread r. f h sample nread = Some r \<Longrightarrow>
        \<not> ((\<forall>k n. file_reads h k n = (0, [])) \<and> nread = 0)"
      and eq: "(if nread < 160 then if 2 ^ 31 \<le> 160 - nread then Some (Inl IntOverflow)
          else (case file_reads h (n_file_reads h) (160 - nread) of (ret, bs) \<Rightarrow>
            (case put_sample sample nread bs of
               Inl f \<Rightarrow> Some (Inl f)
             | Inr sample' \<Rightarrow> f (h\<lparr>n_file_reads := Suc (n_file_reads h)\<rparr>) sample' (nread + ret)))
        else Some (Inr (h, sample))) = Some r"
    show "\<not> ((\<forall>k n. file_reads h k n = (0, [])) \<and> nread = 0)"
      using IH [of "h\<lparr>n_file_reads := Suc (n_file_reads h)\<rparr>" sample 0 r] eq by (auto simp: put_sample_def)
  qed
  from this [OF r] assms show False by simp
qed

text \<open>
  C40: the result of \<open>read\<close> is used without being looked at: after a read that failed, the next one writes in
  front of the array, and an empty file keeps the callback, and with it the program, busy for ever.
\<close>

theorem sampler_trusts_read:
  assumes "rtp_tx_enabled t \<noteq> 0"
  shows "(file_reads (rt_host t) (n_file_reads (rt_host t)) 160 = (-1, []) \<and> bs \<noteq> [] \<and>
      file_reads (rt_host t) (Suc (n_file_reads (rt_host t))) 161 = (ret, bs) \<longrightarrow>
      rtp_task_sampler_callback t = Inl OobWrite) \<and>
    ((\<forall>k n. file_reads (rt_host t) k n = (0, [])) \<longrightarrow> rtp_task_sampler_callback t = Inl NoReturn)"
proof (intro conjI impI)
  let ?h = "rt_host t"
  assume a: "file_reads ?h (n_file_reads ?h) 160 = (-1, []) \<and> bs \<noteq> [] \<and>
      file_reads ?h (Suc (n_file_reads ?h)) 161 = (ret, bs)"
  then have "sampler_loop (?h\<lparr>n_file_reads := Suc (n_file_reads ?h)\<rparr>) (sample_stack ?h) (- 1) = Some (Inl OobWrite)"
    by (subst sampler_loop.simps) (simp add: put_sample_def copy_to_def)
  with a have "sampler_loop ?h (sample_stack ?h) 0 = Some (Inl OobWrite)"
    by (subst sampler_loop.simps) (simp add: put_sample_def)
  with assms show "rtp_task_sampler_callback t = Inl OobWrite"
    by (simp add: rtp_task_sampler_callback_def)
next
  assume "\<forall>k n. file_reads (rt_host t) k n = (0, [])"
  with assms show "rtp_task_sampler_callback t = Inl NoReturn"
    by (simp add: rtp_task_sampler_callback_def sampler_loop_stuck)
qed

section \<open>Where datagrams go\<close>

definition sends_more :: "rtp_task \<Rightarrow> rtp_task \<Rightarrow> bool" where
  "sends_more t t' \<longleftrightarrow> (\<exists>xs. sent (rt_host t') = sent (rt_host t) @ xs \<and> (\<forall>(sock, addr, pkt) \<in> set xs.
     sock = rt_rtp_sock t \<and> (addr = rt_rtp_rem_addr t \<or> addr = rt_rtcp_rem_addr t \<and> rtcp_tx_enabled t \<noteq> 0)))"

lemma in_session_sends_more: "in_session t f = Inr t' \<Longrightarrow> sends_more t t'"
proof -
  have e: "\<forall>(sock, addr, pkt) \<in> set (event_sends t e). sock = rt_rtp_sock t \<and>
      (addr = rt_rtp_rem_addr t \<or> addr = rt_rtcp_rem_addr t \<and> rtcp_tx_enabled t \<noteq> 0)" for e
    by (cases e) auto
  assume "in_session t f = Inr t'"
  then obtain es sess where "t' = add_sent (concat (map (event_sends t) es)) (t\<lparr>rt_session := sess\<rparr>)"
    by (auto simp: in_session_sends res_iff)
  with e show ?thesis
    by (fastforce simp: sends_more_def add_sent_def)
qed

lemma sends_more_frame:
  "sends_more t1 t' \<Longrightarrow> sent (rt_host t1) = sent (rt_host t) \<Longrightarrow> rt_rtp_sock t1 = rt_rtp_sock t \<Longrightarrow>
   rt_rtp_rem_addr t1 = rt_rtp_rem_addr t \<Longrightarrow> rt_rtcp_rem_addr t1 = rt_rtcp_rem_addr t \<Longrightarrow>
   rtcp_tx_enabled t1 = rtcp_tx_enabled t \<Longrightarrow> sends_more t t'"
  by (simp add: sends_more_def)

lemma sends_more_refl: "sent (rt_host t') = sent (rt_host t) \<Longrightarrow> sends_more t t'"
  by (simp add: sends_more_def)

lemma receive_sends_more:
  assumes "recvfrom t = (t1, len, buffer, from)" "(if len \<le> 0 then Inr t1 else in_session t1 f) = Inr t'"
  shows "sends_more t t'"
proof (cases "len \<le> 0")
  case True
  then show ?thesis using assms by (auto simp: recvfrom_def intro: sends_more_refl)
next
  case False
  then have "sends_more t1 t'" using assms(2) in_session_sends_more by simp
  then show ?thesis by (rule sends_more_frame) (use assms(1) in \<open>auto simp: recvfrom_def\<close>)
qed

lemma sampler_sends_more:
  assumes "rtp_task_sampler_callback t = Inr t'"
  shows "sends_more t t'"
proof (cases "rtp_tx_enabled t = 0")
  case True
  then show ?thesis using assms by (auto simp: rtp_task_sampler_callback_def intro: sends_more_refl)
next
  case False
  then obtain h sample where l: "sampler_loop (rt_host t) (sample_stack (rt_host t)) 0 = Some (Inr (h, sample))"
    and c: "in_session (t\<lparr>rt_host := h, rt_rtp_ts := rt_rtp_ts t + 160\<rparr>) (\<lambda>sess. bindE (rtp_session_tx sess sample 160
      (rt_rtp_ts t + 160) [] 0) (\<lambda>(sess, _). Inr sess)) = Inr t'"
    using assms by (auto simp: rtp_task_sampler_callback_def res_iff split: option.splits)
  have "h = (rt_host t)\<lparr>n_file_reads := n_file_reads h\<rparr>"
    using sampler_loop_result [OF l] by simp
  then have "sent h = sent (rt_host t)" by (metis task_host.select_convs(6) task_host.surjective task_host.update_convs(4))
  then show ?thesis by (intro sends_more_frame [OF in_session_sends_more [OF c]]) simp_all
qed

text \<open>
  C39: every datagram of the task leaves through the RTP socket, the RTCP reports as well; they go to the
  RTCP address of the other side, and none goes there while RTCP is switched off.
\<close>

theorem all_sent_from_rtp_socket:
  assumes "rtp_task_callback p t = Inr t'"
  shows "\<exists>xs. sent (rt_host t') = sent (rt_host t) @ xs \<and> (\<forall>(sock, addr, pkt) \<in> set xs.
     sock = rt_rtp_sock t \<and> (addr = rt_rtp_rem_addr t \<or> addr = rt_rtcp_rem_addr t \<and> rtcp_tx_enabled t \<noteq> 0))"
proof -
  obtain t1 len buffer "from" where r: "recvfrom t = (t1, len, buffer, from)" by (cases "recvfrom t") auto
  have "sends_more t t'"
    using assms receive_sends_more [OF r] in_session_sends_more sampler_sends_more
    by (auto simp: rtp_task_callback_def on_rx_rtp_from_sock_def on_rx_rtcp_from_sock_def r
        rtp_task_timer_callback_def split: if_splits)
  then show ?thesis by (simp add: sends_more_def)
qed

section \<open>Starting the task\<close>

lemma init_watcher_eq:
  "watcher_mem io p = Some w \<Longrightarrow> p \<notin> set (watchers io) \<Longrightarrow> p \<notin> set (run_list io) \<Longrightarrow>
   init_watcher io p fd = Inr (set_watcher p (w\<lparr>event_listening := 0, w_fd := fd\<rparr>) io)"
  by (simp add: init_watcher_def io_driver_watcher_init_def get_watcher_def set_watcher_def)

lemma first_watch_eq:
  "watcher_mem io p = Some w \<Longrightarrow> event_listening w = 0 \<Longrightarrow> p \<notin> set (watchers io) \<Longrightarrow> p \<notin> set (run_list io) \<Longrightarrow>
   io_driver_watch io p IO_DRIVER_EVENT_RX =
     Inr ((set_watcher p (w\<lparr>event_listening := 1\<rparr>) io)\<lparr>watchers := watchers io @ [p]\<rparr>)"
  by (simp add: io_driver_watch_def get_watcher_def set_watcher_def)

text \<open>The static memory of the program, and calls that all succeed.\<close>

definition task_static :: "io_driver \<Rightarrow> rtp_task \<Rightarrow> bool" where
  "task_static io t \<longleftrightarrow> distinct (task_watchers t) \<and>
     (\<forall>p \<in> set (task_watchers t). watcher_mem io p \<noteq> None \<and> p \<notin> set (watchers io) \<and> p \<notin> set (run_list io)) \<and>
     raw_ok (rt_session t) \<and> host_ok (rt_host t) \<and> length (c_cname (rt_session_cfg t)) = 272"

definition calls_succeed :: "init_calls \<Rightarrow> bool" where
  "calls_succeed ic \<longleftrightarrow> 0 \<le> ic_rtp_sock ic \<and> 0 \<le> ic_rtcp_sock ic \<and> 0 \<le> ic_pcm_fd ic \<and>
     ic_rtp_bind ic = 0 \<and> ic_rtcp_bind ic = 0"

definition watching :: "int \<Rightarrow> io_driver_watcher \<Rightarrow> bool" where
  "watching fd w \<longleftrightarrow> w_fd w = fd \<and> event_listening w = 1"

definition task_watches :: "init_calls \<Rightarrow> rtp_task \<Rightarrow> io_driver \<Rightarrow> bool" where
  "task_watches ic t io \<longleftrightarrow>
     (\<exists>w. watcher_mem io (rt_rtp_watcher t) = Some w \<and> watching (ic_rtp_sock ic) w) \<and>
     (\<exists>w. watcher_mem io (rt_rtcp_watcher t) = Some w \<and> watching (ic_rtcp_sock ic) w) \<and>
     (\<exists>w. watcher_mem io (rt_timer_watcher t) = Some w \<and> watching (ic_timerfd ic) w) \<and>
     (\<exists>w. watcher_mem io (rt_sampler_watcher t) = Some w \<and> watching (ic_samplerfd ic) w)"

lemma init_addresses_frame [simp]:
  "rt_session (init_addresses b t) = rt_session t" "rt_host (init_addresses b t) = rt_host t"
  "task_watchers (init_addresses b t) = task_watchers t" "rt_session_cfg (init_addresses b t) = rt_session_cfg t"
  "length (rt_cname (init_addresses b t)) = 5"
  by (simp_all add: init_addresses_def task_watchers_def Let_def)

lemma init_sock_eq:
  assumes "task_static io t" "calls_succeed ic"
  shows "\<exists>io'. rtp_task_init_sock ic (io, t) =
      Inr (Some (io', t\<lparr>rt_rtp_sock := ic_rtp_sock ic, rt_rtcp_sock := ic_rtcp_sock ic\<rparr>)) \<and>
    watchers io' = watchers io @ [rt_rtp_watcher t, rt_rtcp_watcher t] \<and> run_list io' = run_list io \<and>
    (\<exists>w. watcher_mem io' (rt_rtp_watcher t) = Some w \<and> watching (ic_rtp_sock ic) w) \<and>
    (\<exists>w. watcher_mem io' (rt_rtcp_watcher t) = Some w \<and> watching (ic_rtcp_sock ic) w) \<and>
    (\<forall>p. p \<noteq> rt_rtp_watcher t \<and> p \<noteq> rt_rtcp_watcher t \<longrightarrow> watcher_mem io' p = watcher_mem io p)"
proof -
  obtain w1 w2 where w: "watcher_mem io (rt_rtp_watcher t) = Some w1" "watcher_mem io (rt_rtcp_watcher t) = Some w2"
    using assms(1) by (auto simp: task_static_def task_watchers_def)
  then show ?thesis
    using assms by (simp add: rtp_task_init_sock_def task_static_def task_watchers_def calls_succeed_def
        init_watcher_eq first_watch_eq set_watcher_def watching_def)
qed

lemma init_timing_eq:
  assumes "watcher_mem io (rt_timer_watcher t) = Some w" "rt_timer_watcher t \<notin> set (watchers io)"
    "rt_timer_watcher t \<notin> set (run_list io)"
  shows "\<exists>io'. rtp_task_init_timing_service ic (io, t) = Inr (io', t\<lparr>rt_timerfd := ic_timerfd ic\<rparr>) \<and>
    watchers io' = watchers io @ [rt_timer_watcher t] \<and> run_list io' = run_list io \<and>
    (\<exists>w. watcher_mem io' (rt_timer_watcher t) = Some w \<and> watching (ic_timerfd ic) w) \<and>
    (\<forall>p. p \<noteq> rt_timer_watcher t \<longrightarrow> watcher_mem io' p = watcher_mem io p)"
  using assms by (simp add: rtp_task_init_timing_service_def init_watcher_eq first_watch_eq set_watcher_def watching_def)

lemma init_sampler_eq:
  assumes "watcher_mem io (rt_sampler_watcher t) = Some w" "rt_sampler_watcher t \<notin> set (watchers io)"
    "rt_sampler_watcher t \<notin> set (run_list io)" "0 \<le> ic_pcm_fd ic"
  shows "\<exists>io'. rtp_task_init_sampler ic (io, t) =
      Inr (Some (io', t\<lparr>rt_samplerfd := ic_samplerfd ic, rt_pcm_fd := ic_pcm_fd ic\<rparr>)) \<and>
    watchers io' = watchers io @ [rt_sampler_watcher t] \<and> run_list io' = run_list io \<and>
    (\<exists>w. watcher_mem io' (rt_sampler_watcher t) = Some w \<and> watching (ic_samplerfd ic) w) \<and>
    (\<forall>p. p \<noteq> rt_sampler_watcher t \<longrightarrow> watcher_mem io' p = watcher_mem io p)"
  using assms by (simp add: rtp_task_init_sampler_def init_watcher_eq first_watch_eq set_watcher_def watching_def)

lemma init_config_eq:
  assumes "length (c_cname (rt_session_cfg t)) = 272" "length (rt_cname t) = 5"
  shows "\<exists>cfg. init_config t = Inr (t\<lparr>rt_session_cfg := cfg\<rparr>) \<and> length (c_cname cfg) = 272 \<and>
    take 5 (c_cname cfg) = rt_cname t \<and> c_cname_len cfg = 5 \<and> c_rtp_addr cfg = rt_rtp_addr t \<and>
    c_rtcp_addr cfg = rt_rtcp_addr t \<and> session_bw cfg = 64000"
  using assms by (intro exI [of _ "(rt_session_cfg t)\<lparr>c_cname := rt_cname t @ drop 5 (c_cname (rt_session_cfg t)),
      c_cname_len := 5, c_rtp_addr := rt_rtp_addr t, c_rtcp_addr := rt_rtcp_addr t, session_bw := 64000,
      c_pt := 0, align_by_4 := 0\<rparr>"]) (simp add: init_config_def wr_def)

lemma init_session_eq:
  assumes "raw_ok (rt_session t)" "host_ok (rt_host t)" "unat (c_cname_len cfg) \<le> length (c_cname cfg)" "session_bw cfg \<noteq> 0"
  shows "\<exists>t'. in_session t (\<lambda>sess. rtp_session_init sess cfg) = Inr t' \<and> session_call t t' \<and>
    self (rt_session t') = Some 0 \<and> used (rt_session t') = [0] \<and> config (rt_session t') = cfg"
proof -
  have raw: "raw_ok (called t)" using assms(1) by (simp add: called_def raw_ok_def world_ok_def)
  obtain s where s: "rtp_session_init (called t) cfg = Inr s"
    using session_init_value [OF raw assms(3)] assms(4) by auto
  note f = session_init_ok [OF raw assms(3) s]
  have "sess_idle s" using f(1,2) by (simp add: sess_idle_def)
  then show ?thesis
    using s f(3,4,6) assms(2) by (simp add: in_session_sends session_call_def task_ok_def) (simp add: add_sent_def)
qed

lemma session_call_frame:
  assumes "session_call t t'"
  shows "task_watchers t' = task_watchers t" "rt_rtp_rem_addr t' = rt_rtp_rem_addr t"
    "rt_rtcp_rem_addr t' = rt_rtcp_rem_addr t" "rt_rtp_sock t' = rt_rtp_sock t" "rt_rtcp_sock t' = rt_rtcp_sock t"
    "rtp_tx_enabled t' = rtp_tx_enabled t" "rtcp_tx_enabled t' = rtcp_tx_enabled t" "task_ok t'"
proof -
  have e: "t'\<lparr>rt_session := rt_session t, rt_host := rt_host t, rt_rtp_ts := rt_rtp_ts t\<rparr> = t"
    using assms by (simp add: session_call_def)
  show "task_watchers t' = task_watchers t" "rt_rtp_rem_addr t' = rt_rtp_rem_addr t"
    "rt_rtcp_rem_addr t' = rt_rtcp_rem_addr t" "rt_rtp_sock t' = rt_rtp_sock t" "rt_rtcp_sock t' = rt_rtcp_sock t"
    "rtp_tx_enabled t' = rtp_tx_enabled t" "rtcp_tx_enabled t' = rtcp_tx_enabled t"
    by (cases t; cases t'; use e in \<open>simp add: task_watchers_def\<close>)+
  show "task_ok t'" using assms by (simp add: session_call_def)
qed

definition mirrored :: "u8 \<Rightarrow> rtp_task \<Rightarrow> rtp_task \<Rightarrow> bool" where
  "mirrored blah t t' \<longleftrightarrow>
     (let other = init_addresses (if blah = 1 then 0 else 1) t
      in rt_rtp_rem_addr t' = rt_rtp_addr other \<and> rt_rtcp_rem_addr t' = rt_rtcp_addr other)"

lemma init_mirrored: "mirrored blah t (init_addresses blah t)"
  by (simp add: mirrored_def init_addresses_def Let_def)

definition task_started :: "init_calls \<Rightarrow> u8 \<Rightarrow> io_driver \<Rightarrow> rtp_task \<Rightarrow> io_driver \<Rightarrow> rtp_task \<Rightarrow> bool" where
  "task_started ic blah io t io' t' \<longleftrightarrow>
     task_ok t' \<and> self (rt_session t') = Some 0 \<and> used (rt_session t') = [0] \<and>
     watchers io' = watchers io @ task_watchers t \<and> run_list io' = run_list io \<and> task_watches ic t io' \<and>
     (\<forall>p. p \<notin> set (task_watchers t) \<longrightarrow> watcher_mem io' p = watcher_mem io p) \<and>
     task_watchers t' = task_watchers t \<and> mirrored blah t t'"

lemma task_init_ok:
  assumes "task_static io t" "calls_succeed ic"
  shows "\<exists>io' t'. rtp_task_init ic blah (io, t) = Inr (Some (io', t')) \<and> task_started ic blah io t io' t'"
proof -
  define t0 where "t0 = init_addresses blah t"
  have w0: "task_watchers t0 = task_watchers t" by (simp add: t0_def)
  then have w: "rt_rtp_watcher t0 = rt_rtp_watcher t" "rt_rtcp_watcher t0 = rt_rtcp_watcher t"
    "rt_timer_watcher t0 = rt_timer_watcher t" "rt_sampler_watcher t0 = rt_sampler_watcher t"
    by (simp_all add: task_watchers_def)
  have D: "distinct (task_watchers t)" "raw_ok (rt_session t)" "host_ok (rt_host t)" "length (c_cname (rt_session_cfg t)) = 272"
    "\<And>p. p \<in> set (task_watchers t) \<Longrightarrow> watcher_mem io p \<noteq> None \<and> p \<notin> set (watchers io) \<and> p \<notin> set (run_list io)"
    using assms(1) unfolding task_static_def by blast+
  have st: "task_static io t0" using assms(1) w0 by (simp add: task_static_def t0_def)
  obtain io1 t1 where 1: "rtp_task_init_sock ic (io, t0) = Inr (Some (io1, t1))"
    "t1 = t0\<lparr>rt_rtp_sock := ic_rtp_sock ic, rt_rtcp_sock := ic_rtcp_sock ic\<rparr>"
    "watchers io1 = watchers io @ [rt_rtp_watcher t, rt_rtcp_watcher t]" "run_list io1 = run_list io"
    "\<exists>w. watcher_mem io1 (rt_rtp_watcher t) = Some w \<and> watching (ic_rtp_sock ic) w"
    "\<exists>w. watcher_mem io1 (rt_rtcp_watcher t) = Some w \<and> watching (ic_rtcp_sock ic) w"
    "\<forall>p. p \<noteq> rt_rtp_watcher t \<and> p \<noteq> rt_rtcp_watcher t \<longrightarrow> watcher_mem io1 p = watcher_mem io p"
    using init_sock_eq [OF st assms(2)] unfolding w by blast
  have tw: "rt_timer_watcher t1 = rt_timer_watcher t" "rt_sampler_watcher t1 = rt_sampler_watcher t" by (simp_all add: 1(2) w)
  have ne: "rt_timer_watcher t \<noteq> rt_rtp_watcher t" "rt_timer_watcher t \<noteq> rt_rtcp_watcher t"
    "rt_sampler_watcher t \<noteq> rt_rtp_watcher t" "rt_sampler_watcher t \<noteq> rt_rtcp_watcher t"
    "rt_sampler_watcher t \<noteq> rt_timer_watcher t"
    using D(1) by (auto simp: task_watchers_def)
  obtain wt ws where "watcher_mem io (rt_timer_watcher t) = Some wt" "watcher_mem io (rt_sampler_watcher t) = Some ws"
    and out: "rt_timer_watcher t \<notin> set (watchers io1)" "rt_timer_watcher t \<notin> set (run_list io1)"
      "rt_sampler_watcher t \<notin> set (watchers io1)" "rt_sampler_watcher t \<notin> set (run_list io1)"
    using D(5) [of "rt_timer_watcher t"] D(5) [of "rt_sampler_watcher t"] ne 1(3,4) by (auto simp: task_watchers_def)
  then have m1: "watcher_mem io1 (rt_timer_watcher t) = Some wt" "watcher_mem io1 (rt_sampler_watcher t) = Some ws"
    using 1(7) ne by simp_all
  obtain io2 t2 where 2: "rtp_task_init_timing_service ic (io1, t1) = Inr (io2, t2)" "t2 = t1\<lparr>rt_timerfd := ic_timerfd ic\<rparr>"
    "watchers io2 = watchers io1 @ [rt_timer_watcher t]" "run_list io2 = run_list io1"
    "\<exists>w. watcher_mem io2 (rt_timer_watcher t) = Some w \<and> watching (ic_timerfd ic) w"
    "\<forall>p. p \<noteq> rt_timer_watcher t \<longrightarrow> watcher_mem io2 p = watcher_mem io1 p"
    using init_timing_eq [of io1 t1 wt ic] m1(1) out(1,2) unfolding tw by blast
  have t2: "length (c_cname (rt_session_cfg t2)) = 272" "length (rt_cname t2) = 5" "raw_ok (rt_session t2)" "host_ok (rt_host t2)"
    using D by (simp_all add: 2(2) 1(2) t0_def)
  obtain cfg where cfg: "init_config t2 = Inr (t2\<lparr>rt_session_cfg := cfg\<rparr>)" "length (c_cname cfg) = 272"
    "c_cname_len cfg = 5" "session_bw cfg = 64000"
    using init_config_eq [OF t2(1,2)] by blast
  obtain t4 where 4: "in_session (t2\<lparr>rt_session_cfg := cfg\<rparr>) (\<lambda>sess. rtp_session_init sess cfg) = Inr t4"
    "session_call (t2\<lparr>rt_session_cfg := cfg\<rparr>) t4" "self (rt_session t4) = Some 0" "used (rt_session t4) = [0]"
    using init_session_eq [of "t2\<lparr>rt_session_cfg := cfg\<rparr>" cfg] t2(3,4) cfg(2,3,4) by auto
  have w4: "task_watchers t4 = task_watchers t"
    using session_call_frame(1) [OF 4(2)] w by (simp add: 2(2) 1(2) task_watchers_def)
  then have sw: "rt_sampler_watcher t4 = rt_sampler_watcher t" by (simp add: task_watchers_def)
  have pcm: "0 \<le> ic_pcm_fd ic" using assms(2) by (simp add: calls_succeed_def)
  have m2: "watcher_mem io2 (rt_sampler_watcher t) = Some ws" "rt_sampler_watcher t \<notin> set (watchers io2)"
    "rt_sampler_watcher t \<notin> set (run_list io2)"
    using 2(3,4,6) m1(2) out(3,4) ne(5) by simp_all
  obtain io5 t5 where 5: "rtp_task_init_sampler ic (io2, t4) = Inr (Some (io5, t5))"
    "t5 = t4\<lparr>rt_samplerfd := ic_samplerfd ic, rt_pcm_fd := ic_pcm_fd ic\<rparr>"
    "watchers io5 = watchers io2 @ [rt_sampler_watcher t]" "run_list io5 = run_list io2"
    "\<exists>w. watcher_mem io5 (rt_sampler_watcher t) = Some w \<and> watching (ic_samplerfd ic) w"
    "\<forall>p. p \<noteq> rt_sampler_watcher t \<longrightarrow> watcher_mem io5 p = watcher_mem io2 p"
    using init_sampler_eq [of io2 t4 ws ic] m2 pcm unfolding sw by blast
  have "rtp_task_init ic blah (io, t) = Inr (Some (io5, t5))"
    using 1(1) 2(1) cfg(1) 4(1) 5(1) by (simp add: rtp_task_init_def unless_exit_def t0_def)
  moreover have "mirrored blah t t5"
    using init_mirrored [of blah t] session_call_frame(2,3) [OF 4(2)] by (simp add: mirrored_def 5(2) 2(2) 1(2) t0_def)
  moreover have "task_ok t5" using session_call_frame(8) [OF 4(2)] by (simp add: task_ok_def 5(2))
  moreover have "task_watchers t5 = task_watchers t" using w4 by (simp add: 5(2) task_watchers_def)
  moreover have "task_watches ic t io5" using 1(5,6) 2(5,6) 5(5,6) ne by (auto simp: task_watches_def)
  moreover have "watchers io5 = watchers io @ task_watchers t" "run_list io5 = run_list io"
    using 1(3,4) 2(3,4) 5(3,4) by (simp_all add: task_watchers_def)
  moreover have "watcher_mem io5 p = watcher_mem io p" if "p \<notin> set (task_watchers t)" for p
    using that 1(7) 2(6) 5(6) by (simp add: task_watchers_def)
  moreover have "self (rt_session t5) = Some 0" "used (rt_session t5) = [0]" using 4(3,4) by (simp_all add: 5(2))
  ultimately have "task_started ic blah io t io5 t5" by (simp add: task_started_def)
  with \<open>rtp_task_init ic blah (io, t) = Inr (Some (io5, t5))\<close> show ?thesis by blast
qed

text \<open>
  C36: When all system calls succeed, the task starts: its session is up, in the invariant, with itself as the only
  member; its four watchers, and no others, have been added to the event loop, for reception, on their descriptors; and each of
  the two programs sends to the addresses that the other one is bound to. A call that fails ends the program.
\<close>

theorem rtp_task_init_correct:
  assumes "task_static io t"
  shows "(calls_succeed ic \<longrightarrow> (\<exists>io' t'. rtp_task_init ic blah (io, t) = Inr (Some (io', t')) \<and>
      task_started ic blah io t io' t')) \<and>
    (ic_rtp_sock ic < 0 \<or> ic_rtp_bind ic \<noteq> 0 \<or> ic_rtcp_sock ic < 0 \<or> ic_rtcp_bind ic \<noteq> 0 \<longrightarrow>
      rtp_task_init ic blah (io, t) = Inr None)"
  using task_init_ok [OF assms]
  by (auto simp: rtp_task_init_def unless_exit_def rtp_task_init_sock_def Let_def)

end
