(* ===== verification/Stream.thy ===== *)
theory Stream
  imports Io_Driver Circ_Buffer
begin

text \<open>
  Byte streams over a socket, \<^verbatim>\<open>libutils/stream.c\<close>: what the socket does not take at once is kept in a
  circular buffer and is to be written when the event loop says that the socket is ready again.
\<close>

section \<open>The system calls\<close>

text \<open>
  The results of the calls come from streams: \<open>sys_writes k n\<close> is the result of the \<open>k\<close>-th \<open>write\<close>, which is
  offered \<open>n\<close> octets, and whether \<open>errno\<close> is then \<open>EWOULDBLOCK\<close> or \<open>EAGAIN\<close>; \<open>sys_reads k n\<close> is the
  result of the \<open>k\<close>-th \<open>read\<close> into \<open>n\<close> octets, and what it put there. \<open>wire\<close> is the trace of what was
  taken, with its descriptor, and \<open>closed\<close> that of the descriptors that were closed.
\<close>

record sys =
  sys_writes :: "nat \<Rightarrow> int \<Rightarrow> int \<times> bool"
  sys_reads :: "nat \<Rightarrow> int \<Rightarrow> int \<times> u8 list"
  n_writes :: nat
  n_reads :: nat
  wire :: "(int \<times> u8) list"
  closed :: "int list"

definition sys_write :: "sys \<Rightarrow> int \<Rightarrow> u8 list \<Rightarrow> int \<Rightarrow> (sys \<times> int \<times> bool) res" where
  "sys_write sy fd data len =
     bindE (copy_from data 0 len) (\<lambda>bs.
     let (ret, again) = sys_writes sy (n_writes sy) len
     in Inr (sy\<lparr>n_writes := Suc (n_writes sy), wire := wire sy @ map (Pair fd) (take (nat ret) bs)\<rparr>, ret, again))"

definition sys_read :: "sys \<Rightarrow> int \<Rightarrow> u8 list \<Rightarrow> int \<Rightarrow> (sys \<times> int \<times> u8 list) res" where
  "sys_read sy fd buf len =
     (let (ret, bs) = sys_reads sy (n_reads sy) len
      in bindE (wr buf 0 bs) (\<lambda>buf. Inr (sy\<lparr>n_reads := Suc (n_reads sy)\<rparr>, ret, buf)))"

definition sys_close :: "sys \<Rightarrow> int \<Rightarrow> sys" where
  "sys_close sy fd = sy\<lparr>closed := closed sy @ [fd]\<rparr>"

text \<open>What POSIX says of them: an error, or a number of octets that is at most what was offered.\<close>

definition sys_sane :: "sys \<Rightarrow> bool" where
  "sys_sane sy \<longleftrightarrow>
     (\<forall>k n. - 1 \<le> fst (sys_writes sy k n) \<and> (0 \<le> n \<longrightarrow> fst (sys_writes sy k n) \<le> n)) \<and>
     (\<forall>k n. 0 \<le> n \<longrightarrow> int (length (snd (sys_reads sy k n))) = max 0 (fst (sys_reads sy k n)) \<and>
        - 1 \<le> fst (sys_reads sy k n) \<and> fst (sys_reads sy k n) \<le> n)"

section \<open>State and operations\<close>

datatype stream_event = stream_event_rx | stream_event_eof | stream_event_err | stream_event_tx

text \<open>\<open>st_watcher\<close> is the address of the embedded watcher.\<close>

record stream =
  st_watcher :: nat
  rx_buf :: "u8 list"
  rx_buf_size :: int
  rx_data_len :: int
  tx_buf :: circ_buffer

definition stream_handle_tx_event :: "io_driver \<Rightarrow> stream \<Rightarrow> sys \<Rightarrow> (io_driver \<times> stream \<times> sys) res" where
  "stream_handle_tx_event io st sy =
     (if circ_buffer_is_empty (tx_buf st) then
        bindE (io_driver_no_watch io (st_watcher st) IO_DRIVER_EVENT_TX) (\<lambda>io. Inr (io, st, sy))
      else
        let data_size = circ_buffer_get_data_size (tx_buf st);
            len = if data_size < 128 then data_size else 128
        in bindE (circ_buffer_peek (tx_buf st) len) (\<lambda>(bs, _).
           bindE (get_watcher io (st_watcher st)) (\<lambda>w.
           bindE (sys_write sy (w_fd w) bs len) (\<lambda>(sy, ret, _).
           if ret \<le> 0 then
             bindE (io_driver_no_watch io (st_watcher st) IO_DRIVER_EVENT_TX) (\<lambda>_. Inl Crash)
           else
             bindE (circ_buffer_advance (tx_buf st) ret) (\<lambda>(cb, _).
             let st = st\<lparr>tx_buf := cb\<rparr> in
             if circ_buffer_is_empty cb then
               bindE (io_driver_no_watch io (st_watcher st) IO_DRIVER_EVENT_TX) (\<lambda>io. Inr (io, st, sy))
             else Inr (io, st, sy))))))"

text \<open>The last component is the event that the owner of the stream is called with at the end, if it is.\<close>

definition stream_watcher_callback ::
  "io_driver \<Rightarrow> stream \<Rightarrow> sys \<Rightarrow> io_driver_event \<Rightarrow> (io_driver \<times> stream \<times> sys \<times> stream_event option) res" where
  "stream_watcher_callback io st sy evt =
     (case evt of
        IO_DRIVER_EVENT_RX \<Rightarrow>
          bindE (get_watcher io (st_watcher st)) (\<lambda>w.
          bindE (sys_read sy (w_fd w) (rx_buf st) (rx_buf_size st)) (\<lambda>(sy, ret, buf).
          let st = st\<lparr>rx_buf := buf\<rparr> in
          if ret > 0 then Inr (io, st\<lparr>rx_data_len := ret\<rparr>, sy, Some stream_event_rx)
          else if ret = 0 then Inr (io, st, sy, Some stream_event_eof)
          else Inr (io, st, sy, Some stream_event_err)))
      | IO_DRIVER_EVENT_TX \<Rightarrow>
          bindE (stream_handle_tx_event io st sy) (\<lambda>(io, st, sy). Inr (io, st, sy, None))
      | IO_DRIVER_EVENT_EX \<Rightarrow> Inr (io, st, sy, Some stream_event_err))"

definition stream_init_with_fd ::
  "io_driver \<Rightarrow> stream \<Rightarrow> int \<Rightarrow> u8 list \<Rightarrow> int \<Rightarrow> u8 list option \<Rightarrow> int \<Rightarrow> (io_driver \<times> stream) res" where
  "stream_init_with_fd io st fd buf buf_size memory tx_buf_size =
     (let (cb, _) = circ_buffer_init (tx_buf st) memory tx_buf_size;
          st = st\<lparr>tx_buf := cb, rx_buf := buf, rx_buf_size := buf_size\<rparr>;
          p = st_watcher st
      in bindE (io_driver_watcher_init io p) (\<lambda>io.
         bindE (get_watcher io p) (\<lambda>w.
         let io = set_watcher p (w\<lparr>w_fd := fd\<rparr>) io in
         bindE (io_driver_watch io p IO_DRIVER_EVENT_RX) (\<lambda>io.
         bindE (io_driver_watch io p IO_DRIVER_EVENT_EX) (\<lambda>io. Inr (io, st))))))"

definition stream_deinit :: "io_driver \<Rightarrow> stream \<Rightarrow> sys \<Rightarrow> (io_driver \<times> stream \<times> sys) res" where
  "stream_deinit io st sy =
     (let st = st\<lparr>tx_buf := circ_buffer_deinit (tx_buf st)\<rparr>; p = st_watcher st
      in bindE (io_driver_no_watch io p IO_DRIVER_EVENT_RX) (\<lambda>io.
         bindE (io_driver_no_watch io p IO_DRIVER_EVENT_TX) (\<lambda>io.
         bindE (io_driver_no_watch io p IO_DRIVER_EVENT_EX) (\<lambda>io.
         bindE (get_watcher io p) (\<lambda>w. Inr (io, st, sys_close sy (w_fd w)))))))"

text \<open>The comparison of the status, 0 or -1, with \<open>FALSE\<close>, which is 0, is the code's.\<close>

definition stream_write :: "io_driver \<Rightarrow> stream \<Rightarrow> sys \<Rightarrow> u8 list \<Rightarrow> int \<Rightarrow> (io_driver \<times> stream \<times> sys \<times> bool) res" where
  "stream_write io st sy data len =
     (if \<not> circ_buffer_is_empty (tx_buf st) then
        bindE (circ_buffer_put (tx_buf st) data len) (\<lambda>(cb, r). Inr (io, st\<lparr>tx_buf := cb\<rparr>, sy, r = 0))
      else
        bindE (get_watcher io (st_watcher st)) (\<lambda>w.
        bindE (sys_write sy (w_fd w) data len) (\<lambda>(sy, ret, again).
        if ret = len then Inr (io, st, sy, True)
        else if ret < 0 \<and> \<not> again then Inr (io, st, sy, False)
        else
          let ret = if ret < 0 then 0 else ret in
          bindE (circ_buffer_put (tx_buf st) (drop (nat ret) data) (len - ret)) (\<lambda>(cb, r).
          let st = st\<lparr>tx_buf := cb\<rparr> in
          if r = 0 then Inr (io, st, sy, False)
          else bindE (io_driver_watch io (st_watcher st) IO_DRIVER_EVENT_TX) (\<lambda>io. Inr (io, st, sy, True))))))"

section \<open>What a write does\<close>

text \<open>The stream and its watcher are there, the buffer is well formed.\<close>

definition stream_ok :: "io_driver \<Rightarrow> stream \<Rightarrow> bool" where
  "stream_ok io st \<longleftrightarrow> io_wf io \<and> watcher_mem io (st_watcher st) \<noteq> None \<and> cb_wf (tx_buf st)"

definition queue :: "stream \<Rightarrow> u8 list" where
  "queue st = cb_items (tx_buf st)"

definition room :: "stream \<Rightarrow> nat" where
  "room st = nat (cb_size (tx_buf st)) - length (queue st)"

definition the_fd :: "io_driver \<Rightarrow> stream \<Rightarrow> int" where
  "the_fd io st = (case watcher_mem io (st_watcher st) of None \<Rightarrow> -1 | Some w \<Rightarrow> w_fd w)"

lemma queue_bound: "cb_wf (tx_buf st) \<Longrightarrow> length (queue st) \<le> nat (cb_size (tx_buf st))"
  unfolding queue_def by (rule cb.bound)

text \<open>Putting octets behind the queue.\<close>

lemma stream_put:
  assumes "cb_wf (tx_buf st)" "length bs < 2 ^ 30"
  shows "\<exists>cb r. circ_buffer_put (tx_buf st) bs (int (length bs)) = Inr (cb, r) \<and> cb_wf cb \<and>
    cb_size cb = cb_size (tx_buf st) \<and> (r = 0 \<longleftrightarrow> length bs \<le> room st) \<and>
    cb_items cb = queue st @ (if length bs \<le> room st then bs else [])"
proof -
  obtain cb r where p: "circ_buffer_put (tx_buf st) bs (int (length bs)) = Inr (cb, r)" "cb_wf cb"
    "cb_size cb = cb_size (tx_buf st)"
    "if length (cb_items (tx_buf st)) + length bs \<le> nat (cb_size (tx_buf st))
     then r = 0 \<and> cb_items cb = cb_items (tx_buf st) @ bs else r = -1 \<and> cb = tx_buf st"
    using put_ok [OF assms] by blast
  have "length (cb_items (tx_buf st)) + length bs \<le> nat (cb_size (tx_buf st)) \<longleftrightarrow> length bs \<le> room st"
    using queue_bound [OF assms(1)] by (auto simp: room_def queue_def)
  with p show ?thesis by (auto simp: queue_def split: if_splits)
qed

lemma sys_write_ok:
  assumes "sys_sane sy" "length bs < 2 ^ 30"
  shows "\<exists>ret again. sys_writes sy (n_writes sy) (int (length bs)) = (ret, again) \<and> - 1 \<le> ret \<and> ret \<le> int (length bs) \<and>
    sys_write sy fd bs (int (length bs)) =
      Inr (sy\<lparr>n_writes := Suc (n_writes sy), wire := wire sy @ map (Pair fd) (take (nat ret) bs)\<rparr>, ret, again)"
proof -
  obtain ret again where r: "sys_writes sy (n_writes sy) (int (length bs)) = (ret, again)" by (cases rule: prod.exhaust)
  have "- 1 \<le> ret \<and> ret \<le> int (length bs)" using assms(1) r unfolding sys_sane_def
    by (metis fst_conv of_nat_0_le_iff)
  then show ?thesis using r by (simp add: sys_write_def copy_from_def)
qed

text \<open>What a write leaves behind, on every branch.\<close>

definition write_post :: "io_driver \<Rightarrow> stream \<Rightarrow> sys \<Rightarrow> u8 list \<Rightarrow> io_driver \<times> stream \<times> sys \<times> bool \<Rightarrow> bool" where
  "write_post io st sy data res \<longleftrightarrow>
     (case res of (io', st', sy', b) \<Rightarrow>
        if queue st \<noteq> [] then
          io' = io \<and> sy' = sy \<and> b = (length data \<le> room st) \<and>
          queue st' = queue st @ (if length data \<le> room st then data else [])
        else
          (case sys_writes sy (n_writes sy) (int (length data)) of (ret, again) \<Rightarrow>
             sy' = sy\<lparr>n_writes := Suc (n_writes sy), wire := wire sy @ map (Pair (the_fd io st)) (take (nat ret) data)\<rparr> \<and>
             (if ret = int (length data) then io' = io \<and> b \<and> queue st' = []
              else if ret < 0 \<and> \<not> again then io' = io \<and> \<not> b \<and> queue st' = []
              else if length data - nat ret \<le> room st then io' = io \<and> \<not> b \<and> queue st' = drop (nat ret) data
              else Inr io' = io_driver_watch io (st_watcher st) IO_DRIVER_EVENT_TX \<and> b \<and> queue st' = [])))"

definition spare_bits :: "io_driver \<Rightarrow> nat \<Rightarrow> u8" where
  "spare_bits io p = (case watcher_mem io p of None \<Rightarrow> 0 | Some w \<Rightarrow> event_listening w AND NOT 7)"

lemma spare_or: "((x :: u8) OR event_bit e) AND NOT 7 = x AND NOT 7"
proof -
  have "event_bit e AND NOT 7 = 0" by (cases e) simp_all
  then show ?thesis by (simp only: and.commute [of _ "NOT 7"] bit.conj_disj_distrib) simp
qed

lemma spare_and: "((x :: u8) AND NOT (event_bit e)) AND NOT 7 = x AND NOT 7"
proof -
  have "NOT (event_bit e) AND NOT 7 = NOT 7" by (cases e) simp_all
  then show ?thesis by (simp only: and.assoc)
qed

definition same_stream :: "io_driver \<Rightarrow> stream \<Rightarrow> io_driver \<Rightarrow> stream \<Rightarrow> bool" where
  "same_stream io st io' st' \<longleftrightarrow> st_watcher st' = st_watcher st \<and> length (rx_buf st') = length (rx_buf st) \<and>
     rx_buf_size st' = rx_buf_size st \<and> cb_size (tx_buf st') = cb_size (tx_buf st) \<and> the_fd io' st' = the_fd io st \<and>
     spare_bits io' (st_watcher st) = spare_bits io (st_watcher st) \<and>
     (\<forall>p. p \<noteq> st_watcher st \<longrightarrow> watcher_mem io' p = watcher_mem io p) \<and> (\<forall>q. cb_step q io io')"

lemma stream_write_ok:
  assumes "stream_ok io st" "sys_sane sy" "length data < 2 ^ 30"
  shows "\<exists>io' st' sy' b. stream_write io st sy data (int (length data)) = Inr (io', st', sy', b) \<and>
    stream_ok io' st' \<and> same_stream io st io' st' \<and> write_post io st sy data (io', st', sy', b)"
proof -
  have wf: "cb_wf (tx_buf st)" and io: "io_wf io" using assms(1) by (simp_all add: stream_ok_def)
  obtain w where w: "watcher_mem io (st_watcher st) = Some w" using assms(1) by (auto simp: stream_ok_def)
  have e: "circ_buffer_is_empty (tx_buf st) \<longleftrightarrow> queue st = []" unfolding queue_def by (rule empty_items [OF wf])
  show ?thesis
  proof (cases "queue st = []")
    case False
    obtain cb r where p: "circ_buffer_put (tx_buf st) data (int (length data)) = Inr (cb, r)" "cb_wf cb"
      "cb_size cb = cb_size (tx_buf st)" "r = 0 \<longleftrightarrow> length data \<le> room st"
      "cb_items cb = queue st @ (if length data \<le> room st then data else [])"
      using stream_put [OF wf assms(3)] by blast
    with False e assms(1) show ?thesis
      by (simp add: stream_write_def write_post_def stream_ok_def same_stream_def the_fd_def queue_def)
  next
    case True
    obtain ret again where r: "sys_writes sy (n_writes sy) (int (length data)) = (ret, again)" "- 1 \<le> ret"
      "ret \<le> int (length data)"
      "sys_write sy (w_fd w) data (int (length data)) = Inr (sy\<lparr>n_writes := Suc (n_writes sy),
         wire := wire sy @ map (Pair (w_fd w)) (take (nat ret) data)\<rparr>, ret, again)"
      using sys_write_ok [OF assms(2,3)] by blast
    let ?sy = "sy\<lparr>n_writes := Suc (n_writes sy), wire := wire sy @ map (Pair (w_fd w)) (take (nat ret) data)\<rparr>"
    have start: "stream_write io st sy data (int (length data)) =
       (if ret = int (length data) then Inr (io, st, ?sy, True)
        else if ret < 0 \<and> \<not> again then Inr (io, st, ?sy, False)
        else bindE (circ_buffer_put (tx_buf st) (drop (nat ret) data) (int (length data) - (if ret < 0 then 0 else ret))) (\<lambda>(cb, r).
          let st = st\<lparr>tx_buf := cb\<rparr> in
          if r = 0 then Inr (io, st, ?sy, False)
          else bindE (io_driver_watch io (st_watcher st) IO_DRIVER_EVENT_TX) (\<lambda>io. Inr (io, st, ?sy, True))))"
      using True e w r(4) by (simp add: stream_write_def get_watcher_def)
    show ?thesis
    proof (cases "ret = int (length data) \<or> ret < 0 \<and> \<not> again")
      case True': True
      with start True r(1) w assms(1) show ?thesis
        by (auto simp: write_post_def same_stream_def the_fd_def)
    next
      case False
      have len: "int (length data) - (if ret < 0 then 0 else ret) = int (length (drop (nat ret) data))"
        using r(3) by (auto simp: of_nat_diff)
      have short: "length (drop (nat ret) data) < 2 ^ 30" using assms(3) by simp
      obtain cb r' where p: "circ_buffer_put (tx_buf st) (drop (nat ret) data) (int (length (drop (nat ret) data))) = Inr (cb, r')"
        "cb_wf cb" "cb_size cb = cb_size (tx_buf st)" "r' = 0 \<longleftrightarrow> length (drop (nat ret) data) \<le> room st"
        "cb_items cb = queue st @ (if length (drop (nat ret) data) \<le> room st then drop (nat ret) data else [])"
        using stream_put [OF wf short] by blast
      obtain io' where io': "io_driver_watch io (st_watcher st) IO_DRIVER_EVENT_TX = Inr io'" "io_wf io'"
        "watcher_mem io' = (watcher_mem io)(st_watcher st \<mapsto> w\<lparr>event_listening := event_listening w OR event_bit IO_DRIVER_EVENT_TX\<rparr>)"
        using watch_ok [OF io w] by blast
      have stp: "cb_step q io io'" for q using watch_ok [OF io w, of IO_DRIVER_EVENT_TX q] io'(1) by auto
      have sp: "spare_bits io' (st_watcher st) = spare_bits io (st_watcher st)"
        using io'(3) w spare_or [of "event_listening w" IO_DRIVER_EVENT_TX] by (simp add: spare_bits_def)
      note start = start [unfolded len p(1) bindE.simps]
      show ?thesis
      proof (cases "r' = 0")
        case True0: True
        with start False have "stream_write io st sy data (int (length data)) = Inr (io, st\<lparr>tx_buf := cb\<rparr>, ?sy, False)"
          by auto
        with False True True0 p(2-5) r(1) w assms(1) show ?thesis
          by (auto simp: write_post_def same_stream_def the_fd_def stream_ok_def queue_def)
      next
        case False0: False
        with start False io'(1) have "stream_write io st sy data (int (length data)) = Inr (io', st\<lparr>tx_buf := cb\<rparr>, ?sy, True)"
          by auto
        with False True False0 p(2-5) r(1) w io' stp sp show ?thesis
          by (auto simp: write_post_def same_stream_def the_fd_def stream_ok_def queue_def)
      qed
    qed
  qed
qed

lemma write_post_sane:
  assumes "write_post io st sy data (io', st', sy', b)" "sys_sane sy"
  shows "sys_sane sy'"
proof -
  obtain ret again where r: "sys_writes sy (n_writes sy) (int (length data)) = (ret, again)" by (cases rule: prod.exhaust)
  have "sys_writes sy' = sys_writes sy \<and> sys_reads sy' = sys_reads sy"
    using assms(1) r by (cases "queue st = []") (simp_all add: write_post_def)
  with assms(2) show ?thesis by (simp add: sys_sane_def)
qed

text \<open>Only the octets that are asked for are read.\<close>

lemma copy_from_take:
  "0 \<le> i \<Longrightarrow> 0 \<le> k \<Longrightarrow> i + k \<le> int n \<Longrightarrow> n \<le> length buf \<Longrightarrow> copy_from (take n buf) i k = copy_from buf i k"
  by (simp add: copy_from_def drop_take min_def)

lemma put_take:
  assumes "cb_wf cb" "n \<le> length buf"
  shows "circ_buffer_put cb (take n buf) (int n) = circ_buffer_put cb buf (int n)"
proof -
  have e: "0 \<le> cb_end cb" "cb_end cb \<le> cb_size cb" using assms(1) by (auto simp: cb_wf_def intro: order_less_imp_le)
  have "copy_from (take n buf) 0 (cb_size cb - cb_end cb) = copy_from buf 0 (cb_size cb - cb_end cb)"
    "copy_from (take n buf) (cb_size cb - cb_end cb) (int n - (cb_size cb - cb_end cb)) =
     copy_from buf (cb_size cb - cb_end cb) (int n - (cb_size cb - cb_end cb))"
    if "cb_end cb + int n > cb_size cb"
    using that e assms(2) by (simp_all add: copy_from_take)
  moreover have "copy_from (take n buf) 0 (int n) = copy_from buf 0 (int n)" using assms(2) by (simp add: copy_from_take)
  moreover have "stop = cb_end cb + int n" if "c_add (cb_end cb) (int n) = Inr stop" for stop
    using that by (auto simp: c_add_def split: if_splits)
  ultimately show ?thesis
    unfolding circ_buffer_put_def Let_def
    by (intro bindE_cong refl if_cong) auto
qed

lemma stream_write_take:
  assumes "cb_wf (tx_buf st)" "sys_sane sy" "n \<le> length buf" "n < 2 ^ 30"
  shows "stream_write io st sy buf (int n) = stream_write io st sy (take n buf) (int n)"
proof -
  have w: "sys_write sy fd (take n buf) (int n) = sys_write sy fd buf (int n)" for fd
    using assms(3) by (simp add: sys_write_def copy_from_take)
  have ret: "ret \<le> int n" if "sys_write sy fd buf (int n) = Inr (sy', ret, again)" for fd sy' ret again
  proof -
    have "ret = fst (sys_writes sy (n_writes sy) (int n))"
      using that by (cases "sys_writes sy (n_writes sy) (int n)") (auto simp: sys_write_def res_iff)
    then show ?thesis using assms(2) by (simp add: sys_sane_def)
  qed
  have p: "circ_buffer_put (tx_buf st) (drop (nat r) (take n buf)) (int n - r) =
      circ_buffer_put (tx_buf st) (drop (nat r) buf) (int n - r)" if "0 \<le> r" "r \<le> int n" for r
  proof -
    have "drop (nat r) (take n buf) = take (n - nat r) (drop (nat r) buf)" by (simp add: drop_take)
    moreover have "int n - r = int (n - nat r)" using that by simp
    ultimately show ?thesis using put_take [OF assms(1), of "n - nat r" "drop (nat r) buf"] assms(3) by simp
  qed
  show ?thesis
    unfolding stream_write_def put_take [OF assms(1,3)] w
    by (intro bindE_cong refl if_cong) (auto simp: Let_def p dest!: ret intro!: bindE_cong)
qed

text \<open>A stream that is set up in fresh memory: it listens for octets and errors.\<close>

lemma stream_init_ok:
  assumes "io_wf io" "watcher_mem io (st_watcher st) = None" "length b = n" "0 < n" "n < 2 ^ 30"
  shows "\<exists>io' st'. stream_init_with_fd (set_watcher (st_watcher st) w io) st fd buf k (Some b) (int n) = Inr (io', st') \<and>
    io_wf io' \<and> watcher_mem io' = (watcher_mem io)(st_watcher st \<mapsto> w\<lparr>w_fd := fd, event_listening := 5\<rparr>) \<and>
    run_list io' = run_list io \<and> calls io' = calls io \<and>
    st_watcher st' = st_watcher st \<and> rx_buf st' = buf \<and> rx_buf_size st' = k \<and> cb_wf (tx_buf st') \<and> queue st' = []"
proof -
  let ?p = "st_watcher st"
  have out: "?p \<notin> set (watchers io)" "?p \<notin> set (run_list io)" using io_wfD(4) [OF assms(1), of ?p] assms(2) by auto
  let ?w = "w\<lparr>w_fd := fd, event_listening := 5\<rparr>"
  let ?io = "io\<lparr>watcher_mem := (watcher_mem io)(?p \<mapsto> ?w), watchers := watchers io @ [?p]\<rparr>"
  let ?st = "st\<lparr>tx_buf := \<lparr>cb_buffer = Some b, cb_size = int n, cb_data_size = 0, cb_begin = 0, cb_end = 0\<rparr>,
    rx_buf := buf, rx_buf_size := k\<rparr>"
  have cb: "circ_buffer_init (tx_buf st) (Some b) (int n) =
      (\<lparr>cb_buffer = Some b, cb_size = int n, cb_data_size = 0, cb_begin = 0, cb_end = 0\<rparr>, 0)"
    by (simp add: circ_buffer_init_def)
  have "stream_init_with_fd (set_watcher ?p w io) st fd buf k (Some b) (int n) = Inr (?io, ?st)"
    using out by (simp add: stream_init_with_fd_def cb io_driver_watcher_init_def get_watcher_def set_watcher_def
        io_driver_watch_def Let_def)
  moreover have "io_wf ?io" using assms(1) out by (auto simp: io_wf_def)
  moreover have "cb_wf (tx_buf ?st)" "queue ?st = []" using assms(3-5) by (auto simp: cb_wf_def queue_def cb_items_def)
  ultimately show ?thesis by (intro exI [of _ ?io] exI [of _ ?st]) simp
qed

section \<open>The event of a socket that is ready\<close>

definition tx_post :: "io_driver \<Rightarrow> stream \<Rightarrow> sys \<Rightarrow> io_driver \<times> stream \<times> sys \<Rightarrow> bool" where
  "tx_post io st sy res \<longleftrightarrow>
     (case res of (io', st', sy') \<Rightarrow> stream_ok io' st' \<and> same_stream io st io' st' \<and> sys_sane sy' \<and>
        (\<exists>n. wire sy' = wire sy @ map (Pair (the_fd io st)) (take n (queue st)) \<and> queue st' = drop n (queue st) \<and>
           (queue st \<noteq> [] \<longrightarrow> 0 < n)))"

lemma no_watch_stream:
  assumes "stream_ok io st"
  shows "\<exists>io'. io_driver_no_watch io (st_watcher st) e = Inr io' \<and> stream_ok io' st \<and> same_stream io st io' st"
proof -
  obtain w where w: "watcher_mem io (st_watcher st) = Some w" using assms by (auto simp: stream_ok_def)
  have io: "io_wf io" using assms by (simp add: stream_ok_def)
  obtain io' where io': "io_driver_no_watch io (st_watcher st) e = Inr io'" "io_wf io'"
    "watcher_mem io' = (watcher_mem io)(st_watcher st \<mapsto> w\<lparr>event_listening := event_listening w AND NOT (event_bit e)\<rparr>)"
    using no_watch_ok [OF io w] by blast
  have "cb_step q io io'" for q using no_watch_ok [OF io w, of e q] io'(1) by auto
  moreover have "spare_bits io' (st_watcher st) = spare_bits io (st_watcher st)"
    using io'(3) w spare_and [of "event_listening w" e] by (simp add: spare_bits_def)
  ultimately show ?thesis using io' w assms by (auto simp: stream_ok_def same_stream_def the_fd_def)
qed

lemma same_stream_trans:
  "same_stream io st io' st' \<Longrightarrow> same_stream io' st' io'' st'' \<Longrightarrow> same_stream io st io'' st''"
  unfolding same_stream_def using cb_step_trans by force

lemma same_stream_refl [simp]: "same_stream io st io st"
  by (simp add: same_stream_def)

lemma tx_event_ok:
  assumes "stream_ok io st" "sys_sane sy"
  shows "outcome {Crash} (tx_post io st sy) (stream_handle_tx_event io st sy)"
proof -
  have wf: "cb_wf (tx_buf st)" using assms(1) by (simp add: stream_ok_def)
  obtain w where w: "watcher_mem io (st_watcher st) = Some w" using assms(1) by (auto simp: stream_ok_def)
  have e: "circ_buffer_is_empty (tx_buf st) \<longleftrightarrow> queue st = []" unfolding queue_def by (rule empty_items [OF wf])
  obtain io0 where io0: "io_driver_no_watch io (st_watcher st) IO_DRIVER_EVENT_TX = Inr io0" "stream_ok io0 st"
    "same_stream io st io0 st"
    using no_watch_stream [OF assms(1)] by blast
  show ?thesis
  proof (cases "queue st = []")
    case True
    then show ?thesis using e io0 assms(2) by (simp add: stream_handle_tx_event_def tx_post_def)
  next
    case False
    let ?n = "min (length (queue st)) 128"
    have ds: "circ_buffer_get_data_size (tx_buf st) = int (length (queue st))"
      using wf by (simp add: queue_def length_items circ_buffer_get_data_size_def) (simp add: cb_wf_def)
    have n: "(if int (length (queue st)) < 128 then int (length (queue st)) else 128) = int ?n" by simp
    note start = stream_handle_tx_event_def [of io st sy, unfolded Let_def ds n]
    have bs: "circ_buffer_peek (tx_buf st) (int ?n) = Inr (take ?n (queue st), 0)"
      using peek_items [OF wf, of ?n] by (simp add: queue_def)
    have l: "length (take ?n (queue st)) = ?n" by simp
    obtain ret again where r: "- 1 \<le> ret" "ret \<le> int ?n"
      "sys_write sy (w_fd w) (take ?n (queue st)) (int ?n) = Inr (sy\<lparr>n_writes := Suc (n_writes sy),
         wire := wire sy @ map (Pair (w_fd w)) (take (nat ret) (take ?n (queue st)))\<rparr>, ret, again)"
    proof -
      have "length (take ?n (queue st)) < 2 ^ 30" by simp
      from sys_write_ok [OF assms(2) this, of "w_fd w"] show ?thesis using that unfolding l by blast
    qed
    let ?sy = "sy\<lparr>n_writes := Suc (n_writes sy), wire := wire sy @ map (Pair (w_fd w)) (take (nat ret) (take ?n (queue st)))\<rparr>"
    have sane: "sys_sane ?sy" using assms(2) by (simp add: sys_sane_def)
    show ?thesis
    proof (cases "ret \<le> 0")
      case True
      then show ?thesis using False e w bs r(3) io0(1)
        by (simp add: start get_watcher_def del: of_nat_min)
    next
      case pos: False
      have k: "nat ret \<le> length (cb_items (tx_buf st))" "int (nat ret) = ret" using r(2) pos by (auto simp: queue_def)
      obtain cb where cb: "circ_buffer_advance (tx_buf st) ret = Inr (cb, 0)" "cb_wf cb" "cb_size cb = cb_size (tx_buf st)"
        "cb_items cb = drop (nat ret) (queue st)"
        using advance_items [OF wf k(1)] k(2) by (auto simp: queue_def)
      let ?st = "st\<lparr>tx_buf := cb\<rparr>"
      have st: "stream_ok io ?st" "same_stream io st io ?st"
        using assms(1) cb by (simp_all add: stream_ok_def same_stream_def the_fd_def)
      have tk: "take (nat ret) (take ?n (queue st)) = take (nat ret) (queue st)" using r(2) by (simp add: min_def)
      have run: "stream_handle_tx_event io st sy =
          (if circ_buffer_is_empty cb then bindE (io_driver_no_watch io (st_watcher st) IO_DRIVER_EVENT_TX) (\<lambda>io. Inr (io, ?st, ?sy))
           else Inr (io, ?st, ?sy))"
        using False e w bs r(3) pos cb(1)
        by (simp add: start get_watcher_def del: of_nat_min)
      have post: "tx_post io st sy (io', ?st, ?sy)" if "stream_ok io' ?st" "same_stream io st io' ?st" for io'
      proof -
        have "wire ?sy = wire sy @ map (Pair (the_fd io st)) (take (nat ret) (queue st))"
          using tk w by (simp add: the_fd_def)
        moreover have "queue ?st = drop (nat ret) (queue st)" using cb(4) by (simp add: queue_def)
        ultimately show ?thesis using that sane pos unfolding tx_post_def by auto
      qed
      obtain io1 where io1: "io_driver_no_watch io (st_watcher st) IO_DRIVER_EVENT_TX = Inr io1" "stream_ok io1 ?st"
        "same_stream io ?st io1 ?st" using no_watch_stream [OF st(1), of IO_DRIVER_EVENT_TX] by auto
      show ?thesis
      proof (cases "circ_buffer_is_empty cb")
        case True
        with run io1(1) post [OF io1(2) same_stream_trans [OF st(2) io1(3)]] show ?thesis by simp
      next
        case False
        with run post [OF st] show ?thesis by simp
      qed
    qed
  qed
qed

section \<open>Writes and events in any order\<close>

datatype stream_op = Write "u8 list" | Tx_Ready

fun stream_ops :: "stream_op list \<Rightarrow> io_driver \<times> stream \<times> sys \<Rightarrow> (io_driver \<times> stream \<times> sys) res" where
  "stream_ops [] s = Inr s"
| "stream_ops (Write bs # ops) (io, st, sy) =
     bindE (stream_write io st sy bs (int (length bs))) (\<lambda>(io, st, sy, _). stream_ops ops (io, st, sy))"
| "stream_ops (Tx_Ready # ops) (io, st, sy) = bindE (stream_handle_tx_event io st sy) (stream_ops ops)"

fun op_data :: "stream_op \<Rightarrow> u8 list" where
  "op_data (Write bs) = bs"
| "op_data Tx_Ready = []"

lemma write_post_order:
  assumes "write_post io st sy bs (io', st', sy', b)"
  shows "\<exists>p new. prefix p bs \<and> wire sy' = wire sy @ map (Pair (the_fd io st)) new \<and> new @ queue st' = queue st @ p"
proof (cases "queue st = []")
  case False
  with assms show ?thesis
    by (intro exI [of _ "if length bs \<le> room st then bs else []"] exI [of _ "[]"]) (auto simp: write_post_def)
next
  case True
  obtain ret again where r: "sys_writes sy (n_writes sy) (int (length bs)) = (ret, again)" by (cases rule: prod.exhaust)
  let ?new = "take (nat ret) bs"
  have "wire sy' = wire sy @ map (Pair (the_fd io st)) ?new" using assms True r by (simp add: write_post_def)
  moreover have "queue st' = [] \<or> queue st' = drop (nat ret) bs" using assms True r by (auto simp: write_post_def split: if_splits)
  moreover have "prefix ?new bs" by (rule take_is_prefix)
  ultimately show ?thesis
    using True by (cases "queue st' = []") (fastforce intro: exI [of _ ?new], fastforce intro: exI [of _ bs])
qed

text \<open>What a sequence of operations on the data \<open>ds\<close> leaves behind.\<close>

definition ordered :: "io_driver \<Rightarrow> stream \<Rightarrow> sys \<Rightarrow> u8 list list \<Rightarrow> io_driver \<times> stream \<times> sys \<Rightarrow> bool" where
  "ordered io st sy ds res \<longleftrightarrow> (case res of (io', st', sy') \<Rightarrow> stream_ok io' st' \<and>
     (\<exists>ps new. list_all2 prefix ps ds \<and>
        wire sy' = wire sy @ map (Pair (the_fd io st)) new \<and> new @ queue st' = queue st @ concat ps))"

lemma ordered_step:
  assumes "same_stream io st io1 st1" "prefix p d" "wire sy1 = wire sy @ map (Pair (the_fd io st)) new1"
    "new1 @ queue st1 = queue st @ p" "ordered io1 st1 sy1 ds res"
  shows "ordered io st sy (d # ds) res"
proof -
  have fd: "the_fd io1 st1 = the_fd io st" using assms(1) by (simp add: same_stream_def)
  obtain io' st' sy' ps new where x: "res = (io', st', sy')" "stream_ok io' st'" "list_all2 prefix ps ds"
    "wire sy' = wire sy1 @ map (Pair (the_fd io st)) new" "new @ queue st' = queue st1 @ concat ps"
    using assms(5) unfolding ordered_def fd by (cases res) auto
  have "list_all2 prefix (p # ps) (d # ds)" using x(3) assms(2) by simp
  moreover have "wire sy' = wire sy @ map (Pair (the_fd io st)) (new1 @ new)" using x(4) assms(3) by simp
  moreover have "(new1 @ new) @ queue st' = queue st @ concat (p # ps)"
    using x(5) assms(4) by (metis append.assoc concat.simps(2))
  ultimately show ?thesis unfolding ordered_def x(1) prod.case using x(2) by blast
qed

lemma stream_ops_ordered:
  assumes "stream_ok io st" "sys_sane sy" "\<forall>op \<in> set ops. length (op_data op) < 2 ^ 30"
  shows "outcome {Crash} (ordered io st sy (map op_data ops)) (stream_ops ops (io, st, sy))"
  using assms
proof (induction ops arbitrary: io st sy)
  case Nil
  then show ?case by (simp add: ordered_def)
next
  case (Cons op ops)
  have short: "\<forall>op \<in> set ops. length (op_data op) < 2 ^ 30" using Cons.prems(3) by simp
  show ?case
  proof (cases op)
    case (Write bs)
    have "length bs < 2 ^ 30" using Cons.prems(3) Write by simp
    then obtain io1 st1 sy1 b where w: "stream_write io st sy bs (int (length bs)) = Inr (io1, st1, sy1, b)"
      "stream_ok io1 st1" "same_stream io st io1 st1" "write_post io st sy bs (io1, st1, sy1, b)"
      using stream_write_ok [OF Cons.prems(1,2)] by blast
    obtain p new1 where "prefix p (op_data op)" "wire sy1 = wire sy @ map (Pair (the_fd io st)) new1"
      "new1 @ queue st1 = queue st @ p" using write_post_order [OF w(4)] Write by auto
    from ordered_step [OF w(3) this] have "outcome {Crash} (ordered io st sy (map op_data (op # ops))) (stream_ops ops (io1, st1, sy1))"
      unfolding list.map
      by (rule outcome_mono [OF Cons.IH [OF w(2) write_post_sane [OF w(4) Cons.prems(2)] short] subset_refl])
    then show ?thesis using w(1) Write by simp
  next
    case Tx_Ready
    show ?thesis
      unfolding Tx_Ready stream_ops.simps list.map
    proof (rule outcome_bind [OF tx_event_ok [OF Cons.prems(1,2)]])
      fix x
      assume "tx_post io st sy x"
      then obtain io1 st1 sy1 n where x: "x = (io1, st1, sy1)" "stream_ok io1 st1" "same_stream io st io1 st1" "sys_sane sy1"
        "wire sy1 = wire sy @ map (Pair (the_fd io st)) (take n (queue st))" "queue st1 = drop n (queue st)"
        by (cases x) (auto simp: tx_post_def)
      have "prefix [] (op_data Tx_Ready)" "take n (queue st) @ queue st1 = queue st @ []" using x(6) by simp_all
      from ordered_step [OF x(3) this(1) x(5) this(2)]
      show "outcome {Crash} (ordered io st sy (op_data Tx_Ready # map op_data ops)) (stream_ops ops x)"
        unfolding x(1) by (rule outcome_mono [OF Cons.IH [OF x(2,4) short] subset_refl])
    qed
  qed
qed

text \<open>
  C32: a stream never reorders or repeats octets: after any writes and any events of a ready socket,
  what reached the socket, followed by what is queued, is what was queued before followed by the
  leading part that was taken of each write. The only fault is the crash that the code asks for if
  a write to a ready socket takes nothing.
\<close>

theorem stream_keeps_order:
  assumes "stream_ok io st" "sys_sane sy" "\<forall>op \<in> set ops. length (op_data op) < 2 ^ 30"
  shows "outcome {Crash} (\<lambda>(io', st', sy'). stream_ok io' st' \<and>
    (\<exists>ps new. list_all2 prefix ps (map op_data ops) \<and>
       wire sy' = wire sy @ map (Pair (the_fd io st)) new \<and> new @ queue st' = queue st @ concat ps))
    (stream_ops ops (io, st, sy))"
  using stream_ops_ordered [OF assms] by (rule outcome_mono) (auto simp: ordered_def)

text \<open>
  C30: how a write ends. With an empty queue it goes to the socket, and if all of it is taken, or the
  socket fails, nothing is queued. If the socket takes only a part, the comparison of a status with
  a truth value is the wrong way round: a remainder that fits the buffer is queued, but the caller is
  told that the write failed and the event of a ready socket is not asked for; a remainder that does
  not fit is lost, the caller is told that it is sent and the event is asked for. With a
  queue, the octets are queued whole if they fit and refused otherwise, and the event is left as it
  is.
\<close>

theorem stream_write_cases:
  assumes "stream_ok io st" "sys_sane sy" "length data < 2 ^ 30"
    "sys_writes sy (n_writes sy) (int (length data)) = (ret, again)"
  shows "\<exists>io' st' sy' b. stream_write io st sy data (int (length data)) = Inr (io', st', sy', b) \<and> stream_ok io' st' \<and>
    (if queue st \<noteq> [] then
       io' = io \<and> sy' = sy \<and> b = (length data \<le> room st) \<and>
       queue st' = queue st @ (if length data \<le> room st then data else [])
     else
       wire sy' = wire sy @ map (Pair (the_fd io st)) (take (nat ret) data) \<and>
       (if ret = int (length data) then io' = io \<and> b \<and> queue st' = []
        else if ret < 0 \<and> \<not> again then io' = io \<and> \<not> b \<and> queue st' = []
        else if length data - nat ret \<le> room st then io' = io \<and> \<not> b \<and> queue st' = drop (nat ret) data
        else Inr io' = io_driver_watch io (st_watcher st) IO_DRIVER_EVENT_TX \<and> b \<and> queue st' = []))"
proof -
  obtain io' st' sy' b where w: "stream_write io st sy data (int (length data)) = Inr (io', st', sy', b)"
    "stream_ok io' st'" "write_post io st sy data (io', st', sy', b)"
    using stream_write_ok [OF assms(1-3)] by blast
  from w(3) assms(4) have "if queue st \<noteq> [] then
       io' = io \<and> sy' = sy \<and> b = (length data \<le> room st) \<and>
       queue st' = queue st @ (if length data \<le> room st then data else [])
     else
       wire sy' = wire sy @ map (Pair (the_fd io st)) (take (nat ret) data) \<and>
       (if ret = int (length data) then io' = io \<and> b \<and> queue st' = []
        else if ret < 0 \<and> \<not> again then io' = io \<and> \<not> b \<and> queue st' = []
        else if length data - nat ret \<le> room st then io' = io \<and> \<not> b \<and> queue st' = drop (nat ret) data
        else Inr io' = io_driver_watch io (st_watcher st) IO_DRIVER_EVENT_TX \<and> b \<and> queue st' = [])"
    by (cases "queue st = []") (simp_all add: write_post_def)
  with w(1,2) show ?thesis by blast
qed

text \<open>
  After a part of a write was queued, nothing is ever written again: whatever the writes that
  follow, no octet reaches the socket and the event that would empty the queue is not asked for.
\<close>

lemma stream_stuck:
  assumes "stream_ok io st" "sys_sane sy" "queue st \<noteq> []"
    "watcher_mem io (st_watcher st) = Some w" "\<not> listens w IO_DRIVER_EVENT_TX" "\<forall>bs \<in> set datas. length bs < 2 ^ 30"
  shows "\<exists>st'. stream_ops (map Write datas) (io, st, sy) = Inr (io, st', sy) \<and> prefix (queue st) (queue st') \<and>
    watcher_mem io (st_watcher st') = Some w"
  using assms
proof (induction datas arbitrary: st)
  case (Cons bs datas)
  obtain io1 st1 sy1 b where 1: "stream_write io st sy bs (int (length bs)) = Inr (io1, st1, sy1, b)"
    "stream_ok io1 st1" "same_stream io st io1 st1" "write_post io st sy bs (io1, st1, sy1, b)"
    using stream_write_ok [OF Cons.prems(1,2)] Cons.prems(6) by (meson list.set_intros(1))
  have 2: "io1 = io" "sy1 = sy" "prefix (queue st) (queue st1)" "queue st1 \<noteq> []"
    using 1(4) Cons.prems(3) by (auto simp: write_post_def)
  have "st_watcher st1 = st_watcher st" using 1(3) by (simp add: same_stream_def)
  then obtain st' where st': "stream_ops (map Write datas) (io, st1, sy) = Inr (io, st', sy)" "prefix (queue st1) (queue st')"
    "watcher_mem io (st_watcher st') = Some w"
    using Cons.IH [of st1] 1(2) 2 Cons.prems(2,4-6) by auto
  with 1(1) 2 show ?case by (auto intro: prefix_order.order_trans)
qed auto

section \<open>A stream over a socket that takes two octets at a time\<close>

definition slow_sys :: sys where
  "slow_sys = \<lparr>sys_writes = (\<lambda>_ n. (if n < 0 then -1 else min 2 n, False)), sys_reads = (\<lambda>_ _. (-1, [])), n_writes = 0, n_reads = 0,
     wire = [], closed = []\<rparr>"

definition demo_stream :: stream where
  "demo_stream = \<lparr>st_watcher = 1, rx_buf = [0, 0], rx_buf_size = 2, rx_data_len = 0, tx_buf = small_buffer\<rparr>"

definition demo_io :: io_driver where
  "demo_io = \<lparr>watchers = [1], run_list = [], watcher_mem = [1 \<mapsto> \<lparr>w_fd = 5, event_listening = 1\<rparr>], calls = []\<rparr>"

lemma demo_stream_ok: "stream_ok demo_io demo_stream" "sys_sane slow_sys" "queue demo_stream = []"
  using small_buffer_ok
  by (auto simp: stream_ok_def demo_io_def demo_stream_def io_wf_def sys_sane_def slow_sys_def queue_def)

theorem stream_keeps_order_witness:
  "outcome {Crash} (\<lambda>(io', st', sy'). stream_ok io' st' \<and>
    (\<exists>ps new. list_all2 prefix ps [[1, 2, 3], [], [4]] \<and> wire sy' = map (Pair 5) new \<and> new @ queue st' = concat ps))
    (stream_ops [Write [1, 2, 3], Tx_Ready, Write [4]] (demo_io, demo_stream, slow_sys))"
  using stream_keeps_order [OF demo_stream_ok(1,2), of "[Write [1, 2, 3], Tx_Ready, Write [4]]"] demo_stream_ok(3)
  by (simp add: the_fd_def demo_io_def demo_stream_def slow_sys_def)

theorem stream_write_cases_witness:
  "\<exists>io' st' sy'. stream_write demo_io demo_stream slow_sys [1, 2, 3] 3 = Inr (io', st', sy', False) \<and>
     wire sy' = [(5, 1), (5, 2)] \<and> queue st' = [3] \<and> io' = demo_io"
proof -
  have "room demo_stream = 4" using demo_stream_ok(3)
    by (simp add: room_def) (simp add: demo_stream_def small_buffer_def circ_buffer_init_def)
  moreover have "the_fd demo_io demo_stream = 5" by (simp add: the_fd_def demo_io_def demo_stream_def)
  ultimately show ?thesis
    using stream_write_cases [OF demo_stream_ok(1,2), of "[1, 2, 3]" 2 False] demo_stream_ok(3)
    by (auto simp: slow_sys_def)
qed

definition queued_stream :: stream where
  "queued_stream = demo_stream\<lparr>tx_buf := \<lparr>cb_buffer = Some [3, 9, 9, 9], cb_size = 4, cb_data_size = 1, cb_begin = 0, cb_end = 1\<rparr>\<rparr>"

theorem stream_stuck_witness:
  "\<exists>st'. stream_ops (map Write [[4], [5, 6, 7, 8]]) (demo_io, queued_stream, slow_sys) = Inr (demo_io, st', slow_sys) \<and>
     prefix [3] (queue st')"
proof -
  have q: "queue queued_stream = [3]" by (simp add: queue_def queued_stream_def cb_items_def)
  have "stream_ok demo_io queued_stream"
    using demo_stream_ok(1) by (simp add: stream_ok_def queued_stream_def demo_stream_def cb_wf_def)
  from stream_stuck [OF this demo_stream_ok(2), of "\<lparr>w_fd = 5, event_listening = 1\<rparr>" "[[4], [5, 6, 7, 8]]"] q
  show ?thesis by (auto simp: demo_io_def queued_stream_def demo_stream_def listens_def)
qed

end
