(* ===== verification/Tcp_Server.thy ===== *)
theory Tcp_Server
  imports Stream Net_Text
begin

text \<open>
  Listening sockets: \<^verbatim>\<open>libutils/tcp_server.c\<close> and \<^verbatim>\<open>libutils/tcp_server_ipv4.c\<close>. The results of \<open>socket\<close>, \<open>bind\<close>,
  \<open>listen\<close>, \<open>accept\<close> and \<open>getsockname\<close> are arguments; options of sockets and logging are left out.
\<close>

text \<open>\<open>ts_watcher\<close> is the address of the embedded watcher.\<close>

record tcp_server =
  ts_sd :: int
  is_listening :: bool
  ts_watcher :: nat
  ipv4_addr :: sockaddr_in

text \<open>The watcher is not initialised: it is taken to be zero, as static memory is.\<close>

definition tcp_server_init :: "io_driver \<Rightarrow> tcp_server \<Rightarrow> int \<Rightarrow> (io_driver \<times> tcp_server) res" where
  "tcp_server_init io ts sd =
     (let ts = ts\<lparr>ts_sd := sd, is_listening := False\<rparr> in
      bindE (get_watcher io (ts_watcher ts)) (\<lambda>w.
      let io = set_watcher (ts_watcher ts) (w\<lparr>w_fd := sd\<rparr>) io in
      bindE (io_driver_watch io (ts_watcher ts) IO_DRIVER_EVENT_RX) (\<lambda>io. Inr (io, ts))))"

definition tcp_server_start :: "tcp_server \<Rightarrow> tcp_server" where
  "tcp_server_start ts = (if is_listening ts then ts else ts\<lparr>is_listening := True\<rparr>)"

definition tcp_server_stop :: "io_driver \<Rightarrow> tcp_server \<Rightarrow> (io_driver \<times> tcp_server) res" where
  "tcp_server_stop io ts =
     (if \<not> is_listening ts then Inr (io, ts)
      else
        let ts = ts\<lparr>is_listening := False\<rparr>; p = ts_watcher ts in
        bindE (io_driver_no_watch io p IO_DRIVER_EVENT_RX) (\<lambda>io.
        bindE (io_driver_no_watch io p IO_DRIVER_EVENT_TX) (\<lambda>io.
        bindE (io_driver_no_watch io p IO_DRIVER_EVENT_EX) (\<lambda>io. Inr (io, ts)))))"

definition tcp_server_deinit :: "io_driver \<Rightarrow> tcp_server \<Rightarrow> sys \<Rightarrow> (io_driver \<times> tcp_server \<times> sys) res" where
  "tcp_server_deinit io ts sy =
     bindE (tcp_server_stop io ts) (\<lambda>(io, ts).
     if ts_sd ts \<noteq> -1 then Inr (io, ts\<lparr>ts_sd := -1\<rparr>, sys_close sy (ts_sd ts)) else Inr (io, ts, sy))"

definition init_tcp_server_ipv4 ::
  "io_driver \<Rightarrow> tcp_server \<Rightarrow> sys \<Rightarrow> sockaddr_in \<Rightarrow> int \<Rightarrow> int \<Rightarrow> int \<Rightarrow> (io_driver \<times> tcp_server \<times> sys \<times> int) res" where
  "init_tcp_server_ipv4 io ts sy addr sd bind_ret listen_ret =
     (let ts = ts\<lparr>ipv4_addr := addr, ts_sd := -1\<rparr> in
      if sd < 0 then Inr (io, ts, sy, -1)
      else if bind_ret \<noteq> 0 then Inr (io, ts, sys_close sy sd, -1)
      else if listen_ret \<noteq> 0 then Inr (io, ts, sys_close sy sd, -1)
      else bindE (tcp_server_init io ts sd) (\<lambda>(io, ts). Inr (io, ts, sy, 0)))"

text \<open>\<open>INADDR_ANY\<close> is zero.\<close>

definition tcp_server_ipv4_init ::
  "io_driver \<Rightarrow> tcp_server \<Rightarrow> sys \<Rightarrow> int \<Rightarrow> int \<Rightarrow> int \<Rightarrow> int \<Rightarrow> (io_driver \<times> tcp_server \<times> sys \<times> int) res" where
  "tcp_server_ipv4_init io ts sy port sd bind_ret listen_ret =
     init_tcp_server_ipv4 io ts sy (zero_addr\<lparr>sin_family := AF_INET, sin_addr := 0, sin_port := htons (of_int port)\<rparr>)
       sd bind_ret listen_ret"

definition tcp_server_ipv4_init_with_addr ::
  "io_driver \<Rightarrow> tcp_server \<Rightarrow> sys \<Rightarrow> sockaddr_in \<Rightarrow> int \<Rightarrow> int \<Rightarrow> int \<Rightarrow> (io_driver \<times> tcp_server \<times> sys \<times> int) res" where
  "tcp_server_ipv4_init_with_addr io ts sy addr sd bind_ret listen_ret =
     init_tcp_server_ipv4 io ts sy addr sd bind_ret listen_ret"

text \<open>\<open>name_of sd\<close> is the address that \<open>getsockname\<close> stores.\<close>

definition tcp_server_ipv4_get_local_port :: "tcp_server \<Rightarrow> (int \<Rightarrow> sockaddr_in) \<Rightarrow> int" where
  "tcp_server_ipv4_get_local_port ts name_of =
     (if ts_sd ts < 0 then -1 else uint (ntohs (sin_port (name_of (ts_sd ts)))))"

definition MAX_ADDRESS_STRING_LEN :: nat where "MAX_ADDRESS_STRING_LEN = 256"

text \<open>\<open>snprintf\<close> is told that the buffer has one octet less than it has.\<close>

definition tcp_server_ipv4_get_bound_addr :: "tcp_server \<Rightarrow> u8 list" where
  "tcp_server_ipv4_get_bound_addr ts =
     take (MAX_ADDRESS_STRING_LEN - 2) (ascii ''ipv4_tcp:'' @ fmt_d (uint (ntohs (sin_port (ipv4_addr ts)))))"

definition tcp_server_get_port_name :: "tcp_server \<Rightarrow> u8 list" where
  "tcp_server_get_port_name ts = tcp_server_ipv4_get_bound_addr ts"

text \<open>A server that could be bound is named after the port that was asked for, in full.\<close>

lemma port_name:
  assumes "tcp_server_ipv4_init io ts sy port sd b l = Inr (io', ts', sy', r)" "0 \<le> port" "port < 2 ^ 16"
  shows "tcp_server_get_port_name ts' = ascii ''ipv4_tcp:'' @ fmt_d port"
proof -
  have "ipv4_addr ts' = zero_addr\<lparr>sin_family := AF_INET, sin_addr := 0, sin_port := htons (of_int port)\<rparr>"
    using assms(1) by (auto simp: tcp_server_ipv4_init_def init_tcp_server_ipv4_def tcp_server_init_def Let_def
        res_iff split: if_splits)
  moreover have "uint (of_int port :: u16) = port"
    using assms(2,3) by (simp add: uint_word_of_int_eq take_bit_int_eq_self)
  moreover have "length (ascii ''ipv4_tcp:'' @ fmt_d port) \<le> MAX_ADDRESS_STRING_LEN - 2"
    using length_fmt(2) [of port] by (simp add: ascii_def MAX_ADDRESS_STRING_LEN_def)
  ultimately show ?thesis
    by (simp add: tcp_server_get_port_name_def tcp_server_ipv4_get_bound_addr_def ntohs_htons)
qed

text \<open>The callback of the watcher, for every event, with what is done with a new descriptor.\<close>

definition tcp_server_ipv4_rx_event :: "(int \<Rightarrow> 's \<Rightarrow> 's res) \<Rightarrow> int \<Rightarrow> 's \<Rightarrow> 's res" where
  "tcp_server_ipv4_rx_event conn_cb newsd st = (if newsd < 0 then Inr st else conn_cb newsd st)"

text \<open>A server that was started and is stopped is no longer watched.\<close>

lemma and_not_bits: "(((x :: u8) AND NOT 1) AND NOT 2) AND NOT 4 = x AND NOT 7"
proof -
  have "(NOT 1 AND NOT 2 AND NOT 4 :: u8) = NOT 7" by simp
  then show ?thesis by (simp only: and.assoc)
qed

lemma no_watch_all:
  assumes "io_wf io" "watcher_mem io p = Some w" "event_listening w AND NOT 7 = 0"
  shows "\<exists>io1 io2 io3. io_driver_no_watch io p IO_DRIVER_EVENT_RX = Inr io1 \<and>
    io_driver_no_watch io1 p IO_DRIVER_EVENT_TX = Inr io2 \<and> io_driver_no_watch io2 p IO_DRIVER_EVENT_EX = Inr io3 \<and>
    io_wf io3 \<and> watcher_mem io3 = (watcher_mem io)(p \<mapsto> w\<lparr>event_listening := 0\<rparr>) \<and> (\<forall>q. cb_step q io io3) \<and>
    p \<notin> set (watchers io3 @ run_list io3)"
proof -
  obtain io1 where 1: "io_driver_no_watch io p IO_DRIVER_EVENT_RX = Inr io1" "io_wf io1"
    "watcher_mem io1 = (watcher_mem io)(p \<mapsto> w\<lparr>event_listening := event_listening w AND NOT 1\<rparr>)"
    using no_watch_ok [OF assms(1,2), of IO_DRIVER_EVENT_RX] by auto
  have s1: "cb_step q io io1" for q using no_watch_ok [OF assms(1,2), of IO_DRIVER_EVENT_RX q] 1(1) by auto
  let ?w1 = "w\<lparr>event_listening := event_listening w AND NOT 1\<rparr>"
  have w1: "watcher_mem io1 p = Some ?w1" using 1(3) by simp
  obtain io2 where 2: "io_driver_no_watch io1 p IO_DRIVER_EVENT_TX = Inr io2" "io_wf io2"
    "watcher_mem io2 = (watcher_mem io1)(p \<mapsto> ?w1\<lparr>event_listening := event_listening ?w1 AND NOT 2\<rparr>)"
    using no_watch_ok [OF 1(2) w1, of IO_DRIVER_EVENT_TX] by auto
  have s2: "cb_step q io1 io2" for q using no_watch_ok [OF 1(2) w1, of IO_DRIVER_EVENT_TX q] 2(1) by auto
  let ?w2 = "?w1\<lparr>event_listening := event_listening ?w1 AND NOT 2\<rparr>"
  have w2: "watcher_mem io2 p = Some ?w2" using 2(3) by simp
  obtain io3 where 3: "io_driver_no_watch io2 p IO_DRIVER_EVENT_EX = Inr io3" "io_wf io3"
    "watcher_mem io3 = (watcher_mem io2)(p \<mapsto> ?w2\<lparr>event_listening := event_listening ?w2 AND NOT 4\<rparr>)"
    using no_watch_ok [OF 2(2) w2, of IO_DRIVER_EVENT_EX] by auto
  have s3: "cb_step q io2 io3" for q using no_watch_ok [OF 2(2) w2, of IO_DRIVER_EVENT_EX q] 3(1) by auto
  have "((event_listening w AND NOT 1) AND NOT 2) AND NOT 4 = 0" using assms(3) and_not_bits [of "event_listening w"] by simp
  then have "event_listening (?w2\<lparr>event_listening := event_listening ?w2 AND NOT 4\<rparr>) = 0" by simp
  then have mem: "watcher_mem io3 = (watcher_mem io)(p \<mapsto> w\<lparr>event_listening := 0\<rparr>)"
    unfolding 3(3) 2(3) 1(3) by simp
  have "p \<notin> set (watchers io3 @ run_list io3)" using io_wfD(4) [OF 3(2), of p] mem by simp
  moreover have "cb_step q io io3" for q using s1 s2 s3 cb_step_trans by blast
  ultimately show ?thesis using 1(1) 2(1) 3(1,2) mem by blast
qed

end
