(* ===== verification/Cli.thy ===== *)
theory Cli
  imports Generic_List Net_Text
begin

text \<open>
  The command line of \<^verbatim>\<open>libutils/cli.c\<close>: a line editor that echoes what is typed, and the commands.
  The state \<open>'s\<close> is that of the rest of the program: the output functions and the handlers of the
  commands change it.
\<close>

section \<open>State and operations\<close>

definition CLI_MAX_COLUMNS_PER_LINE :: nat where "CLI_MAX_COLUMNS_PER_LINE = 512"
definition CLI_COMMAND_MAX_ARGS :: nat where "CLI_COMMAND_MAX_ARGS = 32"
definition CLI_MAX_COMMAND_LEN :: nat where "CLI_MAX_COMMAND_LEN = 252"
definition CLI_EOL_CHAR :: u8 where "CLI_EOL_CHAR = 13"

lemmas cli_config = CLI_MAX_COLUMNS_PER_LINE_def CLI_COMMAND_MAX_ARGS_def CLI_MAX_COMMAND_LEN_def CLI_EOL_CHAR_def

definition CLI_EOL :: "u8 list" where "CLI_EOL = [13, 10]"
definition VERSION :: "u8 list" where "VERSION = ascii ''RTP Server CLI V1.0''"
definition cli_prompt_text :: "u8 list" where "cli_prompt_text = [13, 10] @ ascii ''pRTP> ''"

record cli_intf =
  cmd_buffer_ndx :: u8
  cmd_buffer :: "u8 list"

text \<open>
  \<open>put_tx_data\<close> gets a buffer and the number of octets to send from it; a handler gets its arguments.
\<close>

record 's cli_command =
  command :: "u8 list"
  help_str :: "u8 list"
  handler :: "u8 list list \<Rightarrow> 's \<Rightarrow> 's res"

record 's cli_env =
  put_tx_data :: "u8 list \<Rightarrow> int \<Rightarrow> 's \<Rightarrow> 's res"
  user_commands :: "'s cli_command list"
  show_connections :: "'s \<Rightarrow> 's res"

text \<open>
  \<open>text\<close> is what the format and its arguments give. \<open>vsnprintf\<close> puts its first 511 octets and a NUL into the
  513 octets of the buffer and returns the length of all of it. The last octet of the buffer is
  never written, and a shorter text is not read beyond its end.
\<close>

definition print_buffer :: "u8 list \<Rightarrow> u8 list" where
  "print_buffer txt =
     (let s = take (CLI_MAX_COLUMNS_PER_LINE - 1) txt
      in s @ replicate (CLI_MAX_COLUMNS_PER_LINE + 1 - length s) 0)"

definition cli_printf :: "'s cli_env \<Rightarrow> u8 list \<Rightarrow> 's \<Rightarrow> 's res" where
  "cli_printf env txt st = put_tx_data env (print_buffer txt) (int (length txt)) st"

definition cli_prompt :: "'s cli_env \<Rightarrow> 's \<Rightarrow> 's res" where
  "cli_prompt env st = put_tx_data env cli_prompt_text (int (length cli_prompt_text)) st"

text \<open>The format \<open>%-20s: \<close>.\<close>

definition column :: "u8 list \<Rightarrow> u8 list" where
  "column s = s @ replicate (20 - length s) 32 @ ascii '': ''"

definition help_line :: "'s cli_env \<Rightarrow> u8 list \<times> u8 list \<Rightarrow> 's \<Rightarrow> 's res" where
  "help_line env c st =
     bindE (cli_printf env (column (fst c)) st) (cli_printf env (snd c @ CLI_EOL))"

definition core_help :: "(u8 list \<times> u8 list) list" where
  "core_help = [(ascii ''help'', ascii ''show this command''), (ascii ''version'', ascii ''show version''),
     (ascii ''cli_conn'', ascii ''show current CLI connections'')]"

definition cli_command_help :: "'s cli_env \<Rightarrow> u8 list list \<Rightarrow> 's \<Rightarrow> 's res" where
  "cli_command_help env argv st =
     bindE (cli_printf env CLI_EOL st) (\<lambda>st.
     bindE (foldE (help_line env) core_help st) (\<lambda>st.
     foldE (help_line env) (map (\<lambda>c. (command c, help_str c)) (user_commands env)) st))"

definition cli_command_version :: "'s cli_env \<Rightarrow> u8 list list \<Rightarrow> 's \<Rightarrow> 's res" where
  "cli_command_version env argv st = bindE (cli_printf env CLI_EOL st) (cli_printf env (VERSION @ CLI_EOL))"

definition cli_command_cli_connections :: "'s cli_env \<Rightarrow> u8 list list \<Rightarrow> 's \<Rightarrow> 's res" where
  "cli_command_cli_connections env argv st = show_connections env st"

definition core_commands :: "'s cli_env \<Rightarrow> 's cli_command list" where
  "core_commands env = map2 (\<lambda>(c, h) f. \<lparr>command = c, help_str = h, handler = f\<rparr>) core_help
     [cli_command_help env, cli_command_version env, cli_command_cli_connections env]"

text \<open>
  \<open>strtok_r\<close> with blanks and tabulators: the next word and the rest of the string. The NUL that it puts
  behind a word ends the argument; nothing else reads it.
\<close>

definition is_delim :: "u8 \<Rightarrow> bool" where
  "is_delim c \<longleftrightarrow> c = 32 \<or> c = 9"

definition strtok :: "u8 list \<Rightarrow> (u8 list \<times> u8 list) option" where
  "strtok s =
     (let s = dropWhile is_delim s
      in if s = [] then None
         else Some (takeWhile (\<lambda>c. \<not> is_delim c) s, tl (dropWhile (\<lambda>c. \<not> is_delim c) s)))"

lemma strtok_shorter: "strtok s = Some (w, r) \<Longrightarrow> length r < length s"
proof -
  assume a: "strtok s = Some (w, r)"
  let ?s = "dropWhile is_delim s"
  have "?s \<noteq> []" "r = tl (dropWhile (\<lambda>c. \<not> is_delim c) ?s)" using a by (auto simp: strtok_def Let_def split: if_splits)
  moreover have "length (dropWhile (\<lambda>c. \<not> is_delim c) ?s) \<le> length ?s" "length ?s \<le> length s"
    by (simp_all add: length_dropWhile_le)
  ultimately show ?thesis by (cases ?s) auto
qed

text \<open>The loop that collects the arguments: \<open>Inl\<close> those found when there is one too many.\<close>

function collect_args :: "u8 list \<Rightarrow> u8 list list \<Rightarrow> u8 list list + u8 list list" where
  "collect_args s argv =
     (case strtok s of
        None \<Rightarrow> Inr argv
      | Some (w, r) \<Rightarrow> if length argv \<ge> CLI_COMMAND_MAX_ARGS then Inl argv else collect_args r (argv @ [w]))"
  by pat_completeness auto
termination by (relation "measure (\<lambda>(s, _). length s)") (auto dest: strtok_shorter)

declare collect_args.simps [simp del]

definition find_command :: "'s cli_command list \<Rightarrow> u8 list \<Rightarrow> 's cli_command option" where
  "find_command cs name = find (\<lambda>c. command c = name) cs"

definition cli_execute_command :: "'s cli_env \<Rightarrow> u8 list \<Rightarrow> 's \<Rightarrow> 's res" where
  "cli_execute_command env cmd st =
     (case collect_args cmd [] of
        Inl _ \<Rightarrow> cli_printf env (CLI_EOL @ ascii ''Error: too many arguments'' @ CLI_EOL) st
      | Inr argv \<Rightarrow>
          if length argv = 0 then Inr st
          else
            (case find_command (core_commands env) (argv ! 0) of
               Some c \<Rightarrow>
                 bindE (cli_printf env (CLI_EOL @ ascii ''Executing '' @ argv ! 0 @ CLI_EOL) st) (handler c argv)
             | None \<Rightarrow>
                 (case find_command (user_commands env) (argv ! 0) of
                    Some c \<Rightarrow>
                      bindE (cli_printf env (CLI_EOL @ ascii ''Executing '' @ argv ! 0 @ CLI_EOL) st) (handler c argv)
                  | None \<Rightarrow>
                      bindE (cli_printf env (CLI_EOL @ ascii ''Unknown Command: '') st) (\<lambda>st.
                      bindE (cli_printf env (argv ! 0) st) (cli_printf env CLI_EOL)))))"

definition put_char :: "cli_intf \<Rightarrow> u8 \<Rightarrow> cli_intf res" where
  "put_char intf b =
     bindE (wr (cmd_buffer intf) (unat (cmd_buffer_ndx intf)) [b]) (\<lambda>buf.
     Inr (intf\<lparr>cmd_buffer := buf, cmd_buffer_ndx := cmd_buffer_ndx intf + 1\<rparr>))"

text \<open>The string in the buffer ends at the first NUL.\<close>

definition c_string :: "u8 list \<Rightarrow> u8 list" where
  "c_string buf = takeWhile (\<lambda>c. c \<noteq> 0) buf"

definition cli_handle_char :: "'s cli_env \<Rightarrow> u8 \<Rightarrow> cli_intf \<times> 's \<Rightarrow> (cli_intf \<times> 's) res" where
  "cli_handle_char env b is =
     (case is of (intf, st) \<Rightarrow>
        if b \<noteq> CLI_EOL_CHAR \<and> unat (cmd_buffer_ndx intf) < CLI_MAX_COMMAND_LEN then
          if b = 8 \<or> b = 0x7f then
            if cmd_buffer_ndx intf > 0 then
              bindE (cli_printf env [0x08, 0x20, 0x08] st) (\<lambda>st.
              Inr (intf\<lparr>cmd_buffer_ndx := cmd_buffer_ndx intf - 1\<rparr>, st))
            else Inr (intf, st)
          else
            bindE (cli_printf env [b] st) (\<lambda>st.
            bindE (put_char intf b) (\<lambda>intf. Inr (intf, st)))
        else if b = CLI_EOL_CHAR then
          bindE (put_char intf 0) (\<lambda>intf.
          bindE (cli_execute_command env (c_string (cmd_buffer intf)) st) (\<lambda>st.
          bindE (cli_prompt env st) (\<lambda>st. Inr (intf\<lparr>cmd_buffer_ndx := 0\<rparr>, st))))
        else Inr (intf, st))"

definition cli_handle_rx :: "'s cli_env \<Rightarrow> cli_intf \<Rightarrow> u8 list \<Rightarrow> 's \<Rightarrow> (cli_intf \<times> 's) res" where
  "cli_handle_rx env intf data st = foldE (cli_handle_char env) data (intf, st)"

section \<open>The line editor\<close>

text \<open>What the user has typed so far, and how a key changes it; a full line takes no more keys.\<close>

definition edit_key :: "u8 list \<Rightarrow> u8 \<Rightarrow> u8 list" where
  "edit_key line b =
     (if length line \<ge> CLI_MAX_COMMAND_LEN then line
      else if b = 8 \<or> b = 0x7f then butlast line
      else line @ [b])"

definition echo_key :: "u8 list \<Rightarrow> u8 \<Rightarrow> u8 list list" where
  "echo_key line b =
     (if length line \<ge> CLI_MAX_COMMAND_LEN then []
      else if b = 8 \<or> b = 0x7f then (if line = [] then [] else [[8, 32, 8]])
      else [[b]])"

fun echo_keys :: "u8 list \<Rightarrow> u8 list \<Rightarrow> u8 list list" where
  "echo_keys line [] = []"
| "echo_keys line (b # bs) = echo_key line b @ echo_keys (edit_key line b) bs"

definition editing :: "cli_intf \<Rightarrow> u8 list \<Rightarrow> bool" where
  "editing intf line \<longleftrightarrow> length (cmd_buffer intf) = CLI_MAX_COMMAND_LEN \<and> length line \<le> CLI_MAX_COMMAND_LEN \<and>
     unat (cmd_buffer_ndx intf) = length line \<and> take (length line) (cmd_buffer intf) = line"

lemma put_char_ok:
  assumes "editing intf line" "length line < CLI_MAX_COMMAND_LEN"
  shows "\<exists>intf'. put_char intf b = Inr intf' \<and> editing intf' (line @ [b])"
proof -
  have l: "length (cmd_buffer intf) = 252" "length line < 252" "unat (cmd_buffer_ndx intf) = length line"
    "take (length line) (cmd_buffer intf) = line"
    using assms by (simp_all add: editing_def cli_config)
  then have "unat (cmd_buffer_ndx intf + 1) = Suc (length line)" by (simp add: unat_word_ariths)
  with l show ?thesis by (simp add: put_char_def wr_def editing_def cli_config)
qed

lemma foldE_append: "foldE f (xs @ ys) s = bindE (foldE f xs s) (foldE f ys)"
  by (induction xs arbitrary: s) (simp_all add: bindE_assoc, metis bindE.simps(2))

lemma foldE_outcome:
  assumes "\<And>x st. x \<in> set xs \<Longrightarrow> I st \<Longrightarrow> outcome F I (f x st)" "I st"
  shows "outcome F I (foldE f xs st)"
  using assms
proof (induction xs arbitrary: st)
  case (Cons x xs)
  have "outcome F I (f x st)" by (rule Cons.prems) (use Cons.prems in simp_all)
  then show ?case unfolding foldE.simps by (rule outcome_bind) (use Cons in auto)
qed simp

lemma handle_key:
  assumes "editing intf line" "b \<noteq> CLI_EOL_CHAR"
  shows "\<exists>intf'. editing intf' (edit_key line b) \<and> (\<forall>st. cli_handle_char env b (intf, st) =
    bindE (foldE (cli_printf env) (echo_key line b) st) (\<lambda>st. Inr (intf', st)))"
proof -
  have l: "length (cmd_buffer intf) = 252" "length line \<le> 252" "unat (cmd_buffer_ndx intf) = length line"
    "take (length line) (cmd_buffer intf) = line"
    using assms(1) by (simp_all add: editing_def cli_config)
  consider "length line = 252" | "length line < 252" "b = 8 \<or> b = 0x7f" | "length line < 252" "\<not> (b = 8 \<or> b = 0x7f)"
    using l(2) by linarith
  then show ?thesis
  proof cases
    case 1
    then show ?thesis using assms l by (simp add: cli_handle_char_def edit_key_def echo_key_def cli_config)
  next
    case 2
    show ?thesis
    proof (cases "line = []")
      case True
      then show ?thesis using 2 assms l by (simp add: cli_handle_char_def edit_key_def echo_key_def cli_config word_less_nat_alt)
    next
      case False
      let ?intf = "intf\<lparr>cmd_buffer_ndx := cmd_buffer_ndx intf - 1\<rparr>"
      have "cmd_buffer_ndx intf \<noteq> 0" using False l(3) by auto
      then have "unat (cmd_buffer_ndx intf - 1) = length line - 1" using l(3) by (simp add: unat_minus_one)
      moreover have "take (length line - 1) (cmd_buffer intf) = take (length line - 1) (take (length line) (cmd_buffer intf))"
        by (simp add: min_def)
      ultimately have "editing ?intf (butlast line)"
        using l by (simp add: editing_def cli_config butlast_conv_take)
      moreover have "cmd_buffer_ndx intf > 0" using \<open>cmd_buffer_ndx intf \<noteq> 0\<close> by (simp add: word_neq_0_conv)
      then have "cli_handle_char env b (intf, st) = bindE (cli_printf env [8, 32, 8] st) (\<lambda>st. Inr (?intf, st))" for st
        using 2 assms(2) l(3) by (simp only: cli_handle_char_def prod.case cli_config simp_thms if_True if_False)
      moreover have "echo_key line b = [[8, 32, 8]]" "edit_key line b = butlast line"
        using 2 False by (simp_all add: echo_key_def edit_key_def cli_config)
      ultimately show ?thesis by (intro exI [of _ ?intf]) (simp add: bindE_assoc)
    qed
  next
    case 3
    obtain intf' where "put_char intf b = Inr intf'" "editing intf' (line @ [b])"
      using put_char_ok [OF assms(1)] 3(1) by (auto simp: cli_config)
    then show ?thesis using 3 assms l
      by (intro exI [of _ intf']) (simp add: cli_handle_char_def edit_key_def echo_key_def cli_config bindE_assoc)
  qed
qed

lemma handle_keys:
  assumes "editing intf line" "CLI_EOL_CHAR \<notin> set bs"
  shows "\<exists>intf'. editing intf' (foldl edit_key line bs) \<and> (\<forall>st. cli_handle_rx env intf bs st =
    bindE (foldE (cli_printf env) (echo_keys line bs) st) (\<lambda>st. Inr (intf', st)))"
  using assms
proof (induction bs arbitrary: intf line)
  case Nil
  then show ?case by (auto simp: cli_handle_rx_def)
next
  case (Cons b bs)
  obtain intf1 where 1: "editing intf1 (edit_key line b)" "\<And>st. cli_handle_char env b (intf, st) =
      bindE (foldE (cli_printf env) (echo_key line b) st) (\<lambda>st. Inr (intf1, st))"
    using handle_key [OF Cons.prems(1), of b env] Cons.prems(2) by auto
  obtain intf' where 2: "editing intf' (foldl edit_key (edit_key line b) bs)" "\<And>st. cli_handle_rx env intf1 bs st =
      bindE (foldE (cli_printf env) (echo_keys (edit_key line b) bs) st) (\<lambda>st. Inr (intf', st))"
    using Cons.IH [OF 1(1)] Cons.prems(2) by auto
  have "cli_handle_rx env intf (b # bs) st =
      bindE (foldE (cli_printf env) (echo_key line b) st) (\<lambda>st. cli_handle_rx env intf1 bs st)" for st
    by (simp add: cli_handle_rx_def 1(2) bindE_assoc)
  then have "cli_handle_rx env intf (b # bs) st =
      bindE (foldE (cli_printf env) (echo_keys line (b # bs)) st) (\<lambda>st. Inr (intf', st))" for st
    by (simp add: 2(2) foldE_append bindE_assoc)
  with 2(1) show ?case by auto
qed

lemma c_string_stop: "c_string (xs @ 0 # ys) = c_string xs"
  by (induction xs) (simp_all add: c_string_def)

lemma handle_eol:
  assumes "editing intf line"
  shows "\<exists>intf'. editing intf' [] \<and> (\<forall>st. cli_handle_char env CLI_EOL_CHAR (intf, st) =
    (if length line = CLI_MAX_COMMAND_LEN then Inl OobWrite
     else bindE (cli_execute_command env (c_string line) st) (\<lambda>st.
          bindE (cli_prompt env st) (\<lambda>st. Inr (intf', st)))))"
proof (cases "length line = CLI_MAX_COMMAND_LEN")
  case True
  have "editing (intf\<lparr>cmd_buffer_ndx := 0\<rparr>) []" using assms by (simp add: editing_def)
  moreover have "put_char intf 0 = Inl OobWrite" using assms True by (simp add: editing_def put_char_def wr_def)
  ultimately show ?thesis using True by (intro exI [of _ "intf\<lparr>cmd_buffer_ndx := 0\<rparr>"]) (simp add: cli_handle_char_def)
next
  case False
  let ?buf = "take (length line) (cmd_buffer intf) @ [0] @ drop (Suc (length line)) (cmd_buffer intf)"
  let ?intf = "intf\<lparr>cmd_buffer := ?buf, cmd_buffer_ndx := cmd_buffer_ndx intf + 1\<rparr>"
  have l: "length line < CLI_MAX_COMMAND_LEN" using assms False by (simp add: editing_def)
  then have p: "put_char intf 0 = Inr ?intf" using assms by (simp add: editing_def put_char_def wr_def)
  have c: "c_string ?buf = c_string line" using assms c_string_stop by (simp add: editing_def)
  have "editing (?intf\<lparr>cmd_buffer_ndx := 0\<rparr>) []" using assms l by (simp add: editing_def)
  moreover have "cli_handle_char env CLI_EOL_CHAR (intf, st) = bindE (cli_execute_command env (c_string line) st) (\<lambda>st.
      bindE (cli_prompt env st) (\<lambda>st. Inr (?intf\<lparr>cmd_buffer_ndx := 0\<rparr>, st)))" for st
    using p c by (simp add: cli_handle_char_def)
  ultimately show ?thesis using False by (intro exI [of _ "?intf\<lparr>cmd_buffer_ndx := 0\<rparr>"]) simp
qed

text \<open>
  C31: the command line behaves like a line editor on sequences: every key is echoed and added to the
  line, backspace and delete take the last character off, a line of 252 characters ignores further
  keys, also these two. Return runs the line as a command and prompts for the next one, except
  that on a full line it writes the terminating NUL behind the end of the buffer.
\<close>

theorem cli_reads_line:
  assumes "editing intf line" "CLI_EOL_CHAR \<notin> set keys"
  shows "\<exists>intf'. editing intf' [] \<and> (\<forall>st. cli_handle_rx env intf (keys @ [CLI_EOL_CHAR]) st =
    bindE (foldE (cli_printf env) (echo_keys line keys) st) (\<lambda>st.
      let cmd = foldl edit_key line keys in
      if length cmd = CLI_MAX_COMMAND_LEN then Inl OobWrite
      else bindE (cli_execute_command env (c_string cmd) st) (\<lambda>st.
           bindE (cli_prompt env st) (\<lambda>st. Inr (intf', st)))))"
proof -
  obtain intf1 where 1: "editing intf1 (foldl edit_key line keys)" "\<And>st. cli_handle_rx env intf keys st =
      bindE (foldE (cli_printf env) (echo_keys line keys) st) (\<lambda>st. Inr (intf1, st))"
    using handle_keys [OF assms, of env] by blast
  obtain intf' where 2: "editing intf' []" "\<And>st. cli_handle_char env CLI_EOL_CHAR (intf1, st) =
    (if length (foldl edit_key line keys) = CLI_MAX_COMMAND_LEN then Inl OobWrite
     else bindE (cli_execute_command env (c_string (foldl edit_key line keys)) st) (\<lambda>st.
          bindE (cli_prompt env st) (\<lambda>st. Inr (intf', st))))"
    using handle_eol [OF 1(1), of env] by blast
  have last: "foldE (cli_handle_char env) [CLI_EOL_CHAR] x = cli_handle_char env CLI_EOL_CHAR x" for x
    by (cases "cli_handle_char env CLI_EOL_CHAR x") simp_all
  have "cli_handle_rx env intf (keys @ [CLI_EOL_CHAR]) st =
      bindE (cli_handle_rx env intf keys st) (cli_handle_char env CLI_EOL_CHAR)" for st
    unfolding cli_handle_rx_def foldE_append by (rule bindE_cong [OF refl]) (rule last)
  then show ?thesis using 2(1) by (intro exI [of _ intf']) (simp add: 1(2) 2(2) bindE_assoc Let_def)
qed

section \<open>Commands and arguments\<close>

text \<open>The words of a string, by cutting it at every blank.\<close>

fun split_delims :: "u8 list \<Rightarrow> u8 list list" where
  "split_delims [] = [[]]"
| "split_delims (c # cs) = (if is_delim c then [] # split_delims cs
     else (case split_delims cs of [] \<Rightarrow> [[c]] | w # ws \<Rightarrow> (c # w) # ws))"

definition words :: "u8 list \<Rightarrow> u8 list list" where
  "words s = filter (\<lambda>w. w \<noteq> []) (split_delims s)"

lemma split_delims_first:
  "split_delims s = takeWhile (\<lambda>c. \<not> is_delim c) s #
     (case dropWhile (\<lambda>c. \<not> is_delim c) s of [] \<Rightarrow> [] | _ # r \<Rightarrow> split_delims r)"
  by (induction s) auto

lemma words_drop: "words (dropWhile is_delim s) = words s"
  by (induction s) (auto simp: words_def)

lemma words_strtok: "words s = (case strtok s of None \<Rightarrow> [] | Some (w, r) \<Rightarrow> w # words r)"
proof (cases "dropWhile is_delim s")
  case Nil
  moreover have "words s = words []" using words_drop [of s] unfolding Nil by simp
  moreover have "words [] = []" by (simp add: words_def)
  ultimately show ?thesis by (simp add: strtok_def)
next
  case (Cons c cs)
  then have c: "\<not> is_delim c" by (metis hd_dropWhile list.distinct(1) list.sel(1))
  let ?r = "dropWhile (\<lambda>c. \<not> is_delim c) (c # cs)"
  have "words s = words (c # cs)" using words_drop [of s] Cons by simp
  also have "\<dots> = takeWhile (\<lambda>c. \<not> is_delim c) (c # cs) # words (tl ?r)"
  proof (cases ?r)
    case Nil
    show ?thesis unfolding words_def split_delims_first [of "c # cs"] Nil using c by simp
  next
    case (Cons d r)
    show ?thesis unfolding words_def split_delims_first [of "c # cs"] Cons using c by simp
  qed
  finally show ?thesis using Cons by (simp add: strtok_def)
qed

lemma collect_args_words:
  assumes "length argv \<le> CLI_COMMAND_MAX_ARGS"
  shows "case collect_args s argv of
     Inr as \<Rightarrow> as = argv @ words s \<and> length as \<le> CLI_COMMAND_MAX_ARGS
   | Inl _ \<Rightarrow> CLI_COMMAND_MAX_ARGS < length (argv @ words s)"
  using assms
proof (induction s argv rule: collect_args.induct)
  case (1 s argv)
  show ?case
  proof (cases "strtok s")
    case None
    then show ?thesis using words_strtok [of s] 1(2) by (subst collect_args.simps) simp
  next
    case (Some wr)
    obtain w r where wr: "wr = (w, r)" by (cases wr)
    have w: "words s = w # words r" using words_strtok [of s] Some wr by simp
    show ?thesis
    proof (cases "CLI_COMMAND_MAX_ARGS \<le> length argv")
      case True
      then show ?thesis using Some wr w 1(2) by (subst collect_args.simps) simp
    next
      case False
      then have "collect_args s argv = collect_args r (argv @ [w])" using Some wr by (subst collect_args.simps) simp
      moreover have "case collect_args r (argv @ [w]) of
         Inr as \<Rightarrow> as = (argv @ [w]) @ words r \<and> length as \<le> CLI_COMMAND_MAX_ARGS
       | Inl _ \<Rightarrow> CLI_COMMAND_MAX_ARGS < length ((argv @ [w]) @ words r)"
        by (rule 1(1) [OF Some wr [symmetric] False]) (use False in simp)
      ultimately show ?thesis using w by (cases "collect_args r (argv @ [w])") simp_all
    qed
  qed
qed

lemma find_append: "find P (xs @ ys) = (case find P xs of None \<Rightarrow> find P ys | Some x \<Rightarrow> Some x)"
  by (induction xs) auto

lemma execute_words:
  "cli_execute_command env cmd st =
     (case words cmd of
        [] \<Rightarrow> Inr st
      | name # args \<Rightarrow>
          if 32 < length (words cmd) then cli_printf env (CLI_EOL @ ascii ''Error: too many arguments'' @ CLI_EOL) st
          else (case find (\<lambda>c. command c = name) (core_commands env @ user_commands env) of
                  Some c \<Rightarrow> bindE (cli_printf env (CLI_EOL @ ascii ''Executing '' @ name @ CLI_EOL) st) (handler c (words cmd))
                | None \<Rightarrow> bindE (cli_printf env (CLI_EOL @ ascii ''Unknown Command: '') st) (\<lambda>st.
                    bindE (cli_printf env name st) (cli_printf env CLI_EOL))))"
proof (cases "collect_args cmd []")
  case (Inl as)
  then have "32 < length (words cmd)" using collect_args_words [of "[]" cmd] by (simp add: cli_config)
  then show ?thesis using Inl by (cases "words cmd") (simp_all add: cli_execute_command_def)
next
  case (Inr as)
  have "case collect_args cmd [] of Inr as \<Rightarrow> as = [] @ words cmd \<and> length as \<le> CLI_COMMAND_MAX_ARGS
     | Inl _ \<Rightarrow> CLI_COMMAND_MAX_ARGS < length ([] @ words cmd)" by (rule collect_args_words) simp
  then have as: "as = words cmd" "length as \<le> 32" unfolding Inr sum.case by (auto simp: cli_config)
  show ?thesis
  proof (cases "words cmd")
    case Nil
    then show ?thesis using Inr as by (simp add: cli_execute_command_def)
  next
    case (Cons name args)
    have "length (name # args) \<le> 32" using as(2) unfolding as(1) Cons .
    with Cons Inr as(1) show ?thesis
      by (simp add: cli_execute_command_def find_command_def find_append split: option.split)
  qed
qed

text \<open>
  C33: a command line runs the first command, of the library's and then the user's, that has the name
  of its first word, with all its words as the arguments. Nothing is done for an empty line, and
  more than 32 words or an unknown name are reported.
\<close>

theorem cli_dispatch:
  "cli_execute_command env cmd st =
     (case words cmd of
        [] \<Rightarrow> Inr st
      | name # args \<Rightarrow>
          if 32 < length (words cmd) then cli_printf env (CLI_EOL @ ascii ''Error: too many arguments'' @ CLI_EOL) st
          else (case find (\<lambda>c. command c = name) (core_commands env @ user_commands env) of
                  Some c \<Rightarrow> bindE (cli_printf env (CLI_EOL @ ascii ''Executing '' @ name @ CLI_EOL) st) (handler c (words cmd))
                | None \<Rightarrow> bindE (cli_printf env (CLI_EOL @ ascii ''Unknown Command: '') st) (\<lambda>st.
                    bindE (cli_printf env name st) (cli_printf env CLI_EOL))))"
  by (rule execute_words)

section \<open>The command line and what it runs on\<close>

text \<open>The words of a line are not longer than the line.\<close>

lemma words_length: "w \<in> set (words s) \<Longrightarrow> length w \<le> length s"
proof -
  have "\<forall>w \<in> set (split_delims s). length w \<le> length s"
    by (induction s) (auto split: list.splits intro: le_SucI)
  then show "w \<in> set (words s) \<Longrightarrow> length w \<le> length s" by (auto simp: words_def)
qed

text \<open>The arguments that a command may get.\<close>

definition argv_ok :: "u8 list list \<Rightarrow> bool" where
  "argv_ok argv \<longleftrightarrow> argv \<noteq> [] \<and> (\<forall>w \<in> set argv. length w \<le> CLI_MAX_COMMAND_LEN)"

definition intf_ok :: "cli_intf \<Rightarrow> bool" where
  "intf_ok intf \<longleftrightarrow> length (cmd_buffer intf) = CLI_MAX_COMMAND_LEN \<and> unat (cmd_buffer_ndx intf) \<le> CLI_MAX_COMMAND_LEN"

lemma editing_intf_ok: "editing intf line \<Longrightarrow> intf_ok intf"
  by (simp add: editing_def intf_ok_def)

lemma intf_ok_editing: "intf_ok intf \<Longrightarrow> \<exists>line. editing intf line"
  by (intro exI [of _ "take (unat (cmd_buffer_ndx intf)) (cmd_buffer intf)"]) (simp add: editing_def intf_ok_def)

lemma length_print_buffer: "length (print_buffer txt) = 513"
  by (simp add: print_buffer_def cli_config Let_def min_def)

text \<open>
  What the command line needs of the output and of the commands: that they keep an invariant of the
  rest of the program and end in no other faults than \<open>F\<close>.
\<close>

locale cli_host =
  fixes env :: "'s cli_env" and I :: "'s \<Rightarrow> bool" and F :: "fault set"
  assumes put_ok: "I st \<Longrightarrow> n \<le> length buf \<Longrightarrow> n \<le> 513 \<Longrightarrow> outcome F I (put_tx_data env buf (int n) st)"
    and handler_ok: "c \<in> set (user_commands env) \<Longrightarrow> I st \<Longrightarrow> argv_ok argv \<Longrightarrow> outcome F I (handler c argv st)"
    and help_ok: "c \<in> set (user_commands env) \<Longrightarrow> I st \<Longrightarrow> length (command c) \<le> 500 \<and> length (help_str c) \<le> 500"
    and show_ok: "I st \<Longrightarrow> outcome F I (show_connections env st)"
    and full_line: "I st \<Longrightarrow> OobWrite \<in> F"
begin

lemma printf_ok: "I st \<Longrightarrow> length txt \<le> 513 \<Longrightarrow> outcome F I (cli_printf env txt st)"
  unfolding cli_printf_def by (rule put_ok) (simp_all add: length_print_buffer)

lemma printfs_ok: "I st \<Longrightarrow> \<forall>t \<in> set ts. length t \<le> 513 \<Longrightarrow> outcome F I (foldE (cli_printf env) ts st)"
  by (rule foldE_outcome) (auto intro: printf_ok)

lemma help_line_ok: "I st \<Longrightarrow> length (fst c) \<le> 500 \<Longrightarrow> length (snd c) \<le> 500 \<Longrightarrow> outcome F I (help_line env c st)"
  unfolding help_line_def
  by (rule outcome_bind [OF printf_ok]) (auto intro!: printf_ok simp: column_def CLI_EOL_def ascii_def)

lemma help_ok': "I st \<Longrightarrow> outcome F I (cli_command_help env argv st)"
  unfolding cli_command_help_def
proof (rule outcome_bind [OF printf_ok])
  show "I st \<Longrightarrow> I st" .
  show "length CLI_EOL \<le> 513" by (simp add: CLI_EOL_def)
  fix st1 assume 1: "I st1"
  show "outcome F I (bindE (foldE (help_line env) core_help st1)
      (foldE (help_line env) (map (\<lambda>c. (command c, help_str c)) (user_commands env))))"
  proof (rule outcome_bind [OF foldE_outcome])
    show "I st1" by (rule 1)
    fix x st2 assume "x \<in> set core_help" "I st2"
    then show "outcome F I (help_line env x st2)" by (intro help_line_ok) (auto simp: core_help_def ascii_def)
  next
    fix st3 assume "I st3"
    then show "outcome F I (foldE (help_line env) (map (\<lambda>c. (command c, help_str c)) (user_commands env)) st3)"
      by (intro foldE_outcome) (auto intro!: help_line_ok dest: help_ok)
  qed
qed

lemma execute_ok:
  assumes "I st" "length cmd \<le> CLI_MAX_COMMAND_LEN"
  shows "outcome F I (cli_execute_command env cmd st)"
proof (cases "words cmd")
  case Nil
  then show ?thesis using assms(1) by (simp add: execute_words)
next
  case (Cons name args)
  have n: "length name \<le> 252" using words_length [of name cmd] Cons assms(2) by (simp add: cli_config)
  have argv: "argv_ok (words cmd)" using words_length [of _ cmd] Cons assms(2) by (force simp: argv_ok_def)
  have exec: "outcome F I (bindE (cli_printf env (CLI_EOL @ ascii ''Executing '' @ name @ CLI_EOL) st) (handler c (words cmd)))"
    if "c \<in> set (core_commands env @ user_commands env)" for c
  proof (rule outcome_bind [OF printf_ok [OF assms(1)]])
    show "length (CLI_EOL @ ascii ''Executing '' @ name @ CLI_EOL) \<le> 513" using n by (simp add: CLI_EOL_def ascii_def)
    fix st' assume "I st'"
    from that consider "c \<in> set (user_commands env)" | "handler c = cli_command_help env" |
      "handler c = cli_command_version env" | "handler c = cli_command_cli_connections env"
      by (auto simp: core_commands_def core_help_def)
    then show "outcome F I (handler c (words cmd) st')"
    proof cases
      case 3
      then show ?thesis using \<open>I st'\<close>
        by (auto simp: cli_command_version_def CLI_EOL_def VERSION_def ascii_def intro!: outcome_bind [OF printf_ok] printf_ok)
    qed (use \<open>I st'\<close> in \<open>auto simp: cli_command_cli_connections_def intro!: handler_ok [OF _ _ argv] help_ok' show_ok\<close>)
  qed
  have unknown: "outcome F I (bindE (cli_printf env (CLI_EOL @ ascii ''Unknown Command: '') st) (\<lambda>st.
      bindE (cli_printf env name st) (cli_printf env CLI_EOL)))"
  proof (rule outcome_bind [OF printf_ok [OF assms(1)]])
    show "length (CLI_EOL @ ascii ''Unknown Command: '') \<le> 513" by (simp add: CLI_EOL_def ascii_def)
    fix st1 assume "I st1"
    with n show "outcome F I (bindE (cli_printf env name st1) (cli_printf env CLI_EOL))"
      by (intro outcome_bind [OF printf_ok] printf_ok) (auto simp: CLI_EOL_def)
  qed
  have many: "outcome F I (cli_printf env (CLI_EOL @ ascii ''Error: too many arguments'' @ CLI_EOL) st)"
    by (rule printf_ok [OF assms(1)]) (simp add: CLI_EOL_def ascii_def)
  show ?thesis
  proof (cases "find (\<lambda>c. command c = name) (core_commands env @ user_commands env)")
    case None
    then show ?thesis unfolding execute_words [of env cmd] Cons list.case using unknown many by simp
  next
    case (Some c)
    then have "c \<in> set (core_commands env @ user_commands env)" by (metis find_Some_iff nth_mem)
    from exec [OF this, unfolded Cons] Some show ?thesis
      unfolding execute_words [of env cmd] Cons list.case using many by simp
  qed
qed

lemma handle_char_ok:
  assumes "I st" "intf_ok intf"
  shows "outcome F (\<lambda>(intf', st'). intf_ok intf' \<and> I st') (cli_handle_char env b (intf, st))"
proof -
  obtain line where e: "editing intf line" using intf_ok_editing [OF assms(2)] by blast
  show ?thesis
  proof (cases "b = CLI_EOL_CHAR")
    case False
    from handle_key [OF e False, of env] obtain intf' where k: "editing intf' (edit_key line b)"
      "cli_handle_char env b (intf, st) = bindE (foldE (cli_printf env) (echo_key line b) st) (\<lambda>st. Inr (intf', st))" by blast
    show ?thesis unfolding k(2)
      by (rule outcome_bind [OF printfs_ok [OF assms(1)]]) (use editing_intf_ok [OF k(1)] in \<open>auto simp: echo_key_def\<close>)
  next
    case True
    from handle_eol [OF e, of env] obtain intf' where k: "editing intf' []"
      "cli_handle_char env CLI_EOL_CHAR (intf, st) = (if length line = CLI_MAX_COMMAND_LEN then Inl OobWrite
        else bindE (cli_execute_command env (c_string line) st) (\<lambda>st. bindE (cli_prompt env st) (\<lambda>st. Inr (intf', st))))" by blast
    have short: "length (c_string line) \<le> CLI_MAX_COMMAND_LEN"
      using e length_takeWhile_le [of "\<lambda>c. c \<noteq> 0" line] by (simp add: editing_def c_string_def)
    have prompt: "outcome F I (cli_prompt env st')" if "I st'" for st'
      unfolding cli_prompt_def by (rule put_ok [OF that]) (simp_all add: cli_prompt_text_def ascii_def)
    have "outcome F (\<lambda>(intf', st'). intf_ok intf' \<and> I st') (bindE (cli_execute_command env (c_string line) st) (\<lambda>st.
        bindE (cli_prompt env st) (\<lambda>st. Inr (intf', st))))"
    proof (rule outcome_bind [OF execute_ok [OF assms(1) short]])
      fix st1 assume "I st1"
      show "outcome F (\<lambda>(intf', st'). intf_ok intf' \<and> I st') (bindE (cli_prompt env st1) (\<lambda>st. Inr (intf', st)))"
        by (rule outcome_bind [OF prompt [OF \<open>I st1\<close>]]) (use editing_intf_ok [OF k(1)] in simp)
    qed
    then show ?thesis unfolding True k(2) using full_line [OF assms(1)] by simp
  qed
qed

lemma handle_rx_ok:
  assumes "I st" "intf_ok intf"
  shows "outcome F (\<lambda>(intf', st'). intf_ok intf' \<and> I st') (cli_handle_rx env intf data st)"
  using assms
proof (induction data arbitrary: intf st)
  case (Cons b data)
  show ?case
    unfolding cli_handle_rx_def foldE.simps
    by (rule outcome_bind [OF handle_char_ok [OF Cons.prems]])
      (use Cons.IH in \<open>auto simp: cli_handle_rx_def\<close>)
qed (simp add: cli_handle_rx_def)

end

text \<open>A command line that collects its output, with one command of the user.\<close>

definition demo_env :: "(u8 list) cli_env" where
  "demo_env = \<lparr>put_tx_data = (\<lambda>buf n st. Inr (st @ take (nat n) buf)),
     user_commands = [\<lparr>command = ascii ''rtp'', help_str = [], handler = (\<lambda>argv st. Inr (st @ concat (tl argv)))\<rparr>],
     show_connections = Inr\<rparr>"

definition demo_intf :: cli_intf where
  "demo_intf = \<lparr>cmd_buffer_ndx = 0, cmd_buffer = replicate 252 7\<rparr>"

theorem cli_reads_line_witness:
  "\<exists>intf' st'. cli_handle_rx demo_env demo_intf (ascii ''rtp onx'' @ [8] @ [CLI_EOL_CHAR]) [] = Inr (intf', st') \<and>
     editing intf' [] \<and> (\<exists>ys. st' = ys @ ascii ''on'' @ cli_prompt_text)"
proof -
  have e: "editing demo_intf []" by (simp add: editing_def demo_intf_def cli_config)
  have k: "CLI_EOL_CHAR \<notin> set (ascii ''rtp onx'' @ [8])" by (simp add: ascii_def cli_config)
  have cmd: "foldl edit_key [] (ascii ''rtp onx'' @ [8]) = ascii ''rtp on''"
    by (simp add: ascii_def edit_key_def cli_config)
  obtain st where st: "foldE (cli_printf demo_env) (echo_keys [] (ascii ''rtp onx'' @ [8])) [] = Inr st"
    by (simp add: ascii_def edit_key_def echo_key_def cli_config cli_printf_def demo_env_def)
  have w: "c_string (ascii ''rtp on'') = ascii ''rtp on''" "words (ascii ''rtp on'') = [ascii ''rtp'', ascii ''on'']"
    by (simp_all add: c_string_def words_def ascii_def is_delim_def)
  have ex: "\<exists>ys. cli_execute_command demo_env (ascii ''rtp on'') st = Inr (ys @ ascii ''on'')"
    unfolding execute_words w(2)
    by (simp add: core_commands_def core_help_def demo_env_def cli_printf_def ascii_def)
  from cli_reads_line [OF e k, of demo_env] ex st cmd w(1) show ?thesis
    by (fastforce simp: cli_prompt_def demo_env_def ascii_def cli_prompt_text_def cli_config)
qed

end
