(* ===== verification/Telnet_Reader.thy ===== *)
theory Telnet_Reader
  imports Prelude
begin

text \<open>
  The telnet parser of \<^verbatim>\<open>libutils/telnet_reader.c\<close>: a state machine that is fed octets, passes the data
  on and recognises option negotiations and subnegotiations. The two callbacks of the reader,
  neither of which touches it, are the events that it returns.
\<close>

section \<open>State and operations\<close>

definition TELNET_READER_BUFFER_SIZE :: nat where
  "TELNET_READER_BUFFER_SIZE = 32"

text \<open>\<^verbatim>\<open>libutils/telnet.h\<close>\<close>

definition IAC :: u8 where "IAC = 255"
definition DONT :: u8 where "DONT = 254"
definition DO :: u8 where "DO = 253"
definition WONT :: u8 where "WONT = 252"
definition WILL :: u8 where "WILL = 251"
definition SB :: u8 where "SB = 250"
definition SE :: u8 where "SE = 240"

lemmas telnet_codes = IAC_def DONT_def DO_def WONT_def WILL_def SB_def SE_def

datatype telnet_reader_state =
    telnet_reader_state_start
  | telnet_reader_state_rx_iac
  | telnet_reader_state_rx_do_dont_will_wont
  | telnet_reader_state_rx_sb
  | telnet_reader_state_wait_for_se

record telnet_reader =
  tr_buffer :: "u8 list"
  buf_ndx :: u8
  tr_state :: telnet_reader_state
  tr_command :: u8
  tr_opt :: u8

text \<open>A call of \<open>databack\<close> with its octet, and a call of \<open>cmdback\<close> with the reader as it finds it.\<close>

datatype telnet_event = Databack u8 | Cmdback telnet_reader

definition telnet_reader_move_state :: "telnet_reader \<Rightarrow> telnet_reader_state \<Rightarrow> telnet_reader" where
  "telnet_reader_move_state tr s = tr\<lparr>tr_state := s\<rparr>"

definition telnet_reader_handle_command :: "telnet_reader \<Rightarrow> u8 \<Rightarrow> telnet_reader \<times> bool" where
  "telnet_reader_handle_command tr d =
     (let tr = tr\<lparr>tr_command := d\<rparr> in
      if d = DO \<or> d = DONT \<or> d = WILL \<or> d = WONT
      then (telnet_reader_move_state tr telnet_reader_state_rx_do_dont_will_wont, True)
      else if d = SB
      then (telnet_reader_move_state (tr\<lparr>buf_ndx := 0\<rparr>) telnet_reader_state_rx_sb, True)
      else (tr, False))"

definition telnet_reader_handle_subcommand :: "telnet_reader \<Rightarrow> u8 \<Rightarrow> (telnet_reader \<times> bool) res" where
  "telnet_reader_handle_subcommand tr d =
     (if d = IAC then Inr (telnet_reader_move_state tr telnet_reader_state_wait_for_se, True)
      else if unat (buf_ndx tr) < TELNET_READER_BUFFER_SIZE
      then bindE (wr (tr_buffer tr) (unat (buf_ndx tr)) [d]) (\<lambda>b.
           Inr (tr\<lparr>tr_buffer := b, buf_ndx := buf_ndx tr + 1\<rparr>, True))
      else Inr (tr, False))"

definition telnet_reader_state_machine :: "telnet_reader \<Rightarrow> u8 \<Rightarrow> (telnet_reader \<times> telnet_event list) res" where
  "telnet_reader_state_machine tr d =
     (case tr_state tr of
        telnet_reader_state_start \<Rightarrow>
          if d = IAC then Inr (telnet_reader_move_state tr telnet_reader_state_rx_iac, [])
          else Inr (tr, [Databack d])
      | telnet_reader_state_rx_iac \<Rightarrow>
          if d = IAC then Inr (telnet_reader_move_state tr telnet_reader_state_start, [Databack IAC])
          else (case telnet_reader_handle_command tr d of
                  (tr, ok) \<Rightarrow> Inr (if \<not> ok then telnet_reader_move_state tr telnet_reader_state_start else tr, []))
      | telnet_reader_state_rx_do_dont_will_wont \<Rightarrow>
          let tr = tr\<lparr>tr_opt := d\<rparr>
          in Inr (telnet_reader_move_state tr telnet_reader_state_start, [Cmdback tr])
      | telnet_reader_state_rx_sb \<Rightarrow>
          bindE (telnet_reader_handle_subcommand tr d) (\<lambda>(tr, ok).
          Inr (if \<not> ok then telnet_reader_move_state tr telnet_reader_state_start else tr, []))
      | telnet_reader_state_wait_for_se \<Rightarrow>
          Inr (telnet_reader_move_state tr telnet_reader_state_start, if d = SE then [Cmdback tr] else []))"

definition telnet_reader_init :: "telnet_reader \<Rightarrow> telnet_reader" where
  "telnet_reader_init tr = tr\<lparr>tr_state := telnet_reader_state_start, buf_ndx := 0\<rparr>"

text \<open>The loop over the octets received.\<close>

fun telnet_reader_feed :: "telnet_reader \<Rightarrow> u8 list \<Rightarrow> (telnet_reader \<times> telnet_event list) res" where
  "telnet_reader_feed tr [] = Inr (tr, [])"
| "telnet_reader_feed tr (d # ds) =
     bindE (telnet_reader_state_machine tr d) (\<lambda>(tr, es).
     bindE (telnet_reader_feed tr ds) (\<lambda>(tr, es'). Inr (tr, es @ es')))"

section \<open>The buffer is never overrun\<close>

definition reader_ok :: "telnet_reader \<Rightarrow> bool" where
  "reader_ok tr \<longleftrightarrow> length (tr_buffer tr) = TELNET_READER_BUFFER_SIZE \<and>
     unat (buf_ndx tr) \<le> TELNET_READER_BUFFER_SIZE"

lemma handle_subcommand_ok:
  "reader_ok tr \<Longrightarrow> outcome {} (\<lambda>(tr', ok). reader_ok tr') (telnet_reader_handle_subcommand tr d)"
proof -
  assume tr: "reader_ok tr"
  have "unat (buf_ndx tr + 1) = unat (buf_ndx tr) + 1" if "unat (buf_ndx tr) < 32"
    using that by (simp add: unat_word_ariths)
  with tr show ?thesis
    by (auto simp: telnet_reader_handle_subcommand_def reader_ok_def telnet_reader_move_state_def
        TELNET_READER_BUFFER_SIZE_def wr_def)
qed

lemma state_machine_ok:
  "reader_ok tr \<Longrightarrow> outcome {} (\<lambda>(tr', es). reader_ok tr') (telnet_reader_state_machine tr d)"
  by (auto simp: telnet_reader_state_machine_def Let_def reader_ok_def telnet_reader_move_state_def
      telnet_reader_handle_command_def telnet_codes split: telnet_reader_state.splits prod.splits
      intro!: outcome_bind [OF handle_subcommand_ok])

lemma feed_ok: "reader_ok tr \<Longrightarrow> outcome {} (\<lambda>(tr', es). reader_ok tr') (telnet_reader_feed tr ds)"
proof (induction ds arbitrary: tr)
  case (Cons d ds)
  have "outcome {} (\<lambda>x. reader_ok (fst x)) (bindE (telnet_reader_feed tr' ds) (\<lambda>(tr, es'). Inr (tr, es @ es')))"
    if "reader_ok tr'" for tr' es
    by (rule outcome_bind [OF Cons.IH [OF that]]) auto
  then show ?case
    by (auto intro!: outcome_bind [OF state_machine_ok [OF Cons.prems]] simp: case_prod_beta)
qed simp

text \<open>How the octets are divided among the calls does not matter.\<close>

lemma feed_append:
  "telnet_reader_feed tr (xs @ ys) =
   bindE (telnet_reader_feed tr xs) (\<lambda>(tr, es). bindE (telnet_reader_feed tr ys) (\<lambda>(tr, es'). Inr (tr, es @ es')))"
proof (induction xs arbitrary: tr)
  case Nil
  have "(\<lambda>(tr, es). Inr (tr, es)) = Inr" by auto
  then show ?case by (cases "telnet_reader_feed tr ys") auto
next
  case (Cons x xs)
  show ?case
    by (cases "telnet_reader_state_machine tr x")
      (auto simp: Cons.IH bindE_assoc case_prod_beta intro!: bindE_cong)
qed

section \<open>The protocol\<close>

text \<open>
  What a telnet peer can say and how it is encoded (RFC 854, RFC 855): data, in which IAC is
  doubled, negotiations and subnegotiations; and how the calls of the callbacks are read.
\<close>

datatype telnet_item = Plain u8 | Negotiate u8 u8 | Subneg "u8 list"

fun telnet_encode :: "telnet_item \<Rightarrow> u8 list" where
  "telnet_encode (Plain d) = (if d = IAC then [IAC, IAC] else [d])"
| "telnet_encode (Negotiate c opt) = [IAC, c, opt]"
| "telnet_encode (Subneg bs) = [IAC, SB] @ bs @ [IAC, SE]"

fun item_ok :: "telnet_item \<Rightarrow> bool" where
  "item_ok (Plain d) \<longleftrightarrow> True"
| "item_ok (Negotiate c opt) \<longleftrightarrow> c \<in> {DO, DONT, WILL, WONT}"
| "item_ok (Subneg bs) \<longleftrightarrow> length bs \<le> TELNET_READER_BUFFER_SIZE \<and> IAC \<notin> set bs"

fun event_item :: "telnet_event \<Rightarrow> telnet_item" where
  "event_item (Databack d) = Plain d"
| "event_item (Cmdback tr) =
     (if tr_command tr = SB then Subneg (take (unat (buf_ndx tr)) (tr_buffer tr))
      else Negotiate (tr_command tr) (tr_opt tr))"

text \<open>The octets of a subnegotiation are collected.\<close>

lemma feed_sb:
  assumes "reader_ok tr" "tr_state tr = telnet_reader_state_rx_sb" "IAC \<notin> set bs"
    "unat (buf_ndx tr) + length bs \<le> TELNET_READER_BUFFER_SIZE"
  shows "\<exists>tr'. telnet_reader_feed tr bs = Inr (tr', []) \<and> reader_ok tr' \<and>
    tr_state tr' = telnet_reader_state_rx_sb \<and> tr_command tr' = tr_command tr \<and>
    take (unat (buf_ndx tr')) (tr_buffer tr') = take (unat (buf_ndx tr)) (tr_buffer tr) @ bs"
  using assms
proof (induction bs arbitrary: tr)
  case (Cons b bs)
  let ?n = "unat (buf_ndx tr)"
  let ?tr = "tr\<lparr>tr_buffer := take ?n (tr_buffer tr) @ [b] @ drop (Suc ?n) (tr_buffer tr), buf_ndx := buf_ndx tr + 1\<rparr>"
  have n: "?n < 32" "length (tr_buffer tr) = 32" using Cons.prems by (simp_all add: TELNET_READER_BUFFER_SIZE_def reader_ok_def)
  have suc: "unat (buf_ndx tr + 1) = Suc ?n" using n by (simp add: unat_word_ariths)
  have step: "telnet_reader_state_machine tr b = Inr (?tr, [])"
    using Cons.prems n by (auto simp: telnet_reader_state_machine_def telnet_reader_handle_subcommand_def wr_def
        TELNET_READER_BUFFER_SIZE_def)
  have ok: "reader_ok ?tr" using n suc by (simp add: reader_ok_def TELNET_READER_BUFFER_SIZE_def)
  have "\<exists>tr'. telnet_reader_feed ?tr bs = Inr (tr', []) \<and> reader_ok tr' \<and>
    tr_state tr' = telnet_reader_state_rx_sb \<and> tr_command tr' = tr_command ?tr \<and>
    take (unat (buf_ndx tr')) (tr_buffer tr') = take (unat (buf_ndx ?tr)) (tr_buffer ?tr) @ bs"
    by (rule Cons.IH [OF ok]) (use Cons.prems suc in simp_all)
  then show ?case using step suc n by auto
qed simp

lemma feed_item:
  assumes "reader_ok tr" "tr_state tr = telnet_reader_state_start" "item_ok x"
  shows "\<exists>tr' e. telnet_reader_feed tr (telnet_encode x) = Inr (tr', [e]) \<and> event_item e = x \<and>
    reader_ok tr' \<and> tr_state tr' = telnet_reader_state_start"
proof (cases x)
  case (Plain d)
  then show ?thesis using assms
    by (auto simp: telnet_reader_state_machine_def telnet_reader_move_state_def reader_ok_def)
next
  case (Negotiate c opt)
  then show ?thesis using assms
    by (auto simp: telnet_reader_state_machine_def telnet_reader_move_state_def reader_ok_def
        telnet_reader_handle_command_def telnet_codes)
next
  case (Subneg bs)
  let ?tr = "tr\<lparr>buf_ndx := 0, tr_state := telnet_reader_state_rx_sb, tr_command := SB\<rparr>"
  have bs: "IAC \<notin> set bs" "length bs \<le> TELNET_READER_BUFFER_SIZE" using Subneg assms(3) by simp_all
  have "telnet_reader_feed tr [IAC, SB] = Inr (?tr, [])"
    using assms(2) by (simp add: telnet_reader_state_machine_def telnet_reader_move_state_def
        telnet_reader_handle_command_def telnet_codes)
  moreover have "reader_ok ?tr" using assms(1) by (simp add: reader_ok_def)
  then obtain tr' where tr': "telnet_reader_feed ?tr bs = Inr (tr', [])" "reader_ok tr'"
    "tr_state tr' = telnet_reader_state_rx_sb" "tr_command tr' = SB"
    "take (unat (buf_ndx tr')) (tr_buffer tr') = bs"
    using feed_sb [of ?tr bs] bs by auto
  moreover from tr' have "telnet_reader_feed tr' [IAC, SE] =
      Inr (tr'\<lparr>tr_state := telnet_reader_state_start\<rparr>, [Cmdback (tr'\<lparr>tr_state := telnet_reader_state_wait_for_se\<rparr>)])"
    by (simp add: telnet_reader_state_machine_def telnet_reader_handle_subcommand_def
        telnet_reader_move_state_def)
  ultimately have "telnet_reader_feed tr ([IAC, SB] @ bs @ [IAC, SE]) =
      Inr (tr'\<lparr>tr_state := telnet_reader_state_start\<rparr>, [Cmdback (tr'\<lparr>tr_state := telnet_reader_state_wait_for_se\<rparr>)])"
    by (simp only: feed_append bindE.simps prod.case append_Nil)
  then show ?thesis using tr' Subneg by (auto simp: reader_ok_def)
qed


definition demo_reader :: telnet_reader where
  "demo_reader = telnet_reader_init \<lparr>tr_buffer = replicate 32 7, buf_ndx = 9,
     tr_state = telnet_reader_state_rx_sb, tr_command = 0, tr_opt = 0\<rparr>"

lemma demo_reader_ok: "reader_ok demo_reader" "tr_state demo_reader = telnet_reader_state_start"
  by (simp_all add: demo_reader_def telnet_reader_init_def reader_ok_def TELNET_READER_BUFFER_SIZE_def)


text \<open>
  On arbitrary octets the reader returns: no write leaves its 32 octets, however long a
  subnegotiation is, no callback is made without an octet of its own, and the reader can go on.
\<close>

lemma telnet_reader_safe:
  assumes "reader_ok tr"
  shows "\<exists>tr' es. telnet_reader_feed tr ds = Inr (tr', es) \<and> reader_ok tr' \<and> length es \<le> length ds"
proof -
  have len: "length es \<le> 1" if "telnet_reader_state_machine tr d = Inr (tr', es)" for tr d tr' es
    using that by (auto simp: telnet_reader_state_machine_def Let_def res_iff
        split: telnet_reader_state.splits if_splits prod.splits)
  have "length es \<le> length ds" if "telnet_reader_feed tr ds = Inr (tr', es)" for tr tr' es
    using that
  proof (induction ds arbitrary: tr es)
    case (Cons d ds)
    then obtain tr1 es1 es2 where s: "telnet_reader_state_machine tr d = Inr (tr1, es1)"
      "telnet_reader_feed tr1 ds = Inr (tr', es2)" "es = es1 @ es2"
      by (auto simp: res_iff)
    have "length es1 \<le> 1" "length es2 \<le> length ds" using len [OF s(1)] Cons.IH [OF s(2)] by simp_all
    then show ?case using s(3) by simp
  qed simp
  then show ?thesis using feed_ok [OF assms, of ds]
    by (cases "telnet_reader_feed tr ds") auto
qed

theorem telnet_reader_safe_witness:
  "\<exists>tr' es. telnet_reader_feed demo_reader ([IAC, SB] @ replicate 40 1) = Inr (tr', es) \<and> reader_ok tr'"
  using telnet_reader_safe [OF demo_reader_ok(1), of "[IAC, SB] @ replicate 40 1"] by blast

end
