(* ===== verification/Cli_Telnet.thy ===== *)
theory Cli_Telnet
  imports Tcp_Server Cli Telnet_Reader
begin

text \<open>
  The telnet server of \<^verbatim>\<open>libutils/cli_telnet.c\<close>: connections that are accepted from the listening socket,
  each with a stream, a telnet reader and a command line, under the event loop of \<open>Io_Driver\<close>.
\<close>

section \<open>State\<close>

text \<open>A connection; its buffer \<open>rx_buf\<close> is that of the stream.\<close>

record cli_connection =
  c_stream :: stream
  c_cli :: cli_intf
  c_telnet :: telnet_reader

text \<open>
  A connection is known by its address, which is also used for the address of the watcher in it;
  \<open>None\<close> is memory that was freed or never allocated. \<open>intf_list\<close> has the registered interfaces. The results of
  \<open>malloc\<close> are a stream: the address of a connection with what is found in the memory, and the memory for the
  buffer of its stream. \<open>peers\<close> has the addresses that \<open>getpeername\<close> stores. \<open>user\<close> is the state
  of the program that the commands of the user see, \<open>others\<close> the addresses of the watchers that the rest of the
  program has in the same event loop.
\<close>

record 'u cli_server =
  tcp_server :: tcp_server
  conns :: "nat list"
  intf_list :: "nat list"
  conn_mem :: "nat \<Rightarrow> cli_connection option"
  srv_sys :: sys
  accepts :: "nat \<Rightarrow> int"
  n_accepts :: nat
  mallocs :: "nat \<Rightarrow> (nat \<times> io_driver_watcher \<times> cli_connection \<times> u8 list option) option"
  n_mallocs :: nat
  peers :: "int \<Rightarrow> sockaddr_in"
  user :: 'u
  others :: "nat set"

text \<open>A command of the user: it changes his state and prints, or fails.\<close>

record 'u user_command =
  u_command :: "u8 list"
  u_help :: "u8 list"
  u_handler :: "u8 list list \<Rightarrow> 'u \<Rightarrow> ('u \<times> u8 list list) res"

type_synonym 'u srv = "io_driver \<times> 'u cli_server"

section \<open>Operations\<close>

definition get_conn :: "'u srv \<Rightarrow> nat \<Rightarrow> cli_connection res" where
  "get_conn s a = (case conn_mem (snd s) a of None \<Rightarrow> Inl UseAfterFree | Some c \<Rightarrow> Inr c)"

definition set_conn :: "nat \<Rightarrow> cli_connection \<Rightarrow> 'u srv \<Rightarrow> 'u srv" where
  "set_conn a c s = (fst s, (snd s)\<lparr>conn_mem := (conn_mem (snd s))(a \<mapsto> c)\<rparr>)"

definition conn_stream_write :: "nat \<Rightarrow> u8 list \<Rightarrow> int \<Rightarrow> 'u srv \<Rightarrow> 'u srv res" where
  "conn_stream_write a data len s =
     bindE (get_conn s a) (\<lambda>c.
     bindE (stream_write (fst s) (c_stream c) (srv_sys (snd s)) data len) (\<lambda>(io, st, sy, _).
     Inr (set_conn a (c\<lparr>c_stream := st\<rparr>) (io, (snd s)\<lparr>srv_sys := sy\<rparr>))))"

definition cli_put_tx_data :: "nat \<Rightarrow> u8 list \<Rightarrow> int \<Rightarrow> 'u srv \<Rightarrow> 'u srv res" where
  "cli_put_tx_data a data len s = conn_stream_write a data len s"

text \<open>\<open>cli_printf\<close> to the connection \<open>a\<close>.\<close>

definition conn_printf :: "nat \<Rightarrow> u8 list \<Rightarrow> 'u srv \<Rightarrow> 'u srv res" where
  "conn_printf a = cli_printf \<lparr>put_tx_data = cli_put_tx_data a, user_commands = [], show_connections = Inr\<rparr>"

definition peer_text :: "'u cli_server \<Rightarrow> int \<Rightarrow> u8 list" where
  "peer_text srv fd = fmt_addr (peers srv fd) @ CLI_EOL"

lemma length_peer_text: "length (peer_text srv fd) \<le> 513"
  using length_fmt(6) [of "peers srv fd"] by (simp add: peer_text_def CLI_EOL_def)

definition cli_telnet_show_connections :: "nat \<Rightarrow> 'u srv \<Rightarrow> 'u srv res" where
  "cli_telnet_show_connections a s =
     foldE (\<lambda>q s.
       bindE (get_conn s q) (\<lambda>c.
       bindE (get_watcher (fst s) (st_watcher (c_stream c))) (\<lambda>w.
       conn_printf a (peer_text (snd s) (w_fd w)) s))) (conns (snd s)) s"

definition run_user_command :: "nat \<Rightarrow> 'u user_command \<Rightarrow> u8 list list \<Rightarrow> 'u srv \<Rightarrow> 'u srv res" where
  "run_user_command a uc argv s =
     bindE (u_handler uc argv (user (snd s))) (\<lambda>(u, outs).
     foldE (conn_printf a) outs (fst s, (snd s)\<lparr>user := u\<rparr>))"

definition conn_env :: "'u user_command list \<Rightarrow> nat \<Rightarrow> 'u srv cli_env" where
  "conn_env ucs a = \<lparr>put_tx_data = cli_put_tx_data a,
     user_commands = map (\<lambda>uc. \<lparr>command = u_command uc, help_str = u_help uc, handler = run_user_command a uc\<rparr>) ucs,
     show_connections = cli_telnet_show_connections a\<rparr>"

text \<open>\<open>cli_handle_rx\<close> for the interface of a connection.\<close>

definition conn_handle_rx :: "'u user_command list \<Rightarrow> nat \<Rightarrow> u8 list \<Rightarrow> 'u srv \<Rightarrow> 'u srv res" where
  "conn_handle_rx ucs a data s =
     bindE (get_conn s a) (\<lambda>c.
     bindE (cli_handle_rx (conn_env ucs a) (c_cli c) data s) (\<lambda>(intf, s).
     bindE (get_conn s a) (\<lambda>c. Inr (set_conn a (c\<lparr>c_cli := intf\<rparr>) s))))"

definition telnet_rx_databack :: "'u user_command list \<Rightarrow> nat \<Rightarrow> u8 \<Rightarrow> 'u srv \<Rightarrow> 'u srv res" where
  "telnet_rx_databack ucs a d s = (if d = 0 then Inr s else conn_handle_rx ucs a [d] s)"

definition telnet_rx_cmdback :: "'u srv \<Rightarrow> 'u srv res" where
  "telnet_rx_cmdback s = Inr s"

definition telnet_callback :: "'u user_command list \<Rightarrow> nat \<Rightarrow> telnet_event \<Rightarrow> 'u srv \<Rightarrow> 'u srv res" where
  "telnet_callback ucs a e s =
     (case e of Databack d \<Rightarrow> telnet_rx_databack ucs a d s | Cmdback _ \<Rightarrow> telnet_rx_cmdback s)"

definition cli_intf_register :: "nat \<Rightarrow> 'u srv \<Rightarrow> 'u srv res" where
  "cli_intf_register a s =
     bindE (get_conn s a) (\<lambda>c.
     let s = set_conn a (c\<lparr>c_cli := (c_cli c)\<lparr>cmd_buffer_ndx := 0\<rparr>\<rparr>) s
     in Inr (fst s, (snd s)\<lparr>intf_list := intf_list (snd s) @ [a]\<rparr>))"

definition cli_intf_unregister :: "nat \<Rightarrow> 'u srv \<Rightarrow> 'u srv" where
  "cli_intf_unregister a s = (fst s, (snd s)\<lparr>intf_list := remove1 a (intf_list (snd s))\<rparr>)"

definition dealloc_cli_connection :: "nat \<Rightarrow> 'u srv \<Rightarrow> 'u srv res" where
  "dealloc_cli_connection a s =
     bindE (get_conn s a) (\<lambda>c.
     bindE (stream_deinit (fst s) (c_stream c) (srv_sys (snd s))) (\<lambda>(io, st, sy).
     let s = set_conn a (c\<lparr>c_stream := st\<rparr>) (io, (snd s)\<lparr>srv_sys := sy\<rparr>);
         (io, srv) = cli_intf_unregister a s;
         srv = srv\<lparr>conns := remove1 a (conns srv)\<rparr>
     in Inr (io\<lparr>watcher_mem := (watcher_mem io)(a := None)\<rparr>, srv\<lparr>conn_mem := (conn_mem srv)(a := None)\<rparr>)))"

definition TELOPT_ECHO :: u8 where "TELOPT_ECHO = 1"
definition TELOPT_SGA :: u8 where "TELOPT_SGA = 3"

definition init_telnet_session :: "nat \<Rightarrow> 'u srv \<Rightarrow> 'u srv res" where
  "init_telnet_session a s =
     (let iacs_to_send = [IAC, WILL, TELOPT_SGA, IAC, WILL, TELOPT_ECHO]
      in conn_stream_write a iacs_to_send (int (length iacs_to_send)) s)"

definition alloc_cli_connection :: "'u user_command list \<Rightarrow> int \<Rightarrow> 'u srv \<Rightarrow> 'u srv res" where
  "alloc_cli_connection ucs newsd s =
     (let srv = (snd s)\<lparr>n_mallocs := Suc (n_mallocs (snd s))\<rparr> in
      case mallocs srv (n_mallocs (snd s)) of
        None \<Rightarrow> Inr (fst s, srv\<lparr>srv_sys := sys_close (srv_sys srv) newsd\<rparr>)
      | Some (a, w, c, memory) \<Rightarrow>
          let io = set_watcher a w (fst s);
              c = c\<lparr>c_stream := (c_stream c)\<lparr>st_watcher := a\<rparr>\<rparr>;
              srv = srv\<lparr>conns := conns srv @ [a]\<rparr>
          in bindE (stream_init_with_fd io (c_stream c) newsd (rx_buf (c_stream c)) 128 memory 128) (\<lambda>(io, st).
             let s = set_conn a (c\<lparr>c_stream := st\<rparr>) (io, srv) in
             bindE (cli_intf_register a s) (\<lambda>s.
             bindE (get_conn s a) (\<lambda>c.
             let s = set_conn a (c\<lparr>c_telnet := telnet_reader_init (c_telnet c)\<rparr>) s in
             bindE (init_telnet_session a s) (conn_handle_rx ucs a [13])))))"

definition handle_stream_event :: "'u user_command list \<Rightarrow> nat \<Rightarrow> stream_event \<Rightarrow> 'u srv \<Rightarrow> 'u srv res" where
  "handle_stream_event ucs a evt s =
     (case evt of
        stream_event_rx \<Rightarrow>
          bindE (get_conn s a) (\<lambda>c.
          bindE (copy_from (rx_buf (c_stream c)) 0 (rx_data_len (c_stream c))) (\<lambda>data.
          bindE (telnet_reader_feed (c_telnet c) data) (\<lambda>(tr, es).
          foldE (telnet_callback ucs a) es (set_conn a (c\<lparr>c_telnet := tr\<rparr>) s))))
      | stream_event_eof \<Rightarrow> dealloc_cli_connection a s
      | stream_event_err \<Rightarrow> dealloc_cli_connection a s
      | stream_event_tx \<Rightarrow> Inr s)"

definition cli_server_new_connection :: "'u user_command list \<Rightarrow> int \<Rightarrow> 'u srv \<Rightarrow> 'u srv res" where
  "cli_server_new_connection ucs newsd s = alloc_cli_connection ucs newsd s"

text \<open>The callback of the stream of a connection, and that of the listening socket.\<close>

definition conn_watcher_callback :: "'u user_command list \<Rightarrow> nat \<Rightarrow> io_driver_event \<Rightarrow> 'u srv \<Rightarrow> 'u srv res" where
  "conn_watcher_callback ucs a evt s =
     bindE (get_conn s a) (\<lambda>c.
     bindE (stream_watcher_callback (fst s) (c_stream c) (srv_sys (snd s)) evt) (\<lambda>(io, st, sy, sevt).
     let s = set_conn a (c\<lparr>c_stream := st\<rparr>) (io, (snd s)\<lparr>srv_sys := sy\<rparr>)
     in case sevt of None \<Rightarrow> Inr s | Some e \<Rightarrow> handle_stream_event ucs a e s))"

definition tcp_server_watcher_callback :: "'u user_command list \<Rightarrow> io_driver_event \<Rightarrow> 'u srv \<Rightarrow> 'u srv res" where
  "tcp_server_watcher_callback ucs evt s =
     (let newsd = accepts (snd s) (n_accepts (snd s))
      in tcp_server_ipv4_rx_event (cli_server_new_connection ucs) newsd
           (fst s, (snd s)\<lparr>n_accepts := Suc (n_accepts (snd s))\<rparr>))"

text \<open>What \<open>watcher->callback\<close> is for the watchers of the server.\<close>

definition cli_callback :: "'u user_command list \<Rightarrow> 'u cli_server io_callback" where
  "cli_callback ucs p evt s =
     (if p = ts_watcher (tcp_server (snd s)) then tcp_server_watcher_callback ucs evt s
      else conn_watcher_callback ucs p evt s)"

text \<open>Starting the server; \<open>tcp_server_ipv4_init\<close> may fail, which nobody looks at.\<close>

definition cli_telnet_server_init :: "int \<Rightarrow> int \<Rightarrow> int \<Rightarrow> int \<Rightarrow> 'u srv \<Rightarrow> 'u srv res" where
  "cli_telnet_server_init port sd bind_ret listen_ret s =
     (let srv = (snd s)\<lparr>conns := []\<rparr> in
      bindE (tcp_server_ipv4_init (fst s) (tcp_server srv) (srv_sys srv) port sd bind_ret listen_ret) (\<lambda>(io, ts, sy, _).
      Inr (io, srv\<lparr>tcp_server := tcp_server_start ts, srv_sys := sy\<rparr>)))"

definition cli_telnet_intf_init :: "int \<Rightarrow> int \<Rightarrow> int \<Rightarrow> int \<Rightarrow> 'u srv \<Rightarrow> 'u srv res" where
  "cli_telnet_intf_init port sd bind_ret listen_ret s = cli_telnet_server_init port sd bind_ret listen_ret s"

text \<open>\<open>cli_init\<close> of \<^verbatim>\<open>cli.c\<close>: the static table of the user's commands, which is an argument of the other
  operations, and the start of the server.\<close>

definition cli_init ::
  "'u user_command list \<Rightarrow> int \<Rightarrow> int \<Rightarrow> int \<Rightarrow> int \<Rightarrow> 'u srv \<Rightarrow> ('u user_command list \<times> 'u srv) res" where
  "cli_init cmds port sd bind_ret listen_ret s =
     bindE (cli_telnet_intf_init port sd bind_ret listen_ret s) (\<lambda>s. Inr (cmds, s))"

section \<open>The invariant\<close>

definition conn_ok :: "(nat \<Rightarrow> io_driver_watcher option) \<Rightarrow> nat \<Rightarrow> cli_connection \<Rightarrow> bool" where
  "conn_ok mem a c \<longleftrightarrow> st_watcher (c_stream c) = a \<and> cb_wf (tx_buf (c_stream c)) \<and>
     rx_buf_size (c_stream c) = 128 \<and> length (rx_buf (c_stream c)) = 128 \<and>
     intf_ok (c_cli c) \<and> reader_ok (c_telnet c) \<and> (\<exists>w. mem a = Some w \<and> event_listening w AND NOT 7 = 0)"

text \<open>
  What is asked of \<open>malloc\<close>: addresses that are not in use, none of them twice, memory of the size that was
  asked for; and once there is memory for a connection there is some for its buffer.
\<close>

definition malloc_fits :: "(nat \<Rightarrow> io_driver_watcher option) \<Rightarrow> 'u cli_server \<Rightarrow> nat \<Rightarrow> nat \<Rightarrow> cli_connection \<Rightarrow> u8 list option \<Rightarrow> bool" where
  "malloc_fits mem srv k a c m \<longleftrightarrow>
     mem a = None \<and> (\<exists>b. m = Some b \<and> length b = 128) \<and> length (rx_buf (c_stream c)) = 128 \<and>
     length (cmd_buffer (c_cli c)) = CLI_MAX_COMMAND_LEN \<and> length (tr_buffer (c_telnet c)) = TELNET_READER_BUFFER_SIZE \<and>
     (\<forall>l > k. \<forall>a' w' c' m'. mallocs srv l = Some (a', w', c', m') \<longrightarrow> a' \<noteq> a)"

definition mallocs_ok :: "(nat \<Rightarrow> io_driver_watcher option) \<Rightarrow> 'u cli_server \<Rightarrow> bool" where
  "mallocs_ok mem srv \<longleftrightarrow>
     (\<forall>k \<ge> n_mallocs srv. \<forall>a w c m. mallocs srv k = Some (a, w, c, m) \<longrightarrow> malloc_fits mem srv k a c m)"

definition srv_ok :: "(nat \<Rightarrow> io_driver_watcher option) \<Rightarrow> 'u cli_server \<Rightarrow> bool" where
  "srv_ok mem srv \<longleftrightarrow>
     mem (ts_watcher (tcp_server srv)) \<noteq> None \<and> conn_mem srv (ts_watcher (tcp_server srv)) = None \<and>
     (\<forall>a c. conn_mem srv a = Some c \<longrightarrow> conn_ok mem a c) \<and>
     dom mem = insert (ts_watcher (tcp_server srv)) (others srv \<union> dom (conn_mem srv)) \<and>
     distinct (conns srv) \<and> set (conns srv) = dom (conn_mem srv) \<and>
     distinct (intf_list srv) \<and> set (intf_list srv) = dom (conn_mem srv) \<and>
     sys_sane (srv_sys srv) \<and> mallocs_ok mem srv \<and>
     others srv \<inter> insert (ts_watcher (tcp_server srv)) (dom (conn_mem srv)) = {}"

lemma srv_okD:
  assumes "srv_ok mem srv"
  shows "mem (ts_watcher (tcp_server srv)) \<noteq> None" "conn_mem srv (ts_watcher (tcp_server srv)) = None"
    "conn_mem srv a = Some c \<Longrightarrow> conn_ok mem a c"
    "dom mem = insert (ts_watcher (tcp_server srv)) (others srv \<union> dom (conn_mem srv))"
    "distinct (conns srv)" "set (conns srv) = dom (conn_mem srv)"
    "distinct (intf_list srv)" "set (intf_list srv) = dom (conn_mem srv)"
    "sys_sane (srv_sys srv)" "mallocs_ok mem srv" "length (peer_text srv fd) \<le> 513"
    "others srv \<inter> insert (ts_watcher (tcp_server srv)) (dom (conn_mem srv)) = {}"
  using assms length_peer_text [of srv fd] unfolding srv_ok_def by blast+

lemma srv_okI:
  assumes "mem (ts_watcher (tcp_server srv)) \<noteq> None" "conn_mem srv (ts_watcher (tcp_server srv)) = None"
    "\<And>a c. conn_mem srv a = Some c \<Longrightarrow> conn_ok mem a c"
    "dom mem = insert (ts_watcher (tcp_server srv)) (others srv \<union> dom (conn_mem srv))"
    "distinct (conns srv)" "set (conns srv) = dom (conn_mem srv)"
    "distinct (intf_list srv)" "set (intf_list srv) = dom (conn_mem srv)"
    "sys_sane (srv_sys srv)" "mallocs_ok mem srv"
    "others srv \<inter> insert (ts_watcher (tcp_server srv)) (dom (conn_mem srv)) = {}"
  shows "srv_ok mem srv"
  using assms unfolding srv_ok_def by blast

lemma mallocs_ok_cong:
  assumes "\<And>q. mem' q = None \<longleftrightarrow> mem q = None" "n_mallocs srv' = n_mallocs srv" "mallocs srv' = mallocs srv"
  shows "mallocs_ok mem' srv' \<longleftrightarrow> mallocs_ok mem srv"
  unfolding mallocs_ok_def malloc_fits_def assms ..

lemma mallocs_ok_mono:
  assumes "mallocs_ok mem srv" "n_mallocs srv \<le> n_mallocs srv'" "mallocs srv' = mallocs srv"
    "\<And>q k w c m. mem q = None \<Longrightarrow> n_mallocs srv' \<le> k \<Longrightarrow> mallocs srv k = Some (q, w, c, m) \<Longrightarrow> mem' q = None"
  shows "mallocs_ok mem' srv'"
  unfolding mallocs_ok_def
proof (intro allI impI)
  fix k a w c m
  assume k: "n_mallocs srv' \<le> k" "mallocs srv' k = Some (a, w, c, m)"
  then have "n_mallocs srv \<le> k" "mallocs srv k = Some (a, w, c, m)" using assms(2,3) by simp_all
  with assms(1) have "malloc_fits mem srv k a c m" unfolding mallocs_ok_def by blast
  then show "malloc_fits mem' srv' k a c m"
    using assms(4) [OF _ k(1) \<open>mallocs srv k = Some (a, w, c, m)\<close>] unfolding malloc_fits_def assms(3) by blast
qed

text \<open>\<open>I\<close> is the invariant of the user's state.\<close>

definition srv_inv :: "('u \<Rightarrow> bool) \<Rightarrow> 'u srv \<Rightarrow> bool" where
  "srv_inv I s \<longleftrightarrow> io_wf (fst s) \<and> srv_ok (watcher_mem (fst s)) (snd s) \<and> I (user (snd s))"

text \<open>Steps, in the callback of \<open>p\<close>, that neither add nor remove connections.\<close>

definition quiet :: "('u \<Rightarrow> bool) \<Rightarrow> nat \<Rightarrow> 'u srv \<Rightarrow> 'u srv \<Rightarrow> bool" where
  "quiet I p s s' \<longleftrightarrow> srv_inv I s' \<and> cb_step p (fst s) (fst s') \<and>
     dom (conn_mem (snd s')) = dom (conn_mem (snd s)) \<and> dom (watcher_mem (fst s')) = dom (watcher_mem (fst s)) \<and>
     others (snd s') = others (snd s)"

lemma quiet_refl: "srv_inv I s \<Longrightarrow> quiet I p s s"
  by (simp add: quiet_def)

lemma quiet_trans: "quiet I p s s' \<Longrightarrow> quiet I p s' s'' \<Longrightarrow> quiet I p s s''"
  unfolding quiet_def using cb_step_trans [of p "fst s" "fst s'" "fst s''"] by simp

text \<open>The commands keep the invariant of the user's state, and their texts are short enough for the buffer that
  they are printed from.\<close>

definition commands_ok :: "('u \<Rightarrow> bool) \<Rightarrow> 'u user_command list \<Rightarrow> bool" where
  "commands_ok I ucs \<longleftrightarrow> (\<forall>uc \<in> set ucs. length (u_command uc) \<le> 500 \<and> length (u_help uc) \<le> 500 \<and>
     (\<forall>argv u. argv_ok argv \<longrightarrow> I u \<longrightarrow> outcome {} (\<lambda>(u', outs). I u' \<and> (\<forall>t \<in> set outs. length t \<le> 513)) (u_handler uc argv u)))"

lemma srv_conn:
  assumes "srv_inv I s" "conn_mem (snd s) a = Some c"
  shows "conn_ok (watcher_mem (fst s)) a c" "stream_ok (fst s) (c_stream c)" "sys_sane (srv_sys (snd s))"
proof -
  show c: "conn_ok (watcher_mem (fst s)) a c" using assms by (simp add: srv_inv_def srv_ok_def)
  then show "stream_ok (fst s) (c_stream c)" using assms(1) by (auto simp: conn_ok_def stream_ok_def srv_inv_def)
  show "sys_sane (srv_sys (snd s))" using assms by (simp add: srv_inv_def srv_ok_def)
qed

text \<open>A step of the stream of a connection, and a change of its other parts, keep the invariant.\<close>

lemma update_conn:
  assumes "srv_inv I s" "conn_mem (snd s) a = Some c" "stream_ok io (c_stream c')"
    "same_stream (fst s) (c_stream c) io (c_stream c')" "sys_sane sy"
    "length (rx_buf (c_stream c')) = 128" "intf_ok (c_cli c')" "reader_ok (c_telnet c')"
  shows "quiet I p s (set_conn a c' (io, (snd s)\<lparr>srv_sys := sy\<rparr>))"
proof -
  note c = srv_conn [OF assms(1,2)]
  have a: "st_watcher (c_stream c) = a" using c(1) by (simp add: conn_ok_def)
  have ss: "st_watcher (c_stream c') = a" "rx_buf_size (c_stream c') = 128"
    "\<forall>p. p \<noteq> a \<longrightarrow> watcher_mem io p = watcher_mem (fst s) p" "\<forall>q. cb_step q (fst s) io"
    "spare_bits io a = spare_bits (fst s) a"
    using assms(4) c(1) a by (simp_all add: same_stream_def conn_ok_def)
  obtain w' where w': "watcher_mem io a = Some w'" using assms(3) ss(1) by (auto simp: stream_ok_def)
  obtain w where w: "watcher_mem (fst s) a = Some w" "event_listening w AND NOT 7 = 0" using c(1) by (auto simp: conn_ok_def)
  have "event_listening w' AND NOT 7 = 0" using ss(5) w w' by (simp add: spare_bits_def)
  then have c': "conn_ok (watcher_mem io) a c'" using ss(1,2) assms(3,6-8) w' by (simp add: conn_ok_def stream_ok_def)
  have others: "conn_ok (watcher_mem io) b d" if "conn_mem (snd s) b = Some d" "b \<noteq> a" for b d
    using srv_conn(1) [OF assms(1) that(1)] ss(3) that(2) by (simp add: conn_ok_def)
  have dom: "dom (watcher_mem io) = dom (watcher_mem (fst s))" using ss(3) w w' by (auto simp: dom_def)
  have none: "watcher_mem io q = None \<longleftrightarrow> watcher_mem (fst s) q = None" for q using dom by (metis domIff)
  let ?srv = "(snd s)\<lparr>srv_sys := sy, conn_mem := (conn_mem (snd s))(a \<mapsto> c')\<rparr>"
  have S: "srv_ok (watcher_mem (fst s)) (snd s)" using assms(1) by (simp add: srv_inv_def)
  have ne: "ts_watcher (tcp_server (snd s)) \<noteq> a" using S assms(2) by (auto simp: srv_ok_def)
  have dc: "dom ((conn_mem (snd s))(a \<mapsto> c')) = dom (conn_mem (snd s))" using assms(2) by auto
  note D = srv_okD [OF S]
  have "mallocs_ok (watcher_mem io) ?srv"
    using D(10) mallocs_ok_cong [OF none, of ?srv "snd s"] by simp
  moreover have "conn_ok (watcher_mem io) b d" if "conn_mem ?srv b = Some d" for b d
    using c' others [of b d] that by (cases "b = a") simp_all
  moreover have "watcher_mem io (ts_watcher (tcp_server ?srv)) \<noteq> None" using D(1) none by simp
  moreover have "conn_mem ?srv (ts_watcher (tcp_server ?srv)) = None" using D(2) ne by simp
  ultimately have "srv_ok (watcher_mem io) ?srv"
    by (intro srv_okI) (use dc dom D(4-8,11,12) assms(5) in simp_all)
  moreover have "I (user (snd s))" using assms(1) by (simp add: srv_inv_def)
  ultimately show ?thesis
    using dc dom assms(3) ss(4) by (simp add: quiet_def srv_inv_def set_conn_def stream_ok_def)
qed

section \<open>The command line of a connection\<close>

lemma conn_write_ok:
  assumes "srv_inv I s" "conn_mem (snd s) a = Some c" "n \<le> length buf" "n < 2 ^ 30"
  shows "outcome {} (quiet I p s) (conn_stream_write a buf (int n) s)"
proof -
  note c = srv_conn [OF assms(1,2)]
  have wf: "cb_wf (tx_buf (c_stream c))" using c(1) by (simp add: conn_ok_def)
  have take: "stream_write (fst s) (c_stream c) (srv_sys (snd s)) buf (int n) =
      stream_write (fst s) (c_stream c) (srv_sys (snd s)) (take n buf) (int (length (take n buf)))"
    using stream_write_take [OF wf c(3) assms(3,4)] by (simp only: length_take min.absorb2 [OF assms(3)])
  have "length (take n buf) < 2 ^ 30" using assms(4) by simp
  then obtain io st sy b where w: "stream_write (fst s) (c_stream c) (srv_sys (snd s)) buf (int n) = Inr (io, st, sy, b)"
    "stream_ok io st" "same_stream (fst s) (c_stream c) io st"
    "write_post (fst s) (c_stream c) (srv_sys (snd s)) (take n buf) (io, st, sy, b)"
    using stream_write_ok [OF c(2,3), of "take n buf"] unfolding take by blast
  have "quiet I p s (set_conn a (c\<lparr>c_stream := st\<rparr>) (io, (snd s)\<lparr>srv_sys := sy\<rparr>))"
    by (rule update_conn [OF assms(1,2)])
      (use w(2,3) write_post_sane [OF w(4) c(3)] c(1) in \<open>simp_all add: conn_ok_def same_stream_def\<close>)
  then show ?thesis using assms(2) w(1) by (simp add: conn_stream_write_def get_conn_def)
qed

text \<open>What holds while the command line of \<open>a\<close> runs, in a callback of \<open>p\<close> that started in \<open>s0\<close>.\<close>

definition conn_running :: "('u \<Rightarrow> bool) \<Rightarrow> 'u user_command list \<Rightarrow> nat \<Rightarrow> nat \<Rightarrow> 'u srv \<Rightarrow> 'u srv \<Rightarrow> bool" where
  "conn_running I ucs a p s0 s \<longleftrightarrow> commands_ok I ucs \<and> conn_mem (snd s0) a \<noteq> None \<and> quiet I p s0 s"

lemma conn_runningD:
  assumes "conn_running I ucs a p s0 s"
  shows "srv_inv I s" "conn_mem (snd s0) q \<noteq> None \<Longrightarrow> \<exists>c. conn_mem (snd s) q = Some c"
    "quiet I p s s' \<Longrightarrow> conn_running I ucs a p s0 s'" "\<exists>c. conn_mem (snd s) a = Some c"
proof -
  have d: "dom (conn_mem (snd s)) = dom (conn_mem (snd s0))" using assms by (simp add: conn_running_def quiet_def)
  show "srv_inv I s" using assms by (simp add: conn_running_def quiet_def)
  show "conn_mem (snd s0) q \<noteq> None \<Longrightarrow> \<exists>c. conn_mem (snd s) q = Some c" for q using d by blast
  then show "\<exists>c. conn_mem (snd s) a = Some c" using assms by (simp add: conn_running_def)
  show "quiet I p s s' \<Longrightarrow> conn_running I ucs a p s0 s'" using assms quiet_trans unfolding conn_running_def by blast
qed

lemma put_running:
  assumes "conn_running I ucs a p s0 s" "n \<le> length buf" "n \<le> 513"
  shows "outcome F (conn_running I ucs a p s0) (cli_put_tx_data a buf (int n) s)"
proof -
  obtain c where c: "conn_mem (snd s) a = Some c" using conn_runningD(4) [OF assms(1)] by blast
  have "n < 2 ^ 30" using assms(3) by simp
  from conn_write_ok [OF conn_runningD(1) [OF assms(1)] c assms(2) this, of p]
  show ?thesis unfolding cli_put_tx_data_def
    by (rule outcome_mono) (use conn_runningD(3) [OF assms(1)] in auto)
qed

lemma printf_running:
  assumes "conn_running I ucs a p s0 s" "length txt \<le> 513"
  shows "outcome F (conn_running I ucs a p s0) (conn_printf a txt s)"
  unfolding conn_printf_def cli_printf_def cli_env.simps
  by (rule put_running [OF assms(1)]) (use assms(2) in \<open>simp_all add: length_print_buffer\<close>)

lemma show_running:
  assumes "conn_running I ucs a p s0 s"
  shows "outcome F (conn_running I ucs a p s0) (cli_telnet_show_connections a s)"
  unfolding cli_telnet_show_connections_def
proof (rule foldE_outcome)
  show "conn_running I ucs a p s0 s" by (rule assms)
  fix q s'
  assume q: "q \<in> set (conns (snd s))" and s': "conn_running I ucs a p s0 s'"
  have "conn_mem (snd s) q \<noteq> None"
    using q conn_runningD(1) [OF assms] srv_okD(6) unfolding srv_inv_def by blast
  moreover have "dom (conn_mem (snd s)) = dom (conn_mem (snd s'))"
    using assms s' by (simp add: conn_running_def quiet_def)
  ultimately obtain c where c: "conn_mem (snd s') q = Some c" by blast
  have inv: "srv_inv I s'" by (rule conn_runningD(1) [OF s'])
  obtain w where "watcher_mem (fst s') (st_watcher (c_stream c)) = Some w"
    using srv_conn(1) [OF inv c] by (auto simp: conn_ok_def)
  moreover have "length (peer_text (snd s') (w_fd w)) \<le> 513" by (rule length_peer_text)
  ultimately show "outcome F (conn_running I ucs a p s0) (bindE (get_conn s' q) (\<lambda>c.
      bindE (get_watcher (fst s') (st_watcher (c_stream c))) (\<lambda>w. conn_printf a (peer_text (snd s') (w_fd w)) s')))"
    using c printf_running [OF s'] by (simp add: get_conn_def get_watcher_def)
qed

lemma user_running:
  assumes "conn_running I ucs a p s0 s" "uc \<in> set ucs" "argv_ok argv"
  shows "outcome F (conn_running I ucs a p s0) (run_user_command a uc argv s)"
proof -
  have "I (user (snd s))" using conn_runningD(1) [OF assms(1)] by (simp add: srv_inv_def)
  then have h: "outcome {} (\<lambda>(u', outs). I u' \<and> (\<forall>t \<in> set outs. length t \<le> 513)) (u_handler uc argv (user (snd s)))"
    using assms unfolding conn_running_def commands_ok_def by blast
  then obtain u outs where u: "u_handler uc argv (user (snd s)) = Inr (u, outs)" "I u" "\<forall>t \<in> set outs. length t \<le> 513"
    by (cases "u_handler uc argv (user (snd s))") auto
  let ?s = "(fst s, (snd s)\<lparr>user := u\<rparr>)"
  have "srv_ok (watcher_mem (fst s)) ((snd s)\<lparr>user := u\<rparr>) \<longleftrightarrow> srv_ok (watcher_mem (fst s)) (snd s)"
    by (simp add: srv_ok_def mallocs_ok_def malloc_fits_def)
  then have "quiet I p s ?s" using conn_runningD(1) [OF assms(1)] u(2) by (simp add: quiet_def srv_inv_def)
  then have "conn_running I ucs a p s0 ?s" by (rule conn_runningD(3) [OF assms(1)])
  then have "outcome F (conn_running I ucs a p s0) (foldE (conn_printf a) outs ?s)"
    by (intro foldE_outcome printf_running) (use u(3) in auto)
  then show ?thesis using u(1) by (simp add: run_user_command_def)
qed

text \<open>The command line of a connection meets its contract.\<close>

interpretation conn: cli_host "conn_env ucs a" "conn_running I ucs a p s0" "{OobWrite}"
  for ucs :: "'u user_command list" and a p :: nat and s0 :: "'u srv"
proof
  fix st :: "'u srv" and n :: nat and buf :: "u8 list" and c argv
  assume st: "conn_running I ucs a p s0 st"
  show "n \<le> length buf \<Longrightarrow> n \<le> 513 \<Longrightarrow> outcome {OobWrite} (conn_running I ucs a p s0) (put_tx_data (conn_env ucs a) buf (int n) st)"
    using put_running [OF st] by (simp add: conn_env_def)
  show "c \<in> set (user_commands (conn_env ucs a)) \<Longrightarrow> argv_ok argv \<Longrightarrow>
      outcome {OobWrite} (conn_running I ucs a p s0) (handler c argv st)"
    using user_running [OF st] by (auto simp: conn_env_def)
  show "c \<in> set (user_commands (conn_env ucs a)) \<Longrightarrow> length (command c) \<le> 500 \<and> length (help_str c) \<le> 500"
    using st by (auto simp: conn_env_def conn_running_def commands_ok_def)
  show "outcome {OobWrite} (conn_running I ucs a p s0) (show_connections (conn_env ucs a) st)"
    using show_running [OF st] by (simp add: conn_env_def)
qed simp

lemma conn_rx_ok:
  assumes "srv_inv I s" "conn_mem (snd s) a = Some c" "commands_ok I ucs"
  shows "outcome {OobWrite} (quiet I p s) (conn_handle_rx ucs a data s)"
proof -
  have run: "conn_running I ucs a p s s" using assms quiet_refl by (simp add: conn_running_def)
  have "intf_ok (c_cli c)" using srv_conn(1) [OF assms(1,2)] by (simp add: conn_ok_def)
  note rx = conn.handle_rx_ok [OF run this, of data]
  have "outcome {OobWrite} (quiet I p s) (bindE (get_conn s' a) (\<lambda>c. Inr (set_conn a (c\<lparr>c_cli := intf\<rparr>) s')))"
    if h: "intf_ok intf" "conn_running I ucs a p s s'" for intf s'
  proof -
    obtain c' where c': "conn_mem (snd s') a = Some c'" using conn_runningD(4) [OF h(2)] by blast
    have inv: "srv_inv I s'" by (rule conn_runningD(1) [OF h(2)])
    note ok = srv_conn [OF inv c']
    have "quiet I p s' (set_conn a (c'\<lparr>c_cli := intf\<rparr>) (fst s', (snd s')\<lparr>srv_sys := srv_sys (snd s')\<rparr>))"
      by (rule update_conn [OF inv c']) (use ok h(1) in \<open>simp_all add: conn_ok_def\<close>)
    moreover have "quiet I p s s'" using h(2) by (simp add: conn_running_def)
    ultimately show ?thesis using c' quiet_trans by (fastforce simp: get_conn_def)
  qed
  then show ?thesis
    unfolding conn_handle_rx_def using assms(2)
    by (auto simp: get_conn_def intro!: outcome_bind [OF rx])
qed

section \<open>The callbacks of the event loop\<close>

lemma telnet_events_ok:
  assumes "srv_inv I s" "conn_mem (snd s) a = Some c" "commands_ok I ucs"
  shows "outcome {OobWrite} (quiet I p s) (foldE (telnet_callback ucs a) es s)"
proof -
  have step: "outcome {OobWrite} (conn_running I ucs a p s) (telnet_callback ucs a e s')" if r: "conn_running I ucs a p s s'" for e s'
  proof -
    obtain c' where c': "conn_mem (snd s') a = Some c'" using conn_runningD(4) [OF r] by blast
    have rx: "outcome {OobWrite} (conn_running I ucs a p s) (conn_handle_rx ucs a [d] s')" for d
      by (rule outcome_mono [OF conn_rx_ok [OF conn_runningD(1) [OF r] c' assms(3), of p]])
        (use conn_runningD(3) [OF r] in auto)
    then show ?thesis using r
      by (cases e) (auto simp: telnet_callback_def telnet_rx_databack_def telnet_rx_cmdback_def)
  qed
  have "conn_running I ucs a p s s" using assms quiet_refl by (simp add: conn_running_def)
  then have "outcome {OobWrite} (conn_running I ucs a p s) (foldE (telnet_callback ucs a) es s)"
    by (intro foldE_outcome step)
  then show ?thesis by (rule outcome_mono) (auto simp: conn_running_def)
qed

lemma receive_ok:
  assumes "srv_inv I s" "conn_mem (snd s) a = Some c" "commands_ok I ucs" "0 \<le> rx_data_len (c_stream c)"
    "rx_data_len (c_stream c) \<le> 128"
  shows "outcome {OobWrite} (quiet I p s) (handle_stream_event ucs a stream_event_rx s)"
proof -
  note c = srv_conn [OF assms(1,2)]
  obtain data where data: "copy_from (rx_buf (c_stream c)) 0 (rx_data_len (c_stream c)) = Inr data"
    using c(1) assms(4,5) by (simp add: copy_from_def conn_ok_def)
  have "reader_ok (c_telnet c)" using c(1) by (simp add: conn_ok_def)
  from feed_ok [OF this, of data] obtain tr es where tr: "telnet_reader_feed (c_telnet c) data = Inr (tr, es)" "reader_ok tr"
    by (cases "telnet_reader_feed (c_telnet c) data") auto
  let ?s = "set_conn a (c\<lparr>c_telnet := tr\<rparr>) s"
  have "quiet I p s (set_conn a (c\<lparr>c_telnet := tr\<rparr>) (fst s, (snd s)\<lparr>srv_sys := srv_sys (snd s)\<rparr>))"
    by (rule update_conn [OF assms(1,2)]) (use c tr(2) in \<open>simp_all add: conn_ok_def\<close>)
  then have q: "quiet I p s ?s" by simp
  have ev: "outcome {OobWrite} (quiet I p ?s) (foldE (telnet_callback ucs a) es ?s)"
    by (rule telnet_events_ok [of _ _ _ "c\<lparr>c_telnet := tr\<rparr>"]) (use q assms(3) in \<open>simp_all add: quiet_def set_conn_def\<close>)
  have "outcome {OobWrite} (quiet I p s) (foldE (telnet_callback ucs a) es ?s)"
    by (rule outcome_mono [OF ev]) (use quiet_trans [OF q] in auto)
  then show ?thesis using assms(2) data tr(1) by (simp add: handle_stream_event_def get_conn_def)
qed

text \<open>The end of a connection: its memory is gone.\<close>

definition closed_conn :: "('u \<Rightarrow> bool) \<Rightarrow> nat \<Rightarrow> 'u srv \<Rightarrow> 'u srv \<Rightarrow> bool" where
  "closed_conn I a s s' \<longleftrightarrow> srv_inv I s' \<and> cb_step a (fst s) (fst s') \<and> watcher_mem (fst s') a = None \<and>
     dom (conn_mem (snd s')) = dom (conn_mem (snd s)) - {a} \<and> others (snd s') = others (snd s)"

lemma dealloc_ok:
  assumes "srv_inv I s" "conn_mem (snd s) a = Some c"
  shows "\<exists>s'. dealloc_cli_connection a s = Inr s' \<and> closed_conn I a s s'"
proof -
  note c = srv_conn [OF assms(1,2)]
  have io: "io_wf (fst s)" and S: "srv_ok (watcher_mem (fst s)) (snd s)" using assms(1) by (simp_all add: srv_inv_def)
  note D = srv_okD [OF S]
  obtain w where w: "watcher_mem (fst s) a = Some w" "event_listening w AND NOT 7 = 0" "st_watcher (c_stream c) = a"
    using c(1) by (auto simp: conn_ok_def)
  obtain io1 io2 io3 where n: "io_driver_no_watch (fst s) a IO_DRIVER_EVENT_RX = Inr io1"
    "io_driver_no_watch io1 a IO_DRIVER_EVENT_TX = Inr io2" "io_driver_no_watch io2 a IO_DRIVER_EVENT_EX = Inr io3"
    "io_wf io3" "watcher_mem io3 = (watcher_mem (fst s))(a \<mapsto> w\<lparr>event_listening := 0\<rparr>)" "\<forall>q. cb_step q (fst s) io3"
    "a \<notin> set (watchers io3 @ run_list io3)"
    using no_watch_all [OF io w(1,2)] by blast
  let ?sy = "sys_close (srv_sys (snd s)) (w_fd w)"
  let ?io = "io3\<lparr>watcher_mem := (watcher_mem io3)(a := None)\<rparr>"
  let ?srv = "(snd s)\<lparr>srv_sys := ?sy, intf_list := remove1 a (intf_list (snd s)), conns := remove1 a (conns (snd s)),
    conn_mem := (conn_mem (snd s))(a := None)\<rparr>"
  have run: "dealloc_cli_connection a s = Inr (?io, ?srv)"
    using assms(2) n(1-3,5) w(3)
    by (simp add: dealloc_cli_connection_def get_conn_def stream_deinit_def get_watcher_def set_conn_def
        cli_intf_unregister_def Let_def)
  have mem: "watcher_mem ?io = (watcher_mem (fst s))(a := None)" using n(5) by simp
  have ne: "ts_watcher (tcp_server (snd s)) \<noteq> a" using D(2) assms(2) by auto
  have wf: "io_wf ?io" using n(4,5,7) by (auto simp: io_wf_def)
  have "srv_ok (watcher_mem ?io) ?srv"
  proof (rule srv_okI)
    fix b d assume "conn_mem ?srv b = Some d"
    then have "b \<noteq> a" "conn_mem (snd s) b = Some d" by (auto split: if_splits)
    then show "conn_ok (watcher_mem ?io) b d" using D(3) mem by (simp add: conn_ok_def)
  next
    show "dom (watcher_mem ?io) = insert (ts_watcher (tcp_server ?srv)) (others ?srv \<union> dom (conn_mem ?srv))"
      unfolding mem using D(4,12) ne assms(2) by auto
    show "others ?srv \<inter> insert (ts_watcher (tcp_server ?srv)) (dom (conn_mem ?srv)) = {}" using D(12) by auto
    show "mallocs_ok (watcher_mem ?io) ?srv"
      unfolding mem by (rule mallocs_ok_mono [OF D(10)]) simp_all
    show "sys_sane (srv_sys ?srv)" using D(9) by (simp add: sys_sane_def sys_close_def)
    show "watcher_mem ?io (ts_watcher (tcp_server ?srv)) \<noteq> None" unfolding mem using D(1) ne by simp
    show "conn_mem ?srv (ts_watcher (tcp_server ?srv)) = None" using D(2) by simp
    show "set (conns ?srv) = dom (conn_mem ?srv)" using D(5,6) by (simp add: set_remove1_eq)
    show "set (intf_list ?srv) = dom (conn_mem ?srv)" using D(7,8) by (simp add: set_remove1_eq)
    show "distinct (conns ?srv)" "distinct (intf_list ?srv)" using D(5,7) by simp_all
  qed
  moreover have "cb_step a (fst s) ?io" using n(6) unfolding cb_step_def by (auto simp: n(5))
  moreover have "I (user ?srv)" using assms(1) by (simp add: srv_inv_def)
  ultimately have "closed_conn I a s (?io, ?srv)" using wf mem by (auto simp: closed_conn_def srv_inv_def)
  with run show ?thesis by blast
qed

text \<open>A new connection.\<close>

lemma alloc_conn_ok:
  assumes "srv_inv I s" "commands_ok I ucs" "watcher_mem (fst s) p \<noteq> None"
  shows "outcome {OobWrite} (\<lambda>s'. srv_inv I s' \<and> cb_step p (fst s) (fst s') \<and>
    watcher_mem (fst s') p \<noteq> None \<and> others (snd s') = others (snd s)) (alloc_cli_connection ucs newsd s)"
proof (cases "mallocs (snd s) (n_mallocs (snd s))")
  case None
  let ?srv = "(snd s)\<lparr>n_mallocs := Suc (n_mallocs (snd s)), srv_sys := sys_close (srv_sys (snd s)) newsd\<rparr>"
  have io: "io_wf (fst s)" and S: "srv_ok (watcher_mem (fst s)) (snd s)" using assms(1) by (simp_all add: srv_inv_def)
  note D = srv_okD [OF S]
  have "mallocs_ok (watcher_mem (fst s)) ?srv" by (rule mallocs_ok_mono [OF D(10)]) simp_all
  then have "srv_ok (watcher_mem (fst s)) ?srv"
    by (intro srv_okI) (use D in \<open>simp_all add: sys_sane_def sys_close_def\<close>)
  moreover have "I (user (snd s))" using assms(1) by (simp add: srv_inv_def)
  ultimately show ?thesis using None assms(3) io by (simp add: alloc_cli_connection_def srv_inv_def)
next
  case (Some r)
  obtain a w c m where r: "r = (a, w, c, m)" by (cases r)
  have io: "io_wf (fst s)" and S: "srv_ok (watcher_mem (fst s)) (snd s)" using assms(1) by (simp_all add: srv_inv_def)
  note D = srv_okD [OF S]
  have "malloc_fits (watcher_mem (fst s)) (snd s) (n_mallocs (snd s)) a c m"
    using D(10) Some r unfolding mallocs_ok_def by blast
  then obtain b where fresh: "watcher_mem (fst s) a = None" "m = Some b" "length b = 128" "length (rx_buf (c_stream c)) = 128"
    "length (cmd_buffer (c_cli c)) = CLI_MAX_COMMAND_LEN" "length (tr_buffer (c_telnet c)) = TELNET_READER_BUFFER_SIZE"
    "\<And>l a' w' c' m'. n_mallocs (snd s) < l \<Longrightarrow> mallocs (snd s) l = Some (a', w', c', m') \<Longrightarrow> a' \<noteq> a"
    unfolding malloc_fits_def by blast
  let ?st = "(c_stream c)\<lparr>st_watcher := a\<rparr>"
  have ini: "watcher_mem (fst s) (st_watcher ?st) = None" "length b = (128 :: nat)" "(0 :: nat) < 128" "(128 :: nat) < 2 ^ 30"
    using fresh by simp_all
  obtain io1 st1 where st1: "stream_init_with_fd (set_watcher a w (fst s)) ?st newsd (rx_buf ?st) 128 (Some b) 128 = Inr (io1, st1)"
    "io_wf io1" "watcher_mem io1 = (watcher_mem (fst s))(a \<mapsto> w\<lparr>w_fd := newsd, event_listening := 5\<rparr>)"
    "run_list io1 = run_list (fst s)" "calls io1 = calls (fst s)"
    "st_watcher st1 = a" "rx_buf st1 = rx_buf ?st" "rx_buf_size st1 = 128" "cb_wf (tx_buf st1)"
    using stream_init_ok [OF io ini(1-4), of w newsd "rx_buf ?st" 128] by auto
  let ?c = "c\<lparr>c_stream := st1, c_cli := (c_cli c)\<lparr>cmd_buffer_ndx := 0\<rparr>, c_telnet := telnet_reader_init (c_telnet c)\<rparr>"
  let ?srv = "(snd s)\<lparr>n_mallocs := Suc (n_mallocs (snd s)), conns := conns (snd s) @ [a],
    intf_list := intf_list (snd s) @ [a], conn_mem := (conn_mem (snd s))(a \<mapsto> ?c)\<rparr>"
  have run: "alloc_cli_connection ucs newsd s = bindE (init_telnet_session a (io1, ?srv)) (conn_handle_rx ucs a [13])"
    using Some r fresh(2) st1(1)
    by (simp add: alloc_cli_connection_def Let_def set_conn_def cli_intf_register_def get_conn_def)
  have nc: "conn_mem (snd s) a = None" using D(4) fresh(1) by blast
  have ne: "ts_watcher (tcp_server (snd s)) \<noteq> a" using D(1) fresh(1) by auto
  have ok: "srv_ok (watcher_mem io1) ?srv"
  proof (rule srv_okI)
    fix d e assume d: "conn_mem ?srv d = Some e"
    show "conn_ok (watcher_mem io1) d e"
    proof (cases "d = a")
      case True
      then show ?thesis using d st1(3,6-9) fresh(4-6)
        by (auto simp: conn_ok_def intf_ok_def reader_ok_def telnet_reader_init_def)
    next
      case False
      then have "conn_mem (snd s) d = Some e" using d by simp
      from D(3) [OF this] False show ?thesis using st1(3) by (simp add: conn_ok_def)
    qed
  next
    show "mallocs_ok (watcher_mem io1) ?srv"
    proof (rule mallocs_ok_mono [OF D(10)])
      fix q k w' c' m'
      assume k: "watcher_mem (fst s) q = None" "n_mallocs ?srv \<le> k" "mallocs (snd s) k = Some (q, w', c', m')"
      have "n_mallocs (snd s) < k" using k(2) by simp
      from fresh(7) [OF this k(3)] k(1) show "watcher_mem io1 q = None" unfolding st1(3) by simp
    qed simp_all
    show "dom (watcher_mem io1) = insert (ts_watcher (tcp_server ?srv)) (others ?srv \<union> dom (conn_mem ?srv))"
      unfolding st1(3) using D(4) by auto
    show "others ?srv \<inter> insert (ts_watcher (tcp_server ?srv)) (dom (conn_mem ?srv)) = {}"
      using D(4,12) fresh(1) by auto
    show "distinct (conns ?srv)" using D(5,6) nc by auto
    show "distinct (intf_list ?srv)" using D(7,8) nc by auto
    show "set (conns ?srv) = dom (conn_mem ?srv)" using D(6) by auto
    show "set (intf_list ?srv) = dom (conn_mem ?srv)" using D(8) by auto
    show "watcher_mem io1 (ts_watcher (tcp_server ?srv)) \<noteq> None" unfolding st1(3) using D(1) by simp
    show "conn_mem ?srv (ts_watcher (tcp_server ?srv)) = None" using D(2) ne by simp
    show "sys_sane (srv_sys ?srv)" using D(9) by simp
  qed
  have pa: "p \<noteq> a" using assms(3) fresh(1) by auto
  have "a \<notin> set (run_list (fst s))" using io_wfD(4) [OF io, of a] fresh(1) by auto
  then have cs: "cb_step p (fst s) io1" using pa unfolding cb_step_def st1(3-5)
    by (auto intro: exI [of _ "\<lambda>_. True"])
  have inv: "srv_inv I (io1, ?srv)" using ok st1(2) assms(1) by (simp add: srv_inv_def)
  have pc: "watcher_mem io1 p \<noteq> None" using assms(3) pa unfolding st1(3) by simp
  have "outcome {OobWrite} (quiet I p (io1, ?srv)) (bindE (init_telnet_session a (io1, ?srv)) (conn_handle_rx ucs a [13]))"
  proof (rule outcome_bind)
    have "outcome {} (quiet I p (io1, ?srv)) (init_telnet_session a (io1, ?srv))"
      unfolding init_telnet_session_def Let_def by (rule conn_write_ok [OF inv, of _ ?c]) simp_all
    then show "outcome {OobWrite} (quiet I p (io1, ?srv)) (init_telnet_session a (io1, ?srv))"
      by (rule outcome_mono) simp_all
    fix s' :: "'a srv"
    assume q: "quiet I p (io1, ?srv) s'"
    have "a \<in> dom (conn_mem ?srv)" by simp
    then obtain c' where "conn_mem (snd s') a = Some c'" using q unfolding quiet_def by (metis domD snd_conv)
    then have "outcome {OobWrite} (quiet I p s') (conn_handle_rx ucs a [13] s')"
      using q assms(2) by (intro conn_rx_ok) (simp_all add: quiet_def)
    then show "outcome {OobWrite} (quiet I p (io1, ?srv)) (conn_handle_rx ucs a [13] s')"
      by (rule outcome_mono) (use quiet_trans [OF q] in auto)
  qed
  then show ?thesis
    unfolding run
  proof (rule outcome_mono [OF _ subset_refl])
    fix s' :: "'a srv"
    assume q: "quiet I p (io1, ?srv) s'"
    then have "srv_inv I s'" "cb_step p io1 (fst s')" "dom (watcher_mem (fst s')) = dom (watcher_mem io1)"
      "others (snd s') = others (snd s)" by (simp_all add: quiet_def)
    then show "srv_inv I s' \<and> cb_step p (fst s) (fst s') \<and> watcher_mem (fst s') p \<noteq> None \<and> others (snd s') = others (snd s)"
      using cb_step_trans [OF cs] pc by blast
  qed
qed

definition cli_faults :: "fault set" where
  "cli_faults = {OobWrite, Crash, UseAfterFree}"

text \<open>What the callback of the watcher of a connection leaves behind.\<close>

definition cb_result :: "('u \<Rightarrow> bool) \<Rightarrow> nat \<Rightarrow> 'u srv \<Rightarrow> 'u srv \<Rightarrow> bool" where
  "cb_result I p s s' \<longleftrightarrow> srv_inv I s' \<and> cb_step p (fst s) (fst s') \<and> others (snd s') = others (snd s)"

text \<open>What is read goes to the owner of the stream, as octets, the end or an error.\<close>

lemma conn_read:
  assumes "srv_inv I s" "conn_mem (snd s) a = Some c"
  shows "\<exists>s1 c1. quiet I a s s1 \<and> conn_mem (snd s1) a = Some c1 \<and>
    (let ret = fst (sys_reads (srv_sys (snd s)) (n_reads (srv_sys (snd s))) 128) in
     conn_watcher_callback ucs a IO_DRIVER_EVENT_RX s = handle_stream_event ucs a
       (if ret > 0 then stream_event_rx else if ret = 0 then stream_event_eof else stream_event_err) s1 \<and>
     (ret > 0 \<longrightarrow> 0 \<le> rx_data_len (c_stream c1) \<and> rx_data_len (c_stream c1) \<le> 128))"
proof -
  note c = srv_conn [OF assms(1,2)]
  obtain w where w: "watcher_mem (fst s) (st_watcher (c_stream c)) = Some w" using c(1) by (auto simp: conn_ok_def)
  obtain ret bs where rd: "sys_reads (srv_sys (snd s)) (n_reads (srv_sys (snd s))) 128 = (ret, bs)" by (cases rule: prod.exhaust)
  have len: "int (length bs) = max 0 ret" "ret \<le> 128"
    using c(3) rd unfolding sys_sane_def by (metis fst_conv snd_conv zero_le_numeral)+
  then have fit: "length bs \<le> 128" by linarith
  let ?sy = "(srv_sys (snd s))\<lparr>n_reads := Suc (n_reads (srv_sys (snd s)))\<rparr>"
  let ?buf = "bs @ drop (length bs) (rx_buf (c_stream c))"
  have r128: "rx_buf_size (c_stream c) = 128" "length (rx_buf (c_stream c)) = 128" using c(1) by (simp_all add: conn_ok_def)
  have sr: "sys_read (srv_sys (snd s)) (w_fd w) (rx_buf (c_stream c)) 128 = Inr (?sy, ret, ?buf)"
    using rd fit r128(2) by (simp add: sys_read_def wr_def)
  define st' where "st' = (c_stream c)\<lparr>rx_buf := ?buf, rx_data_len := (if ret > 0 then ret else rx_data_len (c_stream c))\<rparr>"
  let ?c = "c\<lparr>c_stream := st'\<rparr>"
  let ?s = "set_conn a ?c (fst s, (snd s)\<lparr>srv_sys := ?sy\<rparr>)"
  have nolen: "(c_stream c)\<lparr>rx_buf := ?buf\<rparr> = (c_stream c)\<lparr>rx_buf := ?buf, rx_data_len := rx_data_len (c_stream c)\<rparr>" by simp
  have cb: "stream_watcher_callback (fst s) (c_stream c) (srv_sys (snd s)) IO_DRIVER_EVENT_RX =
      Inr (fst s, st', ?sy, Some (if ret > 0 then stream_event_rx else if ret = 0 then stream_event_eof else stream_event_err))"
    using w sr r128(1) by (simp add: stream_watcher_callback_def get_watcher_def st'_def)
  have qs: "quiet I a s ?s"
  proof (rule update_conn [OF assms(1,2)])
    show "stream_ok (fst s) (c_stream ?c)" using c(2) by (simp add: stream_ok_def st'_def)
    show "length (rx_buf (c_stream ?c)) = 128" using fit r128(2) by (simp add: st'_def)
    show "same_stream (fst s) (c_stream c) (fst s) (c_stream ?c)"
      using fit r128(2) by (simp add: same_stream_def st'_def the_fd_def)
  qed (use c in \<open>simp_all add: conn_ok_def sys_sane_def\<close>)
  have a: "conn_mem (snd ?s) a = Some ?c" by (simp add: set_conn_def)
  have run: "conn_watcher_callback ucs a IO_DRIVER_EVENT_RX s = handle_stream_event ucs a
      (if ret > 0 then stream_event_rx else if ret = 0 then stream_event_eof else stream_event_err) ?s"
    using assms(2) cb by (simp add: conn_watcher_callback_def get_conn_def)
  have "ret > 0 \<longrightarrow> 0 \<le> rx_data_len (c_stream ?c) \<and> rx_data_len (c_stream ?c) \<le> 128" using len(2) by (simp add: st'_def)
  with qs a run rd show ?thesis by (intro exI [of _ ?s] exI [of _ ?c]) (simp add: Let_def)
qed

lemma conn_callback_ok:
  assumes "srv_inv I s" "conn_mem (snd s) a = Some c" "commands_ok I ucs"
  shows "outcome cli_faults (cb_result I a s) (conn_watcher_callback ucs a evt s)"
proof -
  note c = srv_conn [OF assms(1,2)]
  obtain w where w: "watcher_mem (fst s) (st_watcher (c_stream c)) = Some w" using c(1) by (auto simp: conn_ok_def)
  have q: "cb_result I a s s'" if "quiet I a s s'" for s' using that by (simp add: quiet_def cb_result_def)
  have dealloc: "outcome cli_faults (cb_result I a s) (dealloc_cli_connection a s1)"
    if 1: "quiet I a s s1" "conn_mem (snd s1) a = Some c1" for s1 c1
  proof -
    have "srv_inv I s1" using 1(1) by (simp add: quiet_def)
    from dealloc_ok [OF this 1(2)] obtain s' where s': "dealloc_cli_connection a s1 = Inr s'" "closed_conn I a s1 s'" by blast
    have "cb_step a (fst s) (fst s')" "srv_inv I s'" "others (snd s') = others (snd s)"
      using s'(2) 1(1) cb_step_trans [of a "fst s" "fst s1" "fst s'"] by (simp_all add: closed_conn_def quiet_def)
    then show ?thesis using s'(1) by (simp add: cb_result_def)
  qed
  show ?thesis
  proof (cases evt)
    case IO_DRIVER_EVENT_EX
    have "set_conn a (c\<lparr>c_stream := c_stream c\<rparr>) (fst s, (snd s)\<lparr>srv_sys := srv_sys (snd s)\<rparr>) = s"
      using assms(2) by (cases s) (simp add: set_conn_def fun_upd_idem)
    then show ?thesis using dealloc [OF quiet_refl [OF assms(1)] assms(2)] assms(2) IO_DRIVER_EVENT_EX
      by (simp add: conn_watcher_callback_def get_conn_def stream_watcher_callback_def handle_stream_event_def)
  next
    case IO_DRIVER_EVENT_TX
    have tx: "outcome cli_faults (tx_post (fst s) (c_stream c) (srv_sys (snd s)))
        (stream_handle_tx_event (fst s) (c_stream c) (srv_sys (snd s)))"
      by (rule outcome_mono [OF tx_event_ok [OF c(2,3)]]) (auto simp: cli_faults_def)
    have post: "cb_result I a s (set_conn a (c\<lparr>c_stream := st\<rparr>) (io, (snd s)\<lparr>srv_sys := sy\<rparr>))"
      if "tx_post (fst s) (c_stream c) (srv_sys (snd s)) (io, st, sy)" for io st sy
    proof (rule q, rule update_conn [OF assms(1,2)])
      show "stream_ok io (c_stream (c\<lparr>c_stream := st\<rparr>))" "sys_sane sy"
        "same_stream (fst s) (c_stream c) io (c_stream (c\<lparr>c_stream := st\<rparr>))"
        using that by (simp_all add: tx_post_def)
      then show "length (rx_buf (c_stream (c\<lparr>c_stream := st\<rparr>))) = 128"
        using c(1) by (simp add: same_stream_def conn_ok_def)
    qed (use c(1) in \<open>simp_all add: conn_ok_def\<close>)
    show ?thesis
      unfolding conn_watcher_callback_def get_conn_def assms(2) option.case bindE.simps IO_DRIVER_EVENT_TX
        stream_watcher_callback_def io_driver_event.case bindE_assoc
      by (rule outcome_bind [OF tx]) (use post in auto)
  next
    case IO_DRIVER_EVENT_RX
    let ?ret = "fst (sys_reads (srv_sys (snd s)) (n_reads (srv_sys (snd s))) 128)"
    obtain s1 c1 where r: "quiet I a s s1" "conn_mem (snd s1) a = Some c1"
      "conn_watcher_callback ucs a IO_DRIVER_EVENT_RX s = handle_stream_event ucs a
        (if ?ret > 0 then stream_event_rx else if ?ret = 0 then stream_event_eof else stream_event_err) s1"
      "?ret > 0 \<Longrightarrow> 0 \<le> rx_data_len (c_stream c1) \<and> rx_data_len (c_stream c1) \<le> 128"
      using conn_read [OF assms(1,2), of ucs] unfolding Let_def by blast
    show ?thesis
    proof (cases "?ret > 0")
      case True
      have rx: "outcome {OobWrite} (quiet I a s1) (handle_stream_event ucs a stream_event_rx s1)"
        by (rule receive_ok [OF _ r(2) assms(3)]) (use r(1,4) True in \<open>simp_all add: quiet_def\<close>)
      show ?thesis unfolding IO_DRIVER_EVENT_RX r(3) using True
        by (simp, intro outcome_mono [OF rx]) (use q quiet_trans [OF r(1)] in \<open>auto simp: cli_faults_def\<close>)
    next
      case False
      then show ?thesis unfolding IO_DRIVER_EVENT_RX r(3) using dealloc [OF r(1,2)]
        by (simp add: handle_stream_event_def)
    qed
  qed
qed

lemma cli_callback_ok:
  assumes "srv_inv I (io, srv)" "commands_ok I ucs" "p \<in> set (watchers io)" "p \<notin> others srv"
  shows "outcome cli_faults (cb_result I p (io, srv)) (cli_callback ucs p evt (io, srv))"
proof -
  have io: "io_wf io" and S: "srv_ok (watcher_mem io) srv" using assms(1) by (simp_all add: srv_inv_def)
  have "watcher_mem io p \<noteq> None" using io_wfD(4) [OF io] assms(3) by blast
  then have p: "p = ts_watcher (tcp_server srv) \<or> (\<exists>c. conn_mem srv p = Some c)" using srv_okD(4) [OF S] assms(4) by blast
  show ?thesis
  proof (cases "p = ts_watcher (tcp_server srv)")
    case False
    with p obtain c where "conn_mem (snd (io, srv)) p = Some c" by auto
    from conn_callback_ok [OF assms(1) this assms(2)] False show ?thesis by (simp add: cli_callback_def)
  next
    case True
    let ?srv = "srv\<lparr>n_accepts := Suc (n_accepts srv)\<rparr>"
    have "srv_ok (watcher_mem io) ?srv \<longleftrightarrow> srv_ok (watcher_mem io) srv"
      by (simp add: srv_ok_def mallocs_ok_def malloc_fits_def)
    then have inv': "srv_inv I (io, ?srv)" using assms(1) by (simp add: srv_inv_def)
    have alloc: "outcome cli_faults (cb_result I p (io, srv)) (alloc_cli_connection ucs newsd (io, ?srv))" for newsd
      by (rule outcome_mono [OF alloc_conn_ok [OF inv' assms(2), of p]])
        (use \<open>watcher_mem io p \<noteq> None\<close> in \<open>auto simp: cli_faults_def cb_result_def\<close>)
    show ?thesis
      using True alloc inv' by (simp add: cli_callback_def tcp_server_watcher_callback_def tcp_server_ipv4_rx_event_def
          cli_server_new_connection_def cb_result_def Let_def)
  qed
qed

text \<open>The server alone in the event loop meets the contract of its callbacks.\<close>

definition alone_ok :: "('u \<Rightarrow> bool) \<Rightarrow> 'u user_command list \<Rightarrow> (nat \<Rightarrow> io_driver_watcher option) \<Rightarrow> 'u cli_server \<Rightarrow> bool" where
  "alone_ok I ucs mem srv \<longleftrightarrow> srv_ok mem srv \<and> I (user srv) \<and> others srv = {} \<and> commands_ok I ucs"

interpretation telnet: io_client "cli_callback ucs" "alone_ok I ucs" cli_faults
  for ucs :: "'u user_command list" and I
proof
  fix io :: io_driver and c :: "'u cli_server" and p e
  assume a: "io_wf io" "alone_ok I ucs (watcher_mem io) c" "p \<in> set (watchers io)"
  have "outcome cli_faults (cb_result I p (io, c)) (cli_callback ucs p e (io, c))"
    by (rule cli_callback_ok) (use a in \<open>simp_all add: alone_ok_def srv_inv_def\<close>)
  then show "outcome cli_faults (\<lambda>(io', c'). io_wf io' \<and> alone_ok I ucs (watcher_mem io') c' \<and>
      cb_step p io io' \<and> (watcher_mem io' p = None \<longrightarrow> UseAfterFree \<in> cli_faults)) (cli_callback ucs p e (io, c))"
    by (rule outcome_mono) (use a in \<open>auto simp: alone_ok_def cb_result_def srv_inv_def cli_faults_def\<close>)
qed

text \<open>
  A pass of the event loop over the telnet server, its listening socket and all of its connections,
  whatever arrives: it ends, and keeps the connections, their watchers, streams, readers and command
  lines well formed. Its only faults are the byte written behind a full command line, the crash
  that the code asks for when a ready socket takes nothing, and the use of a connection after it was freed.
\<close>

lemma telnet_server_pass:
  assumes "srv_inv I (io, srv)" "others srv = {}" "commands_ok I ucs" "run_list io = []" "fds_fit io (watchers io)"
    "select_sane sel"
  shows "\<exists>r. io_driver_run (cli_callback ucs) sel (io, srv) = Some r \<and>
    outcome {OobWrite, Crash, UseAfterFree} (\<lambda>s'. srv_inv I s' \<and> run_list (fst s') = [] \<and>
      set (conns (snd s')) = dom (conn_mem (snd s'))) r"
proof -
  have "io_wf io" "alone_ok I ucs (watcher_mem io) srv" using assms(1-3) by (simp_all add: srv_inv_def alone_ok_def)
  from telnet.run_ok [OF this assms(4-6)] obtain r where r: "io_driver_run (cli_callback ucs) sel (io, srv) = Some r"
    "outcome cli_faults (\<lambda>(io', c'). io_wf io' \<and> alone_ok I ucs (watcher_mem io') c' \<and> run_list io' = [] \<and>
      (\<exists>new. calls io' = calls io @ new \<and> subseq new (turns (watchers io)) \<and>
        (\<forall>(p, e) \<in> set new. \<exists>w. watcher_mem io p = Some w \<and> w_fd w \<in> listening_fds io (watchers io) e))) r" by blast
  have "outcome {OobWrite, Crash, UseAfterFree} (\<lambda>s'. srv_inv I s' \<and> run_list (fst s') = [] \<and>
      set (conns (snd s')) = dom (conn_mem (snd s'))) r"
    by (rule outcome_mono [OF r(2)]) (auto simp: cli_faults_def srv_inv_def alone_ok_def srv_okD(6))
  with r(1) show ?thesis by blast
qed

text \<open>
  C34: when the peer closes a connection, or its socket fails, the connection is freed in its own callback, and the
  event loop then reads the freed watcher to test for the other events.
\<close>

theorem telnet_close_use_after_free:
  assumes "srv_inv I (io, srv)" "conn_mem srv a = Some c" "commands_ok I ucs" "run_list io = a # ps"
    "watcher_mem io a = Some w" "listens w IO_DRIVER_EVENT_RX" "w_fd w \<in> rset s" "0 \<le> w_fd w" "w_fd w < FD_SETSIZE"
    "fst (sys_reads (srv_sys srv) (n_reads (srv_sys srv)) 128) \<le> 0"
  shows "io_driver_run_loop (cli_callback ucs) s (io, srv) = Some (Inl UseAfterFree)"
proof -
  have io: "io_wf io" and S: "srv_ok (watcher_mem io) srv" using assms(1) by (simp_all add: srv_inv_def)
  note d = io_wfD [OF io]
  let ?io = "(unlink a io)\<lparr>watchers := watchers (unlink a io) @ [a]\<rparr>"
  let ?io' = "?io\<lparr>calls := calls ?io @ [(a, IO_DRIVER_EVENT_RX)]\<rparr>"
  have "a \<notin> set (watchers io)" "a \<notin> set ps" using d(2,3) assms(4) by auto
  then have "io_wf ?io'" using io assms(4) by (auto simp: io_wf_def unlink_def remove1_idem)
  moreover have m: "watcher_mem ?io' = watcher_mem io" by (simp add: unlink_def)
  ultimately have inv: "srv_inv I (?io', srv)" using S assms(1) by (simp add: srv_inv_def)
  have ne: "a \<noteq> ts_watcher (tcp_server srv)" using srv_okD(2) [OF S] assms(2) by auto
  let ?ret = "fst (sys_reads (srv_sys srv) (n_reads (srv_sys srv)) 128)"
  have c: "conn_mem (snd (?io', srv)) a = Some c" using assms(2) by simp
  obtain s1 c1 where r: "quiet I a (?io', srv) s1" "conn_mem (snd s1) a = Some c1"
    "conn_watcher_callback ucs a IO_DRIVER_EVENT_RX (?io', srv) = handle_stream_event ucs a
      (if ?ret > 0 then stream_event_rx else if ?ret = 0 then stream_event_eof else stream_event_err) s1"
    using conn_read [OF inv c, of ucs] unfolding Let_def snd_conv by blast
  have "srv_inv I s1" using r(1) by (simp add: quiet_def)
  from dealloc_ok [OF this r(2)] obtain s2 where s2: "dealloc_cli_connection a s1 = Inr s2" "closed_conn I a s1 s2" by blast
  have cb: "cli_callback ucs a IO_DRIVER_EVENT_RX (?io', srv) = Inr s2"
    using ne r(3) s2(1) assms(10) by (simp add: cli_callback_def handle_stream_event_def)
  have "dispatch (cli_callback ucs) s a IO_DRIVER_EVENT_RX (?io, srv) = cli_callback ucs a IO_DRIVER_EVENT_RX (?io', srv)"
    using assms(5-9) by (simp add: dispatch_def get_watcher_def unlink_def FD_ISSET_def event_set_def)
  moreover have "dispatch (cli_callback ucs) s a IO_DRIVER_EVENT_TX s2 = Inl UseAfterFree"
    using s2(2) by (simp add: closed_conn_def dispatch_def get_watcher_def)
  ultimately show ?thesis
    using assms(4) cb by (subst io_driver_run_loop.simps) (simp add: Let_def)
qed

section \<open>The start of the server\<close>

text \<open>Memory before the start: the list of interfaces is empty, and so are the connections.\<close>

definition srv_static :: "io_driver \<Rightarrow> 'u cli_server \<Rightarrow> bool" where
  "srv_static io srv \<longleftrightarrow> io_wf io \<and> conn_mem srv = Map.empty \<and> intf_list srv = [] \<and>
     dom (watcher_mem io) = insert (ts_watcher (tcp_server srv)) (others srv) \<and>
     ts_watcher (tcp_server srv) \<notin> others srv \<and> sys_sane (srv_sys srv) \<and> mallocs_ok (watcher_mem io) srv"

lemma tcp_init_ok:
  assumes "io_wf io" "watcher_mem io (ts_watcher ts) \<noteq> None"
  shows "\<exists>io' ts' sy' r. tcp_server_ipv4_init io ts sy port sd b l = Inr (io', ts', sy', r) \<and> io_wf io' \<and>
    dom (watcher_mem io') = dom (watcher_mem io) \<and> (\<forall>p. p \<noteq> ts_watcher ts \<longrightarrow> watcher_mem io' p = watcher_mem io p) \<and>
    ts_watcher ts' = ts_watcher ts \<and> sys_writes sy' = sys_writes sy \<and> sys_reads sy' = sys_reads sy \<and>
    run_list io' = run_list io"
proof -
  obtain w where w: "watcher_mem io (ts_watcher ts) = Some w" using assms(2) by auto
  let ?io = "set_watcher (ts_watcher ts) (w\<lparr>w_fd := sd\<rparr>) io"
  have wf: "io_wf ?io" using assms(1) w by (auto simp: io_wf_def set_watcher_def)
  have "watcher_mem ?io (ts_watcher ts) = Some (w\<lparr>w_fd := sd\<rparr>)" by (simp add: set_watcher_def)
  from watch_ok [OF wf this, of IO_DRIVER_EVENT_RX] obtain io' where io': "io_driver_watch ?io (ts_watcher ts) IO_DRIVER_EVENT_RX = Inr io'"
    "io_wf io'" "watcher_mem io' = (watcher_mem ?io)(ts_watcher ts \<mapsto> w\<lparr>w_fd := sd, event_listening := event_listening w OR 1\<rparr>)"
    by auto
  have rl: "run_list io' = run_list io"
    using io'(1) w by (auto simp: io_driver_watch_def get_watcher_def set_watcher_def Let_def split: if_splits)
  show ?thesis
  proof (cases "sd < 0 \<or> b \<noteq> 0 \<or> l \<noteq> 0")
    case True
    then show ?thesis using assms(1) by (auto simp: tcp_server_ipv4_init_def init_tcp_server_ipv4_def sys_close_def Let_def)
  next
    case False
    let ?addr = "zero_addr\<lparr>sin_family := AF_INET, sin_addr := 0, sin_port := htons (of_int port)\<rparr>"
    have "tcp_server_ipv4_init io ts sy port sd b l =
        Inr (io', ts\<lparr>ipv4_addr := ?addr, ts_sd := sd, is_listening := False\<rparr>, sy, 0)"
      using False w io'(1)
      by (simp add: tcp_server_ipv4_init_def init_tcp_server_ipv4_def tcp_server_init_def get_watcher_def Let_def)
    moreover have "dom (watcher_mem io') = dom (watcher_mem io)" using w by (auto simp: io'(3) set_watcher_def)
    ultimately show ?thesis using io'(2,3) rl by (simp add: set_watcher_def)
  qed
qed

lemma server_start_ok:
  assumes "srv_static io srv" "I (user srv)"
  shows "\<exists>io' srv'. cli_telnet_server_init port sd b l (io, srv) = Inr (io', srv') \<and> srv_inv I (io', srv') \<and>
    others srv' = others srv \<and> user srv' = user srv \<and> run_list io' = run_list io \<and>
    (\<forall>p \<in> others srv. watcher_mem io' p = watcher_mem io p)"
proof -
  have S: "io_wf io" "conn_mem srv = Map.empty" "intf_list srv = []"
    "dom (watcher_mem io) = insert (ts_watcher (tcp_server srv)) (others srv)" "ts_watcher (tcp_server srv) \<notin> others srv"
    "sys_sane (srv_sys srv)" "mallocs_ok (watcher_mem io) srv"
    using assms(1) unfolding srv_static_def by blast+
  have "watcher_mem io (ts_watcher (tcp_server srv)) \<noteq> None" using S(4) by blast
  from tcp_init_ok [OF S(1) this, of "srv_sys srv" port sd b l] obtain io' ts' sy' r where t:
    "tcp_server_ipv4_init io (tcp_server srv) (srv_sys srv) port sd b l = Inr (io', ts', sy', r)" "io_wf io'"
    "dom (watcher_mem io') = dom (watcher_mem io)" "\<forall>p. p \<noteq> ts_watcher (tcp_server srv) \<longrightarrow> watcher_mem io' p = watcher_mem io p"
    "ts_watcher ts' = ts_watcher (tcp_server srv)" "sys_writes sy' = sys_writes (srv_sys srv)"
    "sys_reads sy' = sys_reads (srv_sys srv)" "run_list io' = run_list io"
    by blast
  let ?srv = "srv\<lparr>conns := [], tcp_server := tcp_server_start ts', srv_sys := sy'\<rparr>"
  have ts: "ts_watcher (tcp_server_start ts') = ts_watcher (tcp_server srv)"
    using t(5) by (simp add: tcp_server_start_def)
  have none: "watcher_mem io' q = None \<longleftrightarrow> watcher_mem io q = None" for q using t(3) by (metis domIff)
  have "srv_ok (watcher_mem io') ?srv"
  proof (rule srv_okI)
    show "mallocs_ok (watcher_mem io') ?srv" using S(7) mallocs_ok_cong [OF none, of ?srv srv] by simp
    show "sys_sane (srv_sys ?srv)" using S(6) t(6,7) by (simp add: sys_sane_def)
    show "watcher_mem io' (ts_watcher (tcp_server ?srv)) \<noteq> None" using S(4) ts none by auto
  qed (use S t(3) ts in auto)
  then have "srv_inv I (io', ?srv)" using t(2) assms(2) by (simp add: srv_inv_def)
  moreover have "cli_telnet_server_init port sd b l (io, srv) = Inr (io', ?srv)"
    using t(1) by (simp add: cli_telnet_server_init_def Let_def)
  moreover have "\<forall>p \<in> others srv. watcher_mem io' p = watcher_mem io p" using t(4) S(5) by metis
  ultimately show ?thesis using t(8) by simp
qed

section \<open>A server with one connection\<close>

definition one_conn :: cli_connection where
  "one_conn = \<lparr>c_stream = \<lparr>st_watcher = 2, rx_buf = replicate 128 0, rx_buf_size = 128, rx_data_len = 0, tx_buf = small_buffer\<rparr>,
     c_cli = \<lparr>cmd_buffer_ndx = 0, cmd_buffer = replicate 252 0\<rparr>, c_telnet = demo_reader\<rparr>"

text \<open>The socket takes everything and its peer has closed it.\<close>

definition one_server :: "unit cli_server" where
  "one_server = \<lparr>tcp_server = \<lparr>ts_sd = 3, is_listening = True, ts_watcher = 1, ipv4_addr = zero_addr\<rparr>, conns = [2], intf_list = [2],
     conn_mem = [2 \<mapsto> one_conn],
     srv_sys = \<lparr>sys_writes = (\<lambda>_ n. (if n < 0 then -1 else n, False)), sys_reads = (\<lambda>_ _. (0, [])), n_writes = 0, n_reads = 0,
       wire = [], closed = []\<rparr>,
     accepts = (\<lambda>_. -1), n_accepts = 0, mallocs = (\<lambda>_. None), n_mallocs = 0, peers = (\<lambda>_. zero_addr), user = (), others = {}\<rparr>"

definition one_io :: io_driver where
  "one_io = \<lparr>watchers = [1, 2], run_list = [],
     watcher_mem = [1 \<mapsto> \<lparr>w_fd = 3, event_listening = 1\<rparr>, 2 \<mapsto> \<lparr>w_fd = 5, event_listening = 5\<rparr>], calls = []\<rparr>"

lemma one_server_ok: "srv_ok (watcher_mem one_io) one_server"
proof (rule srv_okI)
  fix a c assume "conn_mem one_server a = Some c"
  then have "a = 2" "c = one_conn" by (auto simp: one_server_def split: if_splits)
  then show "conn_ok (watcher_mem one_io) a c"
    using demo_reader_ok(1) small_buffer_ok(1) by (simp add: conn_ok_def one_conn_def one_io_def intf_ok_def cli_config)
next
  show "dom (watcher_mem one_io) = insert (ts_watcher (tcp_server one_server)) (others one_server \<union> dom (conn_mem one_server))"
    by (auto simp: one_io_def one_server_def)
  show "sys_sane (srv_sys one_server)" by (simp add: one_server_def sys_sane_def)
qed (simp_all add: one_io_def one_server_def mallocs_ok_def ascii_def)

lemma one_io_wf: "io_wf one_io" "io_wf (one_io\<lparr>watchers := [1], run_list := [2]\<rparr>)" "fds_fit one_io (watchers one_io)"
  by (auto simp: io_wf_def one_io_def fds_fit_def FD_SETSIZE_def)

theorem telnet_server_pass_witness:
  "\<exists>r. io_driver_run (cli_callback []) all_ready (one_io, one_server) = Some r \<and>
     outcome {OobWrite, Crash, UseAfterFree} (\<lambda>s'. srv_inv (\<lambda>_. True) s' \<and> run_list (fst s') = [] \<and>
       set (conns (snd s')) = dom (conn_mem (snd s'))) r"
proof (rule telnet_server_pass)
  show "srv_inv (\<lambda>_. True) (one_io, one_server)" using one_server_ok one_io_wf(1) by (simp add: srv_inv_def)
  show "select_sane all_ready" by (simp add: select_sane_def all_ready_def)
  show "commands_ok (\<lambda>_. True) ([] :: unit user_command list)" by (simp add: commands_ok_def)
  show "fds_fit one_io (watchers one_io)" by (rule one_io_wf(3))
  show "run_list one_io = []" by (simp add: one_io_def)
  show "others one_server = {}" by (simp add: one_server_def)
qed

theorem telnet_close_use_after_free_witness:
  "io_driver_run_loop (cli_callback [])
     \<lparr>rset = {5}, wset = {}, eset = {}, rset_empty = False, wset_empty = True, eset_empty = False, maxfd = 5\<rparr>
     (one_io\<lparr>watchers := [1], run_list := [2]\<rparr>, one_server) = Some (Inl UseAfterFree)"
proof (rule telnet_close_use_after_free)
  show "srv_inv (\<lambda>_. True) (one_io\<lparr>watchers := [1], run_list := [2]\<rparr>, one_server)"
    using one_server_ok one_io_wf(2) by (simp add: srv_inv_def)
  show "conn_mem one_server 2 = Some one_conn" by (simp add: one_server_def)
  show "watcher_mem (one_io\<lparr>watchers := [1], run_list := [2]\<rparr>) 2 = Some \<lparr>w_fd = 5, event_listening = 5\<rparr>" by (simp add: one_io_def)
qed (simp_all add: commands_ok_def listens_def FD_SETSIZE_def one_server_def)

end
