(* ===== verification/Rtp_Cli.thy ===== *)
theory Rtp_Cli
  imports Rtp_Task Cli_Telnet
begin

text \<open>
  The commands of the demonstration, \<^verbatim>\<open>demo/rtp_cli.c\<close>: they print the state of the session of the task,
  switch transmission on and off, and change the session's SSRC. What a command prints is the list
  of the texts that it hands to \<^verbatim>\<open>cli_printf\<close>.
\<close>

section \<open>Printing\<close>

text \<open>The text of a \<open>double\<close> with \<open>k\<close> digits behind the point, \<open>fmt k\<close>, is an argument of the commands: \<open>double\<close> is
  modelled by the reals.\<close>

text \<open>The value of a constant of an enumeration is its position.\<close>

instantiation rtp_rx_error :: enum
begin

definition enum_rtp_rx_error :: "rtp_rx_error list" where
  "enum_rtp_rx_error = [rtp_rx_error_no_error, rtp_rx_error_header_too_short, rtp_rx_error_invalid_csrc_count,
     rtp_rx_error_invalid_rtp_version, rtp_rx_error_invalid_payload_type, rtp_rx_error_invalid_octet_count,
     rtp_rx_error_not_implemented, rtp_rx_error_seq_error, rtp_rx_error_member_alloc_failed,
     rtp_rx_error_member_first_heard, rtp_rx_error_member_bye_in_progress, rtp_rx_error_member_first_rtp_after_rtcp,
     rtp_rx_error_3rd_party_conflict, rtp_rx_error_source_in_conflict_list, rtp_rx_error_ssrc_conflict]"

definition enum_all_rtp_rx_error :: "(rtp_rx_error \<Rightarrow> bool) \<Rightarrow> bool" where
  "enum_all_rtp_rx_error P \<longleftrightarrow> list_all P enum_class.enum"

definition enum_ex_rtp_rx_error :: "(rtp_rx_error \<Rightarrow> bool) \<Rightarrow> bool" where
  "enum_ex_rtp_rx_error P \<longleftrightarrow> list_ex P enum_class.enum"

instance
proof
  have all: "x \<in> set enum_class.enum" for x :: rtp_rx_error
    by (cases x) (simp_all add: enum_rtp_rx_error_def)
  then show "(UNIV :: rtp_rx_error set) = set enum_class.enum" by auto
  then show "enum_class.enum_all P \<longleftrightarrow> Ball UNIV P" "enum_class.enum_ex P \<longleftrightarrow> Bex UNIV P"
    for P :: "rtp_rx_error \<Rightarrow> bool"
    by (auto simp: enum_all_rtp_rx_error_def enum_ex_rtp_rx_error_def list_all_iff list_ex_iff)
  show "distinct (enum_class.enum :: rtp_rx_error list)"
    by (simp add: enum_rtp_rx_error_def)
qed

end

instantiation rtcp_rx_error :: enum
begin

definition enum_rtcp_rx_error :: "rtcp_rx_error list" where
  "enum_rtcp_rx_error = [rtcp_rx_error_no_error, rtcp_rx_error_header_too_short, rtcp_rx_error_len_not_multiple_4,
     rtcp_rx_error_invalid_mask, rtcp_rx_error_invalid_compound_packet, rtcp_rx_error_member_alloc_failed,
     rtcp_rx_error_member_first_heard, rtcp_rx_error_member_bye_in_progress, rtcp_rx_error_3rd_party_conflict,
     rtcp_rx_error_source_in_conflict_list, rtcp_rx_error_ssrc_conflict]"

definition enum_all_rtcp_rx_error :: "(rtcp_rx_error \<Rightarrow> bool) \<Rightarrow> bool" where
  "enum_all_rtcp_rx_error P \<longleftrightarrow> list_all P enum_class.enum"

definition enum_ex_rtcp_rx_error :: "(rtcp_rx_error \<Rightarrow> bool) \<Rightarrow> bool" where
  "enum_ex_rtcp_rx_error P \<longleftrightarrow> list_ex P enum_class.enum"

instance
proof
  have all: "x \<in> set enum_class.enum" for x :: rtcp_rx_error
    by (cases x) (simp_all add: enum_rtcp_rx_error_def)
  then show "(UNIV :: rtcp_rx_error set) = set enum_class.enum" by auto
  then show "enum_class.enum_all P \<longleftrightarrow> Ball UNIV P" "enum_class.enum_ex P \<longleftrightarrow> Bex UNIV P"
    for P :: "rtcp_rx_error \<Rightarrow> bool"
    by (auto simp: enum_all_rtcp_rx_error_def enum_ex_rtcp_rx_error_def list_all_iff list_ex_iff)
  show "distinct (enum_class.enum :: rtcp_rx_error list)"
    by (simp add: enum_rtcp_rx_error_def)
qed

end

definition enum_code :: "'a::enum \<Rightarrow> nat" where
  "enum_code x = length (takeWhile (\<lambda>y. y \<noteq> x) enum_class.enum)"

section \<open>The commands\<close>

text \<open>A line with a label and a value.\<close>

definition line :: "string \<Rightarrow> u8 list \<Rightarrow> u8 list" where
  "line label val = ascii label @ val @ CLI_EOL"

definition cname_text :: "rtp_member \<Rightarrow> u8 list list res" where
  "cname_text m =
     foldE (\<lambda>i out. bindE (rd8 (cname m) i) (\<lambda>b. Inr (out @ [ascii ''0x'' @ fmt_02x b @ ascii '' ''])))
       [0..<unat (cname_len m)] []"

definition print_member :: "rtp_member \<Rightarrow> u8 list list res" where
  "print_member m =
     bindE (cname_text m) (\<lambda>names.
     Inr ([line ''rtp addr: '' (fmt_addr (m_rtp_addr m)),
           line ''rtcp addr: '' (fmt_addr (m_rtcp_addr m)),
           line ''ssrc: '' (fmt_u (m_ssrc m)),
           ascii ''cname len '' @ fmt_d (uint (cname_len m)) @ ascii '', ''] @
          names @
          [CLI_EOL,
           line ''flags : '' (fmt_08x (flags m)),
           line ''rtp_src.max_seq : '' (fmt_d (uint (max_seq (rtp_src m)))),
           line ''rtp_src.cycles : '' (fmt_u (cycles (rtp_src m))),
           line ''rtp_src.base_seq : '' (fmt_u (base_seq (rtp_src m))),
           line ''rtp_src.probation : '' (fmt_u (probation (rtp_src m))),
           line ''rtp_src.receiver : '' (fmt_u (received (rtp_src m))),
           line ''rtp_src.expected_prior : '' (fmt_u (expected_prior (rtp_src m))),
           line ''rtp_src.received_prior : '' (fmt_u (received_prior (rtp_src m))),
           line ''rtp_src.transit : '' (fmt_u (transit (rtp_src m))),
           line ''rtp_src.jitter : '' (fmt_u (jitter (rtp_src m))),
           line ''last_sr.second : '' (fmt_u (second (last_sr m))),
           line ''last_sr.fraction : '' (fmt_u (fraction (last_sr m))),
           line ''last_sr_local_time.second : '' (fmt_u (second (last_sr_local_time m))),
           line ''last_sr_local_time.fraction : '' (fmt_u (fraction (last_sr_local_time m))),
           line ''rtp_ts: '' (fmt_u (m_rtp_ts m)),
           line ''pkt_count: '' (fmt_u (m_pkt_count m)),
           line ''octet_count: '' (fmt_u (m_octet_count m))]))"

text \<open>A handler: the arguments, and the state of the task.\<close>

type_synonym handler = "u8 list list \<Rightarrow> rtp_task \<Rightarrow> (rtp_task \<times> u8 list list) res"

definition cli_command_stats :: "(nat \<Rightarrow> real \<Rightarrow> u8 list) \<Rightarrow> handler" where
  "cli_command_stats fmt argv t =
     (let sess = rtp_task_get_session t; v = rtcp_var sess in
      Inr (t, [line ''session_bandwidth '' (fmt_d (sint (session_bw (config sess)))),
        line ''seq '' (fmt_d (uint (sess_seq sess))),
        line ''rtcp_var.tp   '' (fmt 2 (tp v)),
        line ''rtcp_var.tn   '' (fmt 2 (tn v)),
        line ''rtcp_var.pmembers   '' (fmt_u (pmembers v)),
        line ''rtcp_var.members   '' (fmt_u (members v)),
        line ''rtcp_var.sesnders   '' (fmt_u (senders v)),
        line ''rtcp_var.rtcp_bw   '' (fmt 6 (rtcp_bw v)),
        line ''rtcp_var.avg_rtcp_size   '' (fmt 6 (avg_rtcp_size v)),
        line ''rtcp_var.we_sent   '' (fmt_d (if we_sent v then 1 else 0)),
        line ''rtcp_var.initial   '' (fmt_d (if initial v then 1 else 0)),
        line ''pt '' (fmt_d (uint (c_pt (config sess)))),
        line ''invalid_rtcp_pkt '' (fmt_d (sint (invalid_rtcp_pkt sess))),
        line ''invalid_rtp_pkt '' (fmt_d (sint (invalid_rtp_pkt sess))),
        line ''last_rtp_error '' (fmt_d (int (enum_code (last_rtp_error sess)))),
        line ''last_rtcp_error '' (fmt_d (int (enum_code (last_rtcp_error sess)))),
        line ''tx_pkt_count '' (fmt_d (sint (tx_pkt_count sess))),
        line ''tx_octet_count '' (fmt_d (sint (tx_octet_count sess)))]))"

definition cli_command_self :: handler where
  "cli_command_self argv t =
     (let sess = rtp_task_get_session t in
      bindE (deref (self sess)) (\<lambda>me.
      bindE (print_member (mem sess me)) (\<lambda>out. Inr (t, out))))"

definition separator :: "u8 list" where
  "separator = ascii ''======================================'' @ CLI_EOL"

text \<open>The loop over the members, with fuel.\<close>

fun print_members :: "nat \<Rightarrow> rtp_session \<Rightarrow> nat option \<Rightarrow> u8 list list res" where
  "print_members fuel sess None = Inr []"
| "print_members 0 sess (Some m) = Inl NoReturn"
| "print_members (Suc fuel) sess (Some m) =
     bindE (if rtp_member_is_self (mem sess m) then Inr []
            else bindE (print_member (mem sess m)) (\<lambda>out. Inr (separator # out))) (\<lambda>out.
     bindE (print_members fuel sess (rtp_member_table_get_next (member_table sess) (Some m))) (\<lambda>rest.
     Inr (out @ rest)))"

definition cli_command_members :: handler where
  "cli_command_members argv t =
     (let sess = rtp_task_get_session t in
      bindE (print_members (RTP_CONFIG_MAX_MEMBERS_PER_SESSION + 1) sess
               (rtp_member_table_get_first (member_table sess))) (\<lambda>out.
      Inr (t, line ''num_members: '' (fmt_u (num_members (member_table sess))) # out)))"

definition cli_command_conflicts :: handler where
  "cli_command_conflicts argv t =
     (let tbl = src_conflict (rtp_task_get_session t) in
      Inr (t, concat (map2 (\<lambda>i c. [separator, fmt_d (int i) @ ascii '': '' @ fmt_addr (entry_addr tbl ! c) @ CLI_EOL])
        [0..<length (conflict_used tbl)] (conflict_used tbl))))"

definition usage :: "u8 list list \<Rightarrow> string \<Rightarrow> u8 list list res" where
  "usage argv args =
     (case argv of [] \<Rightarrow> Inl OobRead
      | a # _ \<Rightarrow> Inr [ascii ''Error'' @ CLI_EOL, a @ ascii '' '' @ ascii args @ CLI_EOL])"

definition on_off :: "(u8 \<Rightarrow> rtp_task \<Rightarrow> rtp_task) \<Rightarrow> handler" where
  "on_off control argv t =
     (if length argv \<noteq> 2 then bindE (usage argv ''[on|off]'') (\<lambda>out. Inr (t, out))
      else if argv ! 1 = ascii ''on'' then Inr (control 1 t, [])
      else if argv ! 1 = ascii ''off'' then Inr (control 0 t, [])
      else bindE (usage argv ''[on|off]'') (\<lambda>out. Inr (t, out)))"

definition cli_command_rtp :: handler where
  "cli_command_rtp argv t = on_off rtp_task_rtp_control argv t"

definition cli_command_rtcp :: handler where
  "cli_command_rtcp argv t = on_off rtp_task_rtcp_control argv t"

text \<open>\<open>atoi\<close>: blanks, a sign, digits; the value is that of \<open>strtol\<close>, which is kept within 64 bits, as an \<open>int\<close>.\<close>

definition is_digit :: "u8 \<Rightarrow> bool" where
  "is_digit c \<longleftrightarrow> 48 \<le> c \<and> c \<le> 57"

definition is_space :: "u8 \<Rightarrow> bool" where
  "is_space c \<longleftrightarrow> c = 32 \<or> 9 \<le> c \<and> c \<le> 13"

definition digits_value :: "u8 list \<Rightarrow> int" where
  "digits_value s = foldl (\<lambda>v c. 10 * v + (uint c - 48)) 0 (takeWhile is_digit s)"

definition strtol :: "u8 list \<Rightarrow> int" where
  "strtol s =
     (let s = dropWhile is_space s;
          v = (case s of
                 [] \<Rightarrow> 0
               | c # r \<Rightarrow> if c = 45 then - digits_value r else if c = 43 then digits_value r else digits_value s)
      in max (- (2 ^ 63)) (min (2 ^ 63 - 1) v))"

definition atoi :: "u8 list \<Rightarrow> u32" where
  "atoi s = of_int (strtol s)"

definition cli_command_ssrc :: handler where
  "cli_command_ssrc argv t =
     (let sess = rtp_task_get_session t in
      if length argv \<noteq> 2 then bindE (usage argv ''ssrc'') (\<lambda>out. Inr (t, out))
      else
        let ssrc = atoi (argv ! 1) in
        bindE (deref (self sess)) (\<lambda>me.
        let sess = sess\<lparr>member_table := rtp_member_table_change_ssrc (member_table sess) me ssrc\<rparr>
        in Inr (t\<lparr>rt_session := sess\<rparr>, [line ''changed own ssrc to '' (fmt_u ssrc)])))"

definition rtp_commands :: "(nat \<Rightarrow> real \<Rightarrow> u8 list) \<Rightarrow> rtp_task user_command list" where
  "rtp_commands fmt =
     [\<lparr>u_command = ascii ''stats'', u_help = ascii ''show rtp session stats'', u_handler = cli_command_stats fmt\<rparr>,
      \<lparr>u_command = ascii ''self'', u_help = ascii ''show rtp self'', u_handler = cli_command_self\<rparr>,
      \<lparr>u_command = ascii ''members'', u_help = ascii ''show rtp members'', u_handler = cli_command_members\<rparr>,
      \<lparr>u_command = ascii ''conflicts'', u_help = ascii ''show source conflict table'', u_handler = cli_command_conflicts\<rparr>,
      \<lparr>u_command = ascii ''rtp'', u_help = ascii ''enable/disable RTP TX'', u_handler = cli_command_rtp\<rparr>,
      \<lparr>u_command = ascii ''rtcp'', u_help = ascii ''enable/disable RTCP TX'', u_handler = cli_command_rtcp\<rparr>,
      \<lparr>u_command = ascii ''ssrc'', u_help = ascii ''change own ssrc'', u_handler = cli_command_ssrc\<rparr>]"

section \<open>The commands keep the task\<close>

lemma length_line: "length (line l v) = length l + length v + 2"
  by (simp add: line_def ascii_def CLI_EOL_def)

definition short :: "u8 list list \<Rightarrow> bool" where
  "short ts \<longleftrightarrow> (\<forall>t \<in> set ts. length t \<le> 513)"

lemma short_simps [simp]:
  "short []" "short (t # ts) \<longleftrightarrow> length t \<le> 513 \<and> short ts" "short (xs @ ys) \<longleftrightarrow> short xs \<and> short ys"
  by (auto simp: short_def)

lemma short_line: "length l \<le> 100 \<Longrightarrow> length v \<le> 400 \<Longrightarrow> length (line l v) \<le> 513"
  by (simp add: length_line)

lemma short_fmt:
  "length l \<le> 100 \<Longrightarrow> length (line l (fmt_u w)) \<le> 513" "length l \<le> 100 \<Longrightarrow> length (line l (fmt_d i)) \<le> 513"
  "length l \<le> 100 \<Longrightarrow> length (line l (fmt_08x w)) \<le> 513" "length l \<le> 100 \<Longrightarrow> length (line l (fmt_addr a)) \<le> 513"
  using length_fmt(1) [of w] length_fmt(2) [of i] length_fmt(4) [of w] length_fmt(6) [of a]
  by (auto intro!: short_line)

lemma cname_text_ok:
  assumes "length (cname m) = RTP_CONFIG_SDES_CNAME_MAX + 1"
  shows "\<exists>out. cname_text m = Inr out \<and> short out"
proof -
  have len: "unat (cname_len m) < length (cname m)"
    using unsigned_less [of "cname_len m", where 'a = nat] assms by (simp add: config_defs)
  have "outcome {} short (foldE (\<lambda>i out. bindE (rd8 (cname m) i) (\<lambda>b. Inr (out @ [ascii ''0x'' @ fmt_02x b @ ascii '' ''])))
      [0..<unat (cname_len m)] [])"
    by (rule foldE_outcome) (use len length_fmt(3) in \<open>simp_all add: ascii_def\<close>)
  then show ?thesis by (cases "cname_text m") (simp_all add: cname_text_def)
qed

lemma print_member_ok:
  assumes "length (cname m) = RTP_CONFIG_SDES_CNAME_MAX + 1"
  shows "\<exists>out. print_member m = Inr out \<and> short out"
proof -
  obtain names where "cname_text m = Inr names" "short names" using cname_text_ok [OF assms] by blast
  moreover have "length (ascii ''cname len '' @ fmt_d (uint (cname_len m)) @ ascii '', '') \<le> 513"
    using length_fmt(2) [of "uint (cname_len m)"] by (simp add: ascii_def)
  ultimately show ?thesis by (simp add: print_member_def short_fmt CLI_EOL_def)
qed

text \<open>\<open>fuel\<close> is more than the number of members that are left.\<close>

lemma print_members_ok:
  assumes "sess_inv s" "k \<le> length (used s)" "length (used s) - k < fuel"
  shows "\<exists>out. print_members fuel s (if k < length (used s) then Some (used s ! k) else None) = Inr out \<and> short out"
  using assms(2,3)
proof (induction fuel arbitrary: k)
  case (Suc fuel)
  have D: "distinct (used s)" "mt_slots (member_table s)"
    using sess_inv_atD [of 0 "{}" s] assms(1) by (auto simp: sess_inv_def)
  show ?case
  proof (cases "k < length (used s)")
    case False
    then show ?thesis by simp
  next
    case True
    have nx: "rtp_member_table_get_next (member_table s) (Some (used s ! k)) =
        (if Suc k < length (used s) then Some (used s ! Suc k) else None)"
    proof (cases "Suc k < length (used s)")
      case True
      then show ?thesis using D by (simp add: rtp_member_table_get_next_def next_in_nth)
    next
      case False
      with True have "used s \<noteq> []" "k = length (used s) - 1" by auto
      then have "used s \<noteq> []" "used s ! k = last (used s)" by (simp_all add: last_conv_nth)
      then show ?thesis using False D next_in_last [of "used s"] by (simp add: rtp_member_table_get_next_def)
    qed
    obtain rest where rest: "print_members fuel s (if Suc k < length (used s) then Some (used s ! Suc k) else None) = Inr rest"
      "short rest"
    proof -
      have "length (used s) - Suc k < fuel" using Suc.prems True by linarith
      then show thesis using Suc.IH [of "Suc k"] True that by auto
    qed
    have "used s ! k < length (member_array (member_table s))"
      using sess_inv_atD(7) [of 0 "{}" s "used s ! k"] assms(1) True by (simp add: sess_inv_def)
    then have "length (cname (mem s (used s ! k))) = RTP_CONFIG_SDES_CNAME_MAX + 1"
      using sess_inv_atD(3) [of 0 "{}" s] assms(1) by (simp add: sess_inv_def sess_shape_def mem_def)
    then obtain out where "print_member (mem s (used s ! k)) = Inr out" "short out" using print_member_ok by blast
    then show ?thesis using True rest by (simp add: nx separator_def ascii_def CLI_EOL_def)
  qed
qed simp

text \<open>The invariant of the task as the commands and the callbacks keep it; \<open>W\<close> are its watchers.\<close>

definition task_in :: "nat set \<Rightarrow> rtp_task \<Rightarrow> bool" where
  "task_in W t \<longleftrightarrow> task_ok t \<and> set (task_watchers t) = W"

lemma task_in_inv: "task_in W t \<Longrightarrow> sess_inv (rt_session t)"
  by (simp add: task_in_def task_ok_def sess_idle_def)

definition command_ok :: "nat set \<Rightarrow> handler \<Rightarrow> bool" where
  "command_ok W h \<longleftrightarrow> (\<forall>argv t. argv_ok argv \<longrightarrow> task_in W t \<longrightarrow>
     outcome {} (\<lambda>(t', outs). task_in W t' \<and> (\<forall>out \<in> set outs. length out \<le> 513)) (h argv t))"

lemma command_okI:
  "(\<And>argv t. argv_ok argv \<Longrightarrow> task_in W t \<Longrightarrow> \<exists>t' outs. h argv t = Inr (t', outs) \<and> task_in W t' \<and> short outs) \<Longrightarrow>
   command_ok W h"
  unfolding command_ok_def short_def by (intro allI impI) fastforce

lemma stats_ok:
  assumes "\<And>k x. length (fmt k x) \<le> 320"
  shows "command_ok W (cli_command_stats fmt)"
  by (rule command_okI)
    (simp add: cli_command_stats_def Let_def short_fmt short_line assms le_trans [OF assms])

lemma self_ok: "command_ok W cli_command_self"
proof (rule command_okI)
  fix argv t
  assume t: "task_in W t"
  obtain me where me: "self (rt_session t) = Some me" "me < RTP_CONFIG_MAX_MEMBERS_PER_SESSION"
    using task_in_inv [OF t] by (auto simp: sess_inv_def sess_inv_at_def sess_shape_def)
  then have "length (cname (mem (rt_session t) me)) = RTP_CONFIG_SDES_CNAME_MAX + 1"
    using sess_inv_atD(3,8) [of 0 "{}" "rt_session t"] task_in_inv [OF t]
    by (simp add: sess_inv_def sess_shape_def mem_def)
  then obtain out where "print_member (mem (rt_session t) me) = Inr out" "short out" using print_member_ok by blast
  then show "\<exists>t' outs. cli_command_self argv t = Inr (t', outs) \<and> task_in W t' \<and> short outs"
    using t me(1) by (simp add: cli_command_self_def rtp_task_get_session_def)
qed

lemma members_ok: "command_ok W cli_command_members"
proof (rule command_okI)
  fix argv t
  assume t: "task_in W t"
  let ?s = "rt_session t"
  have first: "rtp_member_table_get_first (member_table ?s) = (if 0 < length (used ?s) then Some (used ?s ! 0) else None)"
    by (simp add: rtp_member_table_get_first_def split: list.split)
  have "length (used ?s) \<le> RTP_CONFIG_MAX_MEMBERS_PER_SESSION"
    using used_bound [of 0 "{}" ?s] task_in_inv [OF t] by (simp add: sess_inv_def)
  then obtain out where "print_members (RTP_CONFIG_MAX_MEMBERS_PER_SESSION + 1) ?s
      (rtp_member_table_get_first (member_table ?s)) = Inr out" "short out"
    using print_members_ok [OF task_in_inv [OF t], of 0 "RTP_CONFIG_MAX_MEMBERS_PER_SESSION + 1"] first by auto
  then show "\<exists>t' outs. cli_command_members argv t = Inr (t', outs) \<and> task_in W t' \<and> short outs"
    using t by (simp add: cli_command_members_def rtp_task_get_session_def short_fmt del: One_nat_def add_Suc_right)
qed

lemma conflicts_ok: "command_ok W cli_command_conflicts"
proof (rule command_okI)
  fix argv t
  assume t: "task_in W t"
  have e: "length (fmt_d i @ ascii '': '' @ fmt_addr a @ CLI_EOL) \<le> 513" for i a
    using length_fmt(2) [of i] length_fmt(6) [of a] by (simp add: ascii_def CLI_EOL_def)
  have "short (concat (map2 (\<lambda>i c. [separator, fmt_d (int i) @ ascii '': '' @ fmt_addr (f c) @ CLI_EOL]) is cs))" for f "is" cs
    using e unfolding short_def by (auto simp: separator_def ascii_def CLI_EOL_def)
  then show "\<exists>t' outs. cli_command_conflicts argv t = Inr (t', outs) \<and> task_in W t' \<and> short outs"
    using t by (simp add: cli_command_conflicts_def Let_def)
qed

lemma usage_ok: "argv_ok argv \<Longrightarrow> length s \<le> 100 \<Longrightarrow> \<exists>outs. usage argv s = Inr outs \<and> short outs"
  by (cases argv) (auto simp: usage_def argv_ok_def ascii_def CLI_EOL_def cli_config)

lemma on_off_ok:
  assumes "\<And>e t. task_in W t \<Longrightarrow> task_in W (control e t)"
  shows "command_ok W (on_off control)"
proof (rule command_okI)
  fix argv t
  assume a: "argv_ok argv" "task_in W t"
  obtain outs where "usage argv ''[on|off]'' = Inr outs" "short outs"
    using usage_ok [OF a(1), of "''[on|off]''"] by auto
  then show "\<exists>t' outs. on_off control argv t = Inr (t', outs) \<and> task_in W t' \<and> short outs"
    using a(2) assms by (simp add: on_off_def)
qed

lemma control_ok:
  "task_in W t \<Longrightarrow> task_in W (rtp_task_rtp_control e t)" "task_in W t \<Longrightarrow> task_in W (rtp_task_rtcp_control e t)"
  by (simp_all add: task_in_def task_ok_def task_watchers_def rtp_task_rtp_control_def rtp_task_rtcp_control_def)

text \<open>
  Every command but \<open>ssrc\<close> leaves the session in its invariant, on any arguments that a line can have; it does not fail
  and prints no text that is longer than the print buffer, so that these commands meet what the telnet
  server asks of its commands.
\<close>

definition is_ssrc :: "rtp_task user_command \<Rightarrow> bool" where
  "is_ssrc c \<longleftrightarrow> u_command c = ascii ''ssrc''"

lemma rtp_commands_keep:
  assumes "\<And>k x. length (fmt k x) \<le> 320"
  shows "commands_ok (task_in W) (filter (\<lambda>c. \<not> is_ssrc c) (rtp_commands fmt))"
proof -
  have "command_ok W cli_command_rtp" "command_ok W cli_command_rtcp"
    using on_off_ok [of W rtp_task_rtp_control] on_off_ok [of W rtp_task_rtcp_control] control_ok
    by (simp_all add: command_ok_def cli_command_rtp_def cli_command_rtcp_def)
  moreover note stats_ok [OF assms, of W] self_ok [of W] members_ok [of W] conflicts_ok [of W]
  ultimately show ?thesis
    unfolding commands_ok_def command_ok_def rtp_commands_def is_ssrc_def by (simp add: ascii_def)
qed

text \<open>
  C37: every command but \<open>ssrc\<close>, on whatever words a line can have, returns: it reads and writes nothing out of
  bounds, leaves the session in its invariant and its watchers where they are, and prints no piece of text that
  does not fit the print buffer.
\<close>

theorem rtp_commands_safe:
  assumes "\<forall>k x. length (fmt k x) \<le> 320" "c \<in> set (rtp_commands fmt)" "\<not> is_ssrc c" "argv_ok argv" "task_in W t"
  shows "\<exists>t' outs. u_handler c argv t = Inr (t', outs) \<and> task_in W t' \<and> (\<forall>out \<in> set outs. length out \<le> 513)"
proof -
  have "commands_ok (task_in W) (filter (\<lambda>c. \<not> is_ssrc c) (rtp_commands fmt))"
    by (rule rtp_commands_keep) (use assms(1) in blast)
  then have "outcome {} (\<lambda>(t', outs). task_in W t' \<and> (\<forall>out \<in> set outs. length out \<le> 513)) (u_handler c argv t)"
    using assms(2-5) by (simp add: commands_ok_def)
  then show ?thesis by (cases "u_handler c argv t") auto
qed

section \<open>Changing the SSRC\<close>

lemma own_ssrc_mem:
  assumes "mt_slots (member_table s)" "me \<in> set (used s)"
  shows "mem (s\<lparr>member_table := set_ssrc (member_table s) me ssrc\<rparr>) m =
    (if m = me then (mem s me)\<lparr>m_ssrc := ssrc\<rparr> else mem s m)"
proof -
  have "me < length (member_array (member_table s))"
    using mt_slotsD [OF assms(1)] assms by (auto simp: mt_slots_def)
  then show ?thesis by (simp add: mem_def set_ssrc_def)
qed

lemma own_ssrc_distinct:
  assumes "mt_wf (member_table s)" "me \<in> set (used s)"
  shows "mt_wf (set_ssrc (member_table s) me ssrc) \<longleftrightarrow> (\<forall>m \<in> set (used s). m \<noteq> me \<longrightarrow> m_ssrc (mem s m) \<noteq> ssrc)"
proof -
  have slots: "mt_slots (member_table s)" "distinct (ssrcs (member_table s))" using assms(1) by (simp_all add: mt_wf_def)
  note d = mt_slotsD(1) [OF slots(1)]
  let ?s = "s\<lparr>member_table := set_ssrc (member_table s) me ssrc\<rparr>"
  have ss: "ssrcs (set_ssrc (member_table s) me ssrc) = map (\<lambda>m. m_ssrc (mem ?s m)) (used s)"
    "ssrcs (member_table s) = map (\<lambda>m. m_ssrc (mem s m)) (used s)"
    by (simp_all add: ssrcs_def mem_def set_ssrc_frame)
  have inj: "inj_on (\<lambda>m. m_ssrc (mem s m)) (set (used s))"
    using slots(2) d unfolding ss(2) by (simp add: distinct_map)
  have "mt_wf (set_ssrc (member_table s) me ssrc) \<longleftrightarrow> inj_on (\<lambda>m. m_ssrc (mem ?s m)) (set (used s))"
    unfolding mt_wf_def ss(1) using set_ssrc_slots [OF slots(1)] d by (simp add: distinct_map)
  also have "\<dots> \<longleftrightarrow> (\<forall>m \<in> set (used s). m \<noteq> me \<longrightarrow> m_ssrc (mem s m) \<noteq> ssrc)"
    using inj assms(2) by (auto simp: inj_on_def own_ssrc_mem [OF slots(1) assms(2)])
  finally show ?thesis .
qed

lemma own_ssrc_inv:
  assumes "sess_inv s" "me \<in> set (used s)"
  shows "sess_inv (s\<lparr>member_table := set_ssrc (member_table s) me ssrc\<rparr>) \<longleftrightarrow>
    (\<forall>m \<in> set (used s). m \<noteq> me \<longrightarrow> m_ssrc (mem s m) \<noteq> ssrc)"
proof -
  let ?s = "s\<lparr>member_table := set_ssrc (member_table s) me ssrc\<rparr>"
  have inv: "sess_inv_at 0 {} s" using assms(1) by (simp add: sess_inv_def)
  note D = sess_inv_atD [OF inv]
  note m = own_ssrc_mem [OF D(5) assms(2), of ssrc]
  have "bye_of ?s = bye_of s" by (simp add: fun_eq_iff bye_of_def m rtp_member_is_bye_received_def has_flag_def)
  then have a: "active ?s = active s" "bye_of ?s = bye_of s" by (simp_all add: active_def set_ssrc_frame)
  have "\<forall>x \<in> set (member_array (set_ssrc (member_table s) me ssrc)). length (cname x) = RTP_CONFIG_SDES_CNAME_MAX + 1"
  proof
    fix x assume "x \<in> set (member_array (set_ssrc (member_table s) me ssrc))"
    then have "x \<in> insert ((mem s me)\<lparr>m_ssrc := ssrc\<rparr>) (set (member_array (member_table s)))"
      using set_update_subset_insert by (force simp: set_ssrc_def mem_def)
    moreover have "mem s me \<in> set (member_array (member_table s))" using D(7) [OF assms(2)] by (simp add: mem_def)
    ultimately show "length (cname x) = RTP_CONFIG_SDES_CNAME_MAX + 1" using D(3) by (auto simp: sess_shape_def)
  qed
  then have "sess_shape ?s" using D(3) by (simp add: sess_shape_def)
  then have "sess_inv ?s \<longleftrightarrow> mt_wf (set_ssrc (member_table s) me ssrc)"
    using inv a by (simp add: sess_inv_def sess_inv_at_def set_ssrc_frame)
  then show ?thesis using own_ssrc_distinct [OF D(2) assms(2)] by simp
qed

text \<open>
  C38: The command \<open>ssrc\<close> gives the session the number that was typed, modulo \<open>2 ^ 32\<close>, without looking whether it is
  taken: when it is that of another member, two members of the table have the same SSRC afterwards, and the
  invariant of the session is lost; otherwise it is kept.
\<close>

theorem ssrc_command_unchecked:
  assumes "task_in W t" "self (rt_session t) = Some me" "me \<in> set (used (rt_session t))" "length argv = 2"
  shows "\<exists>t'. cli_command_ssrc argv t = Inr (t', [line ''changed own ssrc to '' (fmt_u (atoi (argv ! 1)))]) \<and>
    m_ssrc (mem (rt_session t') me) = atoi (argv ! 1) \<and>
    (task_in W t' \<longleftrightarrow> (\<forall>m \<in> set (used (rt_session t)). m \<noteq> me \<longrightarrow> m_ssrc (mem (rt_session t) m) \<noteq> atoi (argv ! 1)))"
proof -
  let ?s = "rt_session t"
  let ?s' = "?s\<lparr>member_table := set_ssrc (member_table ?s) me (atoi (argv ! 1))\<rparr>"
  have inv: "sess_inv_at 0 {} ?s" using task_in_inv [OF assms(1)] by (simp add: sess_inv_def)
  have run: "cli_command_ssrc argv t =
      Inr (t\<lparr>rt_session := ?s'\<rparr>, [line ''changed own ssrc to '' (fmt_u (atoi (argv ! 1)))])"
    using assms(2,4) by (simp add: cli_command_ssrc_def rtp_task_get_session_def rtp_member_table_change_ssrc_def Let_def)
  have "task_in W (t\<lparr>rt_session := ?s'\<rparr>) \<longleftrightarrow> sess_inv ?s'"
    using assms(1) by (simp add: task_in_def task_ok_def sess_idle_def task_watchers_def)
  moreover have "m_ssrc (mem ?s' me) = atoi (argv ! 1)"
    using own_ssrc_mem [OF sess_inv_atD(5) [OF inv] assms(3)] by simp
  ultimately show ?thesis
    using run own_ssrc_inv [OF task_in_inv [OF assms(1)] assms(3)] by simp
qed

end
