(* ===== verification/Demo_Main.thy ===== *)
theory Demo_Main
  imports Rtp_Cli Session_Demo
begin

text \<open>
  The demonstration as a whole, \<^verbatim>\<open>demo/main.c\<close>: one event loop that serves the telnet server of the command
  line and the four watchers of the RTP task, which the commands look at and change.
\<close>

section \<open>The program\<close>

text \<open>The callbacks of all watchers: those of the task are the \<open>others\<close> of the server, and its state is the user's state.\<close>

definition demo_callback :: "rtp_task user_command list \<Rightarrow> rtp_task cli_server io_callback" where
  "demo_callback cmds p evt s =
     (if p \<in> others (snd s) then
        bindE (rtp_task_callback p (user (snd s))) (\<lambda>t. Inr (fst s, (snd s)\<lparr>user := t\<rparr>))
      else cli_callback cmds p evt s)"

definition CONFIG_TELNET_PORT :: int where "CONFIG_TELNET_PORT = 9999"

definition rtp_cli_init ::
  "(nat \<Rightarrow> real \<Rightarrow> u8 list) \<Rightarrow> int \<Rightarrow> int \<Rightarrow> int \<Rightarrow> rtp_task srv \<Rightarrow> (rtp_task user_command list \<times> rtp_task srv) res" where
  "rtp_cli_init fmt sd bind_ret listen_ret s = cli_init (rtp_commands fmt) CONFIG_TELNET_PORT sd bind_ret listen_ret s"

text \<open>What \<open>main\<close> does before its loop; \<open>None\<close> is that the program ends.\<close>

definition main_init ::
  "(nat \<Rightarrow> real \<Rightarrow> u8 list) \<Rightarrow> int \<Rightarrow> int \<Rightarrow> int \<Rightarrow> init_calls \<Rightarrow> u8 list list \<Rightarrow> rtp_task srv \<Rightarrow>
   (rtp_task user_command list \<times> rtp_task srv) option res" where
  "main_init fmt sd bind_ret listen_ret ic argv s =
     (if length argv \<noteq> 2 then Inr None
      else
        let blah = ucast (atoi (argv ! 1));
            s = (io_driver_init (fst s), snd s)
        in bindE (rtp_cli_init fmt sd bind_ret listen_ret s) (\<lambda>(cmds, s).
           unless_exit (rtp_task_init ic blah (fst s, user (snd s))) (\<lambda>(io, t).
           Inr (Some (cmds, (io, (snd s)\<lparr>user := t\<rparr>))))))"

section \<open>The callbacks of the program meet the contract of the loop\<close>

definition demo_faults :: "fault set" where
  "demo_faults = cli_faults \<union> task_faults"

definition program_ok :: "rtp_task user_command list \<Rightarrow> nat set \<Rightarrow> (nat \<Rightarrow> io_driver_watcher option) \<Rightarrow> rtp_task cli_server \<Rightarrow> bool" where
  "program_ok cmds W ws srv \<longleftrightarrow> srv_ok ws srv \<and> task_in W (user srv) \<and> others srv = W \<and> commands_ok (task_in W) cmds"

lemma session_call_in: "session_call t t' \<Longrightarrow> set (task_watchers t) = W \<Longrightarrow> task_in W t'"
  using session_call_frame(1,8) [of t t'] by (simp add: task_in_def)

lemma srv_ok_user: "srv_ok ws (srv\<lparr>user := u\<rparr>) \<longleftrightarrow> srv_ok ws srv"
  by (simp add: srv_ok_def mallocs_ok_def malloc_fits_def)

interpretation demo: io_client "demo_callback cmds" "program_ok cmds W" demo_faults
  for cmds :: "rtp_task user_command list" and W
proof
  fix io :: io_driver and srv :: "rtp_task cli_server" and p e
  assume a: "io_wf io" "program_ok cmds W (watcher_mem io) srv" "p \<in> set (watchers io)"
  let ?Q = "\<lambda>(io', c'). io_wf io' \<and> program_ok cmds W (watcher_mem io') c' \<and>
      cb_step p io io' \<and> (watcher_mem io' p = None \<longrightarrow> UseAfterFree \<in> demo_faults)"
  have uaf: "UseAfterFree \<in> demo_faults" by (simp add: demo_faults_def cli_faults_def)
  show "outcome demo_faults ?Q (demo_callback cmds p e (io, srv))"
  proof (cases "p \<in> W")
    case True
    have t: "task_ok (user srv)" "set (task_watchers (user srv)) = W" using a(2) by (simp_all add: program_ok_def task_in_def)
    have cb: "outcome task_faults (session_call (user srv)) (rtp_task_callback p (user srv))"
      by (rule task_callback_ok) (use t True in simp_all)
    have "outcome demo_faults (task_in W) (rtp_task_callback p (user srv))"
      by (rule outcome_mono [OF cb]) (simp add: demo_faults_def, rule session_call_in [OF _ t(2)])
    then show ?thesis
      using a True uaf by (cases "rtp_task_callback p (user srv)") (auto simp: demo_callback_def program_ok_def srv_ok_user)
  next
    case False
    have "outcome cli_faults (cb_result (task_in W) p (io, srv)) (cli_callback cmds p e (io, srv))"
      by (rule cli_callback_ok) (use a False in \<open>simp_all add: program_ok_def srv_inv_def\<close>)
    then have "outcome demo_faults ?Q (cli_callback cmds p e (io, srv))"
    proof (rule outcome_mono)
      show "cli_faults \<subseteq> demo_faults" by (simp add: demo_faults_def)
      fix x assume h: "cb_result (task_in W) p (io, srv) x"
      obtain io' c' where x: "x = (io', c')" by (cases x)
      have "commands_ok (task_in W) cmds" "others srv = W" using a(2) by (simp_all add: program_ok_def)
      then show "?Q x" using h uaf by (simp add: x cb_result_def srv_inv_def program_ok_def)
    qed
    then show ?thesis using a(2) False by (simp add: demo_callback_def program_ok_def)
  qed
qed

section \<open>The start\<close>

text \<open>The static memory of the program before \<open>main\<close>.\<close>

definition program_static :: "rtp_task srv \<Rightarrow> bool" where
  "program_static s \<longleftrightarrow> run_list (fst s) = [] \<and> srv_static (io_driver_init (fst s)) (snd s) \<and>
     task_static (io_driver_init (fst s)) (user (snd s)) \<and> others (snd s) = set (task_watchers (user (snd s)))"

definition main_inv :: "nat set \<Rightarrow> rtp_task srv \<Rightarrow> bool" where
  "main_inv W s \<longleftrightarrow> srv_inv (task_in W) s \<and> others (snd s) = W \<and> run_list (fst s) = []"

lemma task_watchesD:
  "task_watches ic t io \<Longrightarrow> p \<in> set (task_watchers t) \<Longrightarrow> \<exists>w. watcher_mem io p = Some w \<and> event_listening w = 1"
  by (auto simp: task_watches_def task_watchers_def watching_def)

lemma started_wf:
  assumes "io_wf io" "task_static io t" "task_started ic blah io t io' t'"
  shows "io_wf io'" "dom (watcher_mem io') = dom (watcher_mem io)"
proof -
  let ?W = "task_watchers t"
  have T: "watchers io' = watchers io @ ?W" "run_list io' = run_list io" "task_watches ic t io'"
    "\<And>p. p \<notin> set ?W \<Longrightarrow> watcher_mem io' p = watcher_mem io p"
    using assms(3) unfolding task_started_def by blast+
  have S: "distinct ?W" "\<And>p. p \<in> set ?W \<Longrightarrow> watcher_mem io p \<noteq> None \<and> p \<notin> set (watchers io) \<and> p \<notin> set (run_list io)"
    using assms(2) unfolding task_static_def by blast+
  note d = io_wfD [OF assms(1)]
  show "io_wf io'"
    unfolding io_wf_def T(1,2)
  proof (intro conjI allI)
    show "distinct ((watchers io @ ?W) @ run_list io)" using d S by auto
    fix p
    show "p \<in> set ((watchers io @ ?W) @ run_list io) \<longleftrightarrow> (\<exists>w. watcher_mem io' p = Some w \<and> event_listening w \<noteq> 0)"
    proof (cases "p \<in> set ?W")
      case True
      then show ?thesis using task_watchesD [OF T(3) True] by auto
    next
      case False
      then show ?thesis using d(4) [of p] T(4) [OF False] by auto
    qed
  qed
  show "dom (watcher_mem io') = dom (watcher_mem io)"
  proof (rule set_eqI)
    fix p
    show "p \<in> dom (watcher_mem io') \<longleftrightarrow> p \<in> dom (watcher_mem io)"
    proof (cases "p \<in> set ?W")
      case True
      then show ?thesis using task_watchesD [OF T(3) True] S(2) [OF True] by (auto simp: domIff)
    next
      case False
      then show ?thesis by (simp add: domIff T(4))
    qed
  qed
qed

lemma task_static_frame:
  assumes "task_static io t" "io_wf io" "io_wf io'" "run_list io = []" "run_list io' = []"
    "\<And>p. p \<in> set (task_watchers t) \<Longrightarrow> watcher_mem io' p = watcher_mem io p"
  shows "task_static io' t"
proof -
  have "p \<notin> set (watchers io')" if "p \<in> set (task_watchers t)" for p
  proof -
    have "p \<notin> set (watchers io)" using assms(1) that by (auto simp: task_static_def)
    then have "\<not> (\<exists>w. watcher_mem io' p = Some w \<and> event_listening w \<noteq> 0)"
      using io_wfD(4) [OF assms(2), of p] assms(4) assms(6) [OF that] by auto
    then show ?thesis using io_wfD(4) [OF assms(3), of p] by auto
  qed
  then show ?thesis using assms(1,5,6) by (auto simp: task_static_def)
qed

lemma main_init_ok:
  assumes "program_static s" "calls_succeed ic" "length argv = 2"
  shows "\<exists>s'. main_init fmt sd b l ic argv s = Inr (Some (rtp_commands fmt, s')) \<and> main_inv (others (snd s)) s'"
proof -
  obtain io srv where s: "s = (io, srv)" by (cases s)
  let ?io = "io_driver_init io" and ?t = "user srv" and ?W = "others srv" and ?blah = "ucast (atoi (argv ! 1))"
  have P: "run_list ?io = []" "srv_static ?io srv" "task_static ?io ?t" "?W = set (task_watchers ?t)"
    using assms(1) by (simp_all add: program_static_def s io_driver_init_def)
  obtain io1 srv1 where 1: "cli_telnet_server_init CONFIG_TELNET_PORT sd b l (?io, srv) = Inr (io1, srv1)" "srv_inv (\<lambda>_. True) (io1, srv1)"
    "others srv1 = ?W" "user srv1 = ?t" "run_list io1 = []" "\<forall>p \<in> ?W. watcher_mem io1 p = watcher_mem ?io p"
    using server_start_ok [OF P(2), of "\<lambda>_. True" CONFIG_TELNET_PORT sd b l] P(1) by auto
  have wf: "io_wf ?io" "io_wf io1" using P(2) 1(2) by (simp_all add: srv_static_def srv_inv_def)
  have st: "task_static io1 ?t"
    by (rule task_static_frame [OF P(3) wf P(1) 1(5)]) (use 1(6) P(4) in simp)
  obtain io2 t2 where 2: "rtp_task_init ic ?blah (io1, ?t) = Inr (Some (io2, t2))" "task_started ic ?blah io1 ?t io2 t2"
    using task_init_ok [OF st assms(2)] by blast
  note w2 = started_wf [OF wf(2) st 2(2)]
  have t2: "task_in ?W t2" using 2(2) P(4) by (simp add: task_in_def task_started_def)
  have none: "watcher_mem io2 q = None \<longleftrightarrow> watcher_mem io1 q = None" for q using w2(2) by (metis domIff)
  have S: "srv_ok (watcher_mem io1) srv1" using 1(2) by (simp add: srv_inv_def)
  note D = srv_okD [OF S]
  have "srv_ok (watcher_mem io2) srv1"
  proof (rule srv_okI)
    show "mallocs_ok (watcher_mem io2) srv1" using D(10) mallocs_ok_cong [OF none, of srv1 srv1] by simp
    show "watcher_mem io2 (ts_watcher (tcp_server srv1)) \<noteq> None" using D(1) none by simp
    fix a c assume c: "conn_mem srv1 a = Some c"
    have "a \<notin> ?W" using D(12) c 1(3) by auto
    then have "watcher_mem io2 a = watcher_mem io1 a" using 2(2) P(4) by (simp add: task_started_def)
    then show "conn_ok (watcher_mem io2) a c" using D(3) [OF c] by (simp add: conn_ok_def)
  qed (use D w2(2) in simp_all)
  then have "main_inv ?W (io2, srv1\<lparr>user := t2\<rparr>)"
    using w2(1) t2 1(3,5) 2(2) by (simp add: main_inv_def srv_inv_def srv_ok_user task_started_def)
  moreover have "main_init fmt sd b l ic argv s = Inr (Some (rtp_commands fmt, (io2, srv1\<lparr>user := t2\<rparr>)))"
    using assms(3) 1(1,4) 2(1)
    by (simp add: main_init_def s rtp_cli_init_def cli_init_def cli_telnet_intf_init_def unless_exit_def)
  ultimately show ?thesis by (auto simp: s)
qed

section \<open>The loop of \<open>main\<close>\<close>

text \<open>The commands that leave the SSRC alone: the one that changes it is \<open>ssrc_command_unchecked\<close>.\<close>

definition main_commands :: "(nat \<Rightarrow> real \<Rightarrow> u8 list) \<Rightarrow> rtp_task user_command list" where
  "main_commands fmt = filter (\<lambda>c. \<not> is_ssrc c) (rtp_commands fmt)"

text \<open>What \<open>%.2f\<close> and the like print fits what is left of the print buffer.\<close>

definition fmt_fits :: "(nat \<Rightarrow> real \<Rightarrow> u8 list) \<Rightarrow> bool" where
  "fmt_fits fmt \<longleftrightarrow> (\<forall>k x. length (fmt k x) \<le> 320)"

text \<open>The body of \<open>while(1)\<close>; \<open>None\<close> is a pass that does not end.\<close>

definition main_pass :: "(nat \<Rightarrow> real \<Rightarrow> u8 list) \<Rightarrow> select_fn \<Rightarrow> rtp_task srv \<Rightarrow> rtp_task srv res option" where
  "main_pass fmt sel s = io_driver_run (demo_callback (main_commands fmt)) sel s"

inductive demo_reach :: "(nat \<Rightarrow> real \<Rightarrow> u8 list) \<Rightarrow> rtp_task srv \<Rightarrow> rtp_task srv \<Rightarrow> bool"
  for fmt s0 where
  start: "calls_succeed ic \<Longrightarrow> length argv = 2 \<Longrightarrow> main_init fmt sd b l ic argv s0 = Inr (Some (cmds, s)) \<Longrightarrow>
    demo_reach fmt s0 s"
| pass: "demo_reach fmt s0 s \<Longrightarrow> select_sane sel \<Longrightarrow> fds_fit (fst s) (watchers (fst s)) \<Longrightarrow>
    main_pass fmt sel s = Some (Inr s') \<Longrightarrow> demo_reach fmt s0 s'"

lemma main_pass_ok:
  assumes "main_inv W s" "fmt_fits fmt" "select_sane sel" "fds_fit (fst s) (watchers (fst s))"
  shows "\<exists>r. main_pass fmt sel s = Some r \<and> outcome demo_faults (main_inv W) r"
proof -
  obtain io srv where s: "s = (io, srv)" by (cases s)
  have cmds: "commands_ok (task_in W) (main_commands fmt)"
    unfolding main_commands_def by (rule rtp_commands_keep) (use assms(2) in \<open>simp add: fmt_fits_def\<close>)
  then have ok: "io_wf io" "program_ok (main_commands fmt) W (watcher_mem io) srv" "run_list io = []"
    using assms(1) by (simp_all add: main_inv_def srv_inv_def program_ok_def s)
  have sel: "fds_fit io (watchers io)" using assms(4) by (simp add: s)
  from demo.run_ok [OF ok sel assms(3)] obtain r where r: "main_pass fmt sel s = Some r"
    "outcome demo_faults (\<lambda>(io', c'). io_wf io' \<and> program_ok (main_commands fmt) W (watcher_mem io') c' \<and> run_list io' = [] \<and>
      (\<exists>new. calls io' = calls io @ new \<and> subseq new (turns (watchers io)) \<and>
        (\<forall>(p, e) \<in> set new. \<exists>w. watcher_mem io p = Some w \<and> w_fd w \<in> listening_fds io (watchers io) e))) r"
    unfolding main_pass_def s by blast
  have "outcome demo_faults (main_inv W) r"
  proof (rule outcome_mono [OF r(2) order_refl])
    fix x assume "case x of (io', c') \<Rightarrow> io_wf io' \<and> program_ok (main_commands fmt) W (watcher_mem io') c' \<and> run_list io' = [] \<and>
      (\<exists>new. calls io' = calls io @ new \<and> subseq new (turns (watchers io)) \<and>
        (\<forall>(p, e) \<in> set new. \<exists>w. watcher_mem io p = Some w \<and> w_fd w \<in> listening_fds io (watchers io) e))"
    then show "main_inv W x" by (cases x) (simp add: main_inv_def srv_inv_def program_ok_def)
  qed
  with r(1) show ?thesis by blast
qed

lemma demo_reach_inv:
  assumes "demo_reach fmt s0 s" "program_static s0" "fmt_fits fmt"
  shows "main_inv (others (snd s0)) s"
  using assms(1)
proof (induction rule: demo_reach.induct)
  case (start ic argv sd b l cmds s)
  obtain s' where "main_init fmt sd b l ic argv s0 = Inr (Some (rtp_commands fmt, s'))" "main_inv (others (snd s0)) s'"
    using main_init_ok [OF assms(2) start(1,2)] by blast
  then show ?case using start(3) by simp
next
  case (pass s sel s')
  from main_pass_ok [OF pass.IH assms(3) pass.hyps(2,3)] pass.hyps(4) show ?case by auto
qed


section \<open>A concrete program\<close>

text \<open>The demonstration before its start: the four watchers of the task at 1 to 4, that of the server at 5; no
  datagram, an audio file of octets 7, every call to \<open>malloc\<close> fails.\<close>

definition demo_host :: task_host where
  "demo_host = \<lparr>recvs = (\<lambda>_. (- 1, [], zero_addr)), n_recvs = 0, file_reads = (\<lambda>_ n. (max 0 n, replicate (nat n) 7)),
     n_file_reads = 0, sample_stack = replicate 160 0, sent = []\<rparr>"

definition demo_task :: rtp_task where
  "demo_task = \<lparr>rt_session = demo_raw, rt_rtp_addr = zero_addr, rt_rtcp_addr = zero_addr, rt_rtp_rem_addr = zero_addr,
     rt_rtcp_rem_addr = zero_addr, rt_rtp_sock = 0, rt_rtcp_sock = 0, rt_rtp_watcher = 1, rt_rtcp_watcher = 2,
     rt_timer_watcher = 3, rt_timerfd = 0, rt_samplerfd = 0, rt_sampler_watcher = 4, rt_cname = [], rt_rtp_ts = 0,
     rtp_tx_enabled = 0, rtcp_tx_enabled = 1, rt_pcm_fd = 0,
     rt_session_cfg = demo_cfg\<lparr>c_cname := replicate 272 0\<rparr>, rt_host = demo_host\<rparr>"

definition start_io :: io_driver where
  "start_io = \<lparr>watchers = [], run_list = [],
     watcher_mem = (\<lambda>p. if p \<in> {1, 2, 3, 4, 5} then Some \<lparr>w_fd = 0, event_listening = 0\<rparr> else None), calls = []\<rparr>"

definition start_server :: "rtp_task cli_server" where
  "start_server = \<lparr>tcp_server = \<lparr>ts_sd = 0, is_listening = False, ts_watcher = 5, ipv4_addr = zero_addr\<rparr>, conns = [], intf_list = [],
     conn_mem = Map.empty, srv_sys = srv_sys one_server, accepts = (\<lambda>_. - 1), n_accepts = 0, mallocs = (\<lambda>_. None),
     n_mallocs = 0, peers = (\<lambda>_. zero_addr), user = demo_task, others = {1, 2, 3, 4}\<rparr>"

definition demo_calls :: init_calls where
  "demo_calls = \<lparr>ic_rtp_sock = 4, ic_rtp_bind = 0, ic_rtcp_sock = 5, ic_rtcp_bind = 0, ic_timerfd = 6, ic_samplerfd = 7,
     ic_pcm_fd = 8\<rparr>"

lemma demo_static_ok:
  "host_ok demo_host" "task_static start_io demo_task" "calls_succeed demo_calls" "program_static (start_io, start_server)"
proof -
  show h: "host_ok demo_host" by (simp add: host_ok_def demo_host_def)
  show t: "task_static start_io demo_task"
    using h demo_ok(1) by (auto simp: task_static_def task_watchers_def demo_task_def start_io_def)
  show "calls_succeed demo_calls" by (simp add: calls_succeed_def demo_calls_def)
  have "sys_sane (srv_sys one_server)" using one_server_ok by (rule srv_okD)
  then have "srv_static (io_driver_init start_io) start_server"
    by (auto simp: srv_static_def io_driver_init_def start_io_def start_server_def io_wf_def mallocs_ok_def
        split: if_splits)
  then show "program_static (start_io, start_server)"
    using t by (auto simp: program_static_def start_io_def start_server_def io_driver_init_def task_watchers_def demo_task_def)
qed

text \<open>The task with a session.\<close>

abbreviation demo_task_with :: "rtp_session \<Rightarrow> rtp_task" where
  "demo_task_with s \<equiv> demo_task\<lparr>rt_session := s, rtp_tx_enabled := 1\<rparr>"

lemma demo_task_session:
  obtains s where "rtp_session_init demo_raw demo_cfg = Inr s" "task_ok (demo_task_with s)" "task_in {1, 2, 3, 4} (demo_task_with s)"
    "self s = Some 0" "used s = [0]"
proof (rule demo_session)
  fix s assume s: "rtp_session_init demo_raw demo_cfg = Inr s" "sess_idle s" "self s = Some 0" "used s = [0]"
  have "task_ok (demo_task_with s)" using s(2) demo_static_ok(1) by (simp add: task_ok_def demo_task_def)
  moreover from this have "task_in {1, 2, 3, 4} (demo_task_with s)"
    by (simp add: task_in_def task_watchers_def demo_task_def)
  ultimately show thesis using s that by blast
qed

lemma demo_reads: "reads_give demo_host 0 0 [replicate 160 7]"
  by (simp add: demo_host_def)


theorem sampler_trusts_read_witness:
  "rtp_task_sampler_callback (demo_task\<lparr>rtp_tx_enabled := 1, rt_host := demo_host\<lparr>file_reads := \<lambda>k n.
     if k = 0 then (- 1, []) else (1, [7])\<rparr>\<rparr>) = Inl OobWrite \<and>
   rtp_task_sampler_callback (demo_task\<lparr>rtp_tx_enabled := 1, rt_host := demo_host\<lparr>file_reads := \<lambda>_ _. (0, [])\<rparr>\<rparr>) = Inl NoReturn"
proof
  have n: "n_file_reads demo_host = 0" by (simp add: demo_host_def)
  show "rtp_task_sampler_callback (demo_task\<lparr>rtp_tx_enabled := 1, rt_host := demo_host\<lparr>file_reads := \<lambda>k n.
     if k = 0 then (- 1, []) else (1, [7])\<rparr>\<rparr>) = Inl OobWrite" (is "rtp_task_sampler_callback ?t = _")
    using sampler_trusts_read [of ?t "[7]" 1] by (simp add: n)
  show "rtp_task_sampler_callback (demo_task\<lparr>rtp_tx_enabled := 1, rt_host := demo_host\<lparr>file_reads := \<lambda>_ _. (0, [])\<rparr>\<rparr>) = Inl NoReturn"
    (is "rtp_task_sampler_callback ?t = _")
    using sampler_trusts_read [of ?t "[7]" 1] by simp
qed

theorem all_sent_from_rtp_socket_witness:
  "\<exists>s t'. rtp_session_init demo_raw demo_cfg = Inr s \<and> rtp_task_callback 4 (demo_task_with s) = Inr t' \<and>
     length (sent (rt_host t')) = 1 \<and> (\<forall>(sock, addr, pkt) \<in> set (sent (rt_host t')). sock = 0)"
proof (rule demo_task_session)
  fix s assume s: "rtp_session_init demo_raw demo_cfg = Inr s" "task_ok (demo_task_with s)" "self s = Some 0"
  have h: "rt_host (demo_task_with s) = demo_host" "n_file_reads demo_host = 0" "sent demo_host = []"
    "rt_rtp_sock (demo_task_with s) = 0" "rtp_task_callback 4 (demo_task_with s) = rtp_task_sampler_callback (demo_task_with s)"
    by (simp_all add: demo_task_def demo_host_def rtp_task_callback_def)
  have "reads_give (rt_host (demo_task_with s)) (n_file_reads (rt_host (demo_task_with s))) 0 [replicate 160 7]"
    unfolding h using demo_reads .
  moreover have "self (rt_session (demo_task_with s)) = Some 0" "rtp_tx_enabled (demo_task_with s) \<noteq> 0"
    using s(3) by simp_all
  ultimately obtain t' pkt where "rtp_task_sampler_callback (demo_task_with s) = Inr t'"
    "sent (rt_host t') = sent (rt_host (demo_task_with s)) @ [pkt]"
    using sampler_sends [OF s(2)] by blast
  then have t': "rtp_task_sampler_callback (demo_task_with s) = Inr t'" "sent (rt_host t') = [pkt]"
    unfolding h(1,3) by simp_all
  have c: "rtp_task_callback 4 (demo_task_with s) = Inr t'" using t'(1) h(5) by simp
  from all_sent_from_rtp_socket [OF c] obtain xs where "sent (rt_host t') = sent (rt_host (demo_task_with s)) @ xs"
    "\<forall>(sock, addr, p) \<in> set xs. sock = rt_rtp_sock (demo_task_with s) \<and> (addr = rt_rtp_rem_addr (demo_task_with s) \<or>
      addr = rt_rtcp_rem_addr (demo_task_with s) \<and> rtcp_tx_enabled (demo_task_with s) \<noteq> 0)" by blast
  then have "\<forall>(sock, addr, p) \<in> set (sent (rt_host t')). sock = 0" unfolding h(1,3,4) by auto
  with s(1) c t'(2) show ?thesis by (intro exI [of _ s] exI [of _ t']) simp
qed

theorem rtp_task_init_correct_witness:
  "\<exists>io' t'. rtp_task_init demo_calls 1 (start_io, demo_task) = Inr (Some (io', t')) \<and>
     task_started demo_calls 1 start_io demo_task io' t'"
  using rtp_task_init_correct [OF demo_static_ok(2)] demo_static_ok(3) by blast

theorem ssrc_command_unchecked_witness:
  "\<exists>s t'. rtp_session_init demo_raw demo_cfg = Inr s \<and>
     cli_command_ssrc [ascii ''ssrc'', ascii ''7''] (demo_task_with s) = Inr (t', [line ''changed own ssrc to '' (fmt_u 7)]) \<and>
     m_ssrc (mem (rt_session t') 0) = 7 \<and> task_in {1, 2, 3, 4} t'"
proof (rule demo_task_session)
  fix s assume s: "rtp_session_init demo_raw demo_cfg = Inr s" "task_in {1, 2, 3, 4} (demo_task_with s)" "self s = Some 0"
    "used s = [0]"
  have "atoi (ascii ''7'') = 7"
    by (simp add: ascii_def atoi_def strtol_def digits_value_def is_digit_def is_space_def)
  moreover have "[ascii ''ssrc'', ascii ''7''] ! 1 = ascii ''7''" by simp
  moreover have u: "0 \<in> set (used (rt_session (demo_task_with s)))" "self (rt_session (demo_task_with s)) = Some 0"
    "length [ascii ''ssrc'', ascii ''7''] = 2" "\<forall>m \<in> set (used (rt_session (demo_task_with s))). m = 0"
    using s(3,4) by simp_all
  ultimately have "\<exists>t'. cli_command_ssrc [ascii ''ssrc'', ascii ''7''] (demo_task_with s) =
        Inr (t', [line ''changed own ssrc to '' (fmt_u 7)]) \<and>
      m_ssrc (mem (rt_session t') 0) = 7 \<and> task_in {1, 2, 3, 4} t'"
    using ssrc_command_unchecked [OF s(2) u(2,1,3)] by metis
  with s(1) show ?thesis by blast
qed

theorem rtp_commands_safe_witness:
  "\<exists>s t' outs. rtp_session_init demo_raw demo_cfg = Inr s \<and>
     u_handler (rtp_commands (\<lambda>_ _. []) ! 2) [ascii ''members''] (demo_task_with s) = Inr (t', outs) \<and>
     task_in {1, 2, 3, 4} t' \<and> (\<forall>out \<in> set outs. length out \<le> 513)"
proof (rule demo_task_session)
  fix s assume s: "rtp_session_init demo_raw demo_cfg = Inr s" "task_in {1, 2, 3, 4} (demo_task_with s)"
  have c: "rtp_commands (\<lambda>_ _. []) ! 2 \<in> set (rtp_commands (\<lambda>_ _. []))" "\<not> is_ssrc (rtp_commands (\<lambda>_ _. []) ! 2)"
    by (simp_all add: rtp_commands_def is_ssrc_def ascii_def)
  have "argv_ok [ascii ''members'']" by (simp add: argv_ok_def ascii_def cli_config)
  from rtp_commands_safe [OF _ c this s(2)] s(1) show ?thesis by auto
qed

lemma demo_started:
  "\<exists>s. demo_reach (\<lambda>_ _. []) (start_io, start_server) s \<and> fds_fit (fst s) (watchers (fst s))"
proof -
  have w: "task_watchers demo_task = [1, 2, 3, 4]" by (simp add: task_watchers_def demo_task_def)
  define ts where "ts = tcp_server_start ((tcp_server start_server)\<lparr>ipv4_addr := zero_addr\<lparr>sin_family := AF_INET,
    sin_addr := 0, sin_port := htons (of_int CONFIG_TELNET_PORT)\<rparr>, ts_sd := - 1\<rparr>)"
  have server: "cli_telnet_server_init CONFIG_TELNET_PORT (- 1) 0 0 (io_driver_init start_io, start_server) =
      Inr (io_driver_init start_io, start_server\<lparr>conns := [], tcp_server := ts, srv_sys := srv_sys start_server\<rparr>)"
    by (simp add: cli_telnet_server_init_def tcp_server_ipv4_init_def init_tcp_server_ipv4_def ts_def)
  have st: "task_static (io_driver_init start_io) demo_task"
    using demo_static_ok(2) by (simp add: io_driver_init_def start_io_def)
  obtain io' t' where i: "rtp_task_init demo_calls (ucast (atoi (ascii ''1''))) (io_driver_init start_io, demo_task) = Inr (Some (io', t'))"
    "task_started demo_calls (ucast (atoi (ascii ''1''))) (io_driver_init start_io) demo_task io' t'"
    using task_init_ok [OF st demo_static_ok(3)] by blast
  let ?s = "(io', start_server\<lparr>conns := [], tcp_server := ts, user := t'\<rparr>)"
  have "main_init (\<lambda>_ _. []) (- 1) 0 0 demo_calls [ascii ''main'', ascii ''1''] (start_io, start_server) =
      Inr (Some (rtp_commands (\<lambda>_ _. []), ?s))"
    using server i(1)
    by (simp add: main_init_def rtp_cli_init_def cli_init_def cli_telnet_intf_init_def unless_exit_def start_server_def)
  then have "demo_reach (\<lambda>_ _. []) (start_io, start_server) ?s"
    by (rule demo_reach.start [OF demo_static_ok(3), rotated]) simp
  moreover have "watchers io' = [1, 2, 3, 4]" "task_watches demo_calls demo_task io'"
    using i(2) w by (simp_all add: task_started_def io_driver_init_def start_io_def)
  then have "fds_fit io' (watchers io')"
    by (auto simp: fds_fit_def task_watches_def demo_task_def demo_calls_def watching_def FD_SETSIZE_def)
  ultimately show ?thesis by auto
qed


end
