(* ===== verification/Spec2Isabelle.thy ===== *)
theory Spec2Isabelle
  imports Rtcp_Encoder Rtp_Header Rtp_Seq Rtp_Random Session_Live Report_End Linked_Table List_Loops Sock_Util
    Demo_Main
begin

text \<open>
  A verification library for prtp, a portable RTP/RTCP library (RFC 3550) in C: everything under
  \<^verbatim>\<open>src/src/\<close> that implements the protocol, the support code of its demonstration under \<^verbatim>\<open>src/libutils/\<close>
  (an event loop, buffered streams, and a command line that is served over telnet), and the demonstration
  itself under \<^verbatim>\<open>src/demo/\<close>, which puts the two together.

  \<^bold>\<open>The program.\<close> A session (\<^verbatim>\<open>rtp_session.h\<close>) owns a timer wheel, a table of 32 members, a table of 16
  conflicting addresses, the variables of the RTCP transmission interval and a packet buffer. Its
  user calls \<^verbatim>\<open>rtp_session.c\<close>: initialisation, transmission of a payload, reception of RTP and RTCP
  datagrams, a timer tick every 100 milliseconds, shutdown. Reception (\<^verbatim>\<open>rtp.c\<close>, \<^verbatim>\<open>rtcp.c\<close>) looks the
  sender up in the member table, adds it, detects collisions and loops with the conflict table,
  keeps sequence number and jitter estimates, and starts and stops the timers of the member
  (\<^verbatim>\<open>rtp_timers.c\<close>). The timer wheel (\<^verbatim>\<open>soft_timer.c\<close>) calls back into the session: members and senders
  time out, members that said BYE are removed, conflicts expire, and the interval timer sends an
  RTCP report with the encoder (\<^verbatim>\<open>rtcp_encoder.c\<close>).

  \<^bold>\<open>The theories\<close>, in the order of their imports:
  \<^item> \<open>Prelude\<close>: machine words, octet buffers with checked reads and writes, the fault monad
    (\<open>fault + 'a\<close>), and the rule set \<open>outcome\<close> for statements of the form "fails only so, and
    otherwise ends like this".
  \<^item> \<open>Soft_Timer\<close>: \<^verbatim>\<open>soft_timer.c\<close>. The wheel as lists of elements, the locale \<open>timer_host\<close> for its owner,
    and that a timer fires once and on time.
  \<^item> \<open>Rtp_Types\<close>: constants, records, flags and names of members (\<^verbatim>\<open>rtp_config.h\<close>, \<^verbatim>\<open>rfc3550.h\<close>,
    \<^verbatim>\<open>rtp_error.h\<close>, \<^verbatim>\<open>rtp_member.h\<close>).
  \<^item> \<open>Slot_Pool\<close>: the locale of a pool of slots that are free or used; \<open>Member_Table\<close>
    (\<^verbatim>\<open>rtp_member_table.c\<close>) and \<open>Source_Conflict\<close> (\<^verbatim>\<open>rtp_source_conflict.c\<close>) interpret it.
  \<^item> \<open>Ntp_Ts\<close>: \<^verbatim>\<open>ntp_ts.c\<close>, over the reals, with an exact integer form.
  \<^item> \<open>Session\<close>: the session record, the world around it, \<^verbatim>\<open>rtp_session_util.c\<close>, \<^verbatim>\<open>rtp_timers.c\<close>.
  \<^item> \<open>Rtp_Seq\<close>, \<open>Rtp_Header\<close>, \<open>Rtp\<close>: \<^verbatim>\<open>rtp.c\<close>.
  \<^item> \<open>Rtcp_Encoder\<close>: \<^verbatim>\<open>rtcp_encoder.c\<close> and the buffer-free specification that it refines.
  \<^item> \<open>Rtcp_Interval\<close>, \<open>Rtcp_Report\<close>, \<open>Rtcp\<close>: \<^verbatim>\<open>rtcp.c\<close>.
  \<^item> \<open>Session_Inv\<close>: the invariant of a session and the steps that handlers are made of; \<open>Rtp_Inv\<close>,
    \<open>Rtcp_Inv\<close>, \<open>Report_Inv\<close>, \<open>Rtp_Tx\<close>: what the handlers do, and that they keep it.
  \<^item> \<open>Session_Api\<close>: \<^verbatim>\<open>rtp_session.c\<close>; the session interprets \<open>timer_host\<close>. \<open>Session_Machine\<close>: the session
    as a state machine, from initialisation to shutdown. \<open>Session_Demo\<close>: a concrete session. \<open>Session_Live\<close>: what the
    passing of time alone does to a member that has left.
  \<^item> \<open>End_To_End\<close>: two sessions with a network between them that loses, repeats and reorders packets. A run of the two
    implementations refines a source of numbered packets of which the arriving ones are reported (\<open>source_run\<close>), and a new
    source is validated. \<open>Report_End\<close>: the RTCP report of one session as the other one stores it and passes it on.
  \<^item> \<open>Md5\<close>: \<^verbatim>\<open>md5.c\<close>, and the hash of RFC 1321 as its tables define it; \<open>Rtp_Random\<close>: \<^verbatim>\<open>rtp_random.c\<close>.

  \<^item> \<open>Generic_List\<close>: \<^verbatim>\<open>generic_list.h\<close> on a heap of next and previous pointers, and that the pointer
    operations are those of sequences. \<open>List_Loops\<close>: its loops over entries, forwards, backwards and safe against
    removal. \<open>Linked_Table\<close>: the member table with its lists linked on that heap refines
    the table on sequences, and so does the scan of the timer wheel that unlinks elements while it runs.
  \<^item> \<open>Io_Driver\<close>: \<^verbatim>\<open>io_driver.c\<close>; the locale \<open>io_client\<close> is the contract between the loop and the callbacks. It is
    interpreted for callbacks that register and unregister at will, for the telnet server, and for the whole program.
  \<^item> \<open>Circ_Buffer\<close>: \<^verbatim>\<open>circ_buffer.c\<close>, which meets the contract \<open>byte_queue\<close> of a bounded queue; \<open>Stream\<close>: \<^verbatim>\<open>stream.c\<close>;
    \<open>Net_Text\<close>: what the programs use of the C library to convert and print numbers and addresses;
    \<open>Tcp_Server\<close>: \<^verbatim>\<open>tcp_server.c\<close> and \<^verbatim>\<open>tcp_server_ipv4.c\<close>.
  \<^item> \<open>Telnet_Reader\<close>: \<^verbatim>\<open>telnet_reader.c\<close>. \<open>Cli\<close>: \<^verbatim>\<open>cli.c\<close>; the locale \<open>cli_host\<close> is what the command line needs of its
    output and of the commands. \<open>Cli_Telnet\<close>: \<^verbatim>\<open>cli_telnet.c\<close>, which composes all of them. The user's commands
    act on a state of his, with an invariant that they keep, and the event loop may serve watchers of his (\<open>others\<close>).
  \<^item> \<open>Rtp_Task\<close>: \<^verbatim>\<open>demo/rtp_task.c\<close>, the sockets, the timers and the sampler around a session; \<open>Rtp_Cli\<close>:
    \<^verbatim>\<open>demo/rtp_cli.c\<close>, the commands that show and change it; \<open>Demo_Main\<close>: \<^verbatim>\<open>demo/main.c\<close>, where the event loop
    serves the telnet server and the task: a further interpretation of \<open>io_client\<close>, and the reachable states of
    the program.

  \<^bold>\<open>Modelling.\<close> A C structure is a record with the fields of the source, an integer a word of its
  width. A pointer to a member is its slot. An intrusive list is the list of the elements linked
  into it; reinitialising an element that is linked is the fault \<open>ListCorrupt\<close>. Every fault of C that
  the code can meet is a value: reads and writes outside of a buffer, null pointers, signed overflow,
  conversions out of range, a division by zero, a loop that does not return. \<open>double\<close> is the type of
  real numbers. Random numbers, the clock, the user's timestamps and the contents of uninitialised
  stack buffers come from a record of streams (\<open>world\<close>); what is sent and reported is a trace of
  events. The machine is little endian with 64-bit pointers.

  \<^bold>\<open>The lemmas.\<close> For each component: that its operations keep its invariant, what they compute on
  every branch, and how they fail. For the session: \<open>calm\<close> steps do not change the membership,
  \<open>keeps\<close> is the invariant together with no new expired timers, and every handler is an \<open>outcome\<close>
  of it. Loops over members carry fuel of one more than the 32 slots of the table, which no list of
  distinct slots can use up; the loops over a datagram terminate by its length; the loop that draws
  a SSRC may not return, which is the fault \<open>NoReturn\<close>.

  For the support code: the results of system calls and of \<^verbatim>\<open>malloc\<close> are streams, and what is documented of
  them (no more octets than were asked for, addresses that are not in use) is a hypothesis. The loop over the
  watchers may not return (\<open>None\<close>); it is shown to, since a callback may only take watchers off the run list.
  Freed memory is the absence of the object, its use the fault \<open>UseAfterFree\<close>. The telnet reader returns the
  calls of its callbacks as events, since none of them changes the reader.

  For the demonstration: a datagram fits the buffer that it is received into, and \<^verbatim>\<open>read\<close> returns at most what it
  was asked for; the texts that \<^verbatim>\<open>printf\<close> makes of floating point numbers are a parameter of the commands (\<open>fmt\<close>). The
  loop that collects 160 octets from the audio file may not return (\<open>None\<close>, \<open>NoReturn\<close>), and it does not on an empty file. The
  loop over the blocks of a message (\<open>md5_blocks\<close>) carries as fuel one more than the number of blocks. MD5 is proved to be
  the hash of RFC 1321 for messages below \<open>2 ^ 61\<close> octets, the range of its counter of bits. The values that the random
  number generator hashes, and the octets of the stack behind the digest, are parameters; the session takes
  its random numbers as a stream.

  Two sessions: a transit time may differ from the one before by any amount but half the range of the clock, whose
  absolute value is not an \<open>int\<close>; the windows in which packets may be lost or reordered (3000 and 99) are those of
  \<^verbatim>\<open>rtp_update_seq\<close>.

  \<^bold>\<open>Not modelled.\<close> Logging; the settings of the kernel's timers and the counts read from them; the option names of \<^verbatim>\<open>telnet.h\<close>, the header of the Berkeley telnet, and the
  unit tests. \<open>Sock_Util\<close> holds the options of sockets (\<^verbatim>\<open>sock_util.c\<close>) and the macros of \<^verbatim>\<open>common_def.h\<close>; whether a socket
  blocks has no influence on the models of the servers, whose system calls return what their streams say.
\<close>

end
